(* ===== verification/Prelude.thy ===== *)
theory Prelude
  imports Main "HOL-Library.AList" "HOL-Library.Sublist" "HOL-Library.Word" "HOL-Library.Code_Target_Nat"
begin

text \<open>
  Shared vocabulary of the development: the types every component uses, the
  result monad of fallible Rust code, insertion-ordered dictionaries, and the
  generic list lemmas the component proofs rest on.

  \<^item> A Rust \<open>String\<close>, \<open>&str\<close> or \<open>Vec<u8>\<close> is a \<^typ>\<open>string\<close>, the list of
    its bytes: a HOL character is one byte, so lengths and offsets are the byte
    lengths and byte offsets Rust uses.
  \<^item> \<open>Result<T, E>\<close> is \<open>'e + 'a\<close> with the error on the left, and \<open>?\<close> is \<open>bindR\<close>.
  \<^item> An \<open>IndexMap<String, String>\<close> is an association list with distinct keys in
    insertion order. \<open>insert\<close> is the library's \<^const>\<open>AList.update\<close> (a present
    key keeps its place, a new one goes to the end), \<open>get\<close> is \<^const>\<open>map_of\<close>
    and \<open>shift_remove\<close> is \<^const>\<open>AList.delete\<close>.
\<close>

named_theorems result_simps \<open>unfolding of the result monad\<close>
named_theorems str_simps \<open>evaluation of the string library\<close>

type_synonym index_map = "(string \<times> string) list"
type_synonym u32 = "32 word"
type_synonym u64 = "64 word"

abbreviation NL :: char where "NL \<equiv> CHR 0x0A"
abbreviation CR :: char where "CR \<equiv> CHR 0x0D"
abbreviation SP :: char where "SP \<equiv> CHR 0x20"
abbreviation COLON :: char where "COLON \<equiv> CHR 0x3A"

section \<open>Results\<close>

definition bindR :: "'e + 'a \<Rightarrow> ('a \<Rightarrow> 'e + 'b) \<Rightarrow> 'e + 'b" where
  "bindR r f = (case r of Inl e \<Rightarrow> Inl e | Inr a \<Rightarrow> f a)"

definition mapR :: "('a \<Rightarrow> 'b) \<Rightarrow> 'e + 'a \<Rightarrow> 'e + 'b" where
  "mapR f r = (case r of Inl e \<Rightarrow> Inl e | Inr a \<Rightarrow> Inr (f a))"

definition map_errR :: "('e \<Rightarrow> 'f) \<Rightarrow> 'e + 'a \<Rightarrow> 'f + 'a" where
  "map_errR f r = (case r of Inl e \<Rightarrow> Inl (f e) | Inr a \<Rightarrow> Inr a)"

definition ok_or :: "'e \<Rightarrow> 'a option \<Rightarrow> 'e + 'a" where
  "ok_or e x = (case x of None \<Rightarrow> Inl e | Some a \<Rightarrow> Inr a)"

definition unwrap_or :: "'a \<Rightarrow> 'a option \<Rightarrow> 'a" where
  "unwrap_or d x = (case x of None \<Rightarrow> d | Some a \<Rightarrow> a)"

lemma bindR_simps [simp, result_simps]:
  "bindR (Inl e) f = Inl e" "bindR (Inr a) f = f a"
  by (simp_all add: bindR_def)

lemma mapR_simps [simp, result_simps]:
  "mapR g (Inl e) = Inl e" "mapR g (Inr a) = Inr (g a)"
  by (simp_all add: mapR_def)

lemma map_errR_simps [simp, result_simps]:
  "map_errR g (Inl e) = Inl (g e)" "map_errR g (Inr a) = Inr a"
  by (simp_all add: map_errR_def)

lemma ok_or_simps [simp, result_simps]:
  "ok_or e None = Inl e" "ok_or e (Some a) = Inr a"
  by (simp_all add: ok_or_def)

lemma unwrap_or_simps [simp, result_simps]:
  "unwrap_or d None = d" "unwrap_or d (Some a) = a"
  by (simp_all add: unwrap_or_def)

lemma bindR_eq_Inr: "bindR r f = Inr b \<longleftrightarrow> (\<exists>a. r = Inr a \<and> f a = Inr b)"
  by (cases r) auto

lemma bindR_eq_Inl: "bindR r f = Inl e \<longleftrightarrow> r = Inl e \<or> (\<exists>a. r = Inr a \<and> f a = Inl e)"
  by (cases r) auto

lemma mapR_eq_Inr: "mapR f r = Inr b \<longleftrightarrow> (\<exists>a. r = Inr a \<and> b = f a)"
  by (cases r) auto

lemma ok_or_eq_Inr [simp]: "ok_or e x = Inr a \<longleftrightarrow> x = Some a"
  by (cases x) auto

lemmas result_elims = bindR_eq_Inr bindR_eq_Inl mapR_eq_Inr

text \<open>A fold that stops at the first error: a Rust \<open>for\<close> loop whose body uses \<open>?\<close>.\<close>

fun foldR :: "('s \<Rightarrow> 'x \<Rightarrow> 'e + 's) \<Rightarrow> 's \<Rightarrow> 'x list \<Rightarrow> 'e + 's" where
  "foldR f s [] = Inr s"
| "foldR f s (x # xs) = bindR (f s x) (\<lambda>s'. foldR f s' xs)"

lemma foldR_append: "foldR f s (xs @ ys) = bindR (foldR f s xs) (\<lambda>s'. foldR f s' ys)"
  by (induction xs arbitrary: s) (auto simp: bindR_def split: sum.splits)

lemma foldR_invariant:
  assumes "foldR f s xs = Inr s'" and "P s"
    and "\<And>s x s'. P s \<Longrightarrow> x \<in> set xs \<Longrightarrow> f s x = Inr s' \<Longrightarrow> P s'"
  shows "P s'"
  using assms
proof (induction xs arbitrary: s)
  case (Cons x xs)
  from Cons.prems(1) obtain s1 where s1: "f s x = Inr s1" "foldR f s1 xs = Inr s'"
    by (auto simp: bindR_eq_Inr)
  have "P s1" by (rule Cons.prems(3) [OF Cons.prems(2) _ s1(1)]) simp
  from s1(2) this show ?case by (rule Cons.IH) (rule Cons.prems(3), simp_all)
qed simp

section \<open>Insertion-ordered dictionaries\<close>

lemma update_not_in [simp]: "k \<notin> fst ` set m \<Longrightarrow> AList.update k v m = m @ [(k, v)]"
  by (induction m) auto

lemma keys_update: "fst ` set (AList.update k v m) = insert k (fst ` set m)"
  by (induction m) auto

lemma map_fst_update_in:
  "k \<in> fst ` set m \<Longrightarrow> map fst (AList.update k v m) = map fst m"
  by (induction m) auto

lemma map_of_update: "map_of (AList.update k v m) j = (if j = k then Some v else map_of m j)"
  by (simp add: update_conv')

lemma map_of_delete: "map_of (AList.delete k m) j = (if j = k then None else map_of m j)"
  by (simp add: delete_conv')

lemma keys_delete: "fst ` set (AList.delete k m) = fst ` set m - {k}"
  by (induction m) auto

lemma distinct_keys_delete:
  "distinct (map fst m) \<Longrightarrow> distinct (map fst (AList.delete k m))"
  by (rule distinct_delete)

section \<open>Lists\<close>

lemma drop_eq_append_take: "drop (length xs) (xs @ ys) = ys"
  by simp

lemma list_all_take: "list_all P xs \<Longrightarrow> list_all P (take n xs)"
  by (auto simp: list_all_iff dest: in_set_takeD)

lemma list_all_drop: "list_all P xs \<Longrightarrow> list_all P (drop n xs)"
  by (auto simp: list_all_iff dest: in_set_dropD)

end
