(* ===== verification/Rust_Str.thy ===== *)
theory Rust_Str
  imports Prelude
begin

text \<open>
  The part of Rust's standard string library that the program uses, on byte
  strings: searching, prefix and suffix stripping, splitting, \<open>lines\<close>, ASCII
  case mapping, Unicode whitespace trimming, and decimal integers. Each
  function follows the documented behaviour of the method it is named after;
  the lemmas after it are the facts the components use.
\<close>

section \<open>Prefixes, suffixes and search\<close>

fun strip_prefix :: "string \<Rightarrow> string \<Rightarrow> string option" where
  "strip_prefix [] s = Some s"
| "strip_prefix (p # ps) [] = None"
| "strip_prefix (p # ps) (c # cs) = (if p = c then strip_prefix ps cs else None)"

definition strip_suffix :: "string \<Rightarrow> string \<Rightarrow> string option" where
  "strip_suffix p s = map_option rev (strip_prefix (rev p) (rev s))"

definition starts_with :: "string \<Rightarrow> string \<Rightarrow> bool" where
  "starts_with p s \<longleftrightarrow> strip_prefix p s \<noteq> None"

fun str_find :: "string \<Rightarrow> string \<Rightarrow> nat option" where
  "str_find p [] = (if p = [] then Some 0 else None)"
| "str_find p (c # cs) =
     (if starts_with p (c # cs) then Some 0 else map_option Suc (str_find p cs))"

fun char_find :: "char \<Rightarrow> string \<Rightarrow> nat option" where
  "char_find c [] = None"
| "char_find c (x # xs) = (if x = c then Some 0 else map_option Suc (char_find c xs))"

definition char_rfind :: "char \<Rightarrow> string \<Rightarrow> nat option" where
  "char_rfind c s = map_option (\<lambda>i. length s - Suc i) (char_find c (rev s))"

definition contains_char :: "char \<Rightarrow> string \<Rightarrow> bool" where
  "contains_char c s \<longleftrightarrow> c \<in> set s"

lemma strip_prefix_Some [simp]: "strip_prefix p s = Some r \<longleftrightarrow> s = p @ r"
  by (induction p s rule: strip_prefix.induct) auto

lemma strip_prefix_append [simp]: "strip_prefix p (p @ s) = Some s"
  by (simp only: strip_prefix_Some)

lemma strip_prefix_None: "strip_prefix p s = None \<longleftrightarrow> \<not> prefix p s"
  by (auto simp: prefix_def) (metis not_None_eq strip_prefix_Some)

lemma strip_suffix_Some [simp]: "strip_suffix p s = Some r \<longleftrightarrow> s = r @ p"
proof -
  have "strip_suffix p s = Some r \<longleftrightarrow> rev s = rev p @ rev r"
    by (auto simp: strip_suffix_def)
  also have "\<dots> \<longleftrightarrow> s = r @ p"
    by (metis rev_append rev_rev_ident)
  finally show ?thesis .
qed

lemma strip_suffix_append [simp]: "strip_suffix p (s @ p) = Some s"
  by (simp only: strip_suffix_Some)

lemma starts_with_prefix: "starts_with p s \<longleftrightarrow> prefix p s"
  by (simp add: starts_with_def strip_prefix_None)

lemma starts_with_append [simp]: "starts_with p (p @ s)"
  by (simp add: starts_with_prefix)

text \<open>
  \<open>first_at p s i\<close> says that the pattern occurs at offset \<open>i\<close> and at no smaller
  one; it is the contract of every substring search in the program.
\<close>

definition first_at :: "string \<Rightarrow> string \<Rightarrow> nat \<Rightarrow> bool" where
  "first_at p s i \<longleftrightarrow>
     i + length p \<le> length s \<and> prefix p (drop i s) \<and> (\<forall>j<i. \<not> prefix p (drop j s))"

definition occurs_in :: "string \<Rightarrow> string \<Rightarrow> bool" where
  "occurs_in p s \<longleftrightarrow> (\<exists>j\<le>length s. prefix p (drop j s))"

lemma first_at_unique: "first_at p s i \<Longrightarrow> first_at p s j \<Longrightarrow> i = j"
  by (metis first_at_def linorder_neqE_nat)

lemma first_at_occurs: "first_at p s i \<Longrightarrow> occurs_in p s"
  unfolding first_at_def occurs_in_def by (meson add_leD1)

lemma str_find_Some: "str_find p s = Some i \<Longrightarrow> first_at p s i"
proof (induction p s arbitrary: i rule: str_find.induct)
  case (1 p)
  then show ?case by (auto simp: first_at_def split: if_splits)
next
  case (2 p c cs)
  show ?case
  proof (cases "starts_with p (c # cs)")
    case True
    with "2.prems" show ?thesis
      by (auto simp: first_at_def starts_with_prefix prefix_length_le dest: prefix_length_le)
  next
    case False
    with "2.prems" obtain k where k: "str_find p cs = Some k" "i = Suc k" by auto
    with "2.IH"[OF False k(1)] have "first_at p cs k" by simp
    with False k(2) show ?thesis
      by (auto simp: first_at_def starts_with_prefix less_Suc_eq_0_disj)
  qed
qed

lemma str_find_None: "str_find p s = None \<Longrightarrow> j \<le> length s \<Longrightarrow> \<not> prefix p (drop j s)"
proof (induction p s arbitrary: j rule: str_find.induct)
  case (1 p)
  then show ?case by (auto split: if_splits)
next
  case (2 p c cs)
  then show ?case by (cases j) (auto simp: starts_with_prefix split: if_splits)
qed

lemma str_find_iff: "str_find p s = Some i \<longleftrightarrow> first_at p s i"
proof
  assume f: "first_at p s i"
  then obtain k where "str_find p s = Some k"
    by (metis add_leD1 first_at_def not_Some_eq str_find_None)
  with f show "str_find p s = Some i"
    using first_at_unique str_find_Some by metis
qed (rule str_find_Some)

lemma str_find_None_iff: "str_find p s = None \<longleftrightarrow> \<not> occurs_in p s"
proof
  assume "\<not> occurs_in p s"
  then show "str_find p s = None"
    by (metis first_at_occurs not_Some_eq str_find_Some)
qed (auto simp: occurs_in_def dest: str_find_None)

lemma char_find_Some:
  "char_find c s = Some i \<longleftrightarrow> i < length s \<and> s ! i = c \<and> c \<notin> set (take i s)"
proof (induction s arbitrary: i)
  case (Cons x xs)
  then show ?case by (cases i) auto
qed simp

lemma char_find_None [simp]: "char_find c s = None \<longleftrightarrow> c \<notin> set s"
  by (induction s) auto

lemma char_find_append: "c \<notin> set a \<Longrightarrow> char_find c (a @ c # b) = Some (length a)"
  by (induction a) auto

lemma char_rfind_None [simp]: "char_rfind c s = None \<longleftrightarrow> c \<notin> set s"
  by (simp add: char_rfind_def)

lemma char_rfind_append:
  assumes "c \<notin> set b"
  shows "char_rfind c (a @ c # b) = Some (length a)"
proof -
  have "char_find c (rev (a @ c # b)) = Some (length (rev b))"
    using char_find_append [of c "rev b" "rev a"] assms by simp
  then show ?thesis by (simp add: char_rfind_def)
qed

section \<open>Splitting\<close>

function split_str :: "string \<Rightarrow> string \<Rightarrow> string list" where
  "split_str sep s =
     (if sep = [] then [s]
      else case str_find sep s of
             None \<Rightarrow> [s]
           | Some i \<Rightarrow> take i s # split_str sep (drop (i + length sep) s))"
  by pat_completeness auto
termination
  by (relation "measure (\<lambda>(sep, s). length s)")
    (auto simp: str_find_iff first_at_def simp flip: length_greater_0_conv)

declare split_str.simps [simp del]

fun join :: "string \<Rightarrow> string list \<Rightarrow> string" where
  "join sep [] = []"
| "join sep [x] = x"
| "join sep (x # y # zs) = x @ sep @ join sep (y # zs)"

lemma join_Cons: "xs \<noteq> [] \<Longrightarrow> join sep (x # xs) = x @ sep @ join sep xs"
  by (cases xs) auto

lemma split_str_nonempty [simp]: "split_str sep s \<noteq> []"
  by (subst split_str.simps) (auto split: option.splits)

lemma join_split_str: "sep \<noteq> [] \<Longrightarrow> join sep (split_str sep s) = s"
proof (induction sep s rule: split_str.induct)
  case (1 sep s)
  show ?case
  proof (cases "str_find sep s")
    case None
    with 1 show ?thesis by (simp add: split_str.simps [of sep s])
  next
    case (Some i)
    then have "prefix sep (drop i s)" by (simp add: str_find_iff first_at_def)
    then obtain r where r: "drop i s = sep @ r" by (auto simp: prefix_def)
    then have dr: "drop (i + length sep) s = r"
      by (metis add.commute append_eq_conv_conj drop_drop)
    have "join sep (split_str sep s) = take i s @ sep @ join sep (split_str sep (drop (i + length sep) s))"
      using Some 1 by (simp add: split_str.simps [of sep s] join_Cons)
    also have "\<dots> = take i s @ sep @ r" using 1 Some dr by simp
    also have "\<dots> = s" using r by (metis append_take_drop_id)
    finally show ?thesis .
  qed
qed

lemma split_str_single: "\<not> occurs_in sep s \<Longrightarrow> split_str sep s = [s]"
  by (subst split_str.simps) (auto simp: str_find_None_iff [symmetric])

lemma split_str_step:
  "sep \<noteq> [] \<Longrightarrow> first_at sep (x @ sep @ r) (length x) \<Longrightarrow>
   split_str sep (x @ sep @ r) = x # split_str sep r"
  by (subst split_str.simps) (simp add: str_find_iff [symmetric])

text \<open>\<open>str::lines\<close>: lines end at \<open>\n\<close> and drop one \<open>\r\<close> before it; an unterminated last line keeps its \<open>\r\<close>.\<close>

definition strip_cr :: "string \<Rightarrow> string" where
  "strip_cr s = unwrap_or s (strip_suffix [CR] s)"

function lines :: "string \<Rightarrow> string list" where
  "lines s =
     (if s = [] then []
      else case dropWhile (\<lambda>c. c \<noteq> NL) s of
             [] \<Rightarrow> [s]
           | _ # rest \<Rightarrow> strip_cr (takeWhile (\<lambda>c. c \<noteq> NL) s) # lines rest)"
  by pat_completeness auto
termination
proof (relation "measure length")
  fix s rest :: string and x
  assume "dropWhile (\<lambda>c. c \<noteq> NL) s = x # rest"
  then show "(rest, s) \<in> measure length"
    using length_dropWhile_le [of "\<lambda>c. c \<noteq> NL" s] by simp
qed simp

declare lines.simps [simp del]

lemma lines_Nil [simp]: "lines [] = []"
  by (subst lines.simps) simp

lemma lines_append_NL:
  assumes "NL \<notin> set a"
  shows "lines (a @ NL # b) = strip_cr a # lines b"
proof -
  have "dropWhile (\<lambda>c. c \<noteq> NL) (a @ NL # b) = NL # b"
    "takeWhile (\<lambda>c. c \<noteq> NL) (a @ NL # b) = a"
    using assms by (auto simp: dropWhile_append takeWhile_append dropWhile_eq_Nil_conv)
  then show ?thesis by (subst lines.simps) simp
qed

lemma lines_last:
  assumes "NL \<notin> set a" and "a \<noteq> []"
  shows "lines a = [a]"
proof -
  have "dropWhile (\<lambda>c. c \<noteq> NL) a = []" using assms by (auto simp: dropWhile_eq_Nil_conv)
  then show ?thesis using assms(2) by (simp only: lines.simps [of a] list.case if_False)
qed

section \<open>ASCII case\<close>

definition to_ascii_lower :: "char \<Rightarrow> char" where
  "to_ascii_lower c =
     (let n = (of_char c :: nat) in if 65 \<le> n \<and> n \<le> 90 then char_of (n + 32) else c)"

definition to_ascii_upper :: "char \<Rightarrow> char" where
  "to_ascii_upper c =
     (let n = (of_char c :: nat) in if 97 \<le> n \<and> n \<le> 122 then char_of (n - 32) else c)"

definition to_ascii_lowercase :: "string \<Rightarrow> string" where
  "to_ascii_lowercase = map to_ascii_lower"

definition eq_ignore_ascii_case :: "string \<Rightarrow> string \<Rightarrow> bool" where
  "eq_ignore_ascii_case a b \<longleftrightarrow> to_ascii_lowercase a = to_ascii_lowercase b"

lemma of_char_lower:
  "of_char (to_ascii_lower c) =
     (let n = (of_char c :: nat) in if 65 \<le> n \<and> n \<le> 90 then n + 32 else n)"
  by (auto simp: to_ascii_lower_def Let_def)

lemma of_char_upper:
  "of_char (to_ascii_upper c) =
     (let n = (of_char c :: nat) in if 97 \<le> n \<and> n \<le> 122 then n - 32 else n)"
  by (auto simp: to_ascii_upper_def Let_def)

lemma char_eqI: "(of_char c :: nat) = of_char d \<Longrightarrow> c = d"
  by simp

text \<open>Code equations that decide on the bits of a character and stop at the first difference.\<close>

lemma to_ascii_lower_code [code]:
  "to_ascii_lower (Char b0 b1 b2 b3 b4 b5 b6 b7) =
     Char b0 b1 b2 b3 b4
       (b5 \<or> \<not> b7 \<and> b6 \<and> (b0 \<or> b1 \<or> b2 \<or> b3 \<or> b4) \<and> \<not> (b4 \<and> b3 \<and> (b2 \<or> b1 \<and> b0))) b6 b7"
  by (rule char_eqI) (cases b0; cases b1; cases b2; cases b3; cases b4; cases b5; cases b6; cases b7;
      simp add: of_char_lower Let_def)

lemma eq_ignore_ascii_case_code [code]:
  "eq_ignore_ascii_case [] [] \<longleftrightarrow> True"
  "eq_ignore_ascii_case (c # a) [] \<longleftrightarrow> False"
  "eq_ignore_ascii_case [] (d # b) \<longleftrightarrow> False"
  "eq_ignore_ascii_case (c # a) (d # b) \<longleftrightarrow>
     (if to_ascii_lower c = to_ascii_lower d then eq_ignore_ascii_case a b else False)"
  by (simp_all add: eq_ignore_ascii_case_def to_ascii_lowercase_def)

lemma to_ascii_lower_idem [simp]: "to_ascii_lower (to_ascii_lower c) = to_ascii_lower c"
  by (rule char_eqI) (auto simp: of_char_lower Let_def)

lemma lower_upper [simp]: "to_ascii_lower (to_ascii_upper c) = to_ascii_lower c"
  by (rule char_eqI) (auto simp: of_char_lower of_char_upper Let_def)

lemma upper_lower [simp]: "to_ascii_upper (to_ascii_lower c) = to_ascii_upper c"
  by (rule char_eqI) (auto simp: of_char_lower of_char_upper Let_def)

lemma upper_idem [simp]: "to_ascii_upper (to_ascii_upper c) = to_ascii_upper c"
  by (rule char_eqI) (auto simp: of_char_upper Let_def)

lemma to_ascii_lowercase_idem [simp]:
  "to_ascii_lowercase (to_ascii_lowercase s) = to_ascii_lowercase s"
  by (simp add: to_ascii_lowercase_def)

text \<open>Case mapping neither makes nor removes a non-letter.\<close>

definition is_letter :: "char \<Rightarrow> bool" where
  "is_letter c \<longleftrightarrow>
     (let n = (of_char c :: nat) in (65 \<le> n \<and> n \<le> 90) \<or> (97 \<le> n \<and> n \<le> 122))"

lemma lower_eq_nonletter:
  assumes "\<not> is_letter d"
  shows "to_ascii_lower c = d \<longleftrightarrow> c = d"
proof
  assume "to_ascii_lower c = d"
  then have "of_char d = (of_char (to_ascii_lower c) :: nat)" by simp
  with assms have "(of_char c :: nat) = of_char d"
    by (auto simp: of_char_lower is_letter_def Let_def split: if_splits)
  then show "c = d" by (rule char_eqI)
next
  assume "c = d"
  with assms show "to_ascii_lower c = d"
    by (auto simp: to_ascii_lower_def is_letter_def Let_def)
qed

lemma upper_eq_nonletter:
  assumes "\<not> is_letter d"
  shows "to_ascii_upper c = d \<longleftrightarrow> c = d"
proof
  assume "to_ascii_upper c = d"
  then have "of_char d = (of_char (to_ascii_upper c) :: nat)" by simp
  with assms have "(of_char c :: nat) = of_char d"
    by (auto simp: of_char_upper is_letter_def Let_def split: if_splits)
  then show "c = d" by (rule char_eqI)
next
  assume "c = d"
  with assms show "to_ascii_upper c = d"
    by (auto simp: to_ascii_upper_def is_letter_def Let_def)
qed

section \<open>Unicode whitespace\<close>

text \<open>The UTF-8 encodings of the characters with the Unicode property \<open>White_Space\<close>.\<close>

definition white_space :: "string list" where
  "white_space =
     [[CHR 0x09], [CHR 0x0A], [CHR 0x0B], [CHR 0x0C], [CHR 0x0D], [CHR 0x20],
      [CHR 0xC2, CHR 0x85], [CHR 0xC2, CHR 0xA0], [CHR 0xE1, CHR 0x9A, CHR 0x80]] @
     map (\<lambda>n. [CHR 0xE2, CHR 0x80, char_of n]) ([128..<139] @ [168, 169, 175 :: nat]) @
     [[CHR 0xE2, CHR 0x81, CHR 0x9F], [CHR 0xE3, CHR 0x80, CHR 0x80]]"

definition strip_one_ws :: "string \<Rightarrow> string option" where
  "strip_one_ws s = map_option (\<lambda>w. drop (length w) s) (find (\<lambda>w. starts_with w s) white_space)"

definition strip_last_ws :: "string \<Rightarrow> string option" where
  "strip_last_ws s =
     map_option (\<lambda>w. take (length s - length w) s)
       (find (\<lambda>w. starts_with (rev w) (rev s)) white_space)"

lemma white_space_nonempty: "w \<in> set white_space \<Longrightarrow> w \<noteq> []"
  by (auto simp: white_space_def)

lemma strip_one_ws_shorter: "strip_one_ws s = Some r \<Longrightarrow> length r < length s"
  by (auto simp: strip_one_ws_def find_Some_iff starts_with_prefix prefix_def
      dest!: white_space_nonempty [OF nth_mem])

lemma strip_last_ws_shorter: "strip_last_ws s = Some r \<Longrightarrow> length r < length s"
  by (auto simp: strip_last_ws_def find_Some_iff starts_with_prefix prefix_def
      dest!: white_space_nonempty [OF nth_mem] arg_cong [of "rev s" _ length])

function trim_start :: "string \<Rightarrow> string" where
  "trim_start s = (case strip_one_ws s of None \<Rightarrow> s | Some r \<Rightarrow> trim_start r)"
  by pat_completeness auto
termination by (relation "measure length") (auto dest: strip_one_ws_shorter)

function trim_end :: "string \<Rightarrow> string" where
  "trim_end s = (case strip_last_ws s of None \<Rightarrow> s | Some r \<Rightarrow> trim_end r)"
  by pat_completeness auto
termination by (relation "measure length") (auto dest: strip_last_ws_shorter)

declare trim_start.simps [simp del] trim_end.simps [simp del]

definition trim :: "string \<Rightarrow> string" where
  "trim s = trim_end (trim_start s)"

section \<open>Decimal integers\<close>

definition digit :: "nat \<Rightarrow> char" where
  "digit n = char_of (48 + n)"

definition is_digit :: "char \<Rightarrow> bool" where
  "is_digit c \<longleftrightarrow> 48 \<le> (of_char c :: nat) \<and> (of_char c :: nat) \<le> 57"

fun dec :: "nat \<Rightarrow> string" where
  "dec n = (if n < 10 then [digit n] else dec (n div 10) @ [digit (n mod 10)])"

declare dec.simps [simp del]

definition digits_val :: "string \<Rightarrow> nat" where
  "digits_val s = foldl (\<lambda>a c. 10 * a + (of_char c - 48)) 0 s"

text \<open>\<open>str::parse::<usize>()\<close> on a 64-bit target: an optional \<open>+\<close>, at least one digit, no overflow.\<close>

definition parse_usize :: "string \<Rightarrow> nat option" where
  "parse_usize s =
     (let ds = unwrap_or s (strip_prefix [CHR 0x2B] s)
      in if ds \<noteq> [] \<and> list_all is_digit ds \<and> digits_val ds < 2 ^ 64
         then Some (digits_val ds) else None)"

lemma digit_is_digit: "n < 10 \<Longrightarrow> is_digit (digit n)"
  by (simp add: is_digit_def digit_def)

lemma of_char_digit: "n < 10 \<Longrightarrow> of_char (digit n) = 48 + n"
  by (simp add: digit_def)

lemma dec_digits: "list_all is_digit (dec n)"
proof (induction n rule: dec.induct)
  case (1 n)
  then show ?case by (cases "n < 10") (auto simp: dec.simps [of n] digit_is_digit)
qed

lemma dec_nonempty [simp]: "dec n \<noteq> []"
  by (subst dec.simps) simp

lemma digits_val_dec: "digits_val (dec n) = n"
proof (induction n rule: dec.induct)
  case (1 n)
  then show ?case
    by (cases "n < 10") (auto simp: dec.simps [of n] digits_val_def of_char_digit)
qed

lemma parse_usize_dec: "n < 2 ^ 64 \<Longrightarrow> parse_usize (dec n) = Some n"
proof -
  assume n: "n < 2 ^ 64"
  have "strip_prefix [CHR 0x2B] (dec n) = None"
  proof (cases "strip_prefix [CHR 0x2B] (dec n)")
    case (Some r)
    then have "is_digit (CHR 0x2B)" using dec_digits [of n] by simp
    then show ?thesis by (simp add: is_digit_def)
  qed simp
  with n show ?thesis by (simp add: parse_usize_def Let_def dec_digits digits_val_dec)
qed

lemma parse_usize_bound: "parse_usize s = Some n \<Longrightarrow> n < 2 ^ 64"
  by (auto simp: parse_usize_def Let_def split: if_splits)

lemma dec_no_NL: "NL \<notin> set (dec n)" and dec_no_CR: "CR \<notin> set (dec n)"
  using dec_digits [of n] by (auto simp: list_all_iff is_digit_def)

end
