(* ===== verification/Utf8.thy ===== *)
theory Utf8
  imports Rust_Str
begin

text \<open>
  UTF-8 as the standard library decodes it: \<open>String::from_utf8\<close> with its
  \<open>Utf8Error\<close>, and \<open>String::from_utf8_lossy\<close>, which replaces every maximal
  invalid prefix of a sequence by U+FFFD. \<open>utf8_next\<close> is one step of both: it
  says whether a well-formed sequence starts the input and how many bytes the
  step takes. Bytes after the end of the input count as 0, which is no
  continuation byte, as in the library's own loop.

  The lemmas show that decoding splits at any ASCII byte, that a valid string
  is its own lossy decoding, and that lossy decoding always gives valid UTF-8.
\<close>

section \<open>One decoding step\<close>

definition byte_at :: "string \<Rightarrow> nat \<Rightarrow> nat" where
  "byte_at s i = (if i < length s then of_char (s ! i) else 0)"

definition is_cont :: "nat \<Rightarrow> bool" where
  "is_cont b \<longleftrightarrow> 128 \<le> b \<and> b < 192"

definition char_width :: "nat \<Rightarrow> nat" where
  "char_width b =
     (if b < 128 then 1
      else if 194 \<le> b \<and> b \<le> 223 then 2
      else if 224 \<le> b \<and> b \<le> 239 then 3
      else if 240 \<le> b \<and> b \<le> 244 then 4
      else 0)"

definition second_ok :: "nat \<Rightarrow> nat \<Rightarrow> bool" where
  "second_ok b c \<longleftrightarrow>
     is_cont c \<and> (b = 224 \<longrightarrow> 160 \<le> c) \<and> (b = 237 \<longrightarrow> c < 160) \<and>
     (b = 240 \<longrightarrow> 144 \<le> c) \<and> (b = 244 \<longrightarrow> c < 144)"

definition utf8_next :: "string \<Rightarrow> bool \<times> nat" where
  "utf8_next s =
     (let b = byte_at s 0; w = char_width b in
      if w = 1 then (True, 1)
      else if w = 0 \<or> \<not> second_ok b (byte_at s 1) then (False, 1)
      else if w = 2 then (True, 2)
      else if \<not> is_cont (byte_at s 2) then (False, 2)
      else if w = 3 then (True, 3)
      else if \<not> is_cont (byte_at s 3) then (False, 3)
      else (True, 4))"

lemma utf8_next_pos: "0 < snd (utf8_next s)"
  by (simp add: utf8_next_def Let_def)

lemma utf8_next_le: "s \<noteq> [] \<Longrightarrow> snd (utf8_next s) \<le> length s"
  by (auto simp: utf8_next_def Let_def byte_at_def second_ok_def is_cont_def
      simp flip: length_greater_0_conv split: if_splits)

lemma drop_utf8_next_shorter [simp]:
  "length s - snd (utf8_next s) < length s \<longleftrightarrow> s \<noteq> []"
  using utf8_next_pos [of s] by (cases s) (auto simp: less_Suc_eq_le)

section \<open>Validation and lossy decoding\<close>

function utf8_valid :: "string \<Rightarrow> bool" where
  "utf8_valid s =
     (if s = [] then True
      else fst (utf8_next s) \<and> utf8_valid (drop (snd (utf8_next s)) s))"
  by pat_completeness auto
termination by (relation "measure length") auto

definition REPLACEMENT :: string where
  "REPLACEMENT = [CHR 0xEF, CHR 0xBF, CHR 0xBD]"

function utf8_lossy :: "string \<Rightarrow> string" where
  "utf8_lossy s =
     (if s = [] then []
      else let (ok, n) = utf8_next s in
           (if ok then take n s else REPLACEMENT) @ utf8_lossy (drop n s))"
  by pat_completeness auto
termination
proof (relation "measure length")
  fix s :: string and x ok n
  assume "s \<noteq> []" and "x = utf8_next s" and "(ok, n) = x"
  then have "n = snd (utf8_next s)" by (metis snd_conv)
  with \<open>s \<noteq> []\<close> show "(drop n s, s) \<in> measure length" by simp
qed simp

declare utf8_valid.simps [simp del] utf8_lossy.simps [simp del]

lemma utf8_valid_Nil [simp]: "utf8_valid []"
  by (subst utf8_valid.simps) simp

lemma utf8_lossy_Nil [simp]: "utf8_lossy [] = []"
  by (subst utf8_lossy.simps) simp

lemma utf8_lossy_step:
  "s \<noteq> [] \<Longrightarrow> utf8_lossy s =
     (if fst (utf8_next s) then take (snd (utf8_next s)) s else REPLACEMENT) @
     utf8_lossy (drop (snd (utf8_next s)) s)"
  by (subst utf8_lossy.simps) (simp add: case_prod_beta)

lemma utf8_valid_step:
  "s \<noteq> [] \<Longrightarrow> utf8_valid s \<longleftrightarrow>
     fst (utf8_next s) \<and> utf8_valid (drop (snd (utf8_next s)) s)"
  by (subst utf8_valid.simps) simp

text \<open>The error \<open>String::from_utf8\<close> reports: the valid prefix and the length of the bad sequence.\<close>

datatype utf8_error = Utf8Error (valid_up_to: nat) (error_len: "nat option")

function utf8_error_at :: "nat \<Rightarrow> string \<Rightarrow> utf8_error option" where
  "utf8_error_at k s =
     (if s = [] then None
      else if fst (utf8_next s) then utf8_error_at (k + snd (utf8_next s)) (drop (snd (utf8_next s)) s)
      else Some (Utf8Error k
             (if char_width (byte_at s 0) \<noteq> 0 \<and> length s \<le> snd (utf8_next s) then None
              else Some (snd (utf8_next s)))))"
  by pat_completeness auto
termination by (relation "measure (\<lambda>(k, s). length s)") auto

declare utf8_error_at.simps [simp del]

definition from_utf8 :: "string \<Rightarrow> utf8_error + string" where
  "from_utf8 s = (case utf8_error_at 0 s of Some e \<Rightarrow> Inl e | None \<Rightarrow> Inr s)"

text \<open>\<open>impl Display for Utf8Error\<close>\<close>

fun utf8_error_display :: "utf8_error \<Rightarrow> string" where
  "utf8_error_display (Utf8Error k (Some n)) =
     ''invalid utf-8 sequence of '' @ dec n @ '' bytes from index '' @ dec k"
| "utf8_error_display (Utf8Error k None) = ''incomplete utf-8 byte sequence from index '' @ dec k"

lemma utf8_error_at_None: "utf8_error_at k s = None \<longleftrightarrow> utf8_valid s"
proof (induction k s rule: utf8_error_at.induct)
  case (1 k s)
  then show ?case
    by (subst utf8_error_at.simps) (auto simp: utf8_valid_step)
qed

lemma from_utf8_Inr [simp]: "from_utf8 s = Inr t \<longleftrightarrow> utf8_valid s \<and> t = s"
  using utf8_error_at_None [of 0 s] by (auto simp: from_utf8_def split: option.splits)

lemma from_utf8_valid: "utf8_valid s \<Longrightarrow> from_utf8 s = Inr s"
  by simp

lemma from_utf8_invalid: "\<not> utf8_valid s \<Longrightarrow> \<exists>e. from_utf8 s = Inl e"
  using utf8_error_at_None [of 0 s] by (auto simp: from_utf8_def split: option.splits)

lemma utf8_lossy_valid: "utf8_valid s \<Longrightarrow> utf8_lossy s = s"
proof (induction s rule: utf8_valid.induct)
  case (1 s)
  then show ?case
    by (cases "s = []") (auto simp: utf8_lossy_step utf8_valid_step)
qed

section \<open>ASCII bytes delimit sequences\<close>

definition is_ascii :: "char \<Rightarrow> bool" where
  "is_ascii c \<longleftrightarrow> (of_char c :: nat) < 128"

lemma utf8_next_append_ascii:
  assumes "a \<noteq> []" and "is_ascii c"
  shows "utf8_next (a @ c # b) = utf8_next a"
proof -
  have nc: "\<not> is_cont (of_char c)" "\<not> second_ok x (of_char c)" "\<not> is_cont 0" "\<not> second_ok x 0" for x
    using assms(2) by (auto simp: is_ascii_def is_cont_def second_ok_def)
  have in_a: "byte_at (a @ c # b) i = byte_at a i" if "i < length a" for i
    using that by (simp add: byte_at_def nth_append)
  have at_c: "byte_at (a @ c # b) (length a) = of_char c" "byte_at a (length a) = 0"
    by (simp_all add: byte_at_def nth_append)
  have pos: "0 < length a" using assms(1) by simp
  consider "length a = 1" | "length a = 2" | "length a = 3" | "4 \<le> length a"
    using pos by linarith
  then show ?thesis
  proof cases
    case 1
    with in_a [of 0] at_c nc show ?thesis by (simp add: utf8_next_def Let_def)
  next
    case 2
    with in_a [of 0] in_a [of 1] at_c nc show ?thesis by (simp add: utf8_next_def Let_def)
  next
    case 3
    with in_a [of 0] in_a [of 1] in_a [of 2] at_c nc show ?thesis by (simp add: utf8_next_def Let_def)
  next
    case 4
    with pos in_a [of 0] in_a [of 1] in_a [of 2] in_a [of 3] show ?thesis
      by (simp add: utf8_next_def Let_def)
  qed
qed

lemma utf8_next_ascii: "is_ascii c \<Longrightarrow> utf8_next (c # b) = (True, 1)"
  by (simp add: utf8_next_def byte_at_def char_width_def is_ascii_def)

lemma utf8_lossy_ascii_Cons: "is_ascii c \<Longrightarrow> utf8_lossy (c # b) = c # utf8_lossy b"
  by (simp add: utf8_lossy_step utf8_next_ascii)

lemma utf8_valid_ascii_Cons: "is_ascii c \<Longrightarrow> utf8_valid (c # b) \<longleftrightarrow> utf8_valid b"
  by (simp add: utf8_valid_step utf8_next_ascii)

lemma utf8_lossy_append_ascii:
  assumes "is_ascii c"
  shows "utf8_lossy (a @ c # b) = utf8_lossy a @ c # utf8_lossy b"
proof (induction a rule: length_induct)
  case (1 a)
  show ?case
  proof (cases "a = []")
    case True
    with assms show ?thesis by (simp add: utf8_lossy_ascii_Cons)
  next
    case False
    have eq: "utf8_next (a @ c # b) = utf8_next a"
      by (rule utf8_next_append_ascii [OF False assms])
    have le: "snd (utf8_next a) \<le> length a" by (rule utf8_next_le [OF False])
    have "utf8_lossy (drop (snd (utf8_next a)) a @ c # b) =
      utf8_lossy (drop (snd (utf8_next a)) a) @ c # utf8_lossy b"
      using "1.IH" False by simp
    with le False show ?thesis
      by (simp add: utf8_lossy_step [of "a @ c # b"] utf8_lossy_step [of a] eq)
  qed
qed

lemma utf8_valid_append_ascii:
  assumes "is_ascii c"
  shows "utf8_valid (a @ c # b) \<longleftrightarrow> utf8_valid a \<and> utf8_valid b"
proof (induction a rule: utf8_valid.induct)
  case (1 a)
  show ?case
  proof (cases "a = []")
    case True
    with assms show ?thesis by (simp add: utf8_valid_ascii_Cons)
  next
    case False
    have eq: "utf8_next (a @ c # b) = utf8_next a"
      by (rule utf8_next_append_ascii [OF False assms])
    have "snd (utf8_next a) \<le> length a" by (rule utf8_next_le [OF False])
    with 1 False show ?thesis
      by (auto simp: utf8_valid_step [of "a @ c # b"] utf8_valid_step [of a] eq)
  qed
qed

lemma utf8_valid_ascii: "list_all is_ascii s \<Longrightarrow> utf8_valid s"
  by (induction s) (auto simp: utf8_valid_ascii_Cons)

section \<open>Lossy decoding gives valid UTF-8\<close>

lemma utf8_next_valid_prefix:
  assumes "s \<noteq> []" and "utf8_next s = (True, n)"
  shows "utf8_next (take n s @ t) = (True, n)"
proof -
  have le: "n \<le> length s" using utf8_next_le [OF assms(1)] assms(2) by simp
  have same: "byte_at (take n s @ t) i = byte_at s i" if "i < n" for i
    using that le by (simp add: byte_at_def nth_append)
  have pos: "0 < n" using utf8_next_pos [of s] assms(2) by simp
  have four: "n \<le> 4" using assms(2) by (auto simp: utf8_next_def Let_def split: if_splits)
  consider "n = 1" | "n = 2" | "n = 3" | "n = 4" using pos four by linarith
  then show ?thesis
  proof cases
    case 1
    with assms(2) same [of 0] show ?thesis by (auto simp: utf8_next_def Let_def split: if_splits)
  next
    case 2
    with assms(2) same [of 0] same [of 1] show ?thesis
      by (auto simp: utf8_next_def Let_def split: if_splits)
  next
    case 3
    with assms(2) same [of 0] same [of 1] same [of 2] show ?thesis
      by (auto simp: utf8_next_def Let_def split: if_splits)
  next
    case 4
    with assms(2) same [of 0] same [of 1] same [of 2] same [of 3] show ?thesis
      by (auto simp: utf8_next_def Let_def split: if_splits)
  qed
qed

lemma utf8_next_REPLACEMENT: "utf8_next (REPLACEMENT @ t) = (True, 3)"
  by (simp add: utf8_next_def REPLACEMENT_def byte_at_def char_width_def second_ok_def
      is_cont_def numeral_2_eq_2)

lemma utf8_lossy_is_valid: "utf8_valid (utf8_lossy s)"
proof (induction s rule: length_induct)
  case (1 s)
  show ?case
  proof (cases "s = []")
    case False
    obtain ok n where nx: "utf8_next s = (ok, n)" by fastforce
    have le: "n \<le> length s" using utf8_next_le [OF False] nx by simp
    have pos: "0 < n" using utf8_next_pos [of s] nx by simp
    have IH: "utf8_valid (utf8_lossy (drop n s))" using 1 False pos by simp
    show ?thesis
    proof (cases ok)
      case True
      then have "utf8_next (take n s @ utf8_lossy (drop n s)) = (True, n)"
        using utf8_next_valid_prefix [OF False] nx by simp
      with IH True nx le False pos show ?thesis
        by (simp add: utf8_lossy_step [of s] utf8_valid_step [of "take n s @ _"])
    next
      case bad: False
      have "REPLACEMENT @ utf8_lossy (drop n s) \<noteq> []" by (simp add: REPLACEMENT_def)
      with IH bad nx False show ?thesis
        by (simp add: utf8_lossy_step [of s] utf8_valid_step utf8_next_REPLACEMENT)
          (simp add: REPLACEMENT_def)
    qed
  qed simp
qed

end
