(* ===== verification/Event_Header.thy ===== *)
theory Event_Header
  imports Rust_Str
begin

text \<open>
  The typed header names of \<open>freeswitch-types/src/headers.rs\<close>. The enumeration is
  a table there (each row a variant and its wire name), and it is a table here:
  a value of type \<open>event_header\<close> is a variant, identified by its wire name, and
  \<open>event_headers\<close> lists the rows in source order.
\<close>

datatype event_header = EventHeader (eh_as_str: string)

definition event_headers :: "(string \<times> string) list" where
  "event_headers =
     [(''EventName'', ''Event-Name''),
      (''EventSubclass'', ''Event-Subclass''),
      (''UniqueId'', ''Unique-ID''),
      (''CallerUniqueId'', ''Caller-Unique-ID''),
      (''OtherLegUniqueId'', ''Other-Leg-Unique-ID''),
      (''ChannelCallUuid'', ''Channel-Call-UUID''),
      (''JobUuid'', ''Job-UUID''),
      (''ChannelName'', ''Channel-Name''),
      (''ChannelState'', ''Channel-State''),
      (''ChannelStateNumber'', ''Channel-State-Number''),
      (''ChannelCallState'', ''Channel-Call-State''),
      (''AnswerState'', ''Answer-State''),
      (''CallDirection'', ''Call-Direction''),
      (''HangupCause'', ''Hangup-Cause''),
      (''CallerCallerIdName'', ''Caller-Caller-ID-Name''),
      (''CallerCallerIdNumber'', ''Caller-Caller-ID-Number''),
      (''CallerOrigCallerIdName'', ''Caller-Orig-Caller-ID-Name''),
      (''CallerOrigCallerIdNumber'', ''Caller-Orig-Caller-ID-Number''),
      (''CallerCalleeIdName'', ''Caller-Callee-ID-Name''),
      (''CallerCalleeIdNumber'', ''Caller-Callee-ID-Number''),
      (''CallerDestinationNumber'', ''Caller-Destination-Number''),
      (''CallerContext'', ''Caller-Context''),
      (''CallerDirection'', ''Caller-Direction''),
      (''CallerNetworkAddr'', ''Caller-Network-Addr''),
      (''CoreUuid'', ''Core-UUID''),
      (''DtmfDigit'', ''DTMF-Digit''),
      (''Priority'', ''priority''),
      (''LogLevel'', ''Log-Level''),
      (''PlData'', ''pl_data''),
      (''SipEvent'', ''event''),
      (''SipContentType'', ''sip_content_type''),
      (''GatewayName'', ''gateway_name''),
      (''ChannelReadCodecName'', ''Channel-Read-Codec-Name''),
      (''ChannelReadCodecRate'', ''Channel-Read-Codec-Rate''),
      (''ChannelReadCodecBitRate'', ''Channel-Read-Codec-Bit-Rate''),
      (''ChannelReportedReadCodecRate'', ''Channel-Reported-Read-Codec-Rate''),
      (''ChannelWriteCodecName'', ''Channel-Write-Codec-Name''),
      (''ChannelWriteCodecRate'', ''Channel-Write-Codec-Rate''),
      (''ChannelWriteCodecBitRate'', ''Channel-Write-Codec-Bit-Rate''),
      (''ChannelReportedWriteCodecRate'', ''Channel-Reported-Write-Codec-Rate''),
      (''ChannelVideoReadCodecName'', ''Channel-Video-Read-Codec-Name''),
      (''ChannelVideoReadCodecRate'', ''Channel-Video-Read-Codec-Rate''),
      (''ChannelVideoWriteCodecName'', ''Channel-Video-Write-Codec-Name''),
      (''ChannelVideoWriteCodecRate'', ''Channel-Video-Write-Codec-Rate''),
      (''SessionCount'', ''Session-Count''),
      (''FreeswitchHostname'', ''FreeSWITCH-Hostname''),
      (''FreeswitchSwitchname'', ''FreeSWITCH-Switchname''),
      (''FreeswitchIpv4'', ''FreeSWITCH-IPv4''),
      (''FreeswitchIpv6'', ''FreeSWITCH-IPv6''),
      (''FreeswitchVersion'', ''FreeSWITCH-Version''),
      (''FreeswitchDomain'', ''FreeSWITCH-Domain''),
      (''FreeswitchUser'', ''FreeSWITCH-User''),
      (''Application'', ''Application''),
      (''ApplicationData'', ''Application-Data''),
      (''ApplicationResponse'', ''Application-Response''),
      (''ApplicationUuid'', ''Application-UUID''),
      (''EventDateLocal'', ''Event-Date-Local''),
      (''EventDateGmt'', ''Event-Date-GMT''),
      (''EventDateTimestamp'', ''Event-Date-Timestamp''),
      (''EventCallingFile'', ''Event-Calling-File''),
      (''EventCallingFunction'', ''Event-Calling-Function''),
      (''EventCallingLineNumber'', ''Event-Calling-Line-Number''),
      (''EventSequence'', ''Event-Sequence''),
      (''ChannelPresenceId'', ''Channel-Presence-ID''),
      (''ChannelPresenceData'', ''Channel-Presence-Data''),
      (''PresenceDataCols'', ''Presence-Data-Cols''),
      (''PresenceCallDirection'', ''Presence-Call-Direction''),
      (''ChannelHitDialplan'', ''Channel-HIT-Dialplan''),
      (''SessionExternalId'', ''Session-External-ID''),
      (''OtherType'', ''Other-Type''),
      (''ChannelCallStateNumber'', ''Channel-Call-State-Number''),
      (''OriginalChannelCallState'', ''Original-Channel-Call-State''),
      (''DtmfDuration'', ''DTMF-Duration''),
      (''DtmfSource'', ''DTMF-Source''),
      (''CallerLogicalDirection'', ''Caller-Logical-Direction''),
      (''CallerUsername'', ''Caller-Username''),
      (''CallerDialplan'', ''Caller-Dialplan''),
      (''CallerAni'', ''Caller-ANI''),
      (''CallerAniii'', ''Caller-ANI-II''),
      (''CallerSource'', ''Caller-Source''),
      (''CallerTransferSource'', ''Caller-Transfer-Source''),
      (''CallerRdnis'', ''Caller-RDNIS''),
      (''CallerChannelName'', ''Caller-Channel-Name''),
      (''CallerProfileIndex'', ''Caller-Profile-Index''),
      (''CallerScreenBit'', ''Caller-Screen-Bit''),
      (''CallerPrivacyHideName'', ''Caller-Privacy-Hide-Name''),
      (''CallerPrivacyHideNumber'', ''Caller-Privacy-Hide-Number''),
      (''OtherLegDirection'', ''Other-Leg-Direction''),
      (''OtherLegLogicalDirection'', ''Other-Leg-Logical-Direction''),
      (''OtherLegUsername'', ''Other-Leg-Username''),
      (''OtherLegDialplan'', ''Other-Leg-Dialplan''),
      (''OtherLegCallerIdName'', ''Other-Leg-Caller-ID-Name''),
      (''OtherLegCallerIdNumber'', ''Other-Leg-Caller-ID-Number''),
      (''OtherLegOrigCallerIdName'', ''Other-Leg-Orig-Caller-ID-Name''),
      (''OtherLegOrigCallerIdNumber'', ''Other-Leg-Orig-Caller-ID-Number''),
      (''OtherLegCalleeIdName'', ''Other-Leg-Callee-ID-Name''),
      (''OtherLegCalleeIdNumber'', ''Other-Leg-Callee-ID-Number''),
      (''OtherLegNetworkAddr'', ''Other-Leg-Network-Addr''),
      (''OtherLegAni'', ''Other-Leg-ANI''),
      (''OtherLegAniii'', ''Other-Leg-ANI-II''),
      (''OtherLegDestinationNumber'', ''Other-Leg-Destination-Number''),
      (''OtherLegSource'', ''Other-Leg-Source''),
      (''OtherLegTransferSource'', ''Other-Leg-Transfer-Source''),
      (''OtherLegContext'', ''Other-Leg-Context''),
      (''OtherLegRdnis'', ''Other-Leg-RDNIS''),
      (''OtherLegChannelName'', ''Other-Leg-Channel-Name''),
      (''OtherLegProfileIndex'', ''Other-Leg-Profile-Index''),
      (''OtherLegScreenBit'', ''Other-Leg-Screen-Bit''),
      (''OtherLegPrivacyHideName'', ''Other-Leg-Privacy-Hide-Name''),
      (''OtherLegPrivacyHideNumber'', ''Other-Leg-Privacy-Hide-Number''),
      (''UpTime'', ''Up-Time''),
      (''UptimeMsec'', ''Uptime-msec''),
      (''MaxSessions'', ''Max-Sessions''),
      (''SessionPeakMax'', ''Session-Peak-Max''),
      (''SessionPeakFiveMin'', ''Session-Peak-FiveMin''),
      (''SessionPerSec'', ''Session-Per-Sec''),
      (''SessionPerSecFiveMin'', ''Session-Per-Sec-FiveMin''),
      (''SessionPerSecMax'', ''Session-Per-Sec-Max''),
      (''SessionPerSecLast'', ''Session-Per-Sec-Last''),
      (''SessionSinceStartup'', ''Session-Since-Startup''),
      (''IdleCpu'', ''Idle-CPU''),
      (''HeartbeatInterval'', ''Heartbeat-Interval''),
      (''EventInfo'', ''Event-Info''),
      (''LogData'', ''Log-Data''),
      (''LogFile'', ''Log-File''),
      (''LogFunction'', ''Log-Function''),
      (''LogLine'', ''Log-Line''),
      (''UserData'', ''User-Data''),
      (''ApplicationUuidName'', ''Application-UUID-Name''),
      (''Gateway'', ''Gateway''),
      (''State'', ''State''),
      (''PingStatus'', ''Ping-Status''),
      (''Phrase'', ''Phrase''),
      (''ProfileName'', ''profile-name''),
      (''Status'', ''Status''),
      (''ModuleName'', ''module_name''),
      (''ProfileNameSnake'', ''profile_name''),
      (''ProfileUri'', ''profile_uri'')]"

definition event_header_names :: "string list" where
  "event_header_names = map snd event_headers"

definition eh_wf :: "event_header \<Rightarrow> bool" where
  "eh_wf h \<longleftrightarrow> eh_as_str h \<in> set event_header_names"

abbreviation EventName :: event_header where "EventName \<equiv> EventHeader ''Event-Name''"
abbreviation JobUuid :: event_header where "JobUuid \<equiv> EventHeader ''Job-UUID''"
abbreviation Priority :: event_header where "Priority \<equiv> EventHeader ''priority''"

text \<open>
  No two variants share a wire name, not even up to ASCII case. The check is by a
  hash without collisions on the table.
\<close>

definition name_hash :: "string \<Rightarrow> int" where
  "name_hash s = foldl (\<lambda>a c. (a * 43 + of_char c) mod 4001) 0 s"

lemma event_header_hashes:
  "map (\<lambda>s. name_hash (to_ascii_lowercase s)) event_header_names =
    [3445, 3380, 3738, 3699, 2327, 377, 41, 3689, 1139, 2717, 2828, 2839, 40, 2686, 1509, 3285,
     258, 2764, 1309, 1577, 2755, 3222, 837, 665, 3937, 210, 203, 3872, 1193, 3627, 3228, 58,
     1870, 119, 2367, 2533, 2237, 486, 737, 262, 1934, 183, 988, 3238, 3826, 3792, 472, 2932,
     2934, 2783, 3891, 1654, 1277, 1694, 2901, 1476, 3300, 1375, 1826, 2252, 3780, 3512, 3186, 2267,
     738, 1589, 3609, 2215, 517, 2585, 580, 1346, 1643, 1035, 1317, 294, 1127, 316, 1736, 3417,
     3684, 229, 3691, 3745, 3867, 734, 2668, 3466, 3292, 76, 909, 1006, 1470, 3121, 3128, 806,
     3763, 325, 2744, 483, 3659, 2164, 2060, 1356, 479, 3351, 1128, 885, 2709, 1530, 469, 186,
     2082, 3777, 2281, 1937, 3572, 1098, 3617, 1025, 2444, 1239, 1749, 1637, 3060, 562, 68, 3176,
     583, 802, 752, 34, 2732, 3270, 1131, 581, 595, 2702]"
  by code_simp

lemma event_header_names_distinct: "distinct (map to_ascii_lowercase event_header_names)"
proof -
  have "distinct (map (\<lambda>s. name_hash (to_ascii_lowercase s)) event_header_names)"
    unfolding event_header_hashes by simp
  then have "distinct (map name_hash (map to_ascii_lowercase event_header_names))"
    by (simp add: comp_def)
  then show ?thesis using distinct_map by blast
qed

lemma event_header_names_inj:
  assumes "a \<in> set event_header_names" "b \<in> set event_header_names"
    and "to_ascii_lowercase a = to_ascii_lowercase b"
  shows "a = b"
  using event_header_names_distinct assms by (meson distinct_map inj_onD)

lemma eh_wf_named:
  "eh_wf EventName" "eh_wf JobUuid" "eh_wf Priority"
  by code_simp+

end
