(* ===== verification/Externals.thy ===== *)
theory Externals
  imports Utf8 Event_Header
begin

text \<open>
  The third-party crates the program calls, as parameters. A value of type
  \<open>externals\<close> holds one function per crate entry point; every definition that
  reaches such an entry point takes the record as its first argument. What the
  code relies on is stated as locales, one per crate, over these functions:
  \<open>memmem\<close> (crate \<open>memchr\<close>), \<open>bytes_mut\<close> (crate \<open>bytes\<close>), \<open>percent_codec\<close>
  (crate \<open>percent-encoding\<close>) and \<open>header_enum\<close> (the \<open>FromStr\<close> that the macro
  \<open>sip_header::define_header_enum!\<close> generates). Reference functions that satisfy
  the contracts stand at the end; they interpret the locales and make the
  hypotheses of the properties concrete in their witnesses.
\<close>

datatype json_value =
    JString string
  | JNonString (json_rendering: string)

datatype json_doc =
    JObject "(string \<times> json_value) list"
  | JNotObject

text \<open>What successive calls of \<open>quick_xml::Reader::read_event\<close> return.\<close>

datatype xml_event =
    XStart string
  | XEnd string
  | XText string
  | XGeneralRef string
  | XOther
  | XEof
  | XErr string

record externals =
  memmem_find :: "string \<Rightarrow> string \<Rightarrow> nat option"
  bm_with_capacity :: "nat \<Rightarrow> nat"
  bm_reserve :: "nat \<Rightarrow> nat \<Rightarrow> nat \<Rightarrow> nat"
  bm_extend :: "nat \<Rightarrow> nat \<Rightarrow> nat \<Rightarrow> nat"
  bm_advance :: "nat \<Rightarrow> nat \<Rightarrow> nat \<Rightarrow> nat"
  bm_clear :: "nat \<Rightarrow> nat"
  percent_decode :: "string \<Rightarrow> string"
  percent_encode :: "string \<Rightarrow> string"
  header_from_str :: "string \<Rightarrow> event_header option"
  json_from_str :: "string \<Rightarrow> string + json_doc"
  xml_read :: "string \<Rightarrow> xml_event list"
  xml_char_ref :: "string \<Rightarrow> string + string option"
  xml_entity :: "string \<Rightarrow> string option"
  split_comma_entries :: "string \<Rightarrow> string list"
  sip_multi_valued :: "string \<Rightarrow> bool"

section \<open>Contracts\<close>

text \<open>\<open>memchr::memmem::find haystack needle\<close>: the offset of the first occurrence.\<close>

locale memmem =
  fixes find :: "string \<Rightarrow> string \<Rightarrow> nat option"
  assumes find_first: "p \<noteq> [] \<Longrightarrow> find h p = Some i \<longleftrightarrow> first_at p h i"
begin

lemma find_eq_str_find: "p \<noteq> [] \<Longrightarrow> find h p = str_find p h"
  by (metis find_first not_Some_eq str_find_iff)

end

text \<open>
  \<open>bytes::BytesMut\<close>: only the capacity is a parameter; the contents are a
  plain byte string. Arguments are the length, the capacity and the amount.
\<close>

locale bytes_mut =
  fixes with_capacity :: "nat \<Rightarrow> nat"
    and reserve extend advance :: "nat \<Rightarrow> nat \<Rightarrow> nat \<Rightarrow> nat"
    and clear :: "nat \<Rightarrow> nat"
  assumes reserve_room: "len \<le> cap \<Longrightarrow> len + n \<le> reserve len cap n"
    and extend_room: "len \<le> cap \<Longrightarrow> len + n \<le> extend len cap n"
    and advance_room: "n \<le> len \<Longrightarrow> len \<le> cap \<Longrightarrow> len - n \<le> advance len cap n"

text \<open>
  \<open>percent_encoding\<close>: decoding undoes \<open>percent_encode(_, NON_ALPHANUMERIC)\<close>,
  whose output holds ASCII letters, digits and \<open>%\<close> only, and changes nothing
  where there is no \<open>%\<close>.
\<close>

definition pct_char :: "char \<Rightarrow> bool" where
  "pct_char c \<longleftrightarrow> is_letter c \<or> is_digit c \<or> c = CHR 0x25"

locale percent_codec =
  fixes enc decode :: "string \<Rightarrow> string"
  assumes decode_enc: "decode (enc s) = s"
    and enc_chars: "list_all pct_char (enc s)"
    and decode_plain: "CHR 0x25 \<notin> set s \<Longrightarrow> decode s = s"

text \<open>
  \<open>EventHeader::from_str\<close>: case-insensitive, sound, and total on the table.
\<close>

locale header_enum =
  fixes from_str :: "string \<Rightarrow> event_header option"
  assumes from_str_sound:
      "from_str s = Some h \<Longrightarrow> eh_wf h \<and> to_ascii_lowercase (eh_as_str h) = to_ascii_lowercase s"
    and from_str_case: "to_ascii_lowercase s = to_ascii_lowercase t \<Longrightarrow> from_str s = from_str t"
    and from_str_as_str: "eh_wf h \<Longrightarrow> from_str (eh_as_str h) = Some h"
begin

lemma from_str_canonical: "from_str s = Some h \<Longrightarrow> from_str (eh_as_str h) = Some h"
  using from_str_case from_str_sound by metis

end

section \<open>Reference functions\<close>

interpretation std_memmem: memmem "\<lambda>h p. str_find p h"
  by unfold_locales (simp add: str_find_iff)

definition vec_capacity :: "nat \<Rightarrow> nat \<Rightarrow> nat \<Rightarrow> nat" where
  "vec_capacity len cap n = max cap (len + n)"

definition vec_advance :: "nat \<Rightarrow> nat \<Rightarrow> nat \<Rightarrow> nat" where
  "vec_advance len cap n = cap - n"

interpretation vec_bytes: bytes_mut id vec_capacity vec_capacity vec_advance id
  by unfold_locales (auto simp: vec_capacity_def vec_advance_def)

definition hex_digit :: "nat \<Rightarrow> char" where
  "hex_digit n = (if n < 10 then char_of (48 + n) else char_of (55 + n))"

definition hex_value :: "char \<Rightarrow> nat option" where
  "hex_value c =
     (let n = of_char c in
      if 48 \<le> n \<and> n \<le> 57 then Some (n - 48)
      else if 65 \<le> n \<and> n \<le> 70 then Some (n - 55)
      else if 97 \<le> n \<and> n \<le> 102 then Some (n - 87)
      else None)"

definition pct_encode_char :: "char \<Rightarrow> string" where
  "pct_encode_char c =
     (if is_letter c \<or> is_digit c then [c]
      else [CHR 0x25, hex_digit (of_char c div 16), hex_digit (of_char c mod 16)])"

definition pct_encode :: "string \<Rightarrow> string" where
  "pct_encode s = concat (map pct_encode_char s)"

fun pct_decode :: "string \<Rightarrow> string" where
  "pct_decode (c # h # l # s) =
     (if c = CHR 0x25 then
        (case (hex_value h, hex_value l) of
           (Some a, Some b) \<Rightarrow> char_of (16 * a + b) # pct_decode s
         | _ \<Rightarrow> c # pct_decode (h # l # s))
      else c # pct_decode (h # l # s))"
| "pct_decode s = s"

lemma hex_value_digit: "n < 16 \<Longrightarrow> hex_value (hex_digit n) = Some n"
  by (auto simp: hex_value_def hex_digit_def Let_def)

lemma hex_digit_alnum: "n < 16 \<Longrightarrow> is_letter (hex_digit n) \<or> is_digit (hex_digit n)"
  by (auto simp: hex_digit_def is_letter_def is_digit_def Let_def)

lemma pct_decode_plain: "c \<noteq> CHR 0x25 \<Longrightarrow> pct_decode (c # s) = c # pct_decode s"
  by (cases s; cases "tl s") auto

lemma pct_decode_encode_char: "pct_decode (pct_encode_char c @ s) = c # pct_decode s"
proof (cases "is_letter c \<or> is_digit c")
  case True
  then have "c \<noteq> CHR 0x25" by (auto simp: is_letter_def is_digit_def)
  with True show ?thesis by (simp add: pct_encode_char_def pct_decode_plain)
next
  case False
  have lt: "of_char c div 16 < (16::nat)" "of_char c mod 16 < (16::nat)"
    using nat_of_char_less_256 [of c] by (simp_all add: less_mult_imp_div_less)
  have "16 * (of_char c div 16) + of_char c mod 16 = (of_char c :: nat)" by simp
  with False lt show ?thesis by (simp add: pct_encode_char_def hex_value_digit)
qed

lemma pct_decode_encode: "pct_decode (pct_encode s) = s"
  by (induction s) (auto simp: pct_encode_def pct_decode_encode_char)

lemma pct_encode_chars: "list_all pct_char (pct_encode s)"
proof -
  have "list_all pct_char (pct_encode_char c)" for c
    using nat_of_char_less_256 [of c] hex_digit_alnum [of "of_char c div 16"]
      hex_digit_alnum [of "of_char c mod 16"]
    by (auto simp: pct_encode_char_def pct_char_def less_mult_imp_div_less)
  then show ?thesis by (induction s) (auto simp: pct_encode_def)
qed

lemma pct_decode_no_percent: "CHR 0x25 \<notin> set s \<Longrightarrow> pct_decode s = s"
  by (induction s) (auto simp: pct_decode_plain)

interpretation std_percent: percent_codec pct_encode pct_decode
  by unfold_locales (auto intro: pct_decode_encode pct_encode_chars pct_decode_no_percent)

definition table_from_str :: "string \<Rightarrow> event_header option" where
  "table_from_str s =
     map_option EventHeader (find (\<lambda>n. eq_ignore_ascii_case n s) event_header_names)"

lemma find_Some_set: "find P xs = Some x \<Longrightarrow> x \<in> set xs \<and> P x"
  by (induction xs) (auto split: if_splits)

interpretation table_headers: header_enum table_from_str
proof unfold_locales
  fix s h
  assume "table_from_str s = Some h"
  then show "eh_wf h \<and> to_ascii_lowercase (eh_as_str h) = to_ascii_lowercase s"
    by (auto simp: table_from_str_def eh_wf_def eq_ignore_ascii_case_def dest: find_Some_set)
next
  fix s t :: string
  assume "to_ascii_lowercase s = to_ascii_lowercase t"
  then show "table_from_str s = table_from_str t"
    by (simp add: table_from_str_def eq_ignore_ascii_case_def)
next
  fix h
  assume wf: "eh_wf h"
  then obtain n where n: "find (\<lambda>n. eq_ignore_ascii_case n (eh_as_str h)) event_header_names = Some n"
    by (metis eh_wf_def eq_ignore_ascii_case_def find_None_iff not_None_eq)
  then have "n \<in> set event_header_names \<and> to_ascii_lowercase n = to_ascii_lowercase (eh_as_str h)"
    by (auto simp: eq_ignore_ascii_case_def dest: find_Some_set)
  with wf have "n = eh_as_str h" using event_header_names_inj eh_wf_def by blast
  with n show "table_from_str (eh_as_str h) = Some h" by (simp add: table_from_str_def)
qed

text \<open>One record that satisfies every contract, for the witnesses.\<close>

definition reference_externals :: externals where
  "reference_externals =
     \<lparr>memmem_find = (\<lambda>h p. str_find p h),
      bm_with_capacity = id, bm_reserve = vec_capacity, bm_extend = vec_capacity,
      bm_advance = vec_advance, bm_clear = id,
      percent_decode = pct_decode, percent_encode = pct_encode,
      header_from_str = table_from_str,
      json_from_str = (\<lambda>_. Inl ''unsupported''),
      xml_read = (\<lambda>_. [XEof]),
      xml_char_ref = (\<lambda>_. Inr None),
      xml_entity = (\<lambda>_. None),
      split_comma_entries = split_str '','',
      sip_multi_valued = (\<lambda>_. False)\<rparr>"

text \<open>The contracts of a whole record, in the form the properties assume.\<close>

definition externals_ok :: "externals \<Rightarrow> bool" where
  "externals_ok X \<longleftrightarrow>
     memmem (memmem_find X) \<and>
     bytes_mut (bm_reserve X) (bm_extend X) (bm_advance X) \<and>
     percent_codec (percent_encode X) (percent_decode X) \<and>
     header_enum (header_from_str X)"

lemma reference_externals_ok: "externals_ok reference_externals"
  using std_memmem.memmem_axioms vec_bytes.bytes_mut_axioms std_percent.percent_codec_axioms
    table_headers.header_enum_axioms
  by (simp add: externals_ok_def reference_externals_def)

end
