(* ===== verification/Constants.thy ===== *)
theory Constants
  imports Prelude
begin

text \<open>The protocol constants of \<open>src/constants.rs\<close>.\<close>

definition BUF_CHUNK :: nat where "BUF_CHUNK = 64 * 1024"
definition SOCKET_BUF_SIZE :: nat where "SOCKET_BUF_SIZE = 65536"
definition MAX_MESSAGE_SIZE :: nat where "MAX_MESSAGE_SIZE = 8 * 1024 * 1024"
definition MAX_BUFFER_SIZE :: nat where "MAX_BUFFER_SIZE = 16 * 1024 * 1024"

definition HEADER_TERMINATOR :: string where "HEADER_TERMINATOR = [NL, NL]"
definition LINE_TERMINATOR :: string where "LINE_TERMINATOR = [NL]"

definition CONTENT_TYPE_AUTH_REQUEST :: string where "CONTENT_TYPE_AUTH_REQUEST = ''auth/request''"
definition CONTENT_TYPE_COMMAND_REPLY :: string where "CONTENT_TYPE_COMMAND_REPLY = ''command/reply''"
definition CONTENT_TYPE_API_RESPONSE :: string where "CONTENT_TYPE_API_RESPONSE = ''api/response''"
definition CONTENT_TYPE_TEXT_EVENT_PLAIN :: string where "CONTENT_TYPE_TEXT_EVENT_PLAIN = ''text/event-plain''"
definition CONTENT_TYPE_TEXT_EVENT_JSON :: string where "CONTENT_TYPE_TEXT_EVENT_JSON = ''text/event-json''"
definition CONTENT_TYPE_TEXT_EVENT_XML :: string where "CONTENT_TYPE_TEXT_EVENT_XML = ''text/event-xml''"
definition CONTENT_TYPE_LOG_DATA :: string where "CONTENT_TYPE_LOG_DATA = ''log/data''"

definition UNDEF_VALUE :: string where "UNDEF_VALUE = ''_undef_''"

definition REPLY_PREFIX_OK :: string where "REPLY_PREFIX_OK = ''+OK''"
definition REPLY_PREFIX_ERR :: string where "REPLY_PREFIX_ERR = ''-ERR''"
definition REPLY_PREFIX_USAGE :: string where "REPLY_PREFIX_USAGE = ''-USAGE''"
definition REPLY_COMMAND_NOT_FOUND :: string where "REPLY_COMMAND_NOT_FOUND = ''-ERR command not found''"

definition HEADER_CONTENT_TYPE :: string where "HEADER_CONTENT_TYPE = ''Content-Type''"
definition HEADER_CONTENT_LENGTH :: string where "HEADER_CONTENT_LENGTH = ''Content-Length''"
definition HEADER_REPLY_TEXT :: string where "HEADER_REPLY_TEXT = ''Reply-Text''"

definition DEFAULT_TIMEOUT_MS :: u64 where "DEFAULT_TIMEOUT_MS = 2000"
definition MAX_EVENT_QUEUE_SIZE :: nat where "MAX_EVENT_QUEUE_SIZE = 1000"
definition READER_TICK_MS :: u64 where "READER_TICK_MS = 2000"
definition REEXEC_DRAIN_TIMEOUT_MS :: u64 where "REEXEC_DRAIN_TIMEOUT_MS = 5000"

lemmas content_type_defs =
  CONTENT_TYPE_AUTH_REQUEST_def CONTENT_TYPE_COMMAND_REPLY_def CONTENT_TYPE_API_RESPONSE_def
  CONTENT_TYPE_TEXT_EVENT_PLAIN_def CONTENT_TYPE_TEXT_EVENT_JSON_def
  CONTENT_TYPE_TEXT_EVENT_XML_def CONTENT_TYPE_LOG_DATA_def

lemmas reply_prefix_defs = REPLY_PREFIX_OK_def REPLY_PREFIX_ERR_def REPLY_PREFIX_USAGE_def

lemmas framing_header_defs =
  HEADER_CONTENT_TYPE_def HEADER_CONTENT_LENGTH_def HEADER_REPLY_TEXT_def

end
