(* ===== verification/Esl_Error.thy ===== *)
theory Esl_Error
  imports Constants Utf8
begin

text \<open>
  \<open>src/error.rs\<close>: the error type every fallible operation returns, its two
  classifications, its \<open>Display\<close> text, and the splitting of a failed command's
  reply by its wire prefix. Payloads whose types belong to parts that are not
  modelled (\<open>io::Error\<close>, \<open>OriginateError\<close>, \<open>ParseHeaderError\<close>) are carried as
  the text they display.
\<close>

datatype esl_error =
    Io string
  | NotConnected
  | AuthenticationFailed string
  | ProtocolError string
  | CommandFailed string
  | UnexpectedReply string
  | Timeout u64
  | InvalidEventFormat string
  | JsonError string
  | XmlError string
  | Utf8Err utf8_error
  | InvalidUtf8InHeader string string utf8_error
  | BufferOverflow nat nat
  | InvalidHeader string
  | MissingHeader string
  | AccessDenied string
  | ConnectionClosed
  | HeartbeatExpired u64
  | InvalidUuid string
  | QueueFull
  | Generic string
  | Originate string
  | ReexecFailed string
  | HeaderParse string

type_synonym 'a esl_result = "esl_error + 'a"

fun esl_error_display :: "esl_error \<Rightarrow> string" where
  "esl_error_display (Io e) = ''IO error: '' @ e"
| "esl_error_display NotConnected = ''Not connected to FreeSWITCH''"
| "esl_error_display (AuthenticationFailed r) = ''Authentication failed: '' @ r"
| "esl_error_display (ProtocolError m) = ''Protocol error: '' @ m"
| "esl_error_display (CommandFailed r) = ''Command failed: '' @ r"
| "esl_error_display (UnexpectedReply r) = ''Unexpected reply: '' @ r"
| "esl_error_display (Timeout t) = ''Operation timed out after '' @ dec (unat t) @ ''ms''"
| "esl_error_display (InvalidEventFormat f) = ''Invalid event format: '' @ f"
| "esl_error_display (JsonError e) = ''JSON parsing error: '' @ e"
| "esl_error_display (XmlError e) = ''XML parsing error: '' @ e"
| "esl_error_display (Utf8Err e) = ''UTF-8 conversion error: '' @ utf8_error_display e"
| "esl_error_display (InvalidUtf8InHeader c k e) = ''invalid UTF-8 in '' @ c @ '' '' @ [CHR 0x27] @ k @ [CHR 0x27]"
| "esl_error_display (BufferOverflow s l) =
     ''Buffer overflow: message size '' @ dec s @ '' exceeds limit '' @ dec l"
| "esl_error_display (InvalidHeader h) = ''Invalid header format: '' @ h"
| "esl_error_display (MissingHeader h) = ''Missing required header: '' @ h"
| "esl_error_display (AccessDenied r) = ''Access denied: '' @ r"
| "esl_error_display ConnectionClosed = ''Connection closed by FreeSWITCH''"
| "esl_error_display (HeartbeatExpired i) =
     ''Heartbeat expired after '' @ dec (unat i) @ ''ms without traffic''"
| "esl_error_display (InvalidUuid u) = ''Invalid UUID format: '' @ u"
| "esl_error_display QueueFull = ''Event queue is full - dropping events''"
| "esl_error_display (Generic m) = ''ESL error: '' @ m"
| "esl_error_display (Originate e) = ''Originate error: '' @ e"
| "esl_error_display (ReexecFailed r) = ''Re-exec teardown failed: '' @ r"
| "esl_error_display (HeaderParse e) = ''header parse error: '' @ e"

fun is_recoverable :: "esl_error \<Rightarrow> bool" where
  "is_recoverable (Io _) = False"
| "is_recoverable NotConnected = False"
| "is_recoverable ConnectionClosed = False"
| "is_recoverable (AuthenticationFailed _) = False"
| "is_recoverable (AccessDenied _) = False"
| "is_recoverable (HeartbeatExpired _) = False"
| "is_recoverable (Timeout _) = True"
| "is_recoverable (CommandFailed _) = True"
| "is_recoverable (UnexpectedReply _) = True"
| "is_recoverable QueueFull = True"
| "is_recoverable (ProtocolError _) = False"
| "is_recoverable (InvalidEventFormat _) = False"
| "is_recoverable (JsonError _) = False"
| "is_recoverable (XmlError _) = False"
| "is_recoverable (Utf8Err _) = False"
| "is_recoverable (InvalidUtf8InHeader _ _ _) = False"
| "is_recoverable (InvalidHeader _) = False"
| "is_recoverable (MissingHeader _) = False"
| "is_recoverable (InvalidUuid _) = False"
| "is_recoverable (HeaderParse _) = False"
| "is_recoverable (BufferOverflow _ _) = False"
| "is_recoverable (Originate _) = False"
| "is_recoverable (Generic _) = False"
| "is_recoverable (ReexecFailed _) = False"

fun is_connection_error :: "esl_error \<Rightarrow> bool" where
  "is_connection_error (Io _) = True"
| "is_connection_error NotConnected = True"
| "is_connection_error ConnectionClosed = True"
| "is_connection_error (AccessDenied _) = True"
| "is_connection_error (HeartbeatExpired _) = True"
| "is_connection_error (ProtocolError _) = True"
| "is_connection_error (BufferOverflow _ _) = True"
| "is_connection_error (AuthenticationFailed _) = False"
| "is_connection_error (CommandFailed _) = False"
| "is_connection_error (UnexpectedReply _) = False"
| "is_connection_error (Timeout _) = False"
| "is_connection_error QueueFull = False"
| "is_connection_error (InvalidEventFormat _) = False"
| "is_connection_error (JsonError _) = False"
| "is_connection_error (XmlError _) = False"
| "is_connection_error (Utf8Err _) = False"
| "is_connection_error (InvalidUtf8InHeader _ _ _) = False"
| "is_connection_error (InvalidHeader _) = False"
| "is_connection_error (MissingHeader _) = False"
| "is_connection_error (InvalidUuid _) = False"
| "is_connection_error (HeaderParse _) = False"
| "is_connection_error (Originate _) = False"
| "is_connection_error (Generic _) = False"
| "is_connection_error (ReexecFailed _) = False"

section \<open>Failed replies\<close>

datatype cmd_failure =
    CfErr string
  | CfUsage string
  | CfUnprefixed string

fun payload :: "cmd_failure \<Rightarrow> string option" where
  "payload (CfErr text) = Some text"
| "payload (CfUsage text) = Some text"
| "payload (CfUnprefixed text) = None"

definition peel_separator :: "string \<Rightarrow> string" where
  "peel_separator rest =
     (let rest = unwrap_or rest (strip_prefix [COLON] rest)
      in unwrap_or rest (strip_prefix [SP] rest))"

text \<open>
  \<open>char::is_alphanumeric\<close> on the first character: exact for ASCII; for a longer
  sequence the answer comes from the Unicode tables, the parameter \<open>alnum\<close>.
\<close>

definition starts_alnum :: "(string \<Rightarrow> bool) \<Rightarrow> string \<Rightarrow> bool" where
  "starts_alnum alnum s =
     (case s of [] \<Rightarrow> False
      | c # _ \<Rightarrow> if is_ascii c then is_letter c \<or> is_digit c
                else alnum (take (snd (utf8_next s)) s))"

definition peel_prefix :: "(string \<Rightarrow> bool) \<Rightarrow> string \<Rightarrow> string \<Rightarrow> string option" where
  "peel_prefix alnum text pre =
     (case strip_prefix pre text of
        None \<Rightarrow> None
      | Some rest \<Rightarrow>
          if starts_alnum alnum rest \<or> starts_with ''_'' rest then None
          else Some (peel_separator rest))"

fun command_failure :: "(string \<Rightarrow> bool) \<Rightarrow> esl_error \<Rightarrow> cmd_failure option" where
  "command_failure alnum (CommandFailed reply_text) =
     (let text = trim_start reply_text in
      case peel_prefix alnum text REPLY_PREFIX_ERR of
        Some p \<Rightarrow> Some (CfErr p)
      | None \<Rightarrow>
          (case peel_prefix alnum text REPLY_PREFIX_USAGE of
             Some p \<Rightarrow> Some (CfUsage p)
           | None \<Rightarrow> Some (CfUnprefixed text)))"
| "command_failure alnum _ = None"

definition PERMISSION_DENIED_PAYLOAD :: string where
  "PERMISSION_DENIED_PAYLOAD = ''permission denied''"

text \<open>\<open>str::get(..n)\<close>: \<open>None\<close> past the end or inside a character.\<close>

definition str_get_to :: "nat \<Rightarrow> string \<Rightarrow> string option" where
  "str_get_to n s =
     (if n = length s \<or> (n < length s \<and> \<not> is_cont (byte_at s n)) then Some (take n s) else None)"

definition is_permission_denied :: "(string \<Rightarrow> bool) \<Rightarrow> esl_error \<Rightarrow> bool" where
  "is_permission_denied alnum e =
     (case command_failure alnum e of
        Some (CfErr p) \<Rightarrow>
          (case str_get_to (length PERMISSION_DENIED_PAYLOAD) p of
             Some head \<Rightarrow> eq_ignore_ascii_case head PERMISSION_DENIED_PAYLOAD
           | None \<Rightarrow> False)
      | _ \<Rightarrow> False)"

section \<open>The classifications are consistent\<close>

lemma recoverable_not_connection: "is_recoverable e \<Longrightarrow> \<not> is_connection_error e"
  by (cases e) auto

lemma permission_denied_recoverable: "is_permission_denied alnum e \<Longrightarrow> is_recoverable e"
  by (cases e) (auto simp: is_permission_denied_def)

lemma command_failure_err:
  assumes "trim_start r = REPLY_PREFIX_ERR @ SP # text"
  shows "command_failure alnum (CommandFailed r) = Some (CfErr text)"
proof -
  have "strip_prefix REPLY_PREFIX_ERR (REPLY_PREFIX_ERR @ SP # text) = Some (SP # text)" by simp
  then show ?thesis
    by (simp add: assms Let_def peel_prefix_def peel_separator_def starts_alnum_def
        starts_with_def is_ascii_def is_letter_def is_digit_def)
qed

end
