(* ===== verification/Esl_Buffer.thy ===== *)
theory Esl_Buffer
  imports Externals Esl_Error
begin

text \<open>
  \<open>src/buffer.rs\<close>: the receive buffer with its scan watermark. The record holds
  the unconsumed bytes, the capacity of the underlying \<open>BytesMut\<close> and the
  watermark; every method returns the changed buffer beside its result.

  The abstraction of a buffer is its contents. \<open>watermark\<close> is the invariant that
  makes the incremental search sound (no occurrence of the terminator ends at or
  before the watermark); under it the search that resumes at the watermark gives
  what a search from the front gives, so the operations refine the plain
  operations \<open>split_at\<close> and \<open>take_front\<close> on byte strings.
\<close>

record esl_buffer =
  buffer :: string
  capacity :: nat
  scan_offset :: nat

section \<open>Operations\<close>

definition new_buffer :: "externals \<Rightarrow> esl_buffer" where
  "new_buffer X = \<lparr>buffer = [], capacity = bm_with_capacity X BUF_CHUNK, scan_offset = 0\<rparr>"

definition write_capacity :: "esl_buffer \<Rightarrow> nat" where
  "write_capacity b = capacity b - length (buffer b)"

definition extend_from_slice :: "externals \<Rightarrow> string \<Rightarrow> esl_buffer \<Rightarrow> esl_buffer" where
  "extend_from_slice X data b =
     (let len = length (buffer b);
          b = (if write_capacity b < length data
               then b\<lparr>capacity := bm_reserve X len (capacity b) (max (length data) BUF_CHUNK)\<rparr>
               else b)
      in b\<lparr>buffer := buffer b @ data, capacity := bm_extend X len (capacity b) (length data)\<rparr>)"

definition find_pattern :: "externals \<Rightarrow> string \<Rightarrow> esl_buffer \<Rightarrow> nat option \<times> esl_buffer" where
  "find_pattern X p b =
     (if p = [] \<or> length (buffer b) < length p then (None, b)
      else let start = scan_offset b - (length p - 1) in
           case memmem_find X (drop start (buffer b)) p of
             Some rel_pos \<Rightarrow> (Some (start + rel_pos), b\<lparr>scan_offset := start + rel_pos + length p\<rparr>)
           | None \<Rightarrow> (None, b\<lparr>scan_offset := length (buffer b)\<rparr>))"

definition advance :: "externals \<Rightarrow> nat \<Rightarrow> esl_buffer \<Rightarrow> esl_buffer" where
  "advance X n b =
     b\<lparr>buffer := drop n (buffer b),
       capacity := bm_advance X (length (buffer b)) (capacity b) n\<rparr>"

definition extract_until_pattern :: "externals \<Rightarrow> string \<Rightarrow> esl_buffer \<Rightarrow> string option \<times> esl_buffer" where
  "extract_until_pattern X p b =
     (case find_pattern X p b of
        (None, b) \<Rightarrow> (None, b)
      | (Some pos, b) \<Rightarrow>
          (Some (take pos (buffer b)), (advance X (pos + length p) b)\<lparr>scan_offset := 0\<rparr>))"

definition extract_bytes :: "externals \<Rightarrow> nat \<Rightarrow> esl_buffer \<Rightarrow> string option \<times> esl_buffer" where
  "extract_bytes X count b =
     (if length (buffer b) < count then (None, b)
      else (Some (take count (buffer b)),
            (advance X count b)\<lparr>scan_offset := scan_offset b - count\<rparr>))"

definition clear :: "externals \<Rightarrow> esl_buffer \<Rightarrow> esl_buffer" where
  "clear X b = b\<lparr>buffer := [], capacity := bm_clear X (capacity b), scan_offset := 0\<rparr>"

definition compact :: "externals \<Rightarrow> esl_buffer \<Rightarrow> esl_buffer" where
  "compact X b =
     (if write_capacity b < BUF_CHUNK
      then b\<lparr>capacity := bm_reserve X (length (buffer b)) (capacity b) BUF_CHUNK\<rparr>
      else b)"

definition check_size_limits :: "esl_buffer \<Rightarrow> unit esl_result" where
  "check_size_limits b =
     (if length (buffer b) > MAX_BUFFER_SIZE
      then Inl (BufferOverflow (length (buffer b)) MAX_BUFFER_SIZE) else Inr ())"

section \<open>Invariant\<close>

definition watermark :: "string \<Rightarrow> esl_buffer \<Rightarrow> bool" where
  "watermark p b \<longleftrightarrow>
     scan_offset b \<le> length (buffer b) \<and>
     (\<forall>j. j + length p \<le> scan_offset b \<longrightarrow> \<not> prefix p (drop j (buffer b)))"

definition capacity_ok :: "esl_buffer \<Rightarrow> bool" where
  "capacity_ok b \<longleftrightarrow> length (buffer b) \<le> capacity b"

lemma watermark_fresh: "scan_offset b = 0 \<Longrightarrow> p \<noteq> [] \<Longrightarrow> watermark p b"
  by (simp add: watermark_def)

lemma prefix_append_long: "length p \<le> length s \<Longrightarrow> prefix p (s @ t) \<longleftrightarrow> prefix p s"
  by (meson prefix_def prefix_length_prefix prefix_prefix)

lemma extend_buffer [simp]: "buffer (extend_from_slice X d b) = buffer b @ d"
  and extend_scan [simp]: "scan_offset (extend_from_slice X d b) = scan_offset b"
  by (simp_all add: extend_from_slice_def Let_def)

lemma compact_buffer [simp]: "buffer (compact X b) = buffer b"
  and compact_scan [simp]: "scan_offset (compact X b) = scan_offset b"
  by (simp_all add: compact_def)

lemma advance_buffer [simp]: "buffer (advance X n b) = drop n (buffer b)"
  and advance_scan [simp]: "scan_offset (advance X n b) = scan_offset b"
  by (simp_all add: advance_def)

lemma clear_buffer [simp]: "buffer (clear X b) = []"
  and clear_scan [simp]: "scan_offset (clear X b) = 0"
  by (simp_all add: clear_def)

lemma new_buffer_simps [simp]: "buffer (new_buffer X) = []" "scan_offset (new_buffer X) = 0"
  by (simp_all add: new_buffer_def)

lemma watermark_extend: "watermark p b \<Longrightarrow> watermark p (extend_from_slice X d b)"
  by (auto simp: watermark_def prefix_append_long)

lemma watermark_compact [simp]: "watermark p (compact X b) \<longleftrightarrow> watermark p b"
  by (simp add: watermark_def)

lemma extract_bytes_watermark:
  assumes "watermark p b"
  shows "watermark p (snd (extract_bytes X n b))"
proof (cases "length (buffer b) < n")
  case False
  have "\<not> prefix p (drop j (drop n (buffer b)))" if "j + length p \<le> scan_offset b - n" "p \<noteq> []" for j
  proof -
    from that have "(j + n) + length p \<le> scan_offset b" by (cases p) auto
    with assms have "\<not> prefix p (drop (j + n) (buffer b))" by (auto simp: watermark_def)
    then show ?thesis by (simp add: add.commute)
  qed
  moreover have "p \<noteq> []" using assms by (force simp: watermark_def)
  ultimately show ?thesis using assms False
    by (auto simp: extract_bytes_def watermark_def)
qed (use assms in \<open>simp add: extract_bytes_def\<close>)

section \<open>The resumed search is the full search\<close>

lemma first_at_drop:
  assumes "st \<le> length s" and "\<And>j. j < st \<Longrightarrow> \<not> prefix p (drop j s)"
  shows "first_at p (drop st s) i \<longleftrightarrow> first_at p s (st + i)"
proof
  assume L: "first_at p (drop st s) i"
  show "first_at p s (st + i)"
    unfolding first_at_def
  proof (intro conjI allI impI)
    show "st + i + length p \<le> length s" using L assms(1) by (auto simp: first_at_def)
    show "prefix p (drop (st + i) s)" using L by (simp add: first_at_def add.commute)
    fix j assume "j < st + i"
    show "\<not> prefix p (drop j s)"
    proof (cases "j < st")
      case False
      then have "j - st < i" using \<open>j < st + i\<close> by linarith
      with L have "\<not> prefix p (drop (j - st) (drop st s))" unfolding first_at_def by blast
      with False show ?thesis by simp
    qed (use assms(2) in blast)
  qed
next
  assume "first_at p s (st + i)"
  then show "first_at p (drop st s) i"
    by (auto simp: first_at_def add.commute)
qed

lemma str_find_resume:
  assumes "st \<le> length s" and "\<And>j. j < st \<Longrightarrow> \<not> prefix p (drop j s)"
  shows "str_find p s = map_option ((+) st) (str_find p (drop st s))"
proof (cases "str_find p (drop st s)")
  case None
  have "\<not> first_at p s i" for i
  proof
    assume f: "first_at p s i"
    then have "st \<le> i" using assms(2) by (meson first_at_def not_le)
    then have "first_at p (drop st s) (i - st)" using f first_at_drop [OF assms, of "i - st"] by simp
    with None show False by (simp add: str_find_iff [symmetric])
  qed
  then have "str_find p s = None" by (metis not_None_eq str_find_iff)
  with None show ?thesis by simp
next
  case (Some i)
  then have "str_find p s = Some (st + i)"
    using first_at_drop [OF assms] by (simp add: str_find_iff)
  with Some show ?thesis by simp
qed

context memmem
begin

lemma find_pattern_eq:
  assumes "memmem_find X = find" and "p \<noteq> []" and "watermark p b"
  shows "fst (find_pattern X p b) = str_find p (buffer b)"
proof (cases "length (buffer b) < length p")
  case True
  then have "str_find p (buffer b) = None"
    by (metis add_leD2 first_at_def not_Some_eq not_le str_find_iff)
  with True show ?thesis by (simp add: find_pattern_def)
next
  case False
  let ?st = "scan_offset b - (length p - 1)"
  have st: "?st \<le> length (buffer b)" using assms(3) by (auto simp: watermark_def)
  have none: "\<not> prefix p (drop j (buffer b))" if "j < ?st" for j
  proof -
    have "j + length p \<le> scan_offset b" using that assms(2) by (cases p) auto
    with assms(3) show ?thesis by (simp add: watermark_def)
  qed
  have "str_find p (buffer b) = map_option ((+) ?st) (find (drop ?st (buffer b)) p)"
    using str_find_resume [OF st none] find_eq_str_find [OF assms(2)] by simp
  with False assms(1,2) show ?thesis
    by (cases "find (drop ?st (buffer b)) p") (simp_all add: find_pattern_def Let_def)
qed

lemma find_pattern_buffer: "buffer (snd (find_pattern X p b)) = buffer b"
  by (simp add: find_pattern_def Let_def split: option.splits)

lemma find_pattern_None_watermark:
  assumes "memmem_find X = find" and "p \<noteq> []" and "watermark p b"
    and "fst (find_pattern X p b) = None"
  shows "watermark p (snd (find_pattern X p b))"
proof (cases "length (buffer b) < length p")
  case True
  with assms show ?thesis by (simp add: find_pattern_def)
next
  case False
  have "str_find p (buffer b) = None" using find_pattern_eq assms by simp
  then have no: "\<not> prefix p (drop j (buffer b))" if "j \<le> length (buffer b)" for j
    using that str_find_None by blast
  have "snd (find_pattern X p b) = b\<lparr>scan_offset := length (buffer b)\<rparr>"
    using assms(2,4) False by (auto simp: find_pattern_def Let_def split: option.splits)
  with no show ?thesis by (simp add: watermark_def)
qed

lemma extract_until_pattern_eq:
  assumes "memmem_find X = find" and "p \<noteq> []" and "watermark p b"
  shows "fst (extract_until_pattern X p b) = map_option (\<lambda>i. take i (buffer b)) (str_find p (buffer b))"
    and "buffer (snd (extract_until_pattern X p b)) =
      (case str_find p (buffer b) of None \<Rightarrow> buffer b | Some i \<Rightarrow> drop (i + length p) (buffer b))"
    and "watermark p (snd (extract_until_pattern X p b))"
proof -
  obtain r b' where f: "find_pattern X p b = (r, b')" by fastforce
  have r: "r = str_find p (buffer b)" using find_pattern_eq [OF assms] f by simp
  have buf: "buffer b' = buffer b" using find_pattern_buffer [of X p b] f by simp
  have e: "extract_until_pattern X p b =
      (case str_find p (buffer b) of
         None \<Rightarrow> (None, b')
       | Some i \<Rightarrow> (Some (take i (buffer b)), (advance X (i + length p) b')\<lparr>scan_offset := 0\<rparr>))"
    by (simp add: extract_until_pattern_def f r buf split: option.splits)
  show "fst (extract_until_pattern X p b) = map_option (\<lambda>i. take i (buffer b)) (str_find p (buffer b))"
    and "buffer (snd (extract_until_pattern X p b)) =
      (case str_find p (buffer b) of None \<Rightarrow> buffer b | Some i \<Rightarrow> drop (i + length p) (buffer b))"
    by (simp_all add: e buf split: option.splits)
  show "watermark p (snd (extract_until_pattern X p b))"
    using f find_pattern_None_watermark [OF assms] assms(2)
    by (cases r) (simp_all add: extract_until_pattern_def watermark_fresh)
qed

end

section \<open>Capacity\<close>

context bytes_mut
begin

lemma compact_room:
  assumes "bm_reserve X = reserve" and "capacity_ok b"
  shows "capacity_ok (compact X b) \<and> BUF_CHUNK \<le> write_capacity (compact X b)"
  using reserve_room [of "length (buffer b)" "capacity b" BUF_CHUNK] assms
  by (auto simp: compact_def write_capacity_def capacity_ok_def)

lemma extend_capacity_ok:
  assumes "bm_reserve X = reserve" "bm_extend X = extend" and "capacity_ok b"
  shows "capacity_ok (extend_from_slice X d b)"
proof -
  let ?c = "if write_capacity b < length d
    then reserve (length (buffer b)) (capacity b) (max (length d) BUF_CHUNK) else capacity b"
  have "length (buffer b) \<le> ?c"
    using assms(3) reserve_room [of "length (buffer b)" "capacity b" "max (length d) BUF_CHUNK"]
    by (auto simp: capacity_ok_def)
  from extend_room [OF this, of "length d"] show ?thesis
    using assms(1,2) by (simp add: extend_from_slice_def capacity_ok_def Let_def split: if_splits)
qed

lemma advance_capacity_ok:
  assumes "bm_advance X = advance" and "capacity_ok b" and "n \<le> length (buffer b)"
  shows "capacity_ok (Esl_Buffer.advance X n b)"
  using assms advance_room [of n "length (buffer b)" "capacity b"]
  by (simp add: Esl_Buffer.advance_def capacity_ok_def)

end

section \<open>Properties\<close>

text \<open>
  C15: the resumed search finds what a full search finds. While the scan offset is a
  watermark below which the pattern does not occur, \<open>extract_until_pattern\<close> cuts the buffer at
  the first occurrence in the whole of it, although it scans only the bytes from the watermark
  on; and every operation of the buffer keeps the watermark.
\<close>

theorem incremental_search:
  assumes "externals_ok X" and "p \<noteq> []" and "watermark p b"
  shows "fst (extract_until_pattern X p b) = map_option (\<lambda>i. take i (buffer b)) (str_find p (buffer b))
    \<and> buffer (snd (extract_until_pattern X p b)) =
        (case str_find p (buffer b) of None \<Rightarrow> buffer b | Some i \<Rightarrow> drop (i + length p) (buffer b))
    \<and> watermark p (snd (extract_until_pattern X p b))
    \<and> watermark p (extend_from_slice X d b) \<and> watermark p (snd (extract_bytes X n b))
    \<and> watermark p (compact X b) \<and> watermark p (clear X b)"
proof -
  have m: "memmem (memmem_find X)" using assms(1) by (simp add: externals_ok_def)
  have "watermark p (clear X b)" using assms(2) by (simp add: watermark_fresh clear_def)
  with memmem.extract_until_pattern_eq [OF m refl assms(2,3)] watermark_extend [OF assms(3)]
    extract_bytes_watermark [OF assms(3)] assms(3)
  show ?thesis by simp
qed

theorem incremental_search_witness:
  defines "X \<equiv> reference_externals"
  defines "b \<equiv> extend_from_slice X [NL, CHR ''b''] (snd (find_pattern X HEADER_TERMINATOR
    (extend_from_slice X [CHR ''a'', NL] (new_buffer X))))"
  shows "scan_offset b = 2 \<and> fst (extract_until_pattern X HEADER_TERMINATOR b) = Some ''a''"
proof -
  have o: "scan_offset b = 2" and f: "str_find HEADER_TERMINATOR (buffer b) = Some 1"
    and c: "buffer b = [CHR ''a'', NL, NL, CHR ''b'']"
    unfolding b_def X_def by code_simp+
  have "watermark HEADER_TERMINATOR b"
    unfolding watermark_def o c by (auto simp: HEADER_TERMINATOR_def)
  with incremental_search [OF reference_externals_ok, of HEADER_TERMINATOR b] o f c show ?thesis
    by (simp add: X_def HEADER_TERMINATOR_def)
qed

text \<open>
  The buffer never runs out of its capacity. The contents stay within the
  capacity under every operation, and after \<open>compact\<close>, which the parser calls after
  each frame, there is room for another chunk of \<open>BUF_CHUNK\<close> bytes.
\<close>

lemma buffer_capacity:
  assumes "externals_ok X" and "capacity_ok b"
  shows "capacity_ok (extend_from_slice X d b) \<and> capacity_ok (snd (extract_bytes X n b))
    \<and> capacity_ok (compact X b) \<and> BUF_CHUNK \<le> write_capacity (compact X b)"
proof -
  have m: "bytes_mut (bm_reserve X) (bm_extend X) (bm_advance X)"
    using assms(1) by (simp add: externals_ok_def)
  have "capacity_ok (snd (extract_bytes X n b))"
    using bytes_mut.advance_capacity_ok [OF m refl assms(2), of n] assms(2)
    by (auto simp: extract_bytes_def capacity_ok_def not_less)
  with bytes_mut.extend_capacity_ok [OF m refl refl assms(2)] bytes_mut.compact_room [OF m refl assms(2)]
  show ?thesis by simp
qed

end
