(* ===== verification/Headers.thy ===== *)
theory Headers
  imports Externals
begin

text \<open>
  Header key normalization, \<open>freeswitch-types/src/headers.rs\<close> after the
  enumeration. The lemmas show that normalization is idempotent, that it only
  changes letter case, and that keys without an underscore which differ in case
  alone normalize to the same key.
\<close>

definition case_alias_key :: "string \<Rightarrow> string option" where
  "case_alias_key key = (if contains_char CHR ''_'' key then None else Some (to_ascii_lowercase key))"

fun title_case_go :: "bool \<Rightarrow> string \<Rightarrow> string" where
  "title_case_go capitalize_next [] = []"
| "title_case_go capitalize_next (c # s) =
     (if c = CHR ''-'' then CHR ''-'' # title_case_go True s
      else if capitalize_next then to_ascii_upper c # title_case_go False s
      else to_ascii_lower c # title_case_go False s)"

definition title_case_dashes :: "string \<Rightarrow> string" where
  "title_case_dashes s = title_case_go True s"

definition normalize_header_key :: "externals \<Rightarrow> string \<Rightarrow> string" where
  "normalize_header_key X raw =
     (case header_from_str X raw of
        Some eh \<Rightarrow> eh_as_str eh
      | None \<Rightarrow> if case_alias_key raw = None then raw else title_case_dashes raw)"

section \<open>Title case\<close>

lemma nonletter_dash: "\<not> is_letter CHR ''-''" and nonletter_underscore: "\<not> is_letter CHR ''_''"
  by (simp_all add: is_letter_def)

lemmas case_nonletter [simp] =
  lower_eq_nonletter [OF nonletter_dash] upper_eq_nonletter [OF nonletter_dash]
  lower_eq_nonletter [OF nonletter_underscore] upper_eq_nonletter [OF nonletter_underscore]

lemma title_case_go_idem: "title_case_go b (title_case_go b s) = title_case_go b s"
  by (induction b s rule: title_case_go.induct) auto

lemma title_case_go_lower: "to_ascii_lowercase (title_case_go b s) = to_ascii_lowercase s"
  by (induction b s rule: title_case_go.induct) (auto simp: to_ascii_lowercase_def)

lemma title_case_go_cong:
  "to_ascii_lowercase s = to_ascii_lowercase t \<Longrightarrow> title_case_go b s = title_case_go b t"
proof (induction b s arbitrary: t rule: title_case_go.induct)
  case (2 b c s)
  then obtain d t' where t: "t = d # t'" and lc: "to_ascii_lower d = to_ascii_lower c"
    and lt: "to_ascii_lowercase s = to_ascii_lowercase t'"
    by (cases t) (auto simp: to_ascii_lowercase_def)
  have dash: "d = CHR ''-'' \<longleftrightarrow> c = CHR ''-''" using lc case_nonletter(1) by metis
  have up: "to_ascii_upper d = to_ascii_upper c" using lc upper_lower by metis
  show ?case using 2 t lc lt dash up by auto
qed (simp add: to_ascii_lowercase_def)

lemma underscore_lower: "CHR ''_'' \<in> set (to_ascii_lowercase s) \<longleftrightarrow> CHR ''_'' \<in> set s"
proof -
  have "CHR ''_'' \<in> set (to_ascii_lowercase s) \<longleftrightarrow> (\<exists>c \<in> set s. to_ascii_lower c = CHR ''_'')"
    unfolding to_ascii_lowercase_def set_map image_iff by metis
  also have "\<dots> \<longleftrightarrow> CHR ''_'' \<in> set s" by simp
  finally show ?thesis .
qed

lemma underscore_case_eq:
  "to_ascii_lowercase s = to_ascii_lowercase t \<Longrightarrow> CHR ''_'' \<in> set s \<longleftrightarrow> CHR ''_'' \<in> set t"
  by (metis underscore_lower)

lemma case_alias_key_cong:
  assumes "to_ascii_lowercase s = to_ascii_lowercase t"
  shows "case_alias_key s = case_alias_key t"
  using assms underscore_case_eq [OF assms] by (simp add: case_alias_key_def contains_char_def)

lemma case_alias_key_eq:
  "case_alias_key k = (if CHR ''_'' \<in> set k then None else Some (to_ascii_lowercase k))"
  by (simp add: case_alias_key_def contains_char_def)

lemma case_alias_key_Some:
  "case_alias_key k = Some a \<longleftrightarrow> CHR ''_'' \<notin> set k \<and> a = to_ascii_lowercase k"
  by (auto simp: case_alias_key_def contains_char_def)

lemma case_alias_key_None: "case_alias_key k = None \<longleftrightarrow> CHR ''_'' \<in> set k"
  by (simp add: case_alias_key_def contains_char_def)

section \<open>Normalization\<close>

locale esl_externals =
  fixes X :: externals
  assumes ok: "externals_ok X"
begin

lemma mm: "memmem (memmem_find X)"
  and bm: "bytes_mut (bm_reserve X) (bm_extend X) (bm_advance X)"
  and pc: "percent_codec (percent_encode X) (percent_decode X)"
  and he: "header_enum (header_from_str X)"
  using ok by (simp_all add: externals_ok_def)

lemmas from_str_sound = header_enum.from_str_sound [OF he]
lemmas from_str_case = header_enum.from_str_case [OF he]
lemmas from_str_as_str = header_enum.from_str_as_str [OF he]
lemmas from_str_canonical = header_enum.from_str_canonical [OF he]
lemmas decode_enc = percent_codec.decode_enc [OF pc]
lemmas decode_plain = percent_codec.decode_plain [OF pc]
lemmas enc_chars = percent_codec.enc_chars [OF pc]

lemma normalize_lower: "to_ascii_lowercase (normalize_header_key X k) = to_ascii_lowercase k"
  by (cases "header_from_str X k")
    (auto simp: normalize_header_key_def title_case_dashes_def title_case_go_lower dest: from_str_sound)

lemma normalize_underscore: "CHR ''_'' \<in> set (normalize_header_key X k) \<longleftrightarrow> CHR ''_'' \<in> set k"
  by (rule underscore_case_eq [OF normalize_lower])

lemma normalize_idem: "normalize_header_key X (normalize_header_key X k) = normalize_header_key X k"
proof (cases "header_from_str X k")
  case (Some h)
  then show ?thesis by (simp add: normalize_header_key_def from_str_canonical)
next
  case None
  have "header_from_str X (title_case_dashes k) = None"
    using None from_str_case [OF title_case_go_lower] by (simp add: title_case_dashes_def)
  with None show ?thesis
    using normalize_underscore [of k]
    by (auto simp: normalize_header_key_def title_case_dashes_def title_case_go_idem case_alias_key_None)
qed

lemma normalize_case_insensitive:
  assumes "to_ascii_lowercase a = to_ascii_lowercase b" and "CHR ''_'' \<notin> set a"
  shows "normalize_header_key X a = normalize_header_key X b"
  using from_str_case [OF assms(1)] title_case_go_cong [OF assms(1)] underscore_case_eq [OF assms(1)] assms(2)
  by (simp add: normalize_header_key_def title_case_dashes_def case_alias_key_None split: option.splits)

lemma normalize_typed: "eh_wf h \<Longrightarrow> normalize_header_key X (eh_as_str h) = eh_as_str h"
  by (simp add: normalize_header_key_def from_str_as_str)

end

interpretation reference: esl_externals reference_externals
  by unfold_locales (rule reference_externals_ok)

lemma esl_externalsI: "externals_ok X \<Longrightarrow> esl_externals X"
  by unfold_locales

end
