(* ===== verification/Esl_Array.thy ===== *)
theory Esl_Array
  imports Rust_Str
begin

text \<open>
  \<open>freeswitch-types/src/variables/esl_array.rs\<close>: the \<open>ARRAY::a|:b|:c\<close> encoding of
  multi-valued headers. Printing a parsed value gives the input back, and parsing
  a printed array gives its items back when no item holds the separator.
\<close>

type_synonym esl_array = "string list"

definition ARRAY_HEADER :: string where "ARRAY_HEADER = ''ARRAY::''"
definition ARRAY_SEPARATOR :: string where "ARRAY_SEPARATOR = ''|:''"
definition MAX_ARRAY_ITEMS :: nat where "MAX_ARRAY_ITEMS = 4000"

datatype esl_array_error =
    MissingPrefix
  | TooManyItems nat nat

fun esl_array_error_display :: "esl_array_error \<Rightarrow> string" where
  "esl_array_error_display MissingPrefix = ''missing ARRAY:: prefix''"
| "esl_array_error_display (TooManyItems count limit) =
     ''array has '' @ dec count @ '' items, maximum is '' @ dec limit"

definition array_parse :: "string \<Rightarrow> esl_array_error + esl_array" where
  "array_parse s =
     bindR (ok_or MissingPrefix (strip_prefix ARRAY_HEADER s)) (\<lambda>body.
       let items = split_str ARRAY_SEPARATOR body in
       if length items > MAX_ARRAY_ITEMS then Inl (TooManyItems (length items) MAX_ARRAY_ITEMS)
       else Inr items)"

definition array_push :: "esl_array \<Rightarrow> string \<Rightarrow> esl_array" where
  "array_push a v = a @ [v]"

definition array_unshift :: "esl_array \<Rightarrow> string \<Rightarrow> esl_array" where
  "array_unshift a v = v # a"

text \<open>\<open>impl Display\<close>: the prefix, then the items with the separator before all but the first.\<close>

fun array_items_display :: "esl_array \<Rightarrow> string" where
  "array_items_display [] = []"
| "array_items_display (x # xs) = x @ concat (map (\<lambda>y. ARRAY_SEPARATOR @ y) xs)"

definition array_display :: "esl_array \<Rightarrow> string" where
  "array_display a = ARRAY_HEADER @ array_items_display a"

section \<open>Round trips\<close>

lemma array_items_display_join: "array_items_display xs = join ARRAY_SEPARATOR xs"
proof (cases xs)
  case (Cons x ys)
  have "concat (map (\<lambda>y. ARRAY_SEPARATOR @ y) ys) = (if ys = [] then [] else ARRAY_SEPARATOR @ join ARRAY_SEPARATOR ys)"
    by (induction ys) (auto simp: join_Cons)
  with Cons show ?thesis by (cases "ys = []") (simp_all add: join_Cons)
qed simp

lemma array_display_parse:
  assumes "array_parse s = Inr a"
  shows "array_display a = s"
proof -
  from assms obtain body where "s = ARRAY_HEADER @ body" "a = split_str ARRAY_SEPARATOR body"
    by (auto simp: array_parse_def Let_def result_elims split: if_splits)
  then show ?thesis
    by (simp add: array_display_def array_items_display_join join_split_str ARRAY_SEPARATOR_def)
qed

lemma separator_first_at:
  assumes "\<not> occurs_in ARRAY_SEPARATOR x"
  shows "first_at ARRAY_SEPARATOR (x @ ARRAY_SEPARATOR @ r) (length x)"
proof -
  have "\<not> prefix ARRAY_SEPARATOR (drop j (x @ ARRAY_SEPARATOR @ r))" if j: "j < length x" for j
  proof
    assume p: "prefix ARRAY_SEPARATOR (drop j (x @ ARRAY_SEPARATOR @ r))"
    show False
    proof (cases "j + 2 \<le> length x")
      case True
      then obtain a b xs where "drop j x = a # b # xs"
        by (metis (no_types) Cons_nth_drop_Suc Suc_le_lessD add_2_eq_Suc' j)
      with p j have "prefix ARRAY_SEPARATOR (drop j x)" by (simp add: ARRAY_SEPARATOR_def)
      with assms j show False by (auto simp: occurs_in_def)
    next
      case False
      then have "drop j x = [x ! j]" using j by (simp add: Cons_nth_drop_Suc [symmetric])
      with p j show False by (simp add: ARRAY_SEPARATOR_def)
    qed
  qed
  then show ?thesis by (simp add: first_at_def)
qed

lemma split_join_items:
  assumes "xs \<noteq> []" and "\<forall>x \<in> set xs. \<not> occurs_in ARRAY_SEPARATOR x"
  shows "split_str ARRAY_SEPARATOR (join ARRAY_SEPARATOR xs) = xs"
  using assms
proof (induction xs)
  case (Cons x xs)
  show ?case
  proof (cases "xs = []")
    case True
    with Cons.prems show ?thesis by (simp add: split_str_single)
  next
    case False
    have "split_str ARRAY_SEPARATOR (x @ ARRAY_SEPARATOR @ join ARRAY_SEPARATOR xs) =
        x # split_str ARRAY_SEPARATOR (join ARRAY_SEPARATOR xs)"
      using Cons.prems by (intro split_str_step separator_first_at) (auto simp: ARRAY_SEPARATOR_def)
    with False Cons show ?thesis by (simp add: join_Cons)
  qed
qed simp

lemma array_parse_display:
  assumes "a \<noteq> []" and "length a \<le> MAX_ARRAY_ITEMS"
    and "\<forall>x \<in> set a. \<not> occurs_in ARRAY_SEPARATOR x"
  shows "array_parse (array_display a) = Inr a"
  using assms split_join_items [OF assms(1,3)]
  by (simp add: array_parse_def array_display_def array_items_display_join)

lemma array_parse_bound: "array_parse s = Inr a \<Longrightarrow> 0 < length a \<and> length a \<le> MAX_ARRAY_ITEMS"
  by (auto simp: array_parse_def Let_def result_elims split: if_splits)

section \<open>Properties\<close>

text \<open>
  The \<open>ARRAY::\<close> encoding is faithful. Printing what was parsed gives the string back,
  always; parsing what was printed gives the items back for every array that is
  not empty, within the limit, and whose items do not hold the separator; and whatever
  parses has at least one and at most \<open>MAX_ARRAY_ITEMS\<close> items.
\<close>

lemma array_roundtrip:
  "(\<forall>s a. array_parse s = Inr a \<longrightarrow> array_display a = s \<and> 0 < length a \<and> length a \<le> MAX_ARRAY_ITEMS)
   \<and> (\<forall>a. a \<noteq> [] \<and> length a \<le> MAX_ARRAY_ITEMS \<and> (\<forall>x \<in> set a. \<not> occurs_in ARRAY_SEPARATOR x) \<longrightarrow>
        array_parse (array_display a) = Inr a)"
  using array_display_parse array_parse_bound array_parse_display by blast

end
