(* ===== verification/Esl_Headers.thy ===== *)
theory Esl_Headers
  imports Headers Esl_Array
begin

text \<open>
  \<open>freeswitch-types/src/variables/esl_headers.rs\<close>: the header store. Writes
  normalize their key; reads try the key as given and then a lowercase alias,
  except for keys that hold an underscore. The locale \<open>header_store\<close> is the
  interface its clients (events, responses) rely on: \<open>resolve\<close> says which stored
  key, if any, a query name denotes. The store meets it for every set of
  third-party functions that satisfies the contracts.
\<close>

record esl_headers =
  hmap :: index_map
  aliases :: index_map

section \<open>Operations\<close>

definition headers_new :: esl_headers where
  "headers_new = \<lparr>hmap = [], aliases = []\<rparr>"

definition headers_insert :: "externals \<Rightarrow> string \<Rightarrow> string \<Rightarrow> esl_headers \<Rightarrow> esl_headers" where
  "headers_insert X key value h =
     (let key = normalize_header_key X key;
          h = (case case_alias_key key of
                 Some alias \<Rightarrow> h\<lparr>aliases := AList.update alias key (aliases h)\<rparr>
               | None \<Rightarrow> h)
      in h\<lparr>hmap := AList.update key value (hmap h)\<rparr>)"

definition headers_get :: "esl_headers \<Rightarrow> string \<Rightarrow> string option" where
  "headers_get h name =
     (case map_of (hmap h) name of
        Some value \<Rightarrow> Some value
      | None \<Rightarrow>
          (case case_alias_key name of
             None \<Rightarrow> None
           | Some alias \<Rightarrow>
               (case map_of (aliases h) alias of
                  None \<Rightarrow> None
                | Some canonical \<Rightarrow> map_of (hmap h) canonical)))"

definition remove_key :: "esl_headers \<Rightarrow> string \<Rightarrow> string option" where
  "remove_key h key =
     (if map_of (hmap h) key \<noteq> None then Some key
      else case case_alias_key key of
             None \<Rightarrow> None
           | Some alias \<Rightarrow> map_of (aliases h) alias)"

definition headers_remove :: "string \<Rightarrow> esl_headers \<Rightarrow> string option \<times> esl_headers" where
  "headers_remove key h =
     (case remove_key h key of
        None \<Rightarrow> (None, h)
      | Some canonical \<Rightarrow>
          let h' = (case case_alias_key canonical of
                      Some alias \<Rightarrow> h\<lparr>aliases := AList.delete alias (aliases h)\<rparr>
                    | None \<Rightarrow> h)
          in (map_of (hmap h') canonical, h'\<lparr>hmap := AList.delete canonical (hmap h')\<rparr>))"

definition headers_extend :: "externals \<Rightarrow> (string \<times> string) list \<Rightarrow> esl_headers \<Rightarrow> esl_headers" where
  "headers_extend X kvs h = fold (\<lambda>(k, v). headers_insert X k v) kvs h"

definition headers_from_map :: "externals \<Rightarrow> index_map \<Rightarrow> esl_headers" where
  "headers_from_map X m = headers_extend X m headers_new"

definition headers_len :: "esl_headers \<Rightarrow> nat" where
  "headers_len h = length (hmap h)"

definition headers_is_empty :: "esl_headers \<Rightarrow> bool" where
  "headers_is_empty h \<longleftrightarrow> hmap h = []"

subsection \<open>List-valued headers\<close>

definition strip_brackets :: "string \<Rightarrow> string" where
  "strip_brackets s =
     (case strip_prefix ''['' s of
        Some inner \<Rightarrow> (case strip_suffix '']'' inner of Some inner \<Rightarrow> inner | None \<Rightarrow> s)
      | None \<Rightarrow> s)"

definition split_entries_ref :: "externals \<Rightarrow> string \<Rightarrow> esl_array_error + string list" where
  "split_entries_ref X value =
     (let value = strip_brackets value in
      case strip_prefix ARRAY_HEADER value of
        Some body \<Rightarrow>
          let items = split_str ARRAY_SEPARATOR body in
          if length items > MAX_ARRAY_ITEMS then Inl (TooManyItems (length items) MAX_ARRAY_ITEMS)
          else Inr items
      | None \<Rightarrow>
          let value = trim value in
          if value = [] then Inr [] else Inr (split_comma_entries X value))"

definition entries_or_whole :: "externals \<Rightarrow> string \<Rightarrow> string list" where
  "entries_or_whole X value = (case split_entries_ref X value of Inr es \<Rightarrow> es | Inl _ \<Rightarrow> [value])"

definition split_multi_value :: "externals \<Rightarrow> string option \<Rightarrow> string \<Rightarrow> string list" where
  "split_multi_value X value name =
     (case value of
        None \<Rightarrow> []
      | Some value \<Rightarrow> if sip_multi_valued X name then entries_or_whole X value else [value])"

section \<open>The interface\<close>

locale header_store =
  fixes empty :: 's
    and insert :: "string \<Rightarrow> string \<Rightarrow> 's \<Rightarrow> 's"
    and get :: "'s \<Rightarrow> string \<Rightarrow> string option"
    and remove :: "string \<Rightarrow> 's \<Rightarrow> string option \<times> 's"
    and canon :: "string \<Rightarrow> string"
    and resolve :: "string \<Rightarrow> string option"
    and invar :: "'s \<Rightarrow> bool"
  assumes invar_empty: "invar empty"
    and get_empty: "get empty n = None"
    and invar_insert: "invar s \<Longrightarrow> invar (insert k v s)"
    and get_insert: "invar s \<Longrightarrow> get (insert k v s) n = (if resolve n = Some (canon k) then Some v else get s n)"
    and invar_remove: "invar s \<Longrightarrow> invar (snd (remove k s))"
    and remove_value: "invar s \<Longrightarrow> fst (remove k s) = get s k"
    and get_remove: "invar s \<Longrightarrow>
        get (snd (remove k s)) n = (if resolve k \<noteq> None \<and> resolve n = resolve k then None else get s n)"
begin

definition insert_all :: "(string \<times> string) list \<Rightarrow> 's \<Rightarrow> 's" where
  "insert_all kvs s = fold (\<lambda>(k, v). insert k v) kvs s"

lemma insert_all_invar: "invar s \<Longrightarrow> invar (insert_all kvs s)"
  by (induction kvs arbitrary: s) (auto simp: insert_all_def invar_insert)

text \<open>The last write to the key a name denotes decides what is read.\<close>

lemma get_insert_all:
  "invar s \<Longrightarrow> get (insert_all kvs s) n =
     (case filter (\<lambda>(k, v). resolve n = Some (canon k)) kvs of
        [] \<Rightarrow> get s n | ws \<Rightarrow> Some (snd (last ws)))"
proof (induction kvs arbitrary: s)
  case (Cons kv kvs)
  obtain k v where kv: "kv = (k, v)" by fastforce
  have "get (insert_all (kv # kvs) s) n = get (insert_all kvs (insert k v s)) n"
    by (simp add: insert_all_def kv)
  also have "\<dots> = (case filter (\<lambda>(k, v). resolve n = Some (canon k)) kvs of
        [] \<Rightarrow> get (insert k v s) n | ws \<Rightarrow> Some (snd (last ws)))"
    by (rule Cons.IH) (simp add: Cons.prems invar_insert)
  finally show ?case
    by (auto simp: kv get_insert Cons.prems split: list.splits)
qed (simp add: insert_all_def)

lemma get_same_key: "invar s \<Longrightarrow> resolve n = resolve m \<Longrightarrow> invar (insert k v s) \<Longrightarrow>
    get s n = get s m \<Longrightarrow> get (insert k v s) n = get (insert k v s) m"
  by (simp add: get_insert)

end

section \<open>The store implements the interface\<close>

definition resolve_name :: "externals \<Rightarrow> string \<Rightarrow> string option" where
  "resolve_name X n =
     (if CHR ''_'' \<in> set n \<and> normalize_header_key X n \<noteq> n then None
      else Some (normalize_header_key X n))"

definition headers_wf :: "externals \<Rightarrow> esl_headers \<Rightarrow> bool" where
  "headers_wf X h \<longleftrightarrow>
     distinct (map fst (hmap h)) \<and>
     (\<forall>k \<in> fst ` set (hmap h). normalize_header_key X k = k) \<and>
     (\<forall>a k. map_of (aliases h) a = Some k \<longleftrightarrow> k \<in> fst ` set (hmap h) \<and> case_alias_key k = Some a)"

lemma headers_wf_key:
  "headers_wf X h \<Longrightarrow> k \<in> fst ` set (hmap h) \<Longrightarrow> normalize_header_key X k = k"
  unfolding headers_wf_def by blast

lemma map_of_in_keys: "map_of m k = None \<longleftrightarrow> k \<notin> fst ` set m"
  by (rule map_of_eq_None_iff)

context esl_externals
begin

lemma canonical_lower_inj:
  assumes "normalize_header_key X j = j" "normalize_header_key X k = k"
    and "to_ascii_lowercase j = to_ascii_lowercase k" and "CHR ''_'' \<notin> set j"
  shows "j = k"
  using normalize_case_insensitive [OF assms(3,4)] assms(1,2) by simp

lemma headers_wf_new: "headers_wf X headers_new"
  by (simp add: headers_wf_def headers_new_def)

lemma insert_hmap:
  "hmap (headers_insert X k v h) = AList.update (normalize_header_key X k) v (hmap h)"
  by (simp add: headers_insert_def Let_def split: option.splits)

lemma insert_aliases:
  "aliases (headers_insert X k v h) =
     (case case_alias_key (normalize_header_key X k) of
        Some a \<Rightarrow> AList.update a (normalize_header_key X k) (aliases h) | None \<Rightarrow> aliases h)"
  by (simp add: headers_insert_def Let_def split: option.splits)

lemma headers_wf_insert:
  assumes wf: "headers_wf X h"
  shows "headers_wf X (headers_insert X k v h)"
proof -
  let ?k = "normalize_header_key X k" and ?h = "headers_insert X k v h"
  have keys: "fst ` set (hmap ?h) = insert ?k (fst ` set (hmap h))"
    by (simp add: insert_hmap keys_update)
  have d: "distinct (map fst (hmap ?h))"
    using wf by (simp add: insert_hmap headers_wf_def distinct_update)
  have n: "\<forall>j \<in> fst ` set (hmap ?h). normalize_header_key X j = j"
    using wf by (auto simp: keys normalize_idem headers_wf_def)
  have "map_of (aliases ?h) a = Some j \<longleftrightarrow> j \<in> fst ` set (hmap ?h) \<and> case_alias_key j = Some a" for a j
  proof -
    have old: "map_of (aliases h) a = Some j \<longleftrightarrow> j \<in> fst ` set (hmap h) \<and> case_alias_key j = Some a"
      using wf by (simp add: headers_wf_def)
    show ?thesis
    proof (cases "case_alias_key ?k = Some a")
      case True
      then have "map_of (aliases ?h) a = Some j \<longleftrightarrow> j = ?k"
        unfolding insert_aliases True by (auto simp: map_of_update)
      moreover have "j = ?k" if "j \<in> fst ` set (hmap h)" "case_alias_key j = Some a"
        using that True wf canonical_lower_inj [of j ?k]
        by (auto simp: headers_wf_def normalize_idem case_alias_key_Some)
      ultimately show ?thesis using True by (auto simp: keys)
    next
      case False
      then have "map_of (aliases ?h) a = map_of (aliases h) a"
        by (cases "case_alias_key ?k") (auto simp: insert_aliases map_of_update)
      with False old show ?thesis by (auto simp: keys)
    qed
  qed
  with d n show ?thesis by (simp add: headers_wf_def)
qed

text \<open>What a read returns: the entry under the key the name denotes.\<close>

lemma headers_get_eq:
  assumes wf: "headers_wf X h"
  shows "headers_get h n = (case resolve_name X n of None \<Rightarrow> None | Some k \<Rightarrow> map_of (hmap h) k)"
proof (cases "map_of (hmap h) n")
  case (Some v)
  then have "normalize_header_key X n = n" using wf by (force simp: headers_wf_def dest: map_of_SomeD)
  with Some show ?thesis by (simp add: headers_get_def resolve_name_def)
next
  case None
  show ?thesis
  proof (cases "CHR ''_'' \<in> set n")
    case True
    with None show ?thesis
      by (simp add: headers_get_def resolve_name_def case_alias_key_def contains_char_def)
  next
    case False
    let ?k = "normalize_header_key X n"
    have ak: "case_alias_key n = Some (to_ascii_lowercase n)" using False by (simp add: case_alias_key_eq)
    have "map_of (aliases h) (to_ascii_lowercase n) = (if ?k \<in> fst ` set (hmap h) then Some ?k else None)"
    proof (cases "?k \<in> fst ` set (hmap h)")
      case True
      moreover have "case_alias_key ?k = Some (to_ascii_lowercase n)"
        using False normalize_underscore normalize_lower by (simp add: case_alias_key_eq)
      ultimately show ?thesis using wf by (simp add: headers_wf_def)
    next
      case no: False
      have "map_of (aliases h) (to_ascii_lowercase n) \<noteq> Some j" for j
      proof
        assume "map_of (aliases h) (to_ascii_lowercase n) = Some j"
        then have j: "j \<in> fst ` set (hmap h)" "to_ascii_lowercase j = to_ascii_lowercase n"
            "CHR ''_'' \<notin> set j"
          using wf by (auto simp: headers_wf_def case_alias_key_Some)
        then have "normalize_header_key X j = ?k" by (metis normalize_case_insensitive)
        moreover have "normalize_header_key X j = j" by (rule headers_wf_key [OF wf j(1)])
        ultimately show False using no j(1) by simp
      qed
      with no show ?thesis by (meson not_None_eq)
    qed
    with None False show ?thesis
      unfolding headers_get_def ak None by (auto simp: resolve_name_def map_of_in_keys [symmetric])
  qed
qed

lemma headers_get_insert:
  assumes "headers_wf X h"
  shows "headers_get (headers_insert X k v h) n =
     (if resolve_name X n = Some (normalize_header_key X k) then Some v else headers_get h n)"
  using headers_get_eq [OF headers_wf_insert [OF assms]] headers_get_eq [OF assms]
  by (auto simp: insert_hmap map_of_update split: option.splits)

lemma resolve_stored:
  assumes "headers_wf X h" and "k \<in> fst ` set (hmap h)"
  shows "resolve_name X k = Some k"
  using assms by (auto simp: headers_wf_def resolve_name_def)

lemma remove_key_eq:
  assumes wf: "headers_wf X h"
  shows "remove_key h k =
    (case resolve_name X k of None \<Rightarrow> None | Some c \<Rightarrow> if c \<in> fst ` set (hmap h) then Some c else None)"
proof (cases "map_of (hmap h) k")
  case (Some v)
  then have "k \<in> fst ` set (hmap h)" by (force dest: map_of_SomeD)
  with Some resolve_stored [OF wf] show ?thesis by (simp add: remove_key_def)
next
  case None
  have g: "headers_get h k = (case resolve_name X k of None \<Rightarrow> None | Some c \<Rightarrow> map_of (hmap h) c)"
    by (rule headers_get_eq [OF wf])
  show ?thesis
  proof (cases "CHR ''_'' \<in> set k")
    case True
    with None show ?thesis
      by (auto simp: remove_key_def resolve_name_def case_alias_key_def contains_char_def map_of_in_keys)
  next
    case False
    let ?c = "normalize_header_key X k"
    have res: "resolve_name X k = Some ?c" using False by (simp add: resolve_name_def)
    have al: "map_of (aliases h) (to_ascii_lowercase k) = Some j \<longleftrightarrow>
        j \<in> fst ` set (hmap h) \<and> j = ?c" for j
    proof -
      have "case_alias_key j = Some (to_ascii_lowercase k) \<longleftrightarrow> j = ?c" if "j \<in> fst ` set (hmap h)"
      proof -
        have jn: "normalize_header_key X j = j" by (rule headers_wf_key [OF wf that])
        have "j = ?c" if "to_ascii_lowercase k = to_ascii_lowercase j"
          using normalize_case_insensitive [OF that False] jn by simp
        moreover have "case_alias_key ?c = Some (to_ascii_lowercase k)"
          using False normalize_lower [of k] normalize_underscore [of k] by (simp add: case_alias_key_eq)
        ultimately show ?thesis by (auto simp: case_alias_key_Some)
      qed
      then show ?thesis using wf by (auto simp: headers_wf_def)
    qed
    have "map_of (aliases h) (to_ascii_lowercase k) = (if ?c \<in> fst ` set (hmap h) then Some ?c else None)"
      by (cases "map_of (aliases h) (to_ascii_lowercase k)") (use al in auto)
    with None False res show ?thesis
      by (simp add: remove_key_def case_alias_key_def contains_char_def)
  qed
qed

lemma headers_remove_eq:
  assumes "headers_wf X h" and "resolve_name X k = Some c" and "c \<in> fst ` set (hmap h)"
  shows "fst (headers_remove k h) = map_of (hmap h) c"
    and "hmap (snd (headers_remove k h)) = AList.delete c (hmap h)"
    and "aliases (snd (headers_remove k h)) =
      (case case_alias_key c of Some a \<Rightarrow> AList.delete a (aliases h) | None \<Rightarrow> aliases h)"
  using assms remove_key_eq [OF assms(1)]
  by (simp_all add: headers_remove_def Let_def split: option.splits)

lemma headers_remove_absent:
  assumes "headers_wf X h" and "\<And>c. resolve_name X k = Some c \<Longrightarrow> c \<notin> fst ` set (hmap h)"
  shows "headers_remove k h = (None, h)"
proof -
  have "remove_key h k = None"
    using assms remove_key_eq [OF assms(1)] by (auto split: option.splits)
  then show ?thesis by (simp add: headers_remove_def)
qed

lemma headers_wf_delete:
  assumes wf: "headers_wf X h" and c: "c \<in> fst ` set (hmap h)"
    and m: "hmap g = AList.delete c (hmap h)"
    and a: "aliases g = (case case_alias_key c of Some a \<Rightarrow> AList.delete a (aliases h) | None \<Rightarrow> aliases h)"
  shows "headers_wf X g"
proof -
  have keys: "fst ` set (hmap g) = fst ` set (hmap h) - {c}" by (simp add: m keys_delete)
  have cn: "normalize_header_key X c = c" by (rule headers_wf_key [OF wf c])
  have "map_of (aliases g) l = Some k \<longleftrightarrow> k \<in> fst ` set (hmap g) \<and> case_alias_key k = Some l" for l k
  proof (cases "case_alias_key c = Some l")
    case True
    have "k = c" if "k \<in> fst ` set (hmap h)" "case_alias_key k = Some l"
      using that True cn wf canonical_lower_inj [of k c] by (auto simp: headers_wf_def case_alias_key_Some)
    moreover have "map_of (aliases g) l = None" unfolding a True by (simp add: map_of_delete)
    ultimately show ?thesis by (auto simp: keys)
  next
    case False
    then have "map_of (aliases g) l = map_of (aliases h) l"
      by (cases "case_alias_key c") (auto simp: a map_of_delete)
    with False wf show ?thesis by (auto simp: headers_wf_def keys)
  qed
  moreover have "distinct (map fst (hmap g))"
    using wf by (simp add: m headers_wf_def distinct_keys_delete)
  moreover have "\<forall>k \<in> fst ` set (hmap g). normalize_header_key X k = k"
    using headers_wf_key [OF wf] by (simp add: keys)
  ultimately show ?thesis by (simp add: headers_wf_def)
qed

lemma headers_remove_cases:
  assumes wf: "headers_wf X h"
  shows "headers_wf X (snd (headers_remove k h))"
    and "fst (headers_remove k h) = headers_get h k"
    and "headers_get (snd (headers_remove k h)) n =
      (if resolve_name X k \<noteq> None \<and> resolve_name X n = resolve_name X k then None else headers_get h n)"
proof -
  consider (hit) c where "resolve_name X k = Some c" "c \<in> fst ` set (hmap h)"
    | (miss) "\<And>c. resolve_name X k = Some c \<Longrightarrow> c \<notin> fst ` set (hmap h)"
    by blast
  then have "headers_wf X (snd (headers_remove k h)) \<and> fst (headers_remove k h) = headers_get h k \<and>
    headers_get (snd (headers_remove k h)) n =
      (if resolve_name X k \<noteq> None \<and> resolve_name X n = resolve_name X k then None else headers_get h n)"
  proof cases
    case hit
    have w: "headers_wf X (snd (headers_remove k h))"
      by (rule headers_wf_delete [OF wf hit(2)]) (simp_all add: headers_remove_eq [OF wf hit])
    have f: "fst (headers_remove k h) = headers_get h k"
      unfolding headers_remove_eq(1) [OF wf hit] headers_get_eq [OF wf] hit(1) by simp
    have "headers_get (snd (headers_remove k h)) n =
      (if resolve_name X n = Some c then None else headers_get h n)"
      unfolding headers_get_eq [OF w] headers_get_eq [OF wf] headers_remove_eq(2) [OF wf hit]
      by (cases "resolve_name X n") (auto simp: map_of_delete)
    with w f hit(1) show ?thesis by auto
  next
    case miss
    have g: "headers_get h m = None" if "resolve_name X m = resolve_name X k" for m
      using miss headers_get_eq [OF wf, of m] that by (auto simp: map_of_in_keys split: option.splits)
    show ?thesis
      using headers_remove_absent [OF wf miss] wf g by auto
  qed
  then show "headers_wf X (snd (headers_remove k h))"
    and "fst (headers_remove k h) = headers_get h k"
    and "headers_get (snd (headers_remove k h)) n =
      (if resolve_name X k \<noteq> None \<and> resolve_name X n = resolve_name X k then None else headers_get h n)"
    by blast+
qed

end

sublocale esl_externals \<subseteq> store: header_store headers_new "headers_insert X" headers_get headers_remove
    "normalize_header_key X" "resolve_name X" "headers_wf X"
proof unfold_locales
  show "headers_get headers_new n = None" for n
    by (simp add: headers_get_def headers_new_def split: option.splits)
qed (rule headers_wf_new headers_wf_insert headers_get_insert headers_remove_cases | assumption)+

context esl_externals
begin

lemma extend_insert_all: "headers_extend X kvs h = store.insert_all kvs h"
  by (simp add: headers_extend_def store.insert_all_def)

lemma from_map_wf: "headers_wf X (headers_from_map X m)"
  by (simp add: headers_from_map_def extend_insert_all store.insert_all_invar headers_wf_new)

lemma from_map_get:
  "headers_get (headers_from_map X m) n =
     (case filter (\<lambda>(k, v). resolve_name X n = Some (normalize_header_key X k)) m of
        [] \<Rightarrow> None | ws \<Rightarrow> Some (snd (last ws)))"
  using store.get_insert_all [OF headers_wf_new, of m n]
  by (simp add: headers_from_map_def extend_insert_all store.get_empty split: list.splits)

end

section \<open>Bracket and array decoding\<close>

lemma strip_brackets_wrapped: "strip_brackets (''['' @ s @ '']'') = s"
proof -
  have "strip_prefix ''['' (''['' @ s @ '']'') = Some (s @ '']'')" by (simp only: strip_prefix_append)
  then show ?thesis by (simp add: strip_brackets_def)
qed

lemma split_entries_array:
  assumes "a \<noteq> []" and "length a \<le> MAX_ARRAY_ITEMS"
    and "\<forall>x \<in> set a. \<not> occurs_in ARRAY_SEPARATOR x"
  shows "split_entries_ref X (''['' @ array_display a @ '']'') = Inr a"
  using assms split_join_items [OF assms(1,3)]
  unfolding split_entries_ref_def strip_brackets_wrapped
  by (simp add: array_display_def array_items_display_join)

lemma entries_or_whole_bound: "length (entries_or_whole X v) \<le> MAX_ARRAY_ITEMS \<or>
    (\<exists>w. entries_or_whole X v = split_comma_entries X w)"
  by (auto simp: entries_or_whole_def split_entries_ref_def Let_def MAX_ARRAY_ITEMS_def
      split: option.splits sum.splits if_splits)

context esl_externals
begin

lemma resolve_case_insensitive:
  assumes "to_ascii_lowercase n = to_ascii_lowercase m" and "CHR ''_'' \<notin> set n"
  shows "resolve_name X n = resolve_name X m"
  using normalize_case_insensitive [OF assms] underscore_case_eq [OF assms(1)] assms(2)
  by (simp add: resolve_name_def)

end

section \<open>Properties\<close>

text \<open>
  C31: a header read returns the last write to the key it denotes. A name denotes its
  normalized key, except that a name with an underscore denotes only itself;
  inserting under \<open>k\<close> changes what is read under the names that denote the normalized
  \<open>k\<close> and nothing else, and keeps the invariant between the map and its alias index.
\<close>

theorem header_insert_get:
  assumes "externals_ok X" and "headers_wf X h"
  shows "headers_wf X (headers_insert X k v h) \<and> headers_get (headers_insert X k v h) n =
    (if resolve_name X n = Some (normalize_header_key X k) then Some v else headers_get h n)"
  using esl_externals.headers_get_insert [OF esl_externalsI [OF assms(1)] assms(2)]
    esl_externals.headers_wf_insert [OF esl_externalsI [OF assms(1)] assms(2)] by simp

theorem header_insert_get_witness:
  "headers_get (headers_insert reference_externals ''job-uuid'' ''7'' headers_new) ''JOB-UUID'' = Some ''7''"
proof -
  have "resolve_name reference_externals ''JOB-UUID'' = Some (normalize_header_key reference_externals ''job-uuid'')"
    by code_simp
  with header_insert_get [OF reference_externals_ok reference.headers_wf_new] show ?thesis by simp
qed

text \<open>
  Removing a header removes exactly the entry its name denotes. \<open>remove\<close> returns what
  a read of the name would have returned; afterwards every name that denotes the same key
  reads as absent, every other name reads as before, and the invariant holds.
\<close>

lemma header_remove_get:
  assumes "externals_ok X" and "headers_wf X h"
  shows "fst (headers_remove k h) = headers_get h k \<and> headers_wf X (snd (headers_remove k h)) \<and>
    headers_get (snd (headers_remove k h)) n =
      (if resolve_name X k \<noteq> None \<and> resolve_name X n = resolve_name X k then None else headers_get h n)"
  using esl_externals.headers_remove_cases [OF esl_externalsI [OF assms(1)] assms(2)] by simp

text \<open>
  Header names without an underscore are case-insensitive. Whatever was inserted, in
  whatever casing, two names that differ only in case read the same value; and
  normalization is idempotent, so re-inserting a stored key does not move it.
\<close>

lemma header_case_insensitive:
  assumes "externals_ok X" and "to_ascii_lowercase n = to_ascii_lowercase m" and "CHR ''_'' \<notin> set n"
  shows "headers_get (headers_from_map X kvs) n = headers_get (headers_from_map X kvs) m
    \<and> normalize_header_key X (normalize_header_key X n) = normalize_header_key X n"
  using esl_externals.resolve_case_insensitive [OF esl_externalsI [OF assms(1)] assms(2,3)]
    esl_externals.from_map_get [OF esl_externalsI [OF assms(1)]]
    esl_externals.normalize_idem [OF esl_externalsI [OF assms(1)]]
  by simp

text \<open>
  C40: a typed header with an underscore, written in another casing, cannot be read back
  by the name it was written under. The write normalizes the key to the canonical
  spelling, while the read neither normalizes nor falls back to the alias index for names with
  an underscore. The documentation has such names exempt from both.
\<close>

theorem underscore_write_unreadable:
  assumes "externals_ok X" and "headers_wf X h"
    and "CHR ''_'' \<in> set k" and "normalize_header_key X k \<noteq> k"
  shows "headers_get (headers_insert X k v h) k = None
    \<and> headers_get (headers_insert X k v h) (normalize_header_key X k) = Some v"
proof -
  note X = esl_externalsI [OF assms(1)]
  have r: "resolve_name X k = None" using assms(3,4) by (simp add: resolve_name_def)
  have r': "resolve_name X (normalize_header_key X k) = Some (normalize_header_key X k)"
    using esl_externals.normalize_idem [OF X, of k] by (simp add: resolve_name_def)
  show ?thesis
    using esl_externals.headers_get_insert [OF X assms(2)] esl_externals.headers_get_eq [OF X assms(2)] r r'
    by simp
qed

theorem underscore_write_unreadable_witness:
  "headers_get (headers_insert reference_externals ''PL_DATA'' ''x'' headers_new) ''PL_DATA'' = None"
proof -
  have "normalize_header_key reference_externals ''PL_DATA'' = ''pl_data''" by code_simp
  with underscore_write_unreadable [OF reference_externals_ok reference.headers_wf_new, of "''PL_DATA''" "''x''"]
  show ?thesis by simp
qed

end
