(* ===== verification/Event_Type.thy ===== *)
theory Event_Type
  imports Rust_Str
begin

text \<open>
  \<open>freeswitch-types/src/event/event_type.rs\<close> and \<open>format.rs\<close>: the event types, a
  table of variants with wire name and groups there and here, and the small
  enumerations \<open>EventFormat\<close> and \<open>EslEventPriority\<close> that the macro \<open>wire_enum!\<close>
  generates. The lemmas are the round trips between variants and wire names.
\<close>

datatype event_group = Channel | In_Call | Media | Presence | System | Conference

datatype esl_event_type = EslEventType (et_as_str: string)

definition esl_event_types :: "(string \<times> string \<times> event_group list) list" where
  "esl_event_types =
     [(''Custom'', ''CUSTOM'', []),
      (''Clone'', ''CLONE'', []),
      (''ChannelCreate'', ''CHANNEL_CREATE'', [Channel]),
      (''ChannelDestroy'', ''CHANNEL_DESTROY'', [Channel]),
      (''ChannelState'', ''CHANNEL_STATE'', [Channel]),
      (''ChannelCallstate'', ''CHANNEL_CALLSTATE'', [Channel]),
      (''ChannelAnswer'', ''CHANNEL_ANSWER'', [Channel]),
      (''ChannelHangup'', ''CHANNEL_HANGUP'', [Channel]),
      (''ChannelHangupComplete'', ''CHANNEL_HANGUP_COMPLETE'', [Channel]),
      (''ChannelExecute'', ''CHANNEL_EXECUTE'', [Channel]),
      (''ChannelExecuteComplete'', ''CHANNEL_EXECUTE_COMPLETE'', [Channel]),
      (''ChannelHold'', ''CHANNEL_HOLD'', [Channel]),
      (''ChannelUnhold'', ''CHANNEL_UNHOLD'', [Channel]),
      (''ChannelBridge'', ''CHANNEL_BRIDGE'', [Channel]),
      (''ChannelUnbridge'', ''CHANNEL_UNBRIDGE'', [Channel]),
      (''ChannelProgress'', ''CHANNEL_PROGRESS'', [Channel]),
      (''ChannelProgressMedia'', ''CHANNEL_PROGRESS_MEDIA'', [Channel]),
      (''ChannelOutgoing'', ''CHANNEL_OUTGOING'', [Channel]),
      (''ChannelPark'', ''CHANNEL_PARK'', [Channel]),
      (''ChannelUnpark'', ''CHANNEL_UNPARK'', [Channel]),
      (''ChannelApplication'', ''CHANNEL_APPLICATION'', [Channel]),
      (''ChannelOriginate'', ''CHANNEL_ORIGINATE'', [Channel]),
      (''ChannelUuid'', ''CHANNEL_UUID'', [Channel]),
      (''Api'', ''API'', []),
      (''Log'', ''LOG'', []),
      (''InboundChan'', ''INBOUND_CHAN'', []),
      (''OutboundChan'', ''OUTBOUND_CHAN'', []),
      (''Startup'', ''STARTUP'', [System]),
      (''Shutdown'', ''SHUTDOWN'', [System]),
      (''Publish'', ''PUBLISH'', []),
      (''Unpublish'', ''UNPUBLISH'', []),
      (''Talk'', ''TALK'', [In_Call]),
      (''Notalk'', ''NOTALK'', [In_Call]),
      (''SessionCrash'', ''SESSION_CRASH'', [System]),
      (''ModuleLoad'', ''MODULE_LOAD'', [System]),
      (''ModuleUnload'', ''MODULE_UNLOAD'', [System]),
      (''Dtmf'', ''DTMF'', [In_Call]),
      (''Message'', ''MESSAGE'', []),
      (''PresenceIn'', ''PRESENCE_IN'', [Presence]),
      (''NotifyIn'', ''NOTIFY_IN'', []),
      (''PresenceOut'', ''PRESENCE_OUT'', [Presence]),
      (''PresenceProbe'', ''PRESENCE_PROBE'', [Presence]),
      (''MessageWaiting'', ''MESSAGE_WAITING'', [Presence]),
      (''MessageQuery'', ''MESSAGE_QUERY'', [Presence]),
      (''Roster'', ''ROSTER'', [Presence]),
      (''Codec'', ''CODEC'', []),
      (''BackgroundJob'', ''BACKGROUND_JOB'', []),
      (''DetectedSpeech'', ''DETECTED_SPEECH'', [Media]),
      (''DetectedTone'', ''DETECTED_TONE'', [Media]),
      (''PrivateCommand'', ''PRIVATE_COMMAND'', []),
      (''Heartbeat'', ''HEARTBEAT'', [System]),
      (''Trap'', ''TRAP'', []),
      (''AddSchedule'', ''ADD_SCHEDULE'', []),
      (''DelSchedule'', ''DEL_SCHEDULE'', []),
      (''ExeSchedule'', ''EXE_SCHEDULE'', []),
      (''ReSchedule'', ''RE_SCHEDULE'', []),
      (''ReloadXml'', ''RELOADXML'', [System]),
      (''Notify'', ''NOTIFY'', []),
      (''PhoneFeature'', ''PHONE_FEATURE'', []),
      (''PhoneFeatureSubscribe'', ''PHONE_FEATURE_SUBSCRIBE'', []),
      (''SendMessage'', ''SEND_MESSAGE'', []),
      (''RecvMessage'', ''RECV_MESSAGE'', []),
      (''RequestParams'', ''REQUEST_PARAMS'', []),
      (''ChannelData'', ''CHANNEL_DATA'', [Channel]),
      (''General'', ''GENERAL'', []),
      (''Command'', ''COMMAND'', []),
      (''SessionHeartbeat'', ''SESSION_HEARTBEAT'', [System]),
      (''ClientDisconnected'', ''CLIENT_DISCONNECTED'', []),
      (''ServerDisconnected'', ''SERVER_DISCONNECTED'', []),
      (''SendInfo'', ''SEND_INFO'', []),
      (''RecvInfo'', ''RECV_INFO'', []),
      (''RecvRtcpMessage'', ''RECV_RTCP_MESSAGE'', [In_Call]),
      (''SendRtcpMessage'', ''SEND_RTCP_MESSAGE'', [In_Call]),
      (''CallSecure'', ''CALL_SECURE'', [In_Call]),
      (''Nat'', ''NAT'', []),
      (''RecordStart'', ''RECORD_START'', [Media]),
      (''RecordStop'', ''RECORD_STOP'', [Media]),
      (''PlaybackStart'', ''PLAYBACK_START'', [Media]),
      (''PlaybackStop'', ''PLAYBACK_STOP'', [Media]),
      (''CallUpdate'', ''CALL_UPDATE'', [In_Call]),
      (''Failure'', ''FAILURE'', []),
      (''SocketData'', ''SOCKET_DATA'', []),
      (''MediaBugStart'', ''MEDIA_BUG_START'', [Media]),
      (''MediaBugStop'', ''MEDIA_BUG_STOP'', [Media]),
      (''ConferenceDataQuery'', ''CONFERENCE_DATA_QUERY'', [Conference]),
      (''ConferenceData'', ''CONFERENCE_DATA'', [Conference]),
      (''CallSetupReq'', ''CALL_SETUP_REQ'', []),
      (''CallSetupResult'', ''CALL_SETUP_RESULT'', []),
      (''CallDetail'', ''CALL_DETAIL'', []),
      (''DeviceState'', ''DEVICE_STATE'', []),
      (''Text'', ''TEXT'', []),
      (''ShutdownRequested'', ''SHUTDOWN_REQUESTED'', [System]),
      (''All'', ''ALL'', []),
      (''StartRecording'', ''START_RECORDING'', [Media])]"

definition event_type_names :: "string list" where
  "event_type_names = map (\<lambda>(_, wire, _). wire) esl_event_types"

definition parse_event_type :: "string \<Rightarrow> esl_event_type option" where
  "parse_event_type s = (if s \<in> set event_type_names then Some (EslEventType s) else None)"

text \<open>The group constants: the rows whose tag list holds the group, in table order.\<close>

definition group_events :: "event_group \<Rightarrow> esl_event_type list" where
  "group_events g =
     map (\<lambda>(_, wire, _). EslEventType wire) (filter (\<lambda>(_, _, gs). g \<in> set gs) esl_event_types)"

definition CHANNEL_EVENTS :: "esl_event_type list" where "CHANNEL_EVENTS = group_events Channel"
definition IN_CALL_EVENTS :: "esl_event_type list" where "IN_CALL_EVENTS = group_events In_Call"
definition MEDIA_EVENTS :: "esl_event_type list" where "MEDIA_EVENTS = group_events Media"
definition PRESENCE_EVENTS :: "esl_event_type list" where "PRESENCE_EVENTS = group_events Presence"
definition SYSTEM_EVENTS :: "esl_event_type list" where "SYSTEM_EVENTS = group_events System"
definition CONFERENCE_EVENTS :: "esl_event_type list" where "CONFERENCE_EVENTS = group_events Conference"

datatype parse_error = ParseError (label: string) (rejected: string)

definition parse_error_display :: "parse_error \<Rightarrow> string" where
  "parse_error_display e = ''unknown '' @ label e @ '' ('' @ dec (length (rejected e)) @ '' bytes)''"

definition event_type_from_str :: "string \<Rightarrow> parse_error + esl_event_type" where
  "event_type_from_str s = ok_or (ParseError ''event type'' s) (parse_event_type s)"

abbreviation Et_Custom :: esl_event_type where "Et_Custom \<equiv> EslEventType ''CUSTOM''"
abbreviation Et_All :: esl_event_type where "Et_All \<equiv> EslEventType ''ALL''"
abbreviation Et_BackgroundJob :: esl_event_type where "Et_BackgroundJob \<equiv> EslEventType ''BACKGROUND_JOB''"
abbreviation Et_Log :: esl_event_type where "Et_Log \<equiv> EslEventType ''LOG''"

section \<open>Event formats and priorities\<close>

datatype event_format = Plain | Json | Xml

fun format_as_str :: "event_format \<Rightarrow> string" where
  "format_as_str Plain = ''plain''"
| "format_as_str Json = ''json''"
| "format_as_str Xml = ''xml''"

definition format_from_str :: "string \<Rightarrow> parse_error + event_format" where
  "format_from_str s =
     (if eq_ignore_ascii_case s ''plain'' then Inr Plain
      else if eq_ignore_ascii_case s ''json'' then Inr Json
      else if eq_ignore_ascii_case s ''xml'' then Inr Xml
      else Inl (ParseError ''event format'' s))"

definition from_content_type :: "string \<Rightarrow> parse_error + event_format" where
  "from_content_type ct =
     (if ct = ''text/event-json'' then Inr Json
      else if ct = ''text/event-xml'' then Inr Xml
      else if ct = ''text/event-plain'' then Inr Plain
      else Inl (ParseError ''event format'' ct))"

datatype esl_event_priority = Normal | Low | High

fun priority_as_str :: "esl_event_priority \<Rightarrow> string" where
  "priority_as_str Normal = ''NORMAL''"
| "priority_as_str Low = ''LOW''"
| "priority_as_str High = ''HIGH''"

definition priority_from_str :: "string \<Rightarrow> parse_error + esl_event_priority" where
  "priority_from_str s =
     (if s = ''NORMAL'' then Inr Normal
      else if s = ''LOW'' then Inr Low
      else if s = ''HIGH'' then Inr High
      else Inl (ParseError ''priority'' s))"

section \<open>Round trips\<close>

text \<open>A variant of the enumeration is a row of the table.\<close>

definition et_wf :: "esl_event_type \<Rightarrow> bool" where
  "et_wf t \<longleftrightarrow> et_as_str t \<in> set event_type_names"

lemma parse_event_type_as_str [simp]: "et_wf t \<Longrightarrow> parse_event_type (et_as_str t) = Some t"
  by (simp add: parse_event_type_def et_wf_def)

lemma parse_event_type_Some: "parse_event_type s = Some t \<longleftrightarrow> et_wf t \<and> et_as_str t = s"
  by (auto simp: parse_event_type_def et_wf_def)

lemma group_events_wf: "t \<in> set (group_events g) \<Longrightarrow> et_wf t"
  by (force simp: group_events_def et_wf_def event_type_names_def)

lemma format_roundtrip: "format_from_str (format_as_str f) = Inr f"
  by (cases f) (simp_all add: format_from_str_def eq_ignore_ascii_case_def to_ascii_lowercase_def
      to_ascii_lower_def)

lemma priority_roundtrip: "priority_from_str (priority_as_str p) = Inr p"
  by (cases p) (simp_all add: priority_from_str_def)

lemma from_content_type_as_str: "from_content_type (''text/event-'' @ format_as_str f) = Inr f"
  by (cases f) (simp_all add: from_content_type_def)

text \<open>Wire names of event types hold no separator: one token of a subscription each.\<close>

lemma event_type_names_tokens:
  "list_all (\<lambda>n. n \<noteq> [] \<and> list_all (\<lambda>c. is_letter c \<or> c = CHR ''_'') n) event_type_names"
  by code_simp

lemma et_wf_token:
  assumes "et_wf t"
  shows "et_as_str t \<noteq> []" and "c \<in> set (et_as_str t) \<Longrightarrow> is_letter c \<or> c = CHR ''_''"
  using assms event_type_names_tokens by (auto simp: et_wf_def list_all_iff)

lemma et_wf_named: "et_wf Et_Custom" "et_wf Et_All" "et_wf Et_BackgroundJob" "et_wf Et_Log"
  by code_simp+

end
