(* ===== verification/Event.thy ===== *)
theory Event
  imports Esl_Headers Event_Type
begin

text \<open>
  \<open>freeswitch-types/src/event/mod.rs\<close> and \<open>lossy_values.rs\<close>: the event, its
  accessors, the stacking of multi-valued headers and the plain serialization.
  The lemmas say what a read returns after each write and what stacking does to
  the array a header holds.
\<close>

record lossy_value =
  lv_key :: string
  lv_raw_value :: string

type_synonym lossy_values = "lossy_value list"

definition lossy_value_new :: "string \<Rightarrow> string \<Rightarrow> lossy_value" where
  "lossy_value_new k r = \<lparr>lv_key = k, lv_raw_value = r\<rparr>"

definition lossy_push :: "lossy_value \<Rightarrow> lossy_values \<Rightarrow> lossy_values" where
  "lossy_push v vs = vs @ [v]"

definition lossy_display :: "lossy_values \<Rightarrow> string" where
  "lossy_display vs = join '', '' (map lv_key vs)"

record esl_event =
  ev_headers :: esl_headers
  ev_body :: "string option"
  ev_raw_body :: "string option"
  ev_lossy_values :: lossy_values

definition event_new :: esl_event where
  "event_new = \<lparr>ev_headers = headers_new, ev_body = None, ev_raw_body = None, ev_lossy_values = []\<rparr>"

definition header_str :: "esl_event \<Rightarrow> string \<Rightarrow> string option" where
  "header_str ev name = headers_get (ev_headers ev) name"

definition event_header :: "esl_event \<Rightarrow> event_header \<Rightarrow> string option" where
  "event_header ev name = header_str ev (eh_as_str name)"

definition variable_key :: "string \<Rightarrow> string" where
  "variable_key name = ''variable_'' @ name"

definition variable_str :: "esl_event \<Rightarrow> string \<Rightarrow> string option" where
  "variable_str ev name = header_str ev (variable_key name)"

definition set_header :: "externals \<Rightarrow> string \<Rightarrow> string \<Rightarrow> esl_event \<Rightarrow> esl_event" where
  "set_header X name value ev = ev\<lparr>ev_headers := headers_insert X name value (ev_headers ev)\<rparr>"

definition remove_header :: "string \<Rightarrow> esl_event \<Rightarrow> string option \<times> esl_event" where
  "remove_header name ev =
     (let (v, hs) = headers_remove name (ev_headers ev) in (v, ev\<lparr>ev_headers := hs\<rparr>))"

definition set_body :: "string \<Rightarrow> esl_event \<Rightarrow> esl_event" where
  "set_body b ev = ev\<lparr>ev_body := Some b\<rparr>"

definition set_raw_body :: "string \<Rightarrow> esl_event \<Rightarrow> esl_event" where
  "set_raw_body b ev = ev\<lparr>ev_raw_body := Some b\<rparr>"

definition set_lossy_values :: "lossy_values \<Rightarrow> esl_event \<Rightarrow> esl_event" where
  "set_lossy_values v ev = ev\<lparr>ev_lossy_values := v\<rparr>"

definition event_type :: "esl_event \<Rightarrow> esl_event_type option" where
  "event_type ev = Option.bind (event_header ev EventName) parse_event_type"

definition with_type :: "externals \<Rightarrow> esl_event_type \<Rightarrow> esl_event" where
  "with_type X t = set_header X (eh_as_str EventName) (et_as_str t) event_new"

definition is_event_type :: "esl_event \<Rightarrow> esl_event_type \<Rightarrow> bool" where
  "is_event_type ev t \<longleftrightarrow> event_type ev = Some t"

definition set_priority :: "externals \<Rightarrow> esl_event_priority \<Rightarrow> esl_event \<Rightarrow> esl_event" where
  "set_priority X p ev = set_header X (eh_as_str Priority) (priority_as_str p) ev"

definition stack_header ::
  "externals \<Rightarrow> string \<Rightarrow> string \<Rightarrow> (esl_array \<Rightarrow> string \<Rightarrow> esl_array) \<Rightarrow> esl_event \<Rightarrow>
    esl_array_error + esl_event" where
  "stack_header X name value op ev =
     (case header_str ev name of
        None \<Rightarrow> Inr (set_header X name value ev)
      | Some existing \<Rightarrow>
          bindR (case array_parse existing of
                   Inr arr \<Rightarrow> Inr arr
                 | Inl MissingPrefix \<Rightarrow> Inr [existing]
                 | Inl e \<Rightarrow> Inl e) (\<lambda>arr.
            if length arr \<ge> MAX_ARRAY_ITEMS then Inl (TooManyItems (length arr) MAX_ARRAY_ITEMS)
            else Inr (set_header X name (array_display (op arr value)) ev)))"

definition push_header :: "externals \<Rightarrow> string \<Rightarrow> string \<Rightarrow> esl_event \<Rightarrow> esl_array_error + esl_event" where
  "push_header X name value ev = stack_header X name value array_push ev"

definition unshift_header :: "externals \<Rightarrow> string \<Rightarrow> string \<Rightarrow> esl_event \<Rightarrow> esl_array_error + esl_event" where
  "unshift_header X name value ev = stack_header X name value array_unshift ev"

definition to_plain_format :: "externals \<Rightarrow> esl_event \<Rightarrow> string" where
  "to_plain_format X ev =
     concat (map (\<lambda>(key, value).
       if key = ''Content-Length'' then [] else key @ '': '' @ percent_encode X value @ [NL])
       (hmap (ev_headers ev))) @
     (case ev_body ev of
        Some body \<Rightarrow> ''Content-Length: '' @ dec (length body) @ [NL, NL] @ body
      | None \<Rightarrow> [NL])"

definition event_eq :: "esl_event \<Rightarrow> esl_event \<Rightarrow> bool" where
  "event_eq a b \<longleftrightarrow> ev_headers a = ev_headers b \<and> ev_body a = ev_body b"

section \<open>Reads after writes\<close>

definition event_wf :: "externals \<Rightarrow> esl_event \<Rightarrow> bool" where
  "event_wf X ev \<longleftrightarrow> headers_wf X (ev_headers ev)"

text \<open>The items a header holds: what \<open>EslArray::parse\<close> reads, or the plain value alone.\<close>

definition header_items :: "string \<Rightarrow> string list" where
  "header_items v = (case array_parse v of Inr a \<Rightarrow> a | Inl _ \<Rightarrow> [v])"

context esl_externals
begin

lemma event_wf_new: "event_wf X event_new"
  by (simp add: event_wf_def event_new_def headers_wf_new)

lemma event_wf_set: "event_wf X ev \<Longrightarrow> event_wf X (set_header X k v ev)"
  by (simp add: event_wf_def set_header_def headers_wf_insert)

lemma header_str_set:
  "event_wf X ev \<Longrightarrow> header_str (set_header X k v ev) n =
     (if resolve_name X n = Some (normalize_header_key X k) then Some v else header_str ev n)"
  by (simp add: event_wf_def header_str_def set_header_def headers_get_insert)

lemma resolve_same: "resolve_name X n \<noteq> None \<Longrightarrow> resolve_name X n = Some (normalize_header_key X n)"
  by (simp add: resolve_name_def split: if_splits)

lemma resolve_typed: "eh_wf h \<Longrightarrow> resolve_name X (eh_as_str h) = Some (eh_as_str h)"
  by (simp add: resolve_name_def normalize_typed)

lemmas resolve_event_name = resolve_typed [OF eh_wf_named(1), simplified]
lemmas normalize_event_name = normalize_typed [OF eh_wf_named(1), simplified]

lemma event_type_with_type: "et_wf t \<Longrightarrow> event_type (with_type X t) = Some t"
  by (simp add: event_type_def event_header_def with_type_def header_str_set event_wf_new
      resolve_event_name normalize_event_name)

lemma event_type_set_other:
  assumes "event_wf X ev" and "normalize_header_key X k \<noteq> eh_as_str EventName"
  shows "event_type (set_header X k v ev) = event_type ev"
  using assms by (simp add: event_type_def event_header_def header_str_set resolve_event_name)

text \<open>Stacking on a header that can be read back appends to the array it holds.\<close>

lemma stack_header_cases:
  assumes "event_wf X ev" and "resolve_name X n \<noteq> None"
  shows "header_str ev n = None \<Longrightarrow> \<exists>ev'. stack_header X n v op ev = Inr ev' \<and> header_str ev' n = Some v"
    and "header_str ev n = Some old \<Longrightarrow> 
      length (header_items old) < MAX_ARRAY_ITEMS \<Longrightarrow> (\<And>c l. array_parse old \<noteq> Inl (TooManyItems c l)) \<Longrightarrow>
      \<exists>ev'. stack_header X n v op ev = Inr ev' \<and>
        header_str ev' n = Some (array_display (op (header_items old) v))"
proof -
  have r: "resolve_name X n = Some (normalize_header_key X n)" by (rule resolve_same [OF assms(2)])
  show "\<exists>ev'. stack_header X n v op ev = Inr ev' \<and> header_str ev' n = Some v"
    if "header_str ev n = None"
    using that assms r by (simp add: stack_header_def header_str_set)
  show "\<exists>ev'. stack_header X n v op ev = Inr ev' \<and>
        header_str ev' n = Some (array_display (op (header_items old) v))"
    if "header_str ev n = Some old" "length (header_items old) < MAX_ARRAY_ITEMS"
      "\<And>c l. array_parse old \<noteq> Inl (TooManyItems c l)"
    using that assms r
    by (auto simp: stack_header_def header_str_set header_items_def
        split: sum.splits esl_array_error.splits)
qed

end

section \<open>Properties\<close>

text \<open>
  Pushing on a header appends to the list it holds. On a name that can be read back
  \<open>push_header\<close> stores a first value as it is; on a stored value it appends to the
  array the value encodes, a plain value counting as an array of one; and \<open>unshift_header\<close>
  puts the new item first. At the limit of \<open>MAX_ARRAY_ITEMS\<close> it refuses and changes nothing.
\<close>

lemma push_header_appends:
  assumes "externals_ok X" and "event_wf X ev" and "resolve_name X n \<noteq> None"
  shows "case header_str ev n of
      None \<Rightarrow> \<exists>ev'. push_header X n v ev = Inr ev' \<and> unshift_header X n v ev = Inr ev' \<and> header_str ev' n = Some v
    | Some old \<Rightarrow>
        if length (header_items old) < MAX_ARRAY_ITEMS \<and> (\<forall>c l. array_parse old \<noteq> Inl (TooManyItems c l)) then
          (\<exists>ev'. push_header X n v ev = Inr ev' \<and>
             header_str ev' n = Some (array_display (header_items old @ [v]))) \<and>
          (\<exists>ev'. unshift_header X n v ev = Inr ev' \<and>
             header_str ev' n = Some (array_display (v # header_items old)))
        else \<exists>e. push_header X n v ev = Inl e \<and> unshift_header X n v ev = Inl e"
proof (cases "header_str ev n")
  case None
  from esl_externals.stack_header_cases(1) [OF esl_externalsI [OF assms(1)] assms(2,3) None]
  show ?thesis by (simp add: None push_header_def unshift_header_def stack_header_def)
next
  case (Some old)
  note stack = esl_externals.stack_header_cases(2) [OF esl_externalsI [OF assms(1)] assms(2,3) Some]
  show ?thesis
  proof (cases "length (header_items old) < MAX_ARRAY_ITEMS \<and> (\<forall>c l. array_parse old \<noteq> Inl (TooManyItems c l))")
    case True
    with stack [of v array_push] stack [of v array_unshift] Some show ?thesis
      by (simp add: push_header_def unshift_header_def array_push_def array_unshift_def)
  next
    case False
    have "\<exists>e. \<forall>op. stack_header X n v op ev = Inl e"
      using False
      by (cases "array_parse old")
        (auto simp: Some stack_header_def header_items_def MAX_ARRAY_ITEMS_def split: esl_array_error.splits)
    with False Some show ?thesis by (auto simp: push_header_def unshift_header_def)
  qed
qed

end
