(* ===== verification/Protocol.thy ===== *)
theory Protocol
  imports Esl_Buffer Event
begin

text \<open>
  \<open>src/protocol/mod.rs\<close>: message framing. \<open>parse_message\<close> and the functions it
  calls are translated over the buffer of \<open>Esl_Buffer\<close>; each returns its result
  beside the changed parser. The abstraction is a parser over plain byte strings,
  \<open>frame\<close>: it sees the unconsumed bytes only, searches from the front and has no
  capacity or watermark. The refinement lemma \<open>parse_message_frame\<close> transfers
  what is shown of \<open>frame\<close> (progress, independence of how the bytes arrive in
  chunks) to the parser.
\<close>

section \<open>Header lines and header blocks\<close>

definition parse_header_line :: "externals \<Rightarrow> string \<Rightarrow> (string \<times> string) option esl_result" where
  "parse_header_line X line =
     (let line = unwrap_or line (strip_suffix [CR] line) in
      if line = [] then Inr None
      else case char_find COLON line of
             None \<Rightarrow> Inl (InvalidHeader line)
           | Some colon_pos \<Rightarrow>
               let key = normalize_header_key X (take colon_pos line);
                   rest = drop (colon_pos + 1) line;
                   raw_value = unwrap_or rest (strip_prefix [SP] rest)
               in Inr (Some (key, raw_value)))"

definition lossy_sink :: "bool \<Rightarrow> lossy_values \<Rightarrow> lossy_values option" where
  "lossy_sink strict acc = (if strict then None else Some acc)"

definition decode_value ::
  "externals \<Rightarrow> string \<Rightarrow> string \<Rightarrow> string \<Rightarrow> lossy_values option \<Rightarrow>
    (string \<times> lossy_values option) esl_result" where
  "decode_value X key raw_value context lossy =
     (case from_utf8 (percent_decode X raw_value) of
        Inr s \<Rightarrow> Inr (s, lossy)
      | Inl source \<Rightarrow>
          (case lossy of
             None \<Rightarrow> Inl (InvalidUtf8InHeader context key source)
           | Some acc \<Rightarrow>
               Inr (utf8_lossy (percent_decode X raw_value),
                    Some (lossy_push (lossy_value_new key raw_value) acc))))"

text \<open>
  One iteration of the loop of \<open>decode_header_block\<close>: the accumulator of lossy
  values (absent under strict decoding) and the state of the sink.
\<close>

definition decode_header_step ::
  "externals \<Rightarrow> string \<Rightarrow> bool \<Rightarrow> (string \<Rightarrow> string \<Rightarrow> 's \<Rightarrow> 's) \<Rightarrow>
    lossy_values option \<times> 's \<Rightarrow> string \<Rightarrow> (lossy_values option \<times> 's) esl_result" where
  "decode_header_step X context skip_undef sink st line =
     bindR (parse_header_line X line) (\<lambda>kv.
       case kv of
         None \<Rightarrow> Inr st
       | Some (key, raw_value) \<Rightarrow>
           bindR (decode_value X key raw_value context (fst st)) (\<lambda>(value, lossy).
             if skip_undef \<and> value = UNDEF_VALUE then Inr (lossy, snd st)
             else Inr (lossy, sink key value (snd st))))"

definition decode_header_block ::
  "externals \<Rightarrow> string \<Rightarrow> string \<Rightarrow> bool \<Rightarrow> lossy_values option \<Rightarrow>
    (string \<Rightarrow> string \<Rightarrow> 's \<Rightarrow> 's) \<Rightarrow> 's \<Rightarrow> (lossy_values option \<times> 's) esl_result" where
  "decode_header_block X block context skip_undef lossy sink s =
     foldR (decode_header_step X context skip_undef sink) (lossy, s) (lines block)"

definition parse_headers :: "externals \<Rightarrow> bool \<Rightarrow> string \<Rightarrow> (index_map \<times> lossy_values) esl_result" where
  "parse_headers X strict headers_str =
     bindR (decode_header_block X headers_str ''header'' False (lossy_sink strict []) AList.update [])
       (\<lambda>(lossy, headers). Inr (headers, unwrap_or [] lossy))"

section \<open>Messages\<close>

datatype message_type = AuthRequest | CommandReply | ApiResponse | Event | Disconnect | RudeRejection

definition message_type_from_content_type :: "string \<Rightarrow> message_type esl_result" where
  "message_type_from_content_type ct =
     (if ct = CONTENT_TYPE_AUTH_REQUEST then Inr AuthRequest
      else if ct = CONTENT_TYPE_COMMAND_REPLY then Inr CommandReply
      else if ct = CONTENT_TYPE_API_RESPONSE then Inr ApiResponse
      else if ct = CONTENT_TYPE_TEXT_EVENT_PLAIN \<or> ct = CONTENT_TYPE_TEXT_EVENT_JSON
            \<or> ct = CONTENT_TYPE_TEXT_EVENT_XML \<or> ct = CONTENT_TYPE_LOG_DATA then Inr Event
      else if ct = ''text/disconnect-notice'' then Inr Disconnect
      else if ct = ''text/rude-rejection'' then Inr RudeRejection
      else Inl (ProtocolError (''Unrecognized Content-Type: '' @ ct)))"

record esl_message =
  message_type :: message_type
  msg_headers :: index_map
  msg_body :: "string option"
  msg_raw_body :: "string option"
  msg_lossy_values :: lossy_values

definition message_new :: "message_type \<Rightarrow> index_map \<Rightarrow> string option \<Rightarrow> esl_message" where
  "message_new t hs b =
     \<lparr>message_type = t, msg_headers = hs, msg_body = b, msg_raw_body = None, msg_lossy_values = []\<rparr>"

definition with_lossy_values :: "lossy_values \<Rightarrow> esl_message \<Rightarrow> esl_message" where
  "with_lossy_values v m = m\<lparr>msg_lossy_values := v\<rparr>"

record pending_body =
  pb_message_type :: message_type
  pb_headers :: index_map
  body_length :: nat
  pb_lossy_values :: lossy_values

datatype parse_state = WaitingForHeaders | WaitingForBody pending_body

record esl_parser =
  p_buffer :: esl_buffer
  p_state :: parse_state
  strict_header_utf8 :: bool

definition parser_new :: "externals \<Rightarrow> esl_parser" where
  "parser_new X = \<lparr>p_buffer = new_buffer X, p_state = WaitingForHeaders, strict_header_utf8 = False\<rparr>"

definition with_strict_header_utf8 :: "bool \<Rightarrow> esl_parser \<Rightarrow> esl_parser" where
  "with_strict_header_utf8 strict p = p\<lparr>strict_header_utf8 := strict\<rparr>"

definition remaining_bytes :: "esl_parser \<Rightarrow> string" where
  "remaining_bytes p = buffer (p_buffer p)"

definition is_waiting_for_headers :: "esl_parser \<Rightarrow> bool" where
  "is_waiting_for_headers p \<longleftrightarrow> p_state p = WaitingForHeaders"

definition drain_buffer :: "externals \<Rightarrow> esl_parser \<Rightarrow> esl_parser" where
  "drain_buffer X p = p\<lparr>p_buffer := compact X (clear X (p_buffer p))\<rparr>"

definition add_data :: "externals \<Rightarrow> string \<Rightarrow> esl_parser \<Rightarrow> unit esl_result \<times> esl_parser" where
  "add_data X data p =
     (let b = extend_from_slice X data (p_buffer p)
      in (check_size_limits b, p\<lparr>p_buffer := b\<rparr>))"

section \<open>Framing\<close>

text \<open>The body bytes as a string: the wire bytes are kept when they are not UTF-8.\<close>

definition decode_body :: "bool \<Rightarrow> string \<Rightarrow> (string \<times> string option) esl_result" where
  "decode_body strict body_data =
     (case from_utf8 body_data of
        Inr s \<Rightarrow> Inr (s, None)
      | Inl e \<Rightarrow>
          if strict then Inl (ProtocolError (''Invalid UTF-8 in body: '' @ utf8_error_display e))
          else Inr (utf8_lossy body_data, Some body_data))"

definition finish_body :: "bool \<Rightarrow> pending_body \<Rightarrow> string \<Rightarrow> esl_message esl_result" where
  "finish_body strict pending body_data =
     bindR (decode_body strict body_data) (\<lambda>(body_str, raw_body).
       Inr ((with_lossy_values (pb_lossy_values pending)
              (message_new (pb_message_type pending) (pb_headers pending) (Some body_str)))
            \<lparr>msg_raw_body := raw_body\<rparr>))"

definition parse_body_frame ::
  "externals \<Rightarrow> pending_body \<Rightarrow> esl_parser \<Rightarrow> esl_message option esl_result \<times> esl_parser" where
  "parse_body_frame X pending p =
     (case extract_bytes X (body_length pending) (p_buffer p) of
        (None, b) \<Rightarrow> (Inr None, p\<lparr>p_buffer := b, p_state := WaitingForBody pending\<rparr>)
      | (Some body_data, b) \<Rightarrow>
          (mapR Some (finish_body (strict_header_utf8 p) pending body_data),
           p\<lparr>p_buffer := compact X b\<rparr>))"

text \<open>
  What a header block announces, as \<open>parse_header_frame\<close> computes it between the
  two reads of the buffer: the message type, the body length and the headers.
\<close>

definition header_frame_meta :: "externals \<Rightarrow> bool \<Rightarrow> string \<Rightarrow> pending_body esl_result" where
  "header_frame_meta X strict headers_data =
     bindR (map_errR (\<lambda>_. ProtocolError ''Invalid UTF-8 in headers'') (from_utf8 headers_data)) (\<lambda>headers_str.
     bindR (parse_headers X strict headers_str) (\<lambda>(headers, lossy_values).
     bindR (ok_or (ProtocolError ''Missing Content-Type header -- likely protocol desync'')
              (map_of headers HEADER_CONTENT_TYPE)) (\<lambda>content_type.
     bindR (message_type_from_content_type content_type) (\<lambda>message_type.
     bindR (case map_of headers HEADER_CONTENT_LENGTH of
              Some length_str \<Rightarrow> ok_or (InvalidHeader (''Content-Length: '' @ length_str)) (parse_usize length_str)
            | None \<Rightarrow> Inr 0) (\<lambda>body_length.
     if body_length > MAX_MESSAGE_SIZE
     then Inl (ProtocolError (''Message too large: Content-Length '' @ dec body_length @
            '' exceeds limit '' @ dec MAX_MESSAGE_SIZE @ ''. Protocol error or corrupted data.''))
     else Inr \<lparr>pb_message_type = message_type, pb_headers = headers, body_length = body_length,
               pb_lossy_values = lossy_values\<rparr>)))))"

definition empty_message :: "pending_body \<Rightarrow> esl_message" where
  "empty_message pb =
     with_lossy_values (pb_lossy_values pb) (message_new (pb_message_type pb) (pb_headers pb) None)"

definition parse_header_frame :: "externals \<Rightarrow> esl_parser \<Rightarrow> esl_message option esl_result \<times> esl_parser" where
  "parse_header_frame X p =
     (case extract_until_pattern X HEADER_TERMINATOR (p_buffer p) of
        (None, b) \<Rightarrow> (Inr None, p\<lparr>p_buffer := b\<rparr>)
      | (Some headers_data, b) \<Rightarrow>
          let p = p\<lparr>p_buffer := compact X b\<rparr> in
          case header_frame_meta X (strict_header_utf8 p) headers_data of
            Inl e \<Rightarrow> (Inl e, p)
          | Inr pb \<Rightarrow>
              if body_length pb = 0 then (Inr (Some (empty_message pb)), p)
              else parse_body_frame X pb p)"

definition parse_message :: "externals \<Rightarrow> esl_parser \<Rightarrow> esl_message option esl_result \<times> esl_parser" where
  "parse_message X p =
     (let state = p_state p; p = p\<lparr>p_state := WaitingForHeaders\<rparr> in
      case state of
        WaitingForHeaders \<Rightarrow> parse_header_frame X p
      | WaitingForBody pending \<Rightarrow> parse_body_frame X pending p)"

end
