(* ===== verification/Framing.thy ===== *)
theory Framing
  imports Protocol Headers
begin

text \<open>
  The parser of \<open>Protocol\<close> against its specification on byte strings. \<open>frame\<close>
  gives the next message of a string of unconsumed bytes, \<open>frame_all\<close> all of
  them; \<open>drain\<close> is the loop of the reader over \<open>parse_message\<close> and \<open>feed\<close> the
  loop over the chunks the socket delivers. The lemmas show that the parser
  refines \<open>frame\<close>, that both loops end, and that \<open>feed\<close> gives the messages of
  the concatenated chunks.
\<close>

section \<open>The specification\<close>

definition frame_body ::
  "bool \<Rightarrow> pending_body \<Rightarrow> string \<Rightarrow> esl_message option esl_result \<times> parse_state \<times> string" where
  "frame_body strict pb s =
     (if length s < body_length pb then (Inr None, WaitingForBody pb, s)
      else (mapR Some (finish_body strict pb (take (body_length pb) s)), WaitingForHeaders,
            drop (body_length pb) s))"

definition after_headers ::
  "bool \<Rightarrow> pending_body esl_result \<Rightarrow> string \<Rightarrow> esl_message option esl_result \<times> parse_state \<times> string" where
  "after_headers strict meta s =
     (case meta of
        Inl e \<Rightarrow> (Inl e, WaitingForHeaders, s)
      | Inr pb \<Rightarrow>
          if body_length pb = 0 then (Inr (Some (empty_message pb)), WaitingForHeaders, s)
          else frame_body strict pb s)"

definition frame_headers ::
  "externals \<Rightarrow> bool \<Rightarrow> string \<Rightarrow> esl_message option esl_result \<times> parse_state \<times> string" where
  "frame_headers X strict s =
     (case str_find HEADER_TERMINATOR s of
        None \<Rightarrow> (Inr None, WaitingForHeaders, s)
      | Some i \<Rightarrow>
          after_headers strict (header_frame_meta X strict (take i s))
            (drop (i + length HEADER_TERMINATOR) s))"

fun frame ::
  "externals \<Rightarrow> bool \<Rightarrow> parse_state \<Rightarrow> string \<Rightarrow> esl_message option esl_result \<times> parse_state \<times> string" where
  "frame X strict WaitingForHeaders s = frame_headers X strict s"
| "frame X strict (WaitingForBody pb) s = frame_body strict pb s"

fun state_weight :: "parse_state \<Rightarrow> nat" where
  "state_weight WaitingForHeaders = 0"
| "state_weight (WaitingForBody pb) = 1"

lemma finish_body_not_None [simp]: "mapR Some r \<noteq> Inr None"
  by (cases r) auto

lemma frame_body_progress:
  "frame_body strict pb s = (Inr (Some m), st', s') \<Longrightarrow> st' = WaitingForHeaders \<and> length s' \<le> length s"
  by (auto simp: frame_body_def split: if_splits)

lemma after_headers_progress:
  "after_headers strict meta s = (Inr (Some m), st', s') \<Longrightarrow> st' = WaitingForHeaders \<and> length s' \<le> length s"
  by (auto simp: after_headers_def dest: frame_body_progress split: sum.splits if_splits)

lemma frame_progress:
  assumes "frame X strict st s = (Inr (Some m), st', s')"
  shows "st' = WaitingForHeaders \<and> 2 * length s' + state_weight st' < 2 * length s + state_weight st"
proof (cases st)
  case WaitingForHeaders
  with assms obtain i where i: "str_find HEADER_TERMINATOR s = Some i"
    and a: "after_headers strict (header_frame_meta X strict (take i s))
      (drop (i + length HEADER_TERMINATOR) s) = (Inr (Some m), st', s')"
    by (auto simp: frame_headers_def split: option.splits)
  from i have lt: "length (drop (i + length HEADER_TERMINATOR) s) < length s"
    by (auto simp: str_find_iff first_at_def HEADER_TERMINATOR_def)
  with after_headers_progress [OF a] WaitingForHeaders show ?thesis by auto
next
  case (WaitingForBody pb)
  with assms frame_body_progress [of strict pb s] show ?thesis by force
qed

function frame_all ::
  "externals \<Rightarrow> bool \<Rightarrow> parse_state \<Rightarrow> string \<Rightarrow>
    esl_message list \<times> esl_error option \<times> parse_state \<times> string" where
  "frame_all X strict st s =
     (case frame X strict st s of
        (Inr (Some m), st', s') \<Rightarrow>
          (case frame_all X strict st' s' of (ms, r) \<Rightarrow> (m # ms, r))
      | (Inr None, st', s') \<Rightarrow> ([], None, st', s')
      | (Inl e, st', s') \<Rightarrow> ([], Some e, st', s'))"
  by pat_completeness auto
termination
  by (relation "measure (\<lambda>(X, strict, st, s). 2 * length s + state_weight st)")
    (auto dest!: frame_progress [OF sym])

declare frame_all.simps [simp del]

section \<open>More bytes change nothing that was parsed\<close>

lemma str_find_append: "str_find p s = Some i \<Longrightarrow> str_find p (s @ t) = Some i"
proof -
  assume "str_find p s = Some i"
  then have f: "first_at p s i" by (simp add: str_find_iff)
  then have "\<not> prefix p (drop j (s @ t))" if "j < i" for j
  proof -
    have "j \<le> length s" "length p \<le> length (drop j s)" using f that by (auto simp: first_at_def)
    then show ?thesis using f that by (simp add: prefix_append_long first_at_def)
  qed
  with f have "first_at p (s @ t) i" by (auto simp: first_at_def)
  then show ?thesis by (simp add: str_find_iff)
qed

lemma frame_body_append:
  assumes "frame_body strict pb s = (r, st', s')"
  shows "r \<noteq> Inr None \<Longrightarrow> frame_body strict pb (s @ t) = (r, st', s' @ t)"
    and "r = Inr None \<Longrightarrow> st' = WaitingForBody pb \<and> s' = s"
  using assms by (auto simp: frame_body_def split: if_splits)

lemma after_headers_append:
  assumes "after_headers strict meta s = (r, st', s')"
  shows "r \<noteq> Inr None \<Longrightarrow> after_headers strict meta (s @ t) = (r, st', s' @ t)"
    and "r = Inr None \<Longrightarrow> after_headers strict meta (s @ t) = frame X strict st' (s' @ t)"
  using assms
  by (auto simp: after_headers_def frame_body_append(1) dest: frame_body_append(2)
      split: sum.splits if_splits)

lemma frame_headers_append:
  assumes "str_find HEADER_TERMINATOR s = Some i"
  shows "frame_headers X strict (s @ t) =
     after_headers strict (header_frame_meta X strict (take i s))
       (drop (i + length HEADER_TERMINATOR) s @ t)"
proof -
  have "i + length HEADER_TERMINATOR \<le> length s" using assms by (simp add: str_find_iff first_at_def)
  then show ?thesis by (simp add: frame_headers_def str_find_append [OF assms])
qed

lemma frame_append:
  assumes "frame X strict st s = (r, st', s')"
  shows "r \<noteq> Inr None \<Longrightarrow> frame X strict st (s @ t) = (r, st', s' @ t)"
    and "r = Inr None \<Longrightarrow> frame X strict st (s @ t) = frame X strict st' (s' @ t)"
proof -
  have "(r \<noteq> Inr None \<longrightarrow> frame X strict st (s @ t) = (r, st', s' @ t)) \<and>
    (r = Inr None \<longrightarrow> frame X strict st (s @ t) = frame X strict st' (s' @ t))"
  proof (cases st)
    case WaitingForHeaders
    show ?thesis
    proof (cases "str_find HEADER_TERMINATOR s")
      case None
      with assms WaitingForHeaders show ?thesis by (auto simp: frame_headers_def)
    next
      case (Some i)
      have "after_headers strict (header_frame_meta X strict (take i s))
          (drop (i + length HEADER_TERMINATOR) s) = (r, st', s')"
        using assms WaitingForHeaders Some by (simp add: frame_headers_def)
      from after_headers_append [OF this] show ?thesis
        by (simp add: WaitingForHeaders frame_headers_append [OF Some])
    qed
  next
    case (WaitingForBody pb)
    with assms frame_body_append [of strict pb s r st' s'] show ?thesis by auto
  qed
  then show "r \<noteq> Inr None \<Longrightarrow> frame X strict st (s @ t) = (r, st', s' @ t)"
    and "r = Inr None \<Longrightarrow> frame X strict st (s @ t) = frame X strict st' (s' @ t)"
    by blast+
qed

lemma frame_all_append:
  assumes "frame_all X strict st s = (ms, e, st', s')"
  shows "frame_all X strict st (s @ t) =
    (if e = None
     then case frame_all X strict st' (s' @ t) of (ms', r) \<Rightarrow> (ms @ ms', r)
     else (ms, e, st', s' @ t))"
  using assms
proof (induction X strict st s arbitrary: ms rule: frame_all.induct)
  case (1 X strict st s)
  obtain r st1 s1 where f: "frame X strict st s = (r, st1, s1)" by (metis prod_cases3)
  consider (msg) m where "r = Inr (Some m)" | (none) "r = Inr None" | (err) x where "r = Inl x"
    by (metis not_None_eq old.sum.exhaust)
  then show ?case
  proof cases
    case msg
    obtain ms1 where r1: "frame_all X strict st1 s1 = (ms1, e, st', s')" and ms: "ms = m # ms1"
      using "1.prems" f msg by (subst (asm) frame_all.simps) (auto split: prod.splits)
    have "frame X strict st (s @ t) = (r, st1, s1 @ t)" using frame_append(1) [OF f] msg by simp
    with 1(1) [OF f [symmetric] msg refl refl r1]
    show ?thesis
      by (subst frame_all.simps) (simp add: msg ms split: prod.splits if_splits)
  next
    case none
    have "e = None" "ms = []" "st' = st1" "s' = s1"
      using "1.prems" f none by (subst (asm) frame_all.simps; simp)+
    moreover have "frame X strict st (s @ t) = frame X strict st1 (s1 @ t)"
      using frame_append(2) [OF f] none by simp
    then have "frame_all X strict st (s @ t) = frame_all X strict st1 (s1 @ t)"
      by (subst (1 2) frame_all.simps) simp
    ultimately show ?thesis by (simp split: prod.splits)
  next
    case err
    have "e = Some x" "ms = []" "st' = st1" "s' = s1"
      using "1.prems" f err by (subst (asm) frame_all.simps; simp)+
    moreover have "frame X strict st (s @ t) = (r, st1, s1 @ t)" using frame_append(1) [OF f] err by simp
    ultimately show ?thesis by (subst frame_all.simps) (simp add: err)
  qed
qed

lemma frame_all_idle:
  assumes "frame_all X strict st s = (ms, None, st', s')"
  shows "frame X strict st' s' = (Inr None, st', s')"
  using assms
proof (induction X strict st s arbitrary: ms rule: frame_all.induct)
  case (1 X strict st s)
  obtain r st1 s1 where f: "frame X strict st s = (r, st1, s1)" by (metis prod_cases3)
  show ?case
  proof (cases "r = Inr None")
    case True
    have "st' = st1" "s' = s1"
      using "1.prems" f True by (subst (asm) frame_all.simps; simp)+
    with frame_append(2) [OF f True, of "[]"] f True show ?thesis by simp
  next
    case False
    with "1.prems" f obtain m ms1 where m: "r = Inr (Some m)"
      and r1: "frame_all X strict st1 s1 = (ms1, None, st', s')"
      by (subst (asm) frame_all.simps) (auto split: prod.splits sum.splits option.splits)
    show ?thesis by (rule 1(1) [OF f [symmetric] m refl refl r1])
  qed
qed

section \<open>The parser refines the specification\<close>

definition pending_ok :: "parse_state \<Rightarrow> bool" where
  "pending_ok st = (case st of WaitingForHeaders \<Rightarrow> True
     | WaitingForBody pb \<Rightarrow> 0 < body_length pb \<and> body_length pb \<le> MAX_MESSAGE_SIZE)"

definition parser_wf :: "esl_parser \<Rightarrow> bool" where
  "parser_wf p \<longleftrightarrow> watermark HEADER_TERMINATOR (p_buffer p) \<and> pending_ok (p_state p)"

lemma terminator_nonempty [simp]: "HEADER_TERMINATOR \<noteq> []"
  by (simp add: HEADER_TERMINATOR_def)

lemma parser_wf_new: "parser_wf (parser_new X)"
  by (simp add: parser_wf_def parser_new_def pending_ok_def watermark_fresh)

lemma parser_wf_strict [simp]: "parser_wf (with_strict_header_utf8 b p) \<longleftrightarrow> parser_wf p"
  by (simp add: parser_wf_def with_strict_header_utf8_def)

lemma header_frame_meta_bound:
  "header_frame_meta X strict d = Inr pb \<Longrightarrow> body_length pb \<le> MAX_MESSAGE_SIZE"
  by (auto simp: header_frame_meta_def result_elims split: prod.splits if_splits)

lemma extract_bytes_eq:
  "extract_bytes X n b = (r, b') \<Longrightarrow>
     r = (if length (buffer b) < n then None else Some (take n (buffer b))) \<and>
     buffer b' = (if length (buffer b) < n then buffer b else drop n (buffer b))"
  by (auto simp: extract_bytes_def split: if_splits)

text \<open>The view of a parser that the specification has.\<close>

definition parser_view :: "'r \<times> esl_parser \<Rightarrow> 'r \<times> parse_state \<times> string" where
  "parser_view rp = (fst rp, p_state (snd rp), remaining_bytes (snd rp))"

lemma parse_body_frame_refines:
  assumes "watermark HEADER_TERMINATOR (p_buffer p)" and "p_state p = WaitingForHeaders"
  shows "parser_view (parse_body_frame X pb p) = frame_body (strict_header_utf8 p) pb (remaining_bytes p)"
    and "watermark HEADER_TERMINATOR (p_buffer (snd (parse_body_frame X pb p)))"
    and "strict_header_utf8 (snd (parse_body_frame X pb p)) = strict_header_utf8 p"
proof -
  obtain r b where e: "extract_bytes X (body_length pb) (p_buffer p) = (r, b)" by fastforce
  have w: "watermark HEADER_TERMINATOR b"
    using extract_bytes_watermark [OF assms(1), of X "body_length pb"] e by simp
  show "parser_view (parse_body_frame X pb p) = frame_body (strict_header_utf8 p) pb (remaining_bytes p)"
    using extract_bytes_eq [OF e] assms(2)
    by (auto simp: parse_body_frame_def e parser_view_def frame_body_def remaining_bytes_def
        split: option.splits if_splits)
  show "watermark HEADER_TERMINATOR (p_buffer (snd (parse_body_frame X pb p)))"
    and "strict_header_utf8 (snd (parse_body_frame X pb p)) = strict_header_utf8 p"
    using w by (auto simp: parse_body_frame_def e split: option.splits)
qed

context esl_externals
begin

lemma parse_header_frame_refines:
  assumes "watermark HEADER_TERMINATOR (p_buffer p)" and "p_state p = WaitingForHeaders"
  shows "parser_view (parse_header_frame X p) = frame_headers X (strict_header_utf8 p) (remaining_bytes p)"
    and "watermark HEADER_TERMINATOR (p_buffer (snd (parse_header_frame X p)))"
    and "strict_header_utf8 (snd (parse_header_frame X p)) = strict_header_utf8 p"
proof -
  obtain r b where e: "extract_until_pattern X HEADER_TERMINATOR (p_buffer p) = (r, b)" by fastforce
  note eu = memmem.extract_until_pattern_eq [OF mm refl terminator_nonempty assms(1), unfolded e, simplified]
  let ?p = "p\<lparr>p_buffer := compact X b\<rparr>"
  have w: "watermark HEADER_TERMINATOR (p_buffer ?p)" "p_state ?p = WaitingForHeaders"
    using eu(3) assms(2) by simp_all
  note body = parse_body_frame_refines [OF w]
  show "parser_view (parse_header_frame X p) = frame_headers X (strict_header_utf8 p) (remaining_bytes p)"
    using eu(1,2) body(1) assms(2)
    by (auto simp: parse_header_frame_def e parser_view_def frame_headers_def after_headers_def
        remaining_bytes_def Let_def split: option.splits sum.splits)
  show "watermark HEADER_TERMINATOR (p_buffer (snd (parse_header_frame X p)))"
    and "strict_header_utf8 (snd (parse_header_frame X p)) = strict_header_utf8 p"
    using eu(3) body(2,3)
    by (auto simp: parse_header_frame_def e Let_def split: option.splits sum.splits)
qed

lemma frame_pending_ok:
  assumes "frame X strict st s = (r, st', s')" and "pending_ok st"
  shows "pending_ok st'"
  using assms
  by (cases st) (auto simp: frame_headers_def after_headers_def frame_body_def pending_ok_def
      dest: header_frame_meta_bound split: option.splits sum.splits if_splits)

lemma parse_message_frame:
  assumes "parser_wf p"
  shows "parser_view (parse_message X p) = frame X (strict_header_utf8 p) (p_state p) (remaining_bytes p)"
    and "strict_header_utf8 (snd (parse_message X p)) = strict_header_utf8 p"
    and "parser_wf (snd (parse_message X p))"
proof -
  let ?p = "p\<lparr>p_state := WaitingForHeaders\<rparr>"
  have w: "watermark HEADER_TERMINATOR (p_buffer ?p)" "p_state ?p = WaitingForHeaders"
    using assms by (simp_all add: parser_wf_def)
  note body = parse_body_frame_refines [OF w] and hdr = parse_header_frame_refines [OF w]
  show v: "parser_view (parse_message X p) = frame X (strict_header_utf8 p) (p_state p) (remaining_bytes p)"
    using body(1) hdr(1) by (cases "p_state p") (simp_all add: parse_message_def remaining_bytes_def)
  show "strict_header_utf8 (snd (parse_message X p)) = strict_header_utf8 p"
    using body(3) hdr(3) by (cases "p_state p") (simp_all add: parse_message_def)
  have "watermark HEADER_TERMINATOR (p_buffer (snd (parse_message X p)))"
    using body(2) hdr(2) by (cases "p_state p") (simp_all add: parse_message_def)
  moreover have "pending_ok (p_state (snd (parse_message X p)))"
    using frame_pending_ok [OF v [symmetric, unfolded parser_view_def]] assms
    by (simp add: parser_wf_def)
  ultimately show "parser_wf (snd (parse_message X p))" by (simp add: parser_wf_def)
qed

end

section \<open>Draining the buffer and feeding chunks\<close>

definition parser_weight :: "esl_parser \<Rightarrow> nat" where
  "parser_weight p = 2 * length (remaining_bytes p) + state_weight (p_state p)"

lemma extract_until_shorter:
  assumes "extract_until_pattern X HEADER_TERMINATOR b = (Some d, b')"
  shows "length (buffer b') < length (buffer b)"
  using assms
  by (auto simp: extract_until_pattern_def find_pattern_def HEADER_TERMINATOR_def Let_def
      split: option.splits if_splits)

lemma parse_body_frame_shorter:
  assumes "parse_body_frame X pb p = (Inr (Some m), p')"
  shows "length (remaining_bytes p') \<le> length (remaining_bytes p) \<and> p_state p' = p_state p"
proof -
  obtain r b where e: "extract_bytes X (body_length pb) (p_buffer p) = (r, b)" by fastforce
  from assms extract_bytes_eq [OF e] show ?thesis
    by (auto simp: parse_body_frame_def e remaining_bytes_def split: option.splits if_splits)
qed

lemma parse_message_progress:
  assumes "parse_message X p = (Inr (Some m), p')"
  shows "parser_weight p' < parser_weight p"
proof (cases "p_state p")
  case WaitingForHeaders
  let ?p = "p\<lparr>p_state := WaitingForHeaders\<rparr>"
  from assms WaitingForHeaders have h: "parse_header_frame X ?p = (Inr (Some m), p')"
    by (simp add: parse_message_def)
  then obtain d b where e: "extract_until_pattern X HEADER_TERMINATOR (p_buffer p) = (Some d, b)"
    by (auto simp: parse_header_frame_def split: prod.splits option.splits)
  have "length (remaining_bytes p') \<le> length (buffer b) \<and> p_state p' = Protocol.WaitingForHeaders"
    using h e
    by (auto simp: parse_header_frame_def Let_def remaining_bytes_def
        dest: parse_body_frame_shorter split: sum.splits if_splits)
  with extract_until_shorter [OF e] WaitingForHeaders show ?thesis
    by (auto simp: parser_weight_def remaining_bytes_def)
next
  case (WaitingForBody pb)
  with assms show ?thesis
    by (auto simp: parse_message_def parser_weight_def remaining_bytes_def
        dest!: parse_body_frame_shorter)
qed

text \<open>Parse until no complete message is buffered or an error ends the connection.\<close>

function drain :: "externals \<Rightarrow> esl_parser \<Rightarrow> esl_message list \<times> esl_error option \<times> esl_parser" where
  "drain X p =
     (case parse_message X p of
        (Inr (Some m), p') \<Rightarrow> (case drain X p' of (ms, r) \<Rightarrow> (m # ms, r))
      | (Inr None, p') \<Rightarrow> ([], None, p')
      | (Inl e, p') \<Rightarrow> ([], Some e, p'))"
  by pat_completeness auto
termination
  by (relation "measure (\<lambda>(X, p). parser_weight p)") (auto dest!: parse_message_progress [OF sym])

declare drain.simps [simp del]

fun feed :: "externals \<Rightarrow> string list \<Rightarrow> esl_parser \<Rightarrow> esl_message list \<times> esl_error option \<times> esl_parser" where
  "feed X [] p = ([], None, p)"
| "feed X (chunk # chunks) p =
     (case add_data X chunk p of
        (Inl e, p) \<Rightarrow> ([], Some e, p)
      | (Inr _, p) \<Rightarrow>
          (case drain X p of
             (ms, Some e, p) \<Rightarrow> (ms, Some e, p)
           | (ms, None, p) \<Rightarrow> (case feed X chunks p of (ms', r) \<Rightarrow> (ms @ ms', r))))"

text \<open>No complete message is buffered.\<close>

definition parser_idle :: "externals \<Rightarrow> esl_parser \<Rightarrow> bool" where
  "parser_idle X p \<longleftrightarrow>
     frame X (strict_header_utf8 p) (p_state p) (remaining_bytes p) = (Inr None, p_state p, remaining_bytes p)"

fun is_overflow :: "esl_error option \<Rightarrow> bool" where
  "is_overflow (Some (BufferOverflow _ _)) = True"
| "is_overflow _ = False"

lemma add_data_view [simp]:
  "remaining_bytes (snd (add_data X d p)) = remaining_bytes p @ d"
  "p_state (snd (add_data X d p)) = p_state p"
  "strict_header_utf8 (snd (add_data X d p)) = strict_header_utf8 p"
  by (simp_all add: add_data_def remaining_bytes_def Let_def)

lemma add_data_wf: "parser_wf p \<Longrightarrow> parser_wf (snd (add_data X d p))"
  by (simp add: add_data_def parser_wf_def Let_def watermark_extend)

lemma add_data_overflow: "fst (add_data X d p) = Inl e \<Longrightarrow> is_overflow (Some e)"
  by (auto simp: add_data_def Let_def check_size_limits_def split: if_splits)

context esl_externals
begin

lemma drain_frame_all:
  assumes "parser_wf p" and "drain X p = (ms, e, p')"
  shows "frame_all X (strict_header_utf8 p) (p_state p) (remaining_bytes p) =
      (ms, e, p_state p', remaining_bytes p') \<and>
    parser_wf p' \<and> strict_header_utf8 p' = strict_header_utf8 p"
  using assms
proof (induction "parser_weight p" arbitrary: p ms rule: less_induct)
  case less
  obtain r q where q: "parse_message X p = (r, q)" by fastforce
  note f = parse_message_frame [OF less.prems(1), unfolded q parser_view_def, simplified]
  consider (msg) m where "r = Inr (Some m)" | (none) "r = Inr None" | (err) x where "r = Inl x"
    by (metis not_None_eq old.sum.exhaust)
  then show ?case
  proof cases
    case msg
    then obtain ms1 where d: "drain X q = (ms1, e, p')" and ms: "ms = m # ms1"
      using less.prems(2) q by (subst (asm) drain.simps) (auto split: prod.splits)
    have "parser_weight q < parser_weight p" using parse_message_progress q msg by simp
    from less.hyps [OF this f(3) d] f show ?thesis
      by (subst frame_all.simps) (simp add: msg ms f(1) [symmetric])
  next
    case none
    with less.prems(2) q f show ?thesis
      by (subst (asm) drain.simps, subst frame_all.simps) (auto simp: f(1) [symmetric])
  next
    case err
    with less.prems(2) q f show ?thesis
      by (subst (asm) drain.simps, subst frame_all.simps) (auto simp: f(1) [symmetric])
  qed
qed

text \<open>Whatever the chunks, the messages are those of the byte stream.\<close>

lemma feed_frame_all:
  assumes "chunks \<noteq> [] \<or> parser_idle X p" and "parser_wf p"
    and "feed X chunks p = (ms, e, p')" and "\<not> is_overflow e"
  shows "\<exists>st s. frame_all X (strict_header_utf8 p) (p_state p) (remaining_bytes p @ concat chunks) = (ms, e, st, s)
    \<and> (e = None \<longrightarrow> st = p_state p' \<and> s = remaining_bytes p') \<and> parser_wf p'"
  using assms
proof (induction chunks arbitrary: p ms)
  case Nil
  then show ?case by (subst frame_all.simps) (auto simp: parser_idle_def)
next
  case (Cons c cs)
  obtain a q where q: "add_data X c p = (a, q)" by fastforce
  have qv: "remaining_bytes q = remaining_bytes p @ c" "p_state q = p_state p"
      "strict_header_utf8 q = strict_header_utf8 p" "parser_wf q"
    using add_data_view [of X c p] add_data_wf [OF Cons.prems(2), of X c] q by simp_all
  from Cons.prems(3,4) q obtain u where a: "a = Inr u"
    using add_data_overflow [of X c p] by (cases a) auto
  obtain ms1 e1 q1 where d: "drain X q = (ms1, e1, q1)" by (metis prod_cases3)
  note fa = drain_frame_all [OF qv(4) d, unfolded qv]
  note app = frame_all_append [OF conjunct1 [OF fa], of "concat cs"]
  show ?case
  proof (cases e1)
    case (Some x)
    with Cons.prems(3) q a d have "ms = ms1" "e = Some x" "p' = q1" by simp_all
    with app fa Some show ?thesis by auto
  next
    case None
    with Cons.prems(3) q a d obtain ms2 where f2: "feed X cs q1 = (ms2, e, p')" and ms: "ms = ms1 @ ms2"
      by (auto split: prod.splits)
    have idle: "parser_idle X q1"
      using frame_all_idle [OF conjunct1 [OF fa [unfolded None]]] fa by (simp add: parser_idle_def)
    from Cons.IH [OF _ _ f2 Cons.prems(4)] idle fa obtain st s where
      "frame_all X (strict_header_utf8 q1) (p_state q1) (remaining_bytes q1 @ concat cs) = (ms2, e, st, s)"
      "e = None \<longrightarrow> st = p_state p' \<and> s = remaining_bytes p'" "parser_wf p'"
      by auto
    with app fa None ms show ?thesis by auto
  qed
qed

end

section \<open>Properties\<close>

lemma frame_consumes:
  assumes "frame X strict st s = (r, st', s')" and "pending_ok st"
  shows "length s' \<le> length s"
    and "r = Inr (Some m) \<Longrightarrow> 2 + length s' \<le> length s + state_weight st"
proof -
  have "length s' \<le> length s \<and> (r = Inr (Some m) \<longrightarrow> 2 + length s' \<le> length s + state_weight st)"
  proof (cases st)
    case WaitingForHeaders
    have "i + 2 \<le> length s" if "str_find HEADER_TERMINATOR s = Some i" for i
      using that by (auto simp: str_find_iff first_at_def HEADER_TERMINATOR_def)
    with assms WaitingForHeaders show ?thesis
      by (auto simp: frame_headers_def after_headers_def frame_body_def HEADER_TERMINATOR_def
          split: option.splits sum.splits if_splits)
  next
    case (WaitingForBody pb)
    with assms show ?thesis by (auto simp: frame_body_def pending_ok_def split: if_splits)
  qed
  then show "length s' \<le> length s" and "r = Inr (Some m) \<Longrightarrow> 2 + length s' \<le> length s + state_weight st"
    by simp_all
qed

lemma frame_all_consumes:
  assumes "frame_all X strict st s = (ms, e, st', s')" and "pending_ok st"
  shows "2 * length ms + length s' \<le> length s + state_weight st"
  using assms
proof (induction "2 * length s + state_weight st" arbitrary: st s ms rule: less_induct)
  case less
  obtain r st1 s1 where f: "frame X strict st s = (r, st1, s1)" by (metis prod_cases3)
  note c = frame_consumes [OF f less.prems(2)]
  show ?case
  proof (cases "\<exists>m. r = Inr (Some m)")
    case True
    then obtain m where m: "r = Inr (Some m)" by blast
    with less.prems(1) f obtain ms1 where g: "frame_all X strict st1 s1 = (ms1, e, st', s')" "ms = m # ms1"
      by (subst (asm) frame_all.simps) (auto split: prod.splits)
    note p = frame_progress [OF f [unfolded m]]
    then have ok: "pending_ok st1" by (simp add: pending_ok_def)
    from less.hyps [OF conjunct2 [OF p] g(1) ok] c(2) [OF m] p g(2) show ?thesis by simp
  next
    case False
    with less.prems(1) f c(1) show ?thesis
      by (subst (asm) frame_all.simps) (auto split: prod.splits sum.splits option.splits)
  qed
qed

text \<open>
  C1: chunking does not matter. A parser in a well-formed state that is given the same bytes in
  two different divisions into socket reads returns the same messages in the same order, ends
  with the same error or none, and, when there is none, is left in the same parse state with
  the same unconsumed bytes; the only difference a division can make is a buffer overflow.
\<close>

theorem stream_chunking:
  assumes "externals_ok X" and "parser_wf p"
    and "cs \<noteq> []" and "ds \<noteq> []" and "concat cs = concat ds"
    and "feed X cs p = (ms, e, p')" and "feed X ds p = (ns, f, q')"
    and "\<not> is_overflow e" and "\<not> is_overflow f"
  shows "ms = ns \<and> e = f \<and>
    (e = None \<longrightarrow> p_state p' = p_state q' \<and> remaining_bytes p' = remaining_bytes q')"
proof -
  note feed = esl_externals.feed_frame_all [OF esl_externalsI [OF assms(1)] _ assms(2)]
  from feed [OF _ assms(6,8)] feed [OF _ assms(7,9)] assms(3-5) show ?thesis by auto
qed

theorem stream_chunking_witness:
  defines "s \<equiv> ''Content-Type: log/data'' @ [NL] @ ''Content-Length: 2'' @ [NL, NL] @ ''hi'' @ ''Content''"
    and "p \<equiv> parser_new reference_externals"
  shows "fst (feed reference_externals [s] p) = fst (feed reference_externals [take 30 s, drop 30 s] p)
    \<and> length (fst (feed reference_externals [s] p)) = 1"
proof -
  obtain ms e p' where a: "feed reference_externals [s] p = (ms, e, p')" by (metis prod_cases3)
  obtain ns f q' where b: "feed reference_externals [take 30 s, drop 30 s] p = (ns, f, q')" by (metis prod_cases3)
  have "\<not> is_overflow (fst (snd (feed reference_externals [s] p)))"
    and "\<not> is_overflow (fst (snd (feed reference_externals [take 30 s, drop 30 s] p)))"
    and l: "length (fst (feed reference_externals [s] p)) = 1"
    unfolding s_def p_def by code_simp+
  with a b have o: "\<not> is_overflow e" "\<not> is_overflow f" by simp_all
  have w: "parser_wf p" by (simp add: p_def parser_wf_new)
  have "ms = ns"
    using stream_chunking [OF reference_externals_ok w _ _ _ a b o] by simp
  with a b l show ?thesis by simp
qed

text \<open>
  C7: \<open>parse_message\<close> computes the next message of the unconsumed byte string. The
  watermark of the incremental search, the capacity bookkeeping and the take-and-restore of the
  parse state are invisible: result, next state and remaining bytes are those of the stateless
  specification \<open>frame\<close>, and the parser invariant is preserved.
\<close>

theorem parse_message_refines:
  assumes "externals_ok X" and "parser_wf p"
  shows "parser_view (parse_message X p) = frame X (strict_header_utf8 p) (p_state p) (remaining_bytes p)
    \<and> parser_wf (snd (parse_message X p))"
  using esl_externals.parse_message_frame [OF esl_externalsI [OF assms(1)] assms(2)] by blast

theorem parse_message_refines_witness:
  "parser_view (parse_message reference_externals (parser_new reference_externals)) =
     frame reference_externals False WaitingForHeaders [] \<and>
   parser_wf (snd (parse_message reference_externals (parser_new reference_externals)))"
  using parse_message_refines [OF reference_externals_ok parser_wf_new]
  by (simp add: parser_new_def remaining_bytes_def)

text \<open>
  C25: the loop over \<open>parse_message\<close> ends and leaves nothing behind. Every message takes at
  least two bytes of the buffer (a body that was already announced at least one), so the number
  of messages is bounded by the bytes buffered; and when the loop ends without an error no
  further message can be parsed from what remains.
\<close>

theorem drain_bounded_complete:
  assumes "externals_ok X" and "parser_wf p" and "drain X p = (ms, e, p')"
  shows "2 * length ms + length (remaining_bytes p') \<le> length (remaining_bytes p) + state_weight (p_state p)
    \<and> (e = None \<longrightarrow> parser_idle X p') \<and> parser_wf p'"
proof -
  note d = esl_externals.drain_frame_all [OF esl_externalsI [OF assms(1)] assms(2,3)]
  from frame_all_consumes [OF conjunct1 [OF d]] assms(2) d frame_all_idle show ?thesis
    by (auto simp: parser_wf_def parser_idle_def)
qed

theorem drain_bounded_complete_witness:
  "parser_idle reference_externals (snd (snd (drain reference_externals (parser_new reference_externals))))"
proof -
  obtain ms e p' where d: "drain reference_externals (parser_new reference_externals) = (ms, e, p')"
    by (metis prod_cases3)
  have "fst (snd (drain reference_externals (parser_new reference_externals))) = None" by code_simp
  with drain_bounded_complete [OF reference_externals_ok parser_wf_new d] d show ?thesis by simp
qed

text \<open>
  C24: what a connection buffers for a body is bounded. After any sequence of reads
  without an error, a parser that waits for a body waits for between one and
  \<open>MAX_MESSAGE_SIZE\<close> bytes and holds fewer bytes than it waits for.
\<close>

theorem pending_body_bounded:
  assumes "externals_ok X" and "chunks \<noteq> []"
    and "feed X chunks (with_strict_header_utf8 strict (parser_new X)) = (ms, None, p')"
    and "p_state p' = WaitingForBody pb"
  shows "0 < body_length pb \<and> body_length pb \<le> MAX_MESSAGE_SIZE \<and> length (remaining_bytes p') < body_length pb"
proof -
  let ?p = "with_strict_header_utf8 strict (parser_new X)"
  have "parser_wf ?p" by (simp add: parser_wf_new)
  from esl_externals.feed_frame_all [OF esl_externalsI [OF assms(1)] _ this assms(3)] assms(2)
  have f: "frame_all X (strict_header_utf8 ?p) (p_state ?p) (remaining_bytes ?p @ concat chunks)
      = (ms, None, p_state p', remaining_bytes p')" and w: "parser_wf p'" by auto
  from frame_all_idle [OF f] assms(4) have "length (remaining_bytes p') < body_length pb"
    by (auto simp: frame_body_def split: if_splits)
  with w assms(4) show ?thesis by (simp add: parser_wf_def pending_ok_def)
qed

theorem pending_body_bounded_witness:
  defines "s \<equiv> ''Content-Type: log/data'' @ [NL] @ ''Content-Length: 5'' @ [NL, NL] @ ''hi''"
  shows "\<exists>ms p' pb. feed reference_externals [s] (with_strict_header_utf8 True (parser_new reference_externals))
      = (ms, None, p') \<and> p_state p' = WaitingForBody pb \<and> length (remaining_bytes p') < body_length pb"
proof -
  let ?f = "feed reference_externals [s] (with_strict_header_utf8 True (parser_new reference_externals))"
  obtain ms e p' where f: "?f = (ms, e, p')" by (metis prod_cases3)
  have "fst (snd ?f) = None \<and> p_state (snd (snd ?f)) \<noteq> WaitingForHeaders"
    unfolding s_def by code_simp
  with f obtain pb where e: "e = None" and pb: "p_state p' = WaitingForBody pb"
    by (cases "p_state p'") auto
  have "length (remaining_bytes p') < body_length pb"
    using pending_body_bounded [OF reference_externals_ok _ f [unfolded e] pb] by simp
  with f e pb show ?thesis by blast
qed

end
