(* ===== verification/Event_Format.thy ===== *)
theory Event_Format
  imports Protocol
begin

text \<open>
  \<open>src/protocol/event_format.rs\<close>, \<open>src/protocol/xml.rs\<close> and the dispatch
  \<open>parse_event\<close>: how the body of an event envelope becomes an event, for the
  plain, JSON, XML and log formats. The JSON and XML readers are third-party; the
  model takes the document, respectively the list of pull events, they return.
\<close>

record decode_options =
  strict_utf8 :: bool
  skip_undef :: bool

definition carry_lossy_signal :: "lossy_values \<Rightarrow> string option \<Rightarrow> esl_event \<Rightarrow> esl_event" where
  "carry_lossy_signal lossy raw_body ev =
     (let ev = (if lossy \<noteq> [] then set_lossy_values (lossy @ ev_lossy_values ev) ev else ev)
      in case raw_body of Some raw \<Rightarrow> set_raw_body raw ev | None \<Rightarrow> ev)"

definition decode_serialized_event :: "externals \<Rightarrow> string \<Rightarrow> decode_options \<Rightarrow> esl_event esl_result" where
  "decode_serialized_event X serialized options =
     (let (header_section, inner_body) =
        (case str_find HEADER_TERMINATOR serialized of
           Some pos \<Rightarrow> (take pos serialized, Some (drop (pos + length HEADER_TERMINATOR) serialized))
         | None \<Rightarrow> (serialized, None))
      in bindR (decode_header_block X header_section ''event header'' (skip_undef options)
                 (lossy_sink (strict_utf8 options) []) (set_header X) event_new) (\<lambda>(lossy, ev).
         let ev = set_lossy_values (unwrap_or [] lossy) ev in
         case inner_body of
           Some body \<Rightarrow> if body \<noteq> [] then Inr (set_body body ev) else Inr ev
         | None \<Rightarrow> Inr ev))"

definition parse_log_event :: "externals \<Rightarrow> esl_message \<Rightarrow> esl_event esl_result" where
  "parse_log_event X message =
     (let ev = fold (\<lambda>(k, v). set_header X k v) (msg_headers message) event_new;
          ev = (case msg_body message of Some body \<Rightarrow> set_body body ev | None \<Rightarrow> ev);
          ev = set_header X (eh_as_str EventName) (et_as_str Et_Log) ev
      in Inr (carry_lossy_signal (msg_lossy_values message) (msg_raw_body message) ev))"

text \<open>The bytes after the first \<open>\n\n\<close> of the raw envelope body.\<close>

definition inner_raw_body :: "string \<Rightarrow> string option" where
  "inner_raw_body raw =
     (case str_find [NL, NL] raw of Some pos \<Rightarrow> Some (drop (pos + 2) raw) | None \<Rightarrow> None)"

definition parse_plain_event :: "externals \<Rightarrow> bool \<Rightarrow> esl_message \<Rightarrow> esl_event esl_result" where
  "parse_plain_event X strict message =
     (if message_type message \<noteq> Event then Inl (ProtocolError ''Not an event message'')
      else bindR (ok_or (ProtocolError ''Plain event missing body'') (msg_body message)) (\<lambda>body.
        bindR (decode_serialized_event X body \<lparr>strict_utf8 = strict, skip_undef = False\<rparr>) (\<lambda>ev.
          let inner_raw =
            (if ev_body ev \<noteq> None
             then case msg_raw_body message of Some raw \<Rightarrow> inner_raw_body raw | None \<Rightarrow> None
             else None)
          in Inr (carry_lossy_signal (msg_lossy_values message) inner_raw ev))))"

definition json_value_str :: "json_value \<Rightarrow> string" where
  "json_value_str v = (case v of JString s \<Rightarrow> s | JNonString r \<Rightarrow> r)"

definition json_event_step :: "externals \<Rightarrow> string \<times> json_value \<Rightarrow> esl_event \<Rightarrow> esl_event" where
  "json_event_step X kv ev =
     (if fst kv = ''_body'' then set_body (json_value_str (snd kv)) ev
      else set_header X (fst kv) (json_value_str (snd kv)) ev)"

definition parse_json_event :: "externals \<Rightarrow> esl_message \<Rightarrow> esl_event esl_result" where
  "parse_json_event X message =
     bindR (ok_or (ProtocolError ''JSON event missing body'') (msg_body message)) (\<lambda>body.
     bindR (map_errR JsonError (json_from_str X body)) (\<lambda>doc.
       case doc of
         JNotObject \<Rightarrow> Inl (ProtocolError ''JSON event body is not an object'')
       | JObject m \<Rightarrow>
           Inr (carry_lossy_signal (msg_lossy_values message) (msg_raw_body message)
                 (fold (json_event_step X) m event_new))))"

section \<open>XML\<close>

record xml_state =
  xs_event :: esl_event
  in_headers :: bool
  current_tag :: "string option"
  in_body :: bool
  text_buf :: string

definition xml_init :: xml_state where
  "xml_init = \<lparr>xs_event = event_new, in_headers = False, current_tag = None, in_body = False, text_buf = []\<rparr>"

definition xml_err :: "string \<Rightarrow> esl_error" where
  "xml_err e = XmlError (''XML parse error: '' @ e)"

definition resolve_entity :: "externals \<Rightarrow> string \<Rightarrow> string esl_result" where
  "resolve_entity X entity =
     bindR (map_errR xml_err (xml_char_ref X entity)) (\<lambda>ch.
       case ch of
         Some c \<Rightarrow> Inr c
       | None \<Rightarrow>
           (case xml_entity X entity of
              Some s \<Rightarrow> Inr s
            | None \<Rightarrow> Inl (ProtocolError (''unknown XML entity: &'' @ entity @ '';''))))"

definition xml_start :: "string \<Rightarrow> xml_state \<Rightarrow> xml_state" where
  "xml_start tag st =
     (if tag = ''headers'' then st\<lparr>in_headers := True\<rparr>
      else if tag = ''body'' then st\<lparr>in_body := True\<rparr>
      else if in_headers st then st\<lparr>text_buf := [], current_tag := Some tag\<rparr>
      else st)"

definition xml_end :: "externals \<Rightarrow> string \<Rightarrow> xml_state \<Rightarrow> xml_state" where
  "xml_end X tag st =
     (if tag = ''headers'' then st\<lparr>in_headers := False\<rparr>
      else if tag = ''body'' then
        (if text_buf st \<noteq> [] then st\<lparr>xs_event := set_body (text_buf st) (xs_event st), text_buf := []\<rparr>
         else st)\<lparr>in_body := False\<rparr>
      else if in_headers st then
        (case current_tag st of
           Some t \<Rightarrow> if text_buf st \<noteq> []
                     then st\<lparr>xs_event := set_header X t (text_buf st) (xs_event st), text_buf := []\<rparr>
                     else st
         | None \<Rightarrow> st)\<lparr>current_tag := None\<rparr>
      else st)"

text \<open>The pull loop; the reader returns its end-of-document event after the last one.\<close>

fun xml_loop :: "externals \<Rightarrow> xml_event list \<Rightarrow> xml_state \<Rightarrow> esl_event esl_result" where
  "xml_loop X [] st = Inr (xs_event st)"
| "xml_loop X (XStart tag # es) st = xml_loop X es (xml_start tag st)"
| "xml_loop X (XEnd tag # es) st = xml_loop X es (xml_end X tag st)"
| "xml_loop X (XText t # es) st =
     xml_loop X es (if in_body st \<or> current_tag st \<noteq> None then st\<lparr>text_buf := text_buf st @ t\<rparr> else st)"
| "xml_loop X (XGeneralRef e # es) st =
     (if in_body st \<or> current_tag st \<noteq> None
      then bindR (resolve_entity X e) (\<lambda>r. xml_loop X es (st\<lparr>text_buf := text_buf st @ r\<rparr>))
      else xml_loop X es st)"
| "xml_loop X (XOther # es) st = xml_loop X es st"
| "xml_loop X (XEof # es) st = Inr (xs_event st)"
| "xml_loop X (XErr e # es) st = Inl (xml_err e)"

definition parse_xml_event :: "externals \<Rightarrow> esl_message \<Rightarrow> esl_event esl_result" where
  "parse_xml_event X message =
     bindR (ok_or (ProtocolError ''XML event missing body'') (msg_body message)) (\<lambda>body.
     bindR (xml_loop X (xml_read X body) xml_init) (\<lambda>ev.
       Inr (carry_lossy_signal (msg_lossy_values message) (msg_raw_body message) ev)))"

definition parse_event :: "externals \<Rightarrow> bool \<Rightarrow> esl_message \<Rightarrow> event_format \<Rightarrow> esl_event esl_result" where
  "parse_event X strict message format =
     (if map_of (msg_headers message) HEADER_CONTENT_TYPE = Some CONTENT_TYPE_LOG_DATA
      then parse_log_event X message
      else case format of
             Plain \<Rightarrow> parse_plain_event X strict message
           | Json \<Rightarrow> parse_json_event X message
           | Xml \<Rightarrow> parse_xml_event X message)"

end
