(* ===== verification/Event_Wire.thy ===== *)
theory Event_Wire
  imports Framing Event_Format
begin

text \<open>
  Round trips of the wire format. A header block is printed as \<open>Key: value\<close>
  lines; \<open>decode_block_lines\<close> says what the decoder makes of it. From it follow
  that a framed message is parsed back whatever follows it on the wire, that the
  plain serialization of an event decodes to the event with its length header
  recomputed, and that the raw bytes kept beside a lossily decoded plain event
  are the bytes its body was decoded from.
\<close>

section \<open>Header blocks\<close>

definition header_line :: "string \<times> string \<Rightarrow> string" where
  "header_line kv = fst kv @ '': '' @ snd kv"

definition header_section :: "(string \<times> string) list \<Rightarrow> string" where
  "header_section kvs = join [NL] (map header_line kvs)"

text \<open>A key and an encoded value that make one header line.\<close>

definition clean_pair :: "string \<times> string \<Rightarrow> bool" where
  "clean_pair kv \<longleftrightarrow>
     NL \<notin> set (fst kv) \<and> CR \<notin> set (fst kv) \<and> COLON \<notin> set (fst kv) \<and> utf8_valid (fst kv) \<and>
     NL \<notin> set (snd kv) \<and> CR \<notin> set (snd kv) \<and> utf8_valid (snd kv)"

lemma header_line_clean:
  assumes "clean_pair kv"
  shows "header_line kv \<noteq> []" and "NL \<notin> set (header_line kv)" and "CR \<notin> set (header_line kv)"
  using assms by (auto simp: header_line_def clean_pair_def)

lemma strip_suffix_CR_None: "CR \<notin> set s \<Longrightarrow> strip_suffix [CR] s = None"
  by (cases "strip_suffix [CR] s") auto

lemma strip_cr_id: "CR \<notin> set s \<Longrightarrow> strip_cr s = s"
  by (simp add: strip_cr_def strip_suffix_CR_None)

lemma lines_join:
  assumes "\<forall>l \<in> set ls. l \<noteq> [] \<and> NL \<notin> set l \<and> CR \<notin> set l"
  shows "lines (join [NL] ls) = ls"
  using assms
proof (induction ls)
  case (Cons l ls)
  show ?case
  proof (cases "ls = []")
    case True
    with Cons.prems show ?thesis by (simp add: lines_last)
  next
    case False
    with Cons show ?thesis by (simp add: join_Cons lines_append_NL strip_cr_id)
  qed
qed simp

lemma parse_header_line_clean:
  assumes "clean_pair (k, raw)"
  shows "parse_header_line X (header_line (k, raw)) = Inr (Some (normalize_header_key X k, raw))"
proof -
  note c = header_line_clean [OF assms]
  have l: "header_line (k, raw) = k @ COLON # SP # raw" by (simp add: header_line_def)
  have f: "char_find COLON (k @ COLON # SP # raw) = Some (length k)"
    using assms by (intro char_find_append) (simp add: clean_pair_def)
  have s: "strip_suffix [CR] (k @ COLON # SP # raw) = None"
    using strip_suffix_CR_None [OF c(3)] by (simp add: l)
  show ?thesis unfolding parse_header_line_def l Let_def s unwrap_or_simps f by simp
qed

text \<open>A value under its encoding: what the decoder recovers from the raw text.\<close>

definition decodes_to :: "externals \<Rightarrow> string \<times> string \<Rightarrow> string \<times> string \<Rightarrow> bool" where
  "decodes_to X kv hv \<longleftrightarrow>
     clean_pair kv \<and> utf8_valid (percent_decode X (snd kv)) \<and>
     hv = (normalize_header_key X (fst kv), percent_decode X (snd kv))"

lemma decode_step_clean:
  assumes "decodes_to X kv hv"
  shows "decode_header_step X context False sink st (header_line kv) =
    Inr (fst st, sink (fst hv) (snd hv) (snd st))"
proof -
  obtain k raw where kv: "kv = (k, raw)" by fastforce
  have "parse_header_line X (header_line (k, raw)) = Inr (Some (normalize_header_key X k, raw))"
    using assms by (intro parse_header_line_clean) (simp add: decodes_to_def kv)
  moreover have "from_utf8 (percent_decode X raw) = Inr (percent_decode X raw)"
    using assms by (simp add: decodes_to_def kv)
  ultimately show ?thesis
    using assms by (simp add: decode_header_step_def decode_value_def decodes_to_def kv from_utf8_valid)
qed

lemma decode_lines:
  assumes "list_all2 (decodes_to X) kvs hvs"
  shows "foldR (decode_header_step X context False sink) (lossy, s) (map header_line kvs) =
    Inr (lossy, fold (\<lambda>(k, v). sink k v) hvs s)"
  using assms
proof (induction arbitrary: s rule: list_all2_induct)
  case (Cons kv kvs hv hvs)
  then show ?case
    by (simp add: decode_step_clean [OF Cons(1)] split: prod.split)
qed simp

lemma decode_block_lines:
  assumes "list_all2 (decodes_to X) kvs hvs"
  shows "decode_header_block X (header_section kvs) context False lossy sink s =
    Inr (lossy, fold (\<lambda>(k, v). sink k v) hvs s)"
proof -
  have "\<forall>kv \<in> set kvs. clean_pair kv"
    using assms by (induction rule: list_all2_induct) (auto simp: decodes_to_def)
  then have "lines (header_section kvs) = map header_line kvs"
    unfolding header_section_def by (intro lines_join) (auto simp: header_line_clean)
  with decode_lines [OF assms] show ?thesis by (simp add: decode_header_block_def)
qed

text \<open>The first blank line ends the block.\<close>

lemma str_find_skip:
  "NL \<notin> set l \<Longrightarrow> str_find HEADER_TERMINATOR (l @ s) = map_option ((+) (length l)) (str_find HEADER_TERMINATOR s)"
  by (induction l; cases "str_find HEADER_TERMINATOR s") (auto simp: HEADER_TERMINATOR_def starts_with_def)

lemma str_find_skip_NL:
  "c \<noteq> NL \<Longrightarrow> str_find HEADER_TERMINATOR (NL # c # s) = map_option Suc (str_find HEADER_TERMINATOR (c # s))"
  by (simp add: HEADER_TERMINATOR_def starts_with_def)

lemma str_find_lines:
  assumes "\<forall>l \<in> set ls. l \<noteq> [] \<and> NL \<notin> set l" and "ls \<noteq> []"
  shows "str_find HEADER_TERMINATOR (join [NL] ls @ HEADER_TERMINATOR @ rest) = Some (length (join [NL] ls))"
  using assms
proof (induction ls)
  case (Cons l ls)
  show ?case
  proof (cases "ls = []")
    case True
    have "str_find HEADER_TERMINATOR (HEADER_TERMINATOR @ rest) = Some 0"
      by (simp add: HEADER_TERMINATOR_def starts_with_def)
    with True Cons.prems str_find_skip [of l] show ?thesis by simp
  next
    case False
    then obtain c cs where c: "join [NL] ls = c # cs" "c \<noteq> NL"
      using Cons.prems by (cases ls; cases "tl ls") (auto simp: neq_Nil_conv)
    with False Cons str_find_skip [of l] show ?thesis
      by (simp add: join_Cons str_find_skip_NL del: str_find.simps)
  qed
qed simp

lemma header_section_find:
  assumes "\<forall>kv \<in> set kvs. clean_pair kv" and "kvs \<noteq> []"
  shows "str_find HEADER_TERMINATOR (header_section kvs @ HEADER_TERMINATOR @ rest) =
    Some (length (header_section kvs))"
  unfolding header_section_def
  by (rule str_find_lines) (use assms header_line_clean in auto)

lemma ascii_sep [simp]: "is_ascii NL" "is_ascii COLON" "is_ascii SP"
  by (simp_all add: is_ascii_def)

lemma header_section_utf8:
  "\<forall>kv \<in> set kvs. clean_pair kv \<Longrightarrow> utf8_valid (header_section kvs)"
proof -
  have line: "utf8_valid (header_line kv)" if "clean_pair kv" for kv
    using that utf8_valid_append_ascii [of COLON "fst kv" "SP # snd kv"]
    by (simp add: header_line_def clean_pair_def utf8_valid_ascii_Cons)
  show ?thesis if "\<forall>kv \<in> set kvs. clean_pair kv"
    using that unfolding header_section_def
  proof (induction kvs)
    case (Cons kv kvs)
    then show ?case
      using line [of kv] utf8_valid_append_ascii [of NL "header_line kv" "join [NL] (map header_line kvs)"]
      by (cases "kvs = []") (simp_all add: join_Cons)
  qed simp
qed

section \<open>Framed messages\<close>

text \<open>Inserting pairs with distinct keys in order gives the list of pairs.\<close>

lemma fold_update_distinct:
  assumes "distinct (map fst kvs)" and "fst ` set m \<inter> fst ` set kvs = {}"
  shows "fold (\<lambda>(k, v). AList.update k v) kvs m = m @ kvs"
  using assms
proof (induction kvs arbitrary: m)
  case (Cons kv kvs)
  obtain k v where kv: "kv = (k, v)" by fastforce
  have "AList.update k v m = m @ [(k, v)]" using Cons.prems by (auto simp: kv)
  moreover have "fold (\<lambda>(k, v). AList.update k v) kvs (m @ [(k, v)]) = (m @ [(k, v)]) @ kvs"
    using Cons.prems by (intro Cons.IH) (auto simp: kv)
  ultimately show ?case by (simp add: kv)
qed simp

lemma parse_headers_section:
  assumes "list_all2 (decodes_to X) kvs hvs" and "distinct (map fst hvs)"
  shows "parse_headers X strict (header_section kvs) = Inr (hvs, [])"
  using fold_update_distinct [OF assms(2), of "[]"]
  by (simp add: parse_headers_def lossy_sink_def decode_block_lines [OF assms(1)])

lemma header_frame_meta_section:
  assumes "list_all2 (decodes_to X) kvs hvs" and "distinct (map fst hvs)"
    and "map_of hvs HEADER_CONTENT_TYPE = Some ct" and "message_type_from_content_type ct = Inr mt"
    and "map_of hvs HEADER_CONTENT_LENGTH = (if n = 0 then None else Some (dec n))" and "n \<le> MAX_MESSAGE_SIZE"
  shows "header_frame_meta X strict (header_section kvs) =
    Inr \<lparr>pb_message_type = mt, pb_headers = hvs, body_length = n, pb_lossy_values = []\<rparr>"
proof -
  have c: "\<forall>kv \<in> set kvs. clean_pair kv"
    using assms(1) by (induction rule: list_all2_induct) (auto simp: decodes_to_def)
  have "n < 2 ^ 64" using assms(6) by (simp add: MAX_MESSAGE_SIZE_def)
  then show ?thesis
    using assms parse_headers_section [OF assms(1,2), of strict]
    by (simp add: header_frame_meta_def from_utf8_valid [OF header_section_utf8 [OF c]] parse_usize_dec)
qed

definition framed :: "(string \<times> string) list \<Rightarrow> string \<Rightarrow> string" where
  "framed kvs body = header_section kvs @ HEADER_TERMINATOR @ body"

lemma frame_framed:
  assumes "list_all2 (decodes_to X) kvs hvs" and "distinct (map fst hvs)"
    and "map_of hvs HEADER_CONTENT_TYPE = Some ct" and "message_type_from_content_type ct = Inr mt"
    and "map_of hvs HEADER_CONTENT_LENGTH = Some (dec (length body))"
    and "body \<noteq> []" and "length body \<le> MAX_MESSAGE_SIZE" and "utf8_valid body"
  shows "frame X strict WaitingForHeaders (framed kvs body @ rest) =
    (Inr (Some \<lparr>message_type = mt, msg_headers = hvs, msg_body = Some body, msg_raw_body = None,
                msg_lossy_values = []\<rparr>), WaitingForHeaders, rest)"
proof -
  have c: "\<forall>kv \<in> set kvs. clean_pair kv"
    using assms(1) by (induction rule: list_all2_induct) (auto simp: decodes_to_def)
  have ne: "kvs \<noteq> []" using assms(1,3) by auto
  have meta: "header_frame_meta X strict (header_section kvs) =
    Inr \<lparr>pb_message_type = mt, pb_headers = hvs, body_length = length body, pb_lossy_values = []\<rparr>"
    by (rule header_frame_meta_section [OF assms(1-4)]) (use assms(5-7) in simp_all)
  have "from_utf8 body = Inr body" using assms(8) by simp
  then show ?thesis
    using header_section_find [OF c ne, of "body @ rest"] assms(6)
    by (simp add: framed_def frame_headers_def after_headers_def meta frame_body_def finish_body_def
        decode_body_def from_utf8_valid [OF assms(8)] message_new_def with_lossy_values_def
        del: str_find.simps)
qed

section \<open>Plain events\<close>

definition plain_pairs :: "externals \<Rightarrow> esl_event \<Rightarrow> (string \<times> string) list" where
  "plain_pairs X ev =
     map (\<lambda>(k, v). (k, percent_encode X v)) (filter (\<lambda>(k, v). k \<noteq> HEADER_CONTENT_LENGTH) (hmap (ev_headers ev)))"

text \<open>The headers of the decoded event: the stored ones, with the length header recomputed.\<close>

definition reparsed_headers :: "esl_event \<Rightarrow> (string \<times> string) list" where
  "reparsed_headers ev =
     filter (\<lambda>(k, v). k \<noteq> HEADER_CONTENT_LENGTH) (hmap (ev_headers ev)) @
     (case ev_body ev of Some b \<Rightarrow> [(HEADER_CONTENT_LENGTH, dec (length b))] | None \<Rightarrow> [])"

text \<open>Keys fit on a line and values are strings, which in Rust are valid UTF-8.\<close>

definition printable_event :: "esl_event \<Rightarrow> bool" where
  "printable_event ev \<longleftrightarrow>
     (\<forall>(k, v) \<in> set (hmap (ev_headers ev)).
        NL \<notin> set k \<and> CR \<notin> set k \<and> COLON \<notin> set k \<and> utf8_valid k \<and> utf8_valid v)"

text \<open>The headers a decoded block leaves in the event.\<close>

definition block_event :: "externals \<Rightarrow> (string \<times> string) list \<Rightarrow> string option \<Rightarrow> esl_event" where
  "block_event X hvs body =
     \<lparr>ev_headers = headers_from_map X hvs, ev_body = body, ev_raw_body = None, ev_lossy_values = []\<rparr>"

lemma concat_lines: "concat (map (\<lambda>x. f x @ [NL]) xs) @ f y = join [NL] (map f (xs @ [y]))"
  by (induction xs) (auto simp: join_Cons)

lemma concat_filter_map:
  "concat (map (\<lambda>(k, v). if k = c then [] else f k v) m) = concat (map (\<lambda>(k, v). f k v) (filter (\<lambda>(k, v). k \<noteq> c) m))"
  by (induction m) auto

lemma to_plain_format_lines:
  "to_plain_format X ev =
     concat (map (\<lambda>kv. header_line kv @ [NL]) (plain_pairs X ev)) @
     (case ev_body ev of
        Some body \<Rightarrow> header_line (HEADER_CONTENT_LENGTH, dec (length body)) @ HEADER_TERMINATOR @ body
      | None \<Rightarrow> [NL])"
proof -
  have "concat (map (\<lambda>(k, v). if k = ''Content-Length'' then [] else k @ '': '' @ percent_encode X v @ [NL])
      (hmap (ev_headers ev))) = concat (map (\<lambda>kv. header_line kv @ [NL]) (plain_pairs X ev))"
    unfolding concat_filter_map
    by (simp add: plain_pairs_def header_line_def comp_def HEADER_CONTENT_LENGTH_def split_def)
  then show ?thesis
    unfolding to_plain_format_def
    by (simp add: header_line_def HEADER_CONTENT_LENGTH_def HEADER_TERMINATOR_def split: option.splits)
qed

lemma to_plain_format_body:
  "ev_body ev = Some body \<Longrightarrow> to_plain_format X ev =
     header_section (plain_pairs X ev @ [(HEADER_CONTENT_LENGTH, dec (length body))]) @ HEADER_TERMINATOR @ body"
  using concat_lines [of header_line "plain_pairs X ev" "(HEADER_CONTENT_LENGTH, dec (length body))"]
  by (simp add: to_plain_format_lines header_section_def)

lemma to_plain_format_no_body:
  assumes "ev_body ev = None" and "plain_pairs X ev \<noteq> []"
  shows "to_plain_format X ev = header_section (plain_pairs X ev) @ HEADER_TERMINATOR"
proof -
  obtain kvs kv where "plain_pairs X ev = kvs @ [kv]" using assms(2) by (metis rev_exhaust)
  then show ?thesis
    using assms(1) concat_lines [of header_line kvs kv]
    by (simp add: to_plain_format_lines header_section_def HEADER_TERMINATOR_def)
qed

lemma lowercase_framing_headers:
  "list_all (\<lambda>n. to_ascii_lowercase n \<notin> set (map to_ascii_lowercase event_header_names))
     [HEADER_CONTENT_LENGTH, HEADER_CONTENT_TYPE, HEADER_REPLY_TEXT]"
  by code_simp

lemma title_case_framing_headers:
  "list_all (\<lambda>n. title_case_dashes n = n \<and> CHR ''_'' \<notin> set n)
     [HEADER_CONTENT_LENGTH, HEADER_CONTENT_TYPE, HEADER_REPLY_TEXT]"
  by code_simp

context esl_externals
begin

lemma normalize_framing:
  assumes "n \<in> {HEADER_CONTENT_LENGTH, HEADER_CONTENT_TYPE, HEADER_REPLY_TEXT}"
  shows "normalize_header_key X n = n"
proof -
  have "to_ascii_lowercase n \<notin> set (map to_ascii_lowercase event_header_names)"
    and t: "title_case_dashes n = n" "CHR ''_'' \<notin> set n"
    using assms lowercase_framing_headers title_case_framing_headers by auto
  then have "header_from_str X n \<noteq> Some h" for h
    using from_str_sound [of n h] by (auto simp: eh_wf_def) (metis image_eqI)
  then have "header_from_str X n = None" by blast
  with t show ?thesis by (simp add: normalize_header_key_def case_alias_key_eq)
qed

lemma pct_char_clean: "list_all pct_char s \<Longrightarrow> NL \<notin> set s \<and> CR \<notin> set s \<and> list_all is_ascii s"
  by (auto simp: list_all_iff pct_char_def is_letter_def is_digit_def is_ascii_def Let_def)

lemma encoded_pair_decodes:
  assumes "NL \<notin> set k" "CR \<notin> set k" "COLON \<notin> set k" "utf8_valid k" "utf8_valid v"
    and "normalize_header_key X k = k"
  shows "decodes_to X (k, percent_encode X v) (k, v)"
  using assms pct_char_clean [OF enc_chars [of v]] decode_enc [of v]
  by (simp add: decodes_to_def clean_pair_def utf8_valid_ascii)

lemma fold_insert_hmap:
  assumes "\<forall>k \<in> fst ` set kvs. normalize_header_key X k = k"
  shows "hmap (fold (\<lambda>(k, v). headers_insert X k v) kvs h) = fold (\<lambda>(k, v). AList.update k v) kvs (hmap h)"
  using assms
proof (induction kvs arbitrary: h)
  case (Cons kv kvs)
  then show ?case by (cases kv) (simp add: insert_hmap)
qed simp

lemma fold_set_header:
  "fold (\<lambda>(k, v). set_header X k v) kvs ev =
     ev\<lparr>ev_headers := fold (\<lambda>(k, v). headers_insert X k v) kvs (ev_headers ev)\<rparr>"
  by (induction kvs arbitrary: ev) (auto simp: set_header_def)

lemma fold_block_event:
  "set_lossy_values [] (fold (\<lambda>(k, v). set_header X k v) hvs event_new) = block_event X hvs None"
  by (simp add: fold_set_header event_new_def block_event_def headers_from_map_def headers_extend_def
      set_lossy_values_def)

lemma block_event_hmap:
  assumes "\<forall>k \<in> fst ` set hvs. normalize_header_key X k = k" and "distinct (map fst hvs)"
  shows "hmap (ev_headers (block_event X hvs body)) = hvs"
  using fold_insert_hmap [OF assms(1), of headers_new] fold_update_distinct [OF assms(2), of "[]"]
  by (simp add: block_event_def headers_from_map_def headers_extend_def headers_new_def)

lemma decode_serialized_section:
  assumes "list_all2 (decodes_to X) kvs hvs" and "kvs \<noteq> []"
  shows "decode_serialized_event X (header_section kvs @ HEADER_TERMINATOR @ body)
      \<lparr>strict_utf8 = strict, skip_undef = False\<rparr> =
    Inr (block_event X hvs (if body = [] then None else Some body))"
proof -
  have c: "\<forall>kv \<in> set kvs. clean_pair kv"
    using assms(1) by (induction rule: list_all2_induct) (auto simp: decodes_to_def)
  have u: "unwrap_or [] (lossy_sink strict []) = []" by (simp add: lossy_sink_def)
  show ?thesis
    using fold_block_event [of hvs]
    by (simp add: decode_serialized_event_def header_section_find [OF c assms(2)]
        decode_block_lines [OF assms(1)] u block_event_def set_body_def del: str_find.simps)
qed

lemma decode_serialized_empty:
  "decode_serialized_event X [NL] \<lparr>strict_utf8 = strict, skip_undef = False\<rparr> = Inr (block_event X [] None)"
proof -
  have "lines [NL] = [[]]" using lines_append_NL [of "[]" "[]"] by (simp add: strip_cr_id)
  then have "decode_header_block X [NL] ctx False lossy sink s = Inr (lossy, s)"
    for ctx lossy and sink :: "string \<Rightarrow> string \<Rightarrow> esl_event \<Rightarrow> esl_event" and s
    by (simp add: decode_header_block_def decode_header_step_def parse_header_line_def
        strip_suffix_CR_None)
  with fold_block_event [of "[]"] show ?thesis
    by (simp add: decode_serialized_event_def HEADER_TERMINATOR_def starts_with_def lossy_sink_def)
qed

lemma plain_pairs_decode:
  assumes "event_wf X ev" and "printable_event ev"
  shows "list_all2 (decodes_to X) (plain_pairs X ev)
    (filter (\<lambda>(k, v). k \<noteq> HEADER_CONTENT_LENGTH) (hmap (ev_headers ev)))"
proof -
  have "decodes_to X (k, percent_encode X v) (k, v)" if "(k, v) \<in> set (hmap (ev_headers ev))" for k v
  proof (rule encoded_pair_decodes)
    show "normalize_header_key X k = k"
      using assms(1) that by (force simp: event_wf_def headers_wf_def)
  qed (use assms(2) that in \<open>auto simp: printable_event_def\<close>)
  then show ?thesis
    unfolding plain_pairs_def list_all2_map1 by (intro list.rel_refl_strong) auto
qed

lemma reparsed_keys:
  assumes "event_wf X ev"
  shows "\<forall>k \<in> fst ` set (reparsed_headers ev). normalize_header_key X k = k"
    and "distinct (map fst (reparsed_headers ev))"
proof -
  have w: "distinct (map fst (hmap (ev_headers ev)))"
    "\<forall>k \<in> fst ` set (hmap (ev_headers ev)). normalize_header_key X k = k"
    using assms by (auto simp: event_wf_def headers_wf_def)
  show "\<forall>k \<in> fst ` set (reparsed_headers ev). normalize_header_key X k = k"
    using w(2) normalize_framing by (auto simp: reparsed_headers_def split: option.splits)
  show "distinct (map fst (reparsed_headers ev))"
    using w(1) by (auto simp: reparsed_headers_def distinct_map_filter split: option.splits)
qed

lemma dec_decodes: "decodes_to X (HEADER_CONTENT_LENGTH, dec n) (HEADER_CONTENT_LENGTH, dec n)"
proof -
  have d: "list_all is_digit (dec n)" by (rule dec_digits)
  then have "CHR 0x25 \<notin> set (dec n)" by (auto simp: list_all_iff is_digit_def)
  moreover have "list_all is_ascii (dec n)"
    using d by (rule list.pred_mono_strong) (simp add: is_digit_def is_ascii_def)
  then have "utf8_valid (dec n)" by (rule utf8_valid_ascii)
  moreover have "utf8_valid HEADER_CONTENT_LENGTH"
    by (rule utf8_valid_ascii) (simp add: HEADER_CONTENT_LENGTH_def is_ascii_def)
  ultimately show ?thesis
    using dec_no_NL dec_no_CR normalize_framing [of HEADER_CONTENT_LENGTH]
    by (simp add: decodes_to_def clean_pair_def decode_plain) (simp add: HEADER_CONTENT_LENGTH_def)
qed

lemma plain_roundtrip:
  assumes "event_wf X ev" and "printable_event ev"
  shows "decode_serialized_event X (to_plain_format X ev) \<lparr>strict_utf8 = strict, skip_undef = False\<rparr> =
    Inr (block_event X (reparsed_headers ev) (if ev_body ev = Some [] then None else ev_body ev))"
proof (cases "ev_body ev")
  case (Some body)
  have "list_all2 (decodes_to X) (plain_pairs X ev @ [(HEADER_CONTENT_LENGTH, dec (length body))]) (reparsed_headers ev)"
    using plain_pairs_decode [OF assms] dec_decodes [of "length body"]
    by (simp add: reparsed_headers_def Some list_all2_appendI)
  from decode_serialized_section [OF this] Some show ?thesis
    by (simp add: to_plain_format_body)
next
  case None
  then have r: "reparsed_headers ev = filter (\<lambda>(k, v). k \<noteq> HEADER_CONTENT_LENGTH) (hmap (ev_headers ev))"
    by (simp add: reparsed_headers_def)
  show ?thesis
  proof (cases "plain_pairs X ev = []")
    case True
    then have "to_plain_format X ev = [NL]" and "reparsed_headers ev = []"
      using None r by (simp_all add: to_plain_format_lines plain_pairs_def)
    with None decode_serialized_empty show ?thesis by simp
  next
    case False
    from decode_serialized_section [OF plain_pairs_decode [OF assms] False, of "[]"] None r False
    show ?thesis by (simp add: to_plain_format_no_body)
  qed
qed

end

section \<open>Properties\<close>

text \<open>
  C10: a well-framed message is read back as written. When a parser between messages holds
  a header section, the terminator and a body of the announced length, followed by anything,
  \<open>parse_message\<close> returns exactly the headers, the type and the body that were framed and
  leaves exactly what followed, in strict and in lossy mode alike.
\<close>

theorem message_roundtrip:
  assumes "externals_ok X" and "parser_wf p"
    and "p_state p = WaitingForHeaders" and "remaining_bytes p = framed kvs body @ rest"
    and "list_all2 (decodes_to X) kvs hvs" and "distinct (map fst hvs)"
    and "map_of hvs HEADER_CONTENT_TYPE = Some ct" and "message_type_from_content_type ct = Inr mt"
    and "map_of hvs HEADER_CONTENT_LENGTH = Some (dec (length body))"
    and "body \<noteq> []" and "length body \<le> MAX_MESSAGE_SIZE" and "utf8_valid body"
  shows "parser_view (parse_message X p) =
    (Inr (Some \<lparr>message_type = mt, msg_headers = hvs, msg_body = Some body, msg_raw_body = None,
                msg_lossy_values = []\<rparr>), WaitingForHeaders, rest)"
  using esl_externals.parse_message_frame(1) [OF esl_externalsI [OF assms(1)] assms(2)]
    frame_framed [OF assms(5-12), of "strict_header_utf8 p" rest] assms(3,4)
  by simp

theorem message_roundtrip_witness:
  defines "kvs \<equiv> [(''content-type'', ''log/data''), (''Content-Length'', ''2'')]"
    and "hvs \<equiv> [(''Content-Type'', ''log/data''), (''Content-Length'', ''2'')]"
    and "X \<equiv> reference_externals"
  shows "fst (parse_message X (snd (add_data X (framed kvs ''hi'' @ ''Content'') (parser_new X)))) =
    Inr (Some \<lparr>message_type = Event, msg_headers = hvs, msg_body = Some ''hi'', msg_raw_body = None,
               msg_lossy_values = []\<rparr>)"
proof -
  let ?p = "snd (add_data X (framed kvs ''hi'' @ ''Content'') (parser_new X))"
  have ok: "externals_ok X" by (simp add: X_def reference_externals_ok)
  have p: "parser_wf ?p" "p_state ?p = WaitingForHeaders" "remaining_bytes ?p = framed kvs ''hi'' @ ''Content''"
    by (simp_all add: add_data_wf parser_wf_new) (simp_all add: parser_new_def remaining_bytes_def)
  have d: "list_all2 (decodes_to X) kvs hvs"
    unfolding kvs_def hvs_def X_def by code_simp
  have l: "dec (length ''hi'') = ''2''" by code_simp
  have m: "message_type_from_content_type ''log/data'' = Inr Event" by code_simp
  have u: "utf8_valid ''hi''" by code_simp
  have "map_of hvs HEADER_CONTENT_TYPE = Some ''log/data''" "map_of hvs HEADER_CONTENT_LENGTH = Some (dec (length ''hi''))"
      "distinct (map fst hvs)"
    unfolding hvs_def l by (simp_all add: HEADER_CONTENT_TYPE_def HEADER_CONTENT_LENGTH_def)
  with message_roundtrip [OF ok p d _ _ m _ _ _ u] show ?thesis
    by (simp add: parser_view_def MAX_MESSAGE_SIZE_def)
qed

text \<open>
  C11: the plain serialization of an event parses back. Decoding \<open>to_plain_format\<close>
  of a well-formed event whose keys fit on a line succeeds and gives the event's headers in
  order, the length header apart, which is recomputed from the body, and its body, where
  an empty body comes back as none; no value is flagged lossy.
\<close>

theorem plain_event_roundtrip:
  assumes "externals_ok X" and "event_wf X ev" and "printable_event ev"
  shows "\<exists>ev'. decode_serialized_event X (to_plain_format X ev) \<lparr>strict_utf8 = strict, skip_undef = False\<rparr> = Inr ev'
    \<and> hmap (ev_headers ev') = reparsed_headers ev
    \<and> ev_body ev' = (if ev_body ev = Some [] then None else ev_body ev)
    \<and> ev_raw_body ev' = None \<and> ev_lossy_values ev' = []"
proof -
  note X = esl_externalsI [OF assms(1)]
  note k = esl_externals.reparsed_keys [OF X assms(2)]
  from esl_externals.plain_roundtrip [OF X assms(2,3), of strict] esl_externals.block_event_hmap [OF X k]
  show ?thesis by (simp add: block_event_def)
qed

theorem plain_event_roundtrip_witness:
  defines "ev \<equiv> set_body ''job done'' (set_header reference_externals ''Job-Command'' ''a b%'' event_new)"
  shows "\<exists>ev'. decode_serialized_event reference_externals (to_plain_format reference_externals ev)
      \<lparr>strict_utf8 = True, skip_undef = False\<rparr> = Inr ev'
    \<and> hmap (ev_headers ev') = [(''Job-Command'', ''a b%''), (''Content-Length'', ''8'')]
    \<and> ev_body ev' = Some ''job done''"
proof -
  have "event_wf reference_externals ev"
    unfolding ev_def using reference.event_wf_set [OF reference.event_wf_new]
    by (simp add: event_wf_def set_body_def)
  moreover have "printable_event ev" unfolding ev_def by code_simp
  moreover have "reparsed_headers ev = [(''Job-Command'', ''a b%''), (''Content-Length'', ''8'')]"
    and "ev_body ev = Some ''job done''"
    unfolding ev_def by code_simp+
  ultimately show ?thesis
    using plain_event_roundtrip [OF reference_externals_ok, of ev True] by fastforce
qed

end
