(* ===== verification/Raw_Body.thy ===== *)
theory Raw_Body
  imports Event_Wire
begin

text \<open>
  The bytes kept beside a lossily decoded body. The comment in
  \<open>parse_plain_event\<close> argues that U+FFFD substitution never touches newline
  bytes, so that the blank line before the inner body is found in the raw bytes
  too; \<open>lossy_find\<close> is that argument, and \<open>plain_event_raw\<close> its consequence.
\<close>

section \<open>Lossy decoding keeps the newlines\<close>

lemma REPLACEMENT_no_NL [simp]: "NL \<notin> set REPLACEMENT"
  by (simp add: REPLACEMENT_def)

lemma lossy_no_NL: "NL \<notin> set s \<Longrightarrow> NL \<notin> set (utf8_lossy s)"
proof (induction s rule: utf8_lossy.induct)
  case (1 s)
  show ?case
  proof (cases "s = []")
    case False
    have sub: "NL \<notin> set (drop n s)" "NL \<notin> set (take n s)" for n
      using 1(2) by (meson in_set_dropD in_set_takeD)+
    have "NL \<notin> set (utf8_lossy (drop (snd (utf8_next s)) s))"
      using "1.IH" [OF False, of "utf8_next s" "fst (utf8_next s)" "snd (utf8_next s)"] sub by simp
    with False sub show ?thesis by (simp add: utf8_lossy_step)
  qed simp
qed

lemma lossy_hd:
  assumes "c \<noteq> NL"
  shows "\<exists>d t. utf8_lossy (c # s) = d # t \<and> d \<noteq> NL"
proof -
  let ?n = "snd (utf8_next (c # s))"
  obtain m where m: "?n = Suc m" using utf8_next_pos [of "c # s"] by (cases ?n) auto
  have "utf8_lossy (c # s) = (if fst (utf8_next (c # s)) then take ?n (c # s) else REPLACEMENT) @
      utf8_lossy (drop ?n (c # s))"
    by (rule utf8_lossy_step) simp
  with m assms show ?thesis by (auto simp: REPLACEMENT_def)
qed

lemma str_find_NL_NL: "str_find HEADER_TERMINATOR (NL # NL # s) = Some 0"
  by (simp add: HEADER_TERMINATOR_def starts_with_def)

lemma split_first_NL:
  obtains "NL \<notin> set s" | l t where "s = l @ NL # t" "NL \<notin> set l"
  by (metis split_list_first)

lemma str_find_no_NL: "NL \<notin> set s \<Longrightarrow> str_find HEADER_TERMINATOR s = None"
  using str_find_skip [of s "[]"] by (simp add: HEADER_TERMINATOR_def)

text \<open>The first blank line is at the same place, counted in decoded text.\<close>

lemma lossy_find:
  "case str_find HEADER_TERMINATOR s of
     None \<Rightarrow> str_find HEADER_TERMINATOR (utf8_lossy s) = None
   | Some i \<Rightarrow> \<exists>j. str_find HEADER_TERMINATOR (utf8_lossy s) = Some j \<and>
       drop (j + 2) (utf8_lossy s) = utf8_lossy (drop (i + 2) s)"
proof (induction "length s" arbitrary: s rule: less_induct)
  case less
  show ?case
  proof (rule split_first_NL [of s])
    assume "NL \<notin> set s"
    then show ?thesis using lossy_no_NL by (simp add: str_find_no_NL)
  next
    fix l t assume s: "s = l @ NL # t" and l: "NL \<notin> set l"
    have ls: "utf8_lossy s = utf8_lossy l @ NL # utf8_lossy t"
      by (simp add: s utf8_lossy_append_ascii)
    note skip = str_find_skip [OF l] str_find_skip [OF lossy_no_NL [OF l]]
    show ?thesis
    proof (cases t)
      case Nil
      then show ?thesis
        unfolding ls unfolding s skip by (simp add: HEADER_TERMINATOR_def starts_with_def)
    next
      case (Cons c r)
      show ?thesis
      proof (cases "c = NL")
        case True
        have "utf8_lossy t = NL # utf8_lossy r" using Cons True by (simp add: utf8_lossy_ascii_Cons)
        then show ?thesis unfolding ls unfolding s skip Cons True by (simp add: str_find_NL_NL del: str_find.simps)
      next
        case False
        obtain d u where d: "utf8_lossy t = d # u" "d \<noteq> NL" using lossy_hd [OF False, of r] Cons by auto
        have "length t < length s" by (simp add: s)
        note IH = less.hyps [OF this]
        have f: "str_find HEADER_TERMINATOR (NL # t) = map_option Suc (str_find HEADER_TERMINATOR t)"
          "str_find HEADER_TERMINATOR (NL # utf8_lossy t) = map_option Suc (str_find HEADER_TERMINATOR (utf8_lossy t))"
          using str_find_skip_NL False d Cons by simp_all
        show ?thesis
          using IH unfolding ls unfolding s skip f
          by (cases "str_find HEADER_TERMINATOR t") (auto simp: numeral_3_eq_3 simp del: str_find.simps)
      qed
    qed
  qed
qed

section \<open>Raw bodies of messages and plain events\<close>

definition raw_body_ok :: "esl_message \<Rightarrow> bool" where
  "raw_body_ok m = (case msg_raw_body m of None \<Rightarrow> True
     | Some raw \<Rightarrow> msg_body m = Some (utf8_lossy raw) \<and> \<not> utf8_valid raw)"

lemma finish_body_raw: "finish_body strict pb d = Inr m \<Longrightarrow> raw_body_ok m"
  by (cases "utf8_valid d") (auto simp: from_utf8_valid finish_body_def decode_body_def raw_body_ok_def result_elims with_lossy_values_def
      message_new_def split: sum.splits if_splits)

lemma frame_raw: "frame X strict st s = (Inr (Some m), st', s') \<Longrightarrow> raw_body_ok m"
  by (cases st)
    (auto simp: frame_headers_def after_headers_def frame_body_def mapR_eq_Inr empty_message_def
      with_lossy_values_def message_new_def raw_body_ok_def finish_body_raw
      split: option.splits sum.splits if_splits dest: finish_body_raw)

lemma decode_serialized_body:
  assumes "decode_serialized_event X s opts = Inr ev"
  shows "ev_raw_body ev = None \<and>
    ev_body ev = (case str_find HEADER_TERMINATOR s of
       None \<Rightarrow> None | Some i \<Rightarrow> (if drop (i + 2) s = [] then None else Some (drop (i + 2) s)))"
proof -
  have inv: "ev_body (snd st) = None \<and> ev_raw_body (snd st) = None"
    if "decode_header_block X b ctx u lossy (set_header X) event_new = Inr st" for b ctx u lossy st
  proof -
    have "(\<lambda>st. ev_body (snd st) = None \<and> ev_raw_body (snd st) = None) st"
      using that unfolding decode_header_block_def
      by (rule foldR_invariant)
        (auto simp: event_new_def decode_header_step_def result_elims set_header_def
          split: option.splits if_splits prod.splits)
    then show ?thesis .
  qed
  show ?thesis
    using assms
    by (cases "str_find HEADER_TERMINATOR s")
      (auto simp: decode_serialized_event_def result_elims set_lossy_values_def set_body_def
        HEADER_TERMINATOR_def dest!: inv split: if_splits)
qed

lemma carry_body [simp]: "ev_body (carry_lossy_signal l r ev) = ev_body ev"
  "ev_raw_body (carry_lossy_signal l r ev) = (case r of Some x \<Rightarrow> Some x | None \<Rightarrow> ev_raw_body ev)"
  by (simp_all add: carry_lossy_signal_def set_lossy_values_def set_raw_body_def Let_def split: option.splits)

lemma plain_event_raw:
  assumes "parse_plain_event X strict m = Inr ev" and "raw_body_ok m" and "msg_raw_body m = Some raw"
  shows "ev_body ev = map_option utf8_lossy (ev_raw_body ev) \<and>
    (\<forall>inner. ev_raw_body ev = Some inner \<longrightarrow> (\<exists>hdr. raw = hdr @ [NL, NL] @ inner))"
proof -
  have b: "msg_body m = Some (utf8_lossy raw)" using assms(2,3) by (simp add: raw_body_ok_def)
  with assms(1,3) obtain ev0 where
    d: "decode_serialized_event X (utf8_lossy raw) \<lparr>strict_utf8 = strict, skip_undef = False\<rparr> = Inr ev0"
    and ev: "ev = carry_lossy_signal (msg_lossy_values m)
      (if ev_body ev0 \<noteq> None then inner_raw_body raw else None) ev0"
    by (auto simp: parse_plain_event_def result_elims Let_def split: if_splits)
  note body = decode_serialized_body [OF d]
  have HT: "[NL, NL] = HEADER_TERMINATOR" by (simp add: HEADER_TERMINATOR_def)
  show ?thesis
  proof (cases "str_find HEADER_TERMINATOR raw")
    case None
    with lossy_find [of raw] body ev show ?thesis by (simp add: inner_raw_body_def HT)
  next
    case (Some i)
    with lossy_find [of raw] obtain j where j: "str_find HEADER_TERMINATOR (utf8_lossy raw) = Some j"
      "drop (j + 2) (utf8_lossy raw) = utf8_lossy (drop (i + 2) raw)" by auto
    have "raw = take i raw @ HEADER_TERMINATOR @ drop (i + 2) raw"
    proof -
      have "prefix HEADER_TERMINATOR (drop i raw)" using Some by (simp add: str_find_iff first_at_def)
      then obtain u where u: "drop i raw = HEADER_TERMINATOR @ u" by (auto simp: prefix_def)
      then have "drop (i + 2) raw = u"
        by (metis HEADER_TERMINATOR_def One_nat_def Suc_1 add.commute append_eq_conv_conj drop_drop
            length_Cons list.size(3))
      with u show ?thesis by (metis append_take_drop_id)
    qed
    with ev body j Some show ?thesis
      by (auto simp: inner_raw_body_def HT)
  qed
qed

section \<open>Properties\<close>



end
