(* ===== verification/Response.thy ===== *)
theory Response
  imports Raw_Body
begin

text \<open>
  \<open>src/command/response.rs\<close>: the reply to a command, its classification, the
  parsing of API bodies and of channel dumps. The lemmas say which replies count
  as success, what each error carries, and that a channel dump never shows the
  empty-value sentinel.
\<close>

definition parse_api_body :: "string \<Rightarrow> string esl_result" where
  "parse_api_body body =
     (let body = unwrap_or body (strip_suffix [NL] body);
          body = unwrap_or body (strip_suffix [CR] body)
      in if body = [] then Inl (ProtocolError ''api response body is empty'')
         else case strip_prefix REPLY_PREFIX_OK body of
                Some rest \<Rightarrow> Inr (unwrap_or rest (strip_prefix [SP] rest))
              | None \<Rightarrow>
                  if starts_with REPLY_PREFIX_ERR body \<or> starts_with REPLY_PREFIX_USAGE body
                  then Inl (CommandFailed body)
                  else Inr body)"

record channel_dump_options =
  cd_strict_header_utf8 :: bool

definition channel_dump_format :: "string \<Rightarrow> string option" where
  "channel_dump_format text =
     (case trim_start text of
        [] \<Rightarrow> None
      | c # _ \<Rightarrow> if c = CHR 0x7B then Some ''json'' else if c = CHR 0x3C then Some ''xml'' else None)"

definition parse_channel_dump_with_options ::
  "externals \<Rightarrow> string \<Rightarrow> channel_dump_options \<Rightarrow> esl_event esl_result" where
  "parse_channel_dump_with_options X body options =
     bindR (parse_api_body body) (\<lambda>text.
       case channel_dump_format text of
         Some format \<Rightarrow> Inl (InvalidEventFormat format)
       | None \<Rightarrow>
           decode_serialized_event X text
             \<lparr>strict_utf8 = cd_strict_header_utf8 options, skip_undef = True\<rparr>)"

definition parse_channel_dump :: "externals \<Rightarrow> string \<Rightarrow> esl_event esl_result" where
  "parse_channel_dump X body = parse_channel_dump_with_options X body \<lparr>cd_strict_header_utf8 = False\<rparr>"

section \<open>Replies\<close>

datatype reply_status = ReplyOk | ReplyErr | ReplyOther

record esl_response =
  rs_headers :: esl_headers
  rs_body :: "string option"
  rs_raw_body :: "string option"
  rs_status :: reply_status
  rs_lossy_values :: lossy_values

definition status_of :: "string option \<Rightarrow> reply_status" where
  "status_of reply =
     (case reply of
        None \<Rightarrow> ReplyOk
      | Some t \<Rightarrow>
          if t = [] then ReplyOk
          else if starts_with REPLY_PREFIX_OK t then ReplyOk
          else if starts_with REPLY_PREFIX_ERR t then ReplyErr
          else ReplyOther)"

definition response_new :: "externals \<Rightarrow> index_map \<Rightarrow> string option \<Rightarrow> esl_response" where
  "response_new X headers body =
     (let hs = headers_from_map X headers
      in \<lparr>rs_headers = hs, rs_body = body, rs_raw_body = None,
          rs_status = status_of (headers_get hs HEADER_REPLY_TEXT), rs_lossy_values = []\<rparr>)"

definition response_from_message :: "externals \<Rightarrow> esl_message \<Rightarrow> esl_response" where
  "response_from_message X m =
     (response_new X (msg_headers m) (msg_body m))
       \<lparr>rs_raw_body := msg_raw_body m, rs_lossy_values := msg_lossy_values m\<rparr>"

definition is_success :: "esl_response \<Rightarrow> bool" where
  "is_success r \<longleftrightarrow> rs_status r = ReplyOk"

definition response_header :: "esl_response \<Rightarrow> string \<Rightarrow> string option" where
  "response_header r name = headers_get (rs_headers r) name"

definition reply_text :: "esl_response \<Rightarrow> string option" where
  "reply_text r = headers_get (rs_headers r) HEADER_REPLY_TEXT"

definition job_uuid :: "esl_response \<Rightarrow> string option" where
  "job_uuid r = headers_get (rs_headers r) (eh_as_str JobUuid)"

definition event_uuid :: "esl_response \<Rightarrow> string option" where
  "event_uuid r =
     Option.bind (reply_text r) (\<lambda>t.
     Option.bind (strip_prefix REPLY_PREFIX_OK t) (\<lambda>rest.
     Option.bind (strip_prefix [SP] rest) (\<lambda>s. if s \<noteq> [] then Some s else None)))"

definition command_failed :: "esl_response \<Rightarrow> esl_error" where
  "command_failed r = CommandFailed (unwrap_or REPLY_PREFIX_ERR (reply_text r))"

definition api_result :: "esl_response \<Rightarrow> string esl_result" where
  "api_result r =
     (if rs_status r = ReplyErr then Inl (command_failed r)
      else parse_api_body (unwrap_or [] (rs_body r)))"

definition into_result :: "esl_response \<Rightarrow> esl_response esl_result" where
  "into_result r =
     (case rs_status r of
        ReplyOk \<Rightarrow> Inr r
      | ReplyErr \<Rightarrow> Inl (command_failed r)
      | ReplyOther \<Rightarrow> Inl (UnexpectedReply (unwrap_or [] (reply_text r))))"

definition check :: "esl_response \<Rightarrow> unit esl_result" where
  "check r = mapR (\<lambda>_. ()) (into_result r)"

section \<open>Classification\<close>

text \<open>The status is derived from the stored \<open>Reply-Text\<close>; nothing changes one without the other.\<close>

definition response_wf :: "esl_response \<Rightarrow> bool" where
  "response_wf r \<longleftrightarrow> rs_status r = status_of (reply_text r)"

lemma response_wf_new: "response_wf (response_new X hs b)"
  by (simp add: response_wf_def response_new_def reply_text_def Let_def)

lemma response_wf_from_message: "response_wf (response_from_message X m)"
  by (simp add: response_wf_def response_from_message_def response_new_def reply_text_def Let_def)

lemma ok_err_disjoint: "starts_with REPLY_PREFIX_OK t \<Longrightarrow> \<not> starts_with REPLY_PREFIX_ERR t"
  by (auto simp: starts_with_prefix prefix_def REPLY_PREFIX_OK_def REPLY_PREFIX_ERR_def)

lemma into_result_cases:
  assumes "response_wf r"
  shows "into_result r =
    (case reply_text r of
       None \<Rightarrow> Inr r
     | Some t \<Rightarrow>
         if t = [] \<or> starts_with REPLY_PREFIX_OK t then Inr r
         else if starts_with REPLY_PREFIX_ERR t then Inl (CommandFailed t)
         else Inl (UnexpectedReply t))"
  using assms
  by (auto simp: into_result_def response_wf_def status_of_def command_failed_def
      split: option.splits)

lemma api_result_refused:
  assumes "response_wf r" and "reply_text r = Some t" and "starts_with REPLY_PREFIX_ERR t"
  shows "api_result r = Inl (CommandFailed t)"
proof -
  have "t \<noteq> []" "\<not> starts_with REPLY_PREFIX_OK t"
    using assms(3) ok_err_disjoint by (auto simp: starts_with_prefix REPLY_PREFIX_ERR_def)
  with assms show ?thesis by (simp add: api_result_def response_wf_def status_of_def command_failed_def)
qed

section \<open>API bodies\<close>

text \<open>The line ending that is stripped before a body is read.\<close>

definition api_text :: "string \<Rightarrow> string" where
  "api_text body = strip_cr (unwrap_or body (strip_suffix [NL] body))"

lemma parse_api_body_eq:
  "parse_api_body body =
     (let t = api_text body in
      if t = [] then Inl (ProtocolError ''api response body is empty'')
      else if starts_with REPLY_PREFIX_OK t
      then Inr (unwrap_or (drop 3 t) (strip_prefix [SP] (drop 3 t)))
      else if starts_with REPLY_PREFIX_ERR t \<or> starts_with REPLY_PREFIX_USAGE t
      then Inl (CommandFailed t)
      else Inr t)"
proof -
  let ?t = "api_text body"
  have e: "parse_api_body body =
     (if ?t = [] then Inl (ProtocolError ''api response body is empty'')
      else case strip_prefix REPLY_PREFIX_OK ?t of
             Some rest \<Rightarrow> Inr (unwrap_or rest (strip_prefix [SP] rest))
           | None \<Rightarrow>
               if starts_with REPLY_PREFIX_ERR ?t \<or> starts_with REPLY_PREFIX_USAGE ?t
               then Inl (CommandFailed ?t) else Inr ?t)"
    unfolding parse_api_body_def api_text_def strip_cr_def Let_def ..
  show ?thesis
  proof (cases "strip_prefix REPLY_PREFIX_OK ?t")
    case None
    then have "\<not> starts_with REPLY_PREFIX_OK ?t" by (simp add: starts_with_def)
    then show ?thesis unfolding e None Let_def option.case by simp
  next
    case (Some r)
    then have t: "?t = REPLY_PREFIX_OK @ r" by simp
    have "drop 3 (REPLY_PREFIX_OK @ r) = r" by (simp add: REPLY_PREFIX_OK_def)
    then show ?thesis unfolding e Let_def t by simp
  qed
qed

lemma api_text_line [simp]: "NL \<notin> set t \<Longrightarrow> CR \<notin> set t \<Longrightarrow> api_text (t @ [NL]) = t"
  "NL \<notin> set t \<Longrightarrow> CR \<notin> set t \<Longrightarrow> api_text (t @ [CR, NL]) = t"
proof -
  have a: "strip_suffix [NL] (t @ [NL]) = Some t" "strip_suffix [NL] (t @ [CR, NL]) = Some (t @ [CR])"
    "strip_suffix [CR] (t @ [CR]) = Some t"
    by (simp_all only: strip_suffix_Some) simp_all
  show "api_text (t @ [NL]) = t" if "NL \<notin> set t" "CR \<notin> set t"
    unfolding api_text_def a unwrap_or_simps using that by (simp add: strip_cr_id)
  show "api_text (t @ [CR, NL]) = t"
    unfolding api_text_def a unwrap_or_simps strip_cr_def by simp
qed

section \<open>Channel dumps\<close>

lemma set_update_values: "v \<in> snd ` set (AList.update k w m) \<Longrightarrow> v = w \<or> v \<in> snd ` set m"
  by (induction m) (auto split: if_splits)

lemma map_of_values: "map_of m k = Some v \<Longrightarrow> v \<in> snd ` set m"
  by (force dest: map_of_SomeD)

lemma headers_get_value: "headers_get h n = Some v \<Longrightarrow> v \<in> snd ` set (hmap h)"
  by (auto simp: headers_get_def dest: map_of_values split: option.splits)

lemma decode_step_cases:
  assumes "decode_header_step X ctx skip sink st l = Inr st'"
  shows "snd st' = snd st \<or> (\<exists>k v. (skip \<longrightarrow> v \<noteq> UNDEF_VALUE) \<and> snd st' = sink k v (snd st))"
  using assms
  by (auto simp: decode_header_step_def result_elims split: option.splits if_splits prod.splits) metis+

context esl_externals
begin

lemma decode_block_no_undef:
  assumes "decode_header_block X b ctx True lossy (set_header X) event_new = Inr (l, ev)"
  shows "UNDEF_VALUE \<notin> snd ` set (hmap (ev_headers ev))"
proof -
  have "(\<lambda>st. UNDEF_VALUE \<notin> snd ` set (hmap (ev_headers (snd st)))) (l, ev)"
    using assms unfolding decode_header_block_def
  proof (rule foldR_invariant)
    fix st l st'
    assume old: "UNDEF_VALUE \<notin> snd ` set (hmap (ev_headers (snd st)))"
      and "decode_header_step X ctx True (set_header X) st l = Inr st'"
    from decode_step_cases [OF this(2)] consider "snd st' = snd st"
      | k v where "v \<noteq> UNDEF_VALUE" "snd st' = set_header X k v (snd st)" by blast
    then show "UNDEF_VALUE \<notin> snd ` set (hmap (ev_headers (snd st')))"
    proof cases
      case (2 k v)
      then show ?thesis
        using old set_update_values [of UNDEF_VALUE "normalize_header_key X k" v "hmap (ev_headers (snd st))"]
        by (auto simp: set_header_def insert_hmap)
    qed (use old in simp)
  qed (simp add: event_new_def headers_new_def)
  then show ?thesis by simp
qed

lemma dump_no_undef:
  assumes "parse_channel_dump_with_options X body options = Inr ev"
  shows "header_str ev name \<noteq> Some UNDEF_VALUE" and "ev_raw_body ev = None"
proof -
  from assms obtain tx where d: "decode_serialized_event X tx
      \<lparr>strict_utf8 = cd_strict_header_utf8 options, skip_undef = True\<rparr> = Inr ev"
    by (auto simp: parse_channel_dump_with_options_def result_elims split: option.splits)
  then obtain b l ev0 where "decode_header_block X b ''event header'' True
      (lossy_sink (cd_strict_header_utf8 options) []) (set_header X) event_new = Inr (l, ev0)"
    "ev_headers ev = ev_headers ev0"
    by (auto simp: decode_serialized_event_def result_elims set_body_def set_lossy_values_def Let_def
        split: option.splits if_splits prod.splits)
  with decode_block_no_undef show "header_str ev name \<noteq> Some UNDEF_VALUE"
    by (fastforce simp: header_str_def dest: headers_get_value)
  show "ev_raw_body ev = None" using decode_serialized_body [OF d] by simp
qed

end

lemma trim_start_hd:
  assumes "c \<notin> hd ` set white_space"
  shows "trim_start (c # s) = c # s"
proof -
  have "\<not> starts_with w (c # s)" if "w \<in> set white_space" for w
  proof
    assume "starts_with w (c # s)"
    with white_space_nonempty [OF that] have "hd w = c" by (auto simp: starts_with_prefix prefix_Cons)
    with that assms show False by (metis imageI)
  qed
  then have "strip_one_ws (c # s) = None" by (simp add: strip_one_ws_def find_None_iff)
  then show ?thesis by (subst trim_start.simps) simp
qed

section \<open>Properties\<close>

text \<open>
  A reply is judged by its \<open>Reply-Text\<close> alone. A reply built from a message
  is a success when the text is absent, empty or begins with \<open>+OK\<close>; with \<open>-ERR\<close> it is
  the failed command carrying the whole text, anything else an unexpected reply
  carrying it; and the API result of a refused command is that same failure,
  whatever the body says.
\<close>

lemma reply_classification:
  fixes X m defines "r \<equiv> response_from_message X m"
  shows "into_result r =
    (case reply_text r of
       None \<Rightarrow> Inr r
     | Some t \<Rightarrow>
         if t = [] \<or> starts_with REPLY_PREFIX_OK t then Inr r
         else if starts_with REPLY_PREFIX_ERR t then Inl (CommandFailed t)
         else Inl (UnexpectedReply t))
    \<and> (is_success r \<longleftrightarrow> into_result r = Inr r)
    \<and> (\<not> (\<exists>t. reply_text r = Some t \<and> starts_with REPLY_PREFIX_ERR t) \<or> api_result r = Inl (CommandFailed (the (reply_text r))))"
proof -
  have wf: "response_wf r" by (simp add: r_def response_wf_from_message)
  have "is_success r \<longleftrightarrow> into_result r = Inr r"
    by (simp add: is_success_def into_result_def split: reply_status.splits)
  with into_result_cases [OF wf] api_result_refused [OF wf] show ?thesis by auto
qed

text \<open>
  The text of an API reply survives its framing. For every one-line text, a body
  \<open>+OK text\<close> gives the text, with a bare or a CRLF line end, and a body \<open>-ERR text\<close>
  gives a command failure whose payload, as the error type splits it, is the text.
\<close>

lemma api_body_text:
  assumes "NL \<notin> set t" and "CR \<notin> set t" and "e \<in> {[NL], [CR, NL]}"
  shows "parse_api_body (''+OK '' @ t @ e) = Inr t
    \<and> (\<exists>err. parse_api_body (''-ERR '' @ t @ e) = Inl err \<and> command_failure alnum err = Some (CfErr t))"
proof -
  have a: "api_text (''+OK '' @ t @ e) = ''+OK '' @ t" "api_text (''-ERR '' @ t @ e) = ''-ERR '' @ t"
    using assms api_text_line [of "''+OK '' @ t"] api_text_line [of "''-ERR '' @ t"] by auto
  have ok: "parse_api_body (''+OK '' @ t @ e) = Inr t"
    unfolding parse_api_body_eq a by (simp add: starts_with_def REPLY_PREFIX_OK_def)
  have err: "parse_api_body (''-ERR '' @ t @ e) = Inl (CommandFailed (''-ERR '' @ t))"
    unfolding parse_api_body_eq a
    by (simp add: starts_with_def REPLY_PREFIX_OK_def REPLY_PREFIX_ERR_def)
  have "trim_start (''-ERR '' @ t) = REPLY_PREFIX_ERR @ SP # t"
    using trim_start_hd [of "CHR ''-''" "''ERR '' @ t"] by (simp add: REPLY_PREFIX_ERR_def white_space_def)
  from command_failure_err [OF this] ok err show ?thesis by blast
qed

text \<open>
  A channel dump never shows the unset sentinel. Whatever text \<open>uuid_dump\<close>
  returned, an event parsed from it has no header whose value is \<open>_undef_\<close>, by any
  spelling of the name, and carries no raw body; a JSON or XML dump is refused by name.
\<close>

lemma channel_dump_no_undef:
  assumes "externals_ok X"
  shows "case parse_channel_dump_with_options X body options of
      Inr ev \<Rightarrow> (\<forall>name. header_str ev name \<noteq> Some UNDEF_VALUE) \<and> ev_raw_body ev = None
    | Inl e \<Rightarrow> (\<forall>text f. parse_api_body body \<noteq> Inr text \<or> channel_dump_format text \<noteq> Some f \<or> e = InvalidEventFormat f)"
proof (cases "parse_channel_dump_with_options X body options")
  case (Inr ev)
  with esl_externals.dump_no_undef [OF esl_externalsI [OF assms]] show ?thesis by simp
next
  case (Inl e)
  then show ?thesis by (auto simp: parse_channel_dump_with_options_def)
qed

end
