(* ===== verification/Connection.thy ===== *)
theory Connection
  imports Framing Response
begin

text \<open>
  \<open>src/connection/mod.rs\<close>: the state the client handles and the reader task share,
  the reasons a connection ends, the options fixed at connect time, and the step
  that reads the socket into the parser.

  The asynchronous runtime is not modelled. What it decides is an input of the
  definitions: what a read of the socket returned (\<open>read_outcome\<close>), what the
  clock shows (nanoseconds as natural numbers), and the operations of the bounded
  event channel (\<open>channel_ops\<close>, a parameter with the laws of locale
  \<open>event_channel\<close>). The sender half of a one-shot reply channel is the number of
  the command that waits on it, and \<open>oneshots\<close> holds what was sent into these
  channels.
\<close>

datatype disconnect_reason =
    ServerNotice "string option" "string option"
  | HeartbeatExpiredReason
  | IoError string
  | ConnectionClosedReason
  | ClientRequested
  | ReexecTeardown
  | ProtocolErrorReason string
  | AccessDeniedReason string

fun disconnect_reason_display :: "disconnect_reason \<Rightarrow> string" where
  "disconnect_reason_display (ServerNotice (Some uuid) body) =
     ''server sent disconnect notice (session '' @ uuid @ '')''"
| "disconnect_reason_display (ServerNotice None body) = ''server sent disconnect notice''"
| "disconnect_reason_display HeartbeatExpiredReason = ''liveness timeout expired''"
| "disconnect_reason_display (IoError m) = ''I/O error: '' @ m"
| "disconnect_reason_display ConnectionClosedReason = ''connection closed''"
| "disconnect_reason_display ClientRequested = ''client requested disconnect''"
| "disconnect_reason_display ReexecTeardown = ''re-exec teardown''"
| "disconnect_reason_display (ProtocolErrorReason m) = ''protocol error: '' @ m"
| "disconnect_reason_display (AccessDeniedReason m) = ''access denied: '' @ m"

datatype connection_status = Connected | Disconnected disconnect_reason

datatype connection_mode = Inbound | Outbound

datatype event_overflow = DropIncoming | BlockFor nat

record pending_reply =
  waiting :: "nat option"
  stale_replies :: u32
  reader_dead :: bool

definition pending_reply_new :: pending_reply where
  "pending_reply_new = \<lparr>waiting = None, stale_replies = 0, reader_dead = False\<rparr>"

record shared_state =
  pending :: pending_reply
  status :: connection_status
  liveness_timeout_ms :: u64
  command_timeout_ms :: u64
  queue_full_notice_armed :: bool
  dropped_event_count :: u64
  event_stall_count :: u64
  event_stall_nanos :: u64
  auth_response :: "esl_response option"
  sh_mode :: connection_mode
  reexec_caller :: bool
  oneshots :: "(nat \<times> esl_message) list"

definition DEFAULT_COMMAND_TIMEOUT_MS :: u64 where "DEFAULT_COMMAND_TIMEOUT_MS = 5000"

text \<open>The options; durations are milliseconds.\<close>

record connect_options =
  event_queue_size :: nat
  connect_timeout :: u64
  co_strict_header_utf8 :: bool
  event_overflow :: event_overflow

definition connect_options_default :: connect_options where
  "connect_options_default =
     \<lparr>event_queue_size = MAX_EVENT_QUEUE_SIZE, connect_timeout = DEFAULT_TIMEOUT_MS,
      co_strict_header_utf8 = False, event_overflow = DropIncoming\<rparr>"

text \<open>The shared state and the queue capacity \<open>split_and_spawn_with_options\<close> starts the reader with.\<close>

definition spawn_shared :: "esl_response option \<Rightarrow> connection_mode \<Rightarrow> shared_state" where
  "spawn_shared auth mode =
     \<lparr>pending = pending_reply_new, status = Connected, liveness_timeout_ms = 0,
      command_timeout_ms = DEFAULT_COMMAND_TIMEOUT_MS, queue_full_notice_armed = False,
      dropped_event_count = 0, event_stall_count = 0, event_stall_nanos = 0,
      auth_response = auth, sh_mode = mode, reexec_caller = True, oneshots = []\<rparr>"

definition spawn_queue_size :: "connect_options \<Rightarrow> nat" where
  "spawn_queue_size options = max (event_queue_size options) 1"

definition adopt_parser :: "externals \<Rightarrow> string \<Rightarrow> connect_options \<Rightarrow> esl_parser esl_result" where
  "adopt_parser X residual_bytes options =
     (let parser = with_strict_header_utf8 (co_strict_header_utf8 options) (parser_new X)
      in if residual_bytes \<noteq> []
         then case add_data X residual_bytes parser of
                (Inl e, _) \<Rightarrow> Inl e
              | (Inr _, parser) \<Rightarrow> Inr parser
         else Inr parser)"

section \<open>Reading the socket\<close>

datatype read_outcome = ReadBytes string | ReadErr string | ReadTimeout

datatype read_step = Fed | Eof | Idle

definition read_into_parser :: "externals \<Rightarrow> read_outcome \<Rightarrow> esl_parser \<Rightarrow> read_step esl_result \<times> esl_parser" where
  "read_into_parser X outcome p =
     (case outcome of
        ReadErr e \<Rightarrow> (Inl (Io e), p)
      | ReadTimeout \<Rightarrow> (Inr Idle, p)
      | ReadBytes bytes \<Rightarrow>
          if bytes = [] then (Inr Eof, p)
          else case add_data X bytes p of
                 (Inl e, p) \<Rightarrow> (Inl e, p)
               | (Inr _, p) \<Rightarrow> (Inr Fed, p))"

section \<open>The event channel\<close>

type_synonym item = "esl_event esl_result"

datatype send_result = SendOk | SendFull | SendClosed

text \<open>
  \<open>tokio::sync::mpsc\<close>: \<open>try_send\<close> and the send through a permit that
  \<open>reserve\<close> granted.
\<close>

record 'ch channel_ops =
  try_send :: "'ch \<Rightarrow> item \<Rightarrow> send_result \<times> 'ch"
  permit_send :: "'ch \<Rightarrow> item \<Rightarrow> 'ch"

locale event_channel =
  fixes ops :: "'ch channel_ops"
    and contents :: "'ch \<Rightarrow> item list"
    and capacity :: "'ch \<Rightarrow> nat"
    and closed :: "'ch \<Rightarrow> bool"
  assumes send_closed: "closed ch \<Longrightarrow> try_send ops ch x = (SendClosed, ch)"
    and send_full: "\<not> closed ch \<Longrightarrow> capacity ch \<le> length (contents ch) \<Longrightarrow> try_send ops ch x = (SendFull, ch)"
    and send_room: "\<not> closed ch \<Longrightarrow> length (contents ch) < capacity ch \<Longrightarrow> fst (try_send ops ch x) = SendOk"
    and send_contents: "fst (try_send ops ch x) = SendOk \<Longrightarrow>
      contents (snd (try_send ops ch x)) = contents ch @ [x] \<and>
      capacity (snd (try_send ops ch x)) = capacity ch \<and> \<not> closed (snd (try_send ops ch x))"
    and permit_contents: "contents (permit_send ops ch x) = contents ch @ [x]"

record queue_channel =
  qc_items :: "item list"
  qc_capacity :: nat
  qc_closed :: bool

definition queue_ops :: "queue_channel channel_ops" where
  "queue_ops =
     \<lparr>try_send = (\<lambda>ch x.
        if qc_closed ch then (SendClosed, ch)
        else if length (qc_items ch) < qc_capacity ch then (SendOk, ch\<lparr>qc_items := qc_items ch @ [x]\<rparr>)
        else (SendFull, ch)),
      permit_send = (\<lambda>ch x. ch\<lparr>qc_items := qc_items ch @ [x]\<rparr>)\<rparr>"

interpretation queue: event_channel queue_ops qc_items qc_capacity qc_closed
  by unfold_locales (auto simp: queue_ops_def split: if_splits)

end
