(* ===== verification/Reader.thy ===== *)
theory Reader
  imports Connection
begin

text \<open>
  \<open>src/connection/reader.rs\<close>: the reader task. One iteration of its loop is
  \<open>reader_iteration\<close>; what the runtime decides in an iteration (the outcome of the
  socket read, of a wait for queue capacity, whether the stop signal is ready, the
  clock) is its input. \<open>reader_run\<close> iterates over a list of inputs and \<open>reader_loop\<close>
  adds what the task does after the loop has returned.
\<close>

section \<open>Handing events to the application\<close>

definition drop_event :: "shared_state \<Rightarrow> shared_state" where
  "drop_event sh = sh\<lparr>queue_full_notice_armed := True, dropped_event_count := dropped_event_count sh + 1\<rparr>"

definition record_stall :: "nat \<Rightarrow> shared_state \<Rightarrow> shared_state" where
  "record_stall nanos sh =
     sh\<lparr>event_stall_nanos := event_stall_nanos sh + of_nat (min nanos (2 ^ 64 - 1))\<rparr>"

definition flush_queue_full_notice ::
  "'ch channel_ops \<Rightarrow> 'ch \<Rightarrow> shared_state \<Rightarrow> bool \<times> 'ch \<times> shared_state" where
  "flush_queue_full_notice ops ch sh =
     (if \<not> queue_full_notice_armed sh then (True, ch, sh)
      else case try_send ops ch (Inl QueueFull) of
             (SendOk, ch) \<Rightarrow> (True, ch, sh\<lparr>queue_full_notice_armed := False\<rparr>)
           | (SendClosed, ch) \<Rightarrow> (False, ch, sh)
           | (SendFull, ch) \<Rightarrow> (True, ch, sh))"

definition dispatch_notice ::
  "'ch channel_ops \<Rightarrow> item \<Rightarrow> 'ch \<Rightarrow> shared_state \<Rightarrow> bool \<times> 'ch \<times> shared_state" where
  "dispatch_notice ops item ch sh =
     (case flush_queue_full_notice ops ch sh of
        (False, ch, sh) \<Rightarrow> (False, ch, sh)
      | (True, ch, sh) \<Rightarrow>
          (case try_send ops ch item of
             (SendOk, ch) \<Rightarrow> (True, ch, sh)
           | (SendClosed, ch) \<Rightarrow> (False, ch, sh)
           | (SendFull, ch) \<Rightarrow> (True, ch, drop_event sh)))"

text \<open>What ends a wait for capacity, with the channel as the consumer has left it by then.\<close>

datatype 'ch wait_end =
    CapacityFree 'ch
  | ReceiverGone 'ch
  | BudgetElapsed 'ch
  | StopSignal 'ch

record 'ch event_sink =
  tx :: 'ch
  overflow :: event_overflow
  stop :: bool
  stalled :: nat
  stop_fired :: bool

datatype wait_outcome = Sent | Closed | GaveUp

definition finish_without_permit :: "'ch channel_ops \<Rightarrow> 'ch \<Rightarrow> item \<Rightarrow> wait_outcome \<times> 'ch" where
  "finish_without_permit ops ch item =
     (case try_send ops ch item of
        (SendOk, ch) \<Rightarrow> (Sent, ch)
      | (SendClosed, ch) \<Rightarrow> (Closed, ch)
      | (SendFull, ch) \<Rightarrow> (GaveUp, ch))"

text \<open>
  A stop signal is raced only while the sink holds one; without it the runtime
  cannot end the wait that way, and the budget decides.
\<close>

definition wait_for_capacity ::
  "'ch channel_ops \<Rightarrow> 'ch wait_end \<Rightarrow> item \<Rightarrow> 'ch event_sink \<Rightarrow> wait_outcome \<times> 'ch event_sink" where
  "wait_for_capacity ops wait item sink =
     (case wait of
        StopSignal ch \<Rightarrow>
          if stop sink
          then case finish_without_permit ops ch item of
                 (r, ch) \<Rightarrow> (r, sink\<lparr>tx := ch, stop_fired := True\<rparr>)
          else (GaveUp, sink\<lparr>tx := ch\<rparr>)
      | CapacityFree ch \<Rightarrow> (Sent, sink\<lparr>tx := permit_send ops ch item\<rparr>)
      | ReceiverGone ch \<Rightarrow> (Closed, sink\<lparr>tx := ch\<rparr>)
      | BudgetElapsed ch \<Rightarrow> (GaveUp, sink\<lparr>tx := ch\<rparr>))"

definition dispatch_event ::
  "'ch channel_ops \<Rightarrow> 'ch wait_end \<Rightarrow> nat \<Rightarrow> item \<Rightarrow> 'ch event_sink \<Rightarrow> shared_state \<Rightarrow>
    bool \<times> 'ch event_sink \<times> shared_state" where
  "dispatch_event ops wait elapsed item sink sh =
     (case flush_queue_full_notice ops (tx sink) sh of
        (False, ch, sh) \<Rightarrow> (False, sink\<lparr>tx := ch\<rparr>, sh)
      | (True, ch, sh) \<Rightarrow>
          (case try_send ops ch item of
             (SendOk, ch) \<Rightarrow> (True, sink\<lparr>tx := ch\<rparr>, sh)
           | (SendClosed, ch) \<Rightarrow> (False, sink\<lparr>tx := ch\<rparr>, sh)
           | (SendFull, ch) \<Rightarrow>
               (case overflow sink of
                  DropIncoming \<Rightarrow> (True, sink\<lparr>tx := ch\<rparr>, drop_event sh)
                | BlockFor budget \<Rightarrow>
                    let sh = sh\<lparr>event_stall_count := event_stall_count sh + 1\<rparr>;
                        (waited, sink) = wait_for_capacity ops wait item (sink\<lparr>tx := ch\<rparr>);
                        sink = sink\<lparr>stalled := stalled sink + elapsed\<rparr>;
                        sh = record_stall elapsed sh
                    in case waited of
                         Sent \<Rightarrow> (True, sink, sh)
                       | Closed \<Rightarrow> (False, sink, sh)
                       | GaveUp \<Rightarrow> (True, sink, drop_event sh))))"

section \<open>Dispatching messages\<close>

datatype control_flow = Continue | Break "disconnect_reason option"

definition event_message_format :: "esl_message \<Rightarrow> parse_error + event_format" where
  "event_message_format message =
     (let ct = map_of (msg_headers message) HEADER_CONTENT_TYPE in
      if ct = Some CONTENT_TYPE_LOG_DATA then Inr Plain
      else case ct of Some ct \<Rightarrow> from_content_type ct | None \<Rightarrow> Inr Plain)"

definition dispatch_parsed_event ::
  "externals \<Rightarrow> 'ch channel_ops \<Rightarrow> 'ch wait_end \<Rightarrow> nat \<Rightarrow> esl_message \<Rightarrow> bool \<Rightarrow> shared_state \<Rightarrow> 'ch event_sink \<Rightarrow>
    control_flow \<times> shared_state \<times> 'ch event_sink" where
  "dispatch_parsed_event X ops wait elapsed message strict sh sink =
     (case event_message_format message of
        Inl e \<Rightarrow>
          (case dispatch_notice ops (Inl (InvalidEventFormat (rejected e))) (tx sink) sh of
             (sent, ch, sh) \<Rightarrow> (if sent then Continue else Break None, sh, sink\<lparr>tx := ch\<rparr>))
      | Inr format \<Rightarrow>
          (case dispatch_event ops wait elapsed (parse_event X strict message format) sink sh of
             (sent, sink, sh) \<Rightarrow> (if sent then Continue else Break None, sh, sink)))"

text \<open>The arm for replies: discard a stale one, deliver to the waiter, or ignore.\<close>

definition dispatch_reply :: "esl_message \<Rightarrow> shared_state \<Rightarrow> shared_state" where
  "dispatch_reply message sh =
     (let p = pending sh in
      if 0 < stale_replies p then sh\<lparr>pending := p\<lparr>stale_replies := stale_replies p - 1\<rparr>\<rparr>
      else case waiting p of
             Some w \<Rightarrow> sh\<lparr>pending := p\<lparr>waiting := None\<rparr>, oneshots := oneshots sh @ [(w, message)]\<rparr>
           | None \<Rightarrow> sh)"

definition dispatch_message ::
  "externals \<Rightarrow> 'ch channel_ops \<Rightarrow> 'ch wait_end \<Rightarrow> nat \<Rightarrow> esl_message \<Rightarrow> bool \<Rightarrow> shared_state \<Rightarrow> 'ch event_sink \<Rightarrow>
    control_flow \<times> shared_state \<times> 'ch event_sink" where
  "dispatch_message X ops wait elapsed message strict sh sink =
     (case message_type message of
        Event \<Rightarrow> dispatch_parsed_event X ops wait elapsed message strict sh sink
      | CommandReply \<Rightarrow> (Continue, dispatch_reply message sh, sink)
      | ApiResponse \<Rightarrow> (Continue, dispatch_reply message sh, sink)
      | Disconnect \<Rightarrow>
          if map_of (msg_headers message) ''Content-Disposition'' = Some ''linger'' then (Continue, sh, sink)
          else (Break (Some (ServerNotice (map_of (msg_headers message) ''Controlled-Session-UUID'')
                  (msg_body message))), sh, sink)
      | RudeRejection \<Rightarrow>
          let reason = unwrap_or ''rude-rejection without body'' (msg_body message) in
          (case dispatch_notice ops (Inl (AccessDenied reason)) (tx sink) sh of
             (_, ch, sh) \<Rightarrow> (Break (Some (AccessDeniedReason reason)), sh, sink\<lparr>tx := ch\<rparr>))
      | AuthRequest \<Rightarrow>
          let reason = ''unsolicited auth/request received after authentication'' in
          (case dispatch_notice ops (Inl (ProtocolError reason)) (tx sink) sh of
             (_, ch, sh) \<Rightarrow> (Break (Some (ProtocolErrorReason reason)), sh, sink\<lparr>tx := ch\<rparr>)))"

section \<open>The loop\<close>

text \<open>
  The reader's state. \<open>result_tx\<close> says whether the teardown result channel still has
  its sender; \<open>reexec_result\<close> is what was sent into it.
\<close>

record 'ch reader_state =
  rd_parser :: esl_parser
  rd_shared :: shared_state
  rd_channel :: 'ch
  last_recv :: nat
  draining :: bool
  result_tx :: bool
  reexec_result :: "string esl_result option"

record 'ch reader_input =
  in_wait :: "'ch wait_end"
  in_elapsed :: nat
  in_stop :: bool
  in_read :: read_outcome
  in_now :: nat

definition fail_reexec :: "esl_error \<Rightarrow> 'ch reader_state \<Rightarrow> 'ch reader_state" where
  "fail_reexec e st = (if result_tx st then st\<lparr>result_tx := False, reexec_result := Some (Inl e)\<rparr> else st)"

definition drain_for_reexec ::
  "externals \<Rightarrow> read_outcome \<Rightarrow> 'ch reader_state \<Rightarrow> control_flow \<times> 'ch reader_state" where
  "drain_for_reexec X outcome st =
     (if is_waiting_for_headers (rd_parser st)
      then (Break (Some ReexecTeardown),
            if result_tx st
            then st\<lparr>result_tx := False, reexec_result := Some (Inr (remaining_bytes (rd_parser st)))\<rparr>
            else st)
      else case read_into_parser X outcome (rd_parser st) of
             (r, p) \<Rightarrow>
               let st = st\<lparr>rd_parser := p\<rparr> in
               (case r of
                  Inr Fed \<Rightarrow> (Continue, st)
                | Inr Eof \<Rightarrow> (Break None, fail_reexec (ReexecFailed ''connection closed during drain'') st)
                | Inr Idle \<Rightarrow>
                    (Break None, fail_reexec (ReexecFailed ''drain timeout waiting for message body'') st)
                | Inl e \<Rightarrow> (Break None, fail_reexec e st)))"

definition liveness_expired :: "shared_state \<Rightarrow> nat \<Rightarrow> nat \<Rightarrow> bool" where
  "liveness_expired sh recv_at now =
     (let threshold_ms = liveness_timeout_ms sh in
      if threshold_ms = 0 then False
      else \<not> now - recv_at \<le> unat threshold_ms * 1000000)"

definition after_read ::
  "'ch reader_input \<Rightarrow> read_step esl_result \<Rightarrow> 'ch reader_state \<Rightarrow> control_flow \<times> 'ch reader_state" where
  "after_read inp r st =
     (case r of
        Inr Fed \<Rightarrow> (Continue, st\<lparr>last_recv := in_now inp\<rparr>)
      | Inr Eof \<Rightarrow> (Break (Some ConnectionClosedReason), st)
      | Inr Idle \<Rightarrow>
          if liveness_expired (rd_shared st) (last_recv st) (in_now inp)
          then (Break (Some HeartbeatExpiredReason), st) else (Continue, st)
      | Inl (Io e) \<Rightarrow> (Break (Some (IoError e)), st)
      | Inl e \<Rightarrow> (Break (Some (ProtocolErrorReason (esl_error_display e))), st))"

definition reader_iteration ::
  "externals \<Rightarrow> 'ch channel_ops \<Rightarrow> event_overflow \<Rightarrow> 'ch reader_input \<Rightarrow> 'ch reader_state \<Rightarrow>
    control_flow \<times> 'ch reader_state" where
  "reader_iteration X ops ovf inp st =
     (case parse_message X (rd_parser st) of
        (Inr (Some message), p) \<Rightarrow>
          let sink = \<lparr>tx = rd_channel st, overflow = (if draining st then DropIncoming else ovf),
                      stop = \<not> draining st, stalled = 0, stop_fired = False\<rparr>;
              (flow, sh, sink) = dispatch_message X ops (in_wait inp) (in_elapsed inp) message
                (strict_header_utf8 p) (rd_shared st) sink;
              st = st\<lparr>rd_parser := p, rd_shared := sh, rd_channel := tx sink,
                      last_recv := last_recv st + stalled sink,
                      draining := draining st \<or> stop_fired sink\<rparr>
          in (case flow of
                Continue \<Rightarrow> (Continue, st)
              | Break reason \<Rightarrow>
                  (Break reason,
                   if draining st
                   then fail_reexec (ReexecFailed ''reader stopped before the drain completed'') st
                   else st))
      | (Inl e, p) \<Rightarrow> (Break (Some (ProtocolErrorReason (esl_error_display e))), st\<lparr>rd_parser := p\<rparr>)
      | (Inr None, p) \<Rightarrow>
          let st = st\<lparr>rd_parser := p\<rparr> in
          if draining st then drain_for_reexec X (in_read inp) st
          else if in_stop inp then (Continue, st\<lparr>draining := True\<rparr>)
          else case read_into_parser X (in_read inp) (rd_parser st) of
                 (r, p) \<Rightarrow> after_read inp r (st\<lparr>rd_parser := p\<rparr>))"

text \<open>\<open>None\<close>: the inputs ran out before the loop returned.\<close>

fun reader_run ::
  "externals \<Rightarrow> 'ch channel_ops \<Rightarrow> event_overflow \<Rightarrow> 'ch reader_input list \<Rightarrow> 'ch reader_state \<Rightarrow>
    disconnect_reason option option \<times> 'ch reader_state" where
  "reader_run X ops ovf [] st = (None, st)"
| "reader_run X ops ovf (inp # inps) st =
     (case reader_iteration X ops ovf inp st of
        (Continue, st) \<Rightarrow> reader_run X ops ovf inps st
      | (Break reason, st) \<Rightarrow> (Some reason, st))"

definition fail_pending_reply :: "shared_state \<Rightarrow> shared_state" where
  "fail_pending_reply sh =
     sh\<lparr>pending := (pending sh)\<lparr>reader_dead := True, waiting := None, stale_replies := 0\<rparr>\<rparr>"

definition reader_exit :: "disconnect_reason option \<Rightarrow> shared_state \<Rightarrow> shared_state" where
  "reader_exit reason sh =
     fail_pending_reply (case reason of Some r \<Rightarrow> sh\<lparr>status := Disconnected r\<rparr> | None \<Rightarrow> sh)"

definition reader_loop ::
  "externals \<Rightarrow> 'ch channel_ops \<Rightarrow> event_overflow \<Rightarrow> 'ch reader_input list \<Rightarrow> 'ch reader_state \<Rightarrow>
    disconnect_reason option option \<times> 'ch reader_state" where
  "reader_loop X ops ovf inps st =
     (case reader_run X ops ovf inps st of
        (None, st) \<Rightarrow> (None, st)
      | (Some reason, st) \<Rightarrow> (Some reason, st\<lparr>rd_shared := reader_exit reason (rd_shared st)\<rparr>))"

end
