(* ===== verification/Delivery.thy ===== *)
theory Delivery
  imports Reader
begin

text \<open>
  What the reader task does with events, over any channel that satisfies
  \<open>event_channel\<close>: every event is put into the queue or counted as dropped with the
  notice armed, and an armed notice precedes the next event that is queued. With a
  queue of one slot the notice takes the slot of every later event
  (\<open>wedged_run\<close>).
\<close>

context event_channel
begin

lemma send_cases:
  obtains (ok) "\<not> closed ch" "length (contents ch) < capacity ch" "fst (try_send ops ch x) = SendOk"
      "contents (snd (try_send ops ch x)) = contents ch @ [x]"
      "capacity (snd (try_send ops ch x)) = capacity ch" "\<not> closed (snd (try_send ops ch x))"
  | (full) "\<not> closed ch" "capacity ch \<le> length (contents ch)" "try_send ops ch x = (SendFull, ch)"
  | (gone) "closed ch" "try_send ops ch x = (SendClosed, ch)"
  using send_closed send_full send_room send_contents not_less by metis

lemma flush_cases:
  assumes "flush_queue_full_notice ops ch sh = (r, ch', sh')"
  shows "dropped_event_count sh' = dropped_event_count sh"
    and "queue_full_notice_armed sh' \<Longrightarrow> queue_full_notice_armed sh \<and> ch' = ch"
    and "\<not> queue_full_notice_armed sh \<Longrightarrow> ch' = ch \<and> sh' = sh \<and> r"
    and "queue_full_notice_armed sh \<Longrightarrow> \<not> queue_full_notice_armed sh' \<Longrightarrow>
      contents ch' = contents ch @ [Inl QueueFull]"
    and "queue_full_notice_armed sh' \<Longrightarrow> r \<Longrightarrow> capacity ch \<le> length (contents ch) \<and> \<not> closed ch"
    and "capacity ch' = capacity ch"
  using assms
  by (cases rule: send_cases [of ch "Inl QueueFull"];
      auto simp: flush_queue_full_notice_def split: if_splits prod.splits)+

text \<open>The item is queued last, or the loss is counted and announced.\<close>

lemma dispatch_event_accounts:
  assumes "dispatch_event ops w el item sink sh = (True, sink', sh')"
  shows "(\<exists>pre. contents (tx sink') = pre @ [item]) \<and> dropped_event_count sh' = dropped_event_count sh \<or>
    dropped_event_count sh' = dropped_event_count sh + 1 \<and> queue_full_notice_armed sh'"
proof -
  obtain r ch sh1 where f: "flush_queue_full_notice ops (tx sink) sh = (r, ch, sh1)" by (metis prod_cases3)
  have d: "dropped_event_count sh1 = dropped_event_count sh" using flush_cases(1) [OF f] .
  have r: "r" using assms f by (auto simp: dispatch_event_def split: bool.splits)
  show ?thesis
  proof (cases rule: send_cases [of ch item])
    case ok
    then show ?thesis using assms f r d
      by (cases "try_send ops ch item") (auto simp: dispatch_event_def)
  next
    case gone
    then show ?thesis using assms f r by (simp add: dispatch_event_def)
  next
    case full
    show ?thesis
    proof (cases "overflow sink")
      case DropIncoming
      then show ?thesis using assms f r d full by (auto simp: dispatch_event_def drop_event_def)
    next
      case (BlockFor budget)
      have fin: "o1 = Sent \<Longrightarrow> contents c2 = contents c1 @ [item]"
        if "finish_without_permit ops c1 item = (o1, c2)" for c1 c2 o1
        using that by (cases rule: send_cases [of c1 item])
          (auto simp: finish_without_permit_def split: prod.splits send_result.splits)
      have wt: "o1 = Sent \<Longrightarrow> \<exists>pre. contents (tx s2) = pre @ [item]"
        if "wait_for_capacity ops w item s1 = (o1, s2)" for s1 s2 o1
        using that permit_contents
        by (auto simp: wait_for_capacity_def dest: fin split: wait_end.splits if_splits prod.splits)
      obtain o1 s2 where wo: "wait_for_capacity ops w item (sink\<lparr>tx := ch\<rparr>) = (o1, s2)" by fastforce
      show ?thesis using assms f r d full BlockFor wo wt [OF wo]
        by (auto simp: dispatch_event_def drop_event_def record_stall_def Let_def
            split: wait_outcome.splits)
    qed
  qed
qed

text \<open>Without waiting, an item that is queued while the notice is armed comes right after the notice.\<close>

lemma dispatch_event_notice_first:
  assumes "dispatch_event ops w el item sink sh = (True, sink', sh')" and "overflow sink = DropIncoming"
    and "queue_full_notice_armed sh" and "dropped_event_count sh' = dropped_event_count sh"
  shows "contents (tx sink') = contents (tx sink) @ [Inl QueueFull, item] \<and> \<not> queue_full_notice_armed sh'"
proof -
  obtain r ch sh1 where f: "flush_queue_full_notice ops (tx sink) sh = (r, ch, sh1)" by (metis prod_cases3)
  have r: "r" using assms(1) f by (auto simp: dispatch_event_def split: bool.splits)
  note fc = flush_cases [OF f]
  show ?thesis
  proof (cases rule: send_cases [of ch item])
    case ok
    then have "\<not> queue_full_notice_armed sh1" using fc(2,5) r by auto
    with ok assms f r fc(4) show ?thesis by (cases "try_send ops ch item") (auto simp: dispatch_event_def)
  next
    case full
    then show ?thesis using assms f r fc(1) by (auto simp: dispatch_event_def drop_event_def)
  next
    case gone
    then show ?thesis using assms(1) f r by (simp add: dispatch_event_def)
  qed
qed

text \<open>A queue with room takes the item at once.\<close>

lemma dispatch_event_room:
  assumes "\<not> closed (tx sink)" and "\<not> queue_full_notice_armed sh"
    and "length (contents (tx sink)) < capacity (tx sink)"
  shows "\<exists>ch'. dispatch_event ops w el item sink sh = (True, sink\<lparr>tx := ch'\<rparr>, sh) \<and>
    contents ch' = contents (tx sink) @ [item]"
  using assms
  by (cases rule: send_cases [of "tx sink" item]; cases "try_send ops (tx sink) item")
    (auto simp: dispatch_event_def flush_queue_full_notice_def)

end

section \<open>A queue of one slot\<close>

text \<open>Events arrive at the reader and the application receives from the queue, in any order.\<close>

datatype queue_action = Arrive item | Receive

fun queue_step ::
  "queue_action \<Rightarrow> queue_channel \<times> shared_state \<times> item list \<Rightarrow> queue_channel \<times> shared_state \<times> item list" where
  "queue_step (Arrive item) (ch, sh, got) =
     (case dispatch_event queue_ops (BudgetElapsed ch) 0 item
             \<lparr>tx = ch, overflow = DropIncoming, stop = True, stalled = 0, stop_fired = False\<rparr> sh of
        (_, sink, sh) \<Rightarrow> (tx sink, sh, got))"
| "queue_step Receive (ch, sh, got) =
     (case qc_items ch of
        [] \<Rightarrow> (ch, sh, got)
      | x # xs \<Rightarrow> (ch\<lparr>qc_items := xs\<rparr>, sh, got @ [x]))"

definition queue_run ::
  "queue_action list \<Rightarrow> queue_channel \<times> shared_state \<times> item list \<Rightarrow> queue_channel \<times> shared_state \<times> item list" where
  "queue_run acts s = fold queue_step acts s"

definition wedged :: "queue_channel \<times> shared_state \<times> item list \<Rightarrow> bool" where
  "wedged s = (case s of (ch, sh, got) \<Rightarrow>
     qc_capacity ch = 1 \<and> \<not> qc_closed ch \<and> queue_full_notice_armed sh \<and> set (qc_items ch) \<subseteq> {Inl QueueFull})"

lemma wedged_step:
  assumes "wedged (ch, sh, got)"
  shows "wedged (queue_step a (ch, sh, got)) \<and>
    (\<exists>more. snd (snd (queue_step a (ch, sh, got))) = got @ more \<and> set more \<subseteq> {Inl QueueFull})"
proof (cases a)
  case (Arrive item)
  then show ?thesis
    using assms
    by (cases "qc_items ch")
      (auto simp: wedged_def dispatch_event_def flush_queue_full_notice_def queue_ops_def drop_event_def)
next
  case Receive
  then show ?thesis using assms by (cases "qc_items ch") (auto simp: wedged_def)
qed

lemma wedged_run:
  assumes "wedged (ch, sh, got)" and "queue_run acts (ch, sh, got) = (ch', sh', got')"
  shows "wedged (ch', sh', got') \<and> (\<exists>more. got' = got @ more \<and> set more \<subseteq> {Inl QueueFull})"
  using assms
proof (induction acts arbitrary: ch sh got)
  case (Cons a acts)
  obtain ch1 sh1 got1 where s: "queue_step a (ch, sh, got) = (ch1, sh1, got1)" by (metis prod_cases3)
  from wedged_step [OF Cons.prems(1), of a] s obtain m where
    w: "wedged (ch1, sh1, got1)" and m: "got1 = got @ m" "set m \<subseteq> {Inl QueueFull}" by auto
  have "queue_run acts (ch1, sh1, got1) = (ch', sh', got')"
    using Cons.prems(2) s by (simp add: queue_run_def)
  from Cons.IH [OF w this] m show ?case by auto
qed (simp add: queue_run_def)

section \<open>Properties\<close>

text \<open>
  C14: every event is queued or counted. Over any channel that behaves as a bounded
  queue, an event the reader dispatches without stopping is the last item of
  the queue, or the counter of dropped events went up by one and the notice that
  announces the loss is armed; under both overflow policies and however a wait for
  capacity ended.
\<close>

theorem event_queued_or_counted:
  assumes "event_channel ops contents cap closed"
    and "dispatch_event ops w el item sink sh = (True, sink', sh')"
  shows "(\<exists>pre. contents (tx sink') = pre @ [item]) \<and> dropped_event_count sh' = dropped_event_count sh \<or>
    dropped_event_count sh' = dropped_event_count sh + 1 \<and> queue_full_notice_armed sh'"
  by (rule event_channel.dispatch_event_accounts [OF assms])

theorem event_queued_or_counted_witness:
  defines "sink \<equiv> \<lparr>tx = \<lparr>qc_items = [Inl QueueFull], qc_capacity = 1, qc_closed = False\<rparr>,
    overflow = BlockFor 5, stop = True, stalled = 0, stop_fired = False\<rparr>"
    and "sh \<equiv> spawn_shared None Inbound"
    and "w \<equiv> BudgetElapsed \<lparr>qc_items = [Inl QueueFull], qc_capacity = 1, qc_closed = False\<rparr>"
  shows "\<exists>sink' sh'. dispatch_event queue_ops w 7 (Inr event_new) sink sh = (True, sink', sh')
    \<and> dropped_event_count sh' = 1 \<and> queue_full_notice_armed sh'"
proof -
  obtain r sink' sh' where d: "dispatch_event queue_ops w 7 (Inr event_new) sink sh = (r, sink', sh')"
    by (metis prod_cases3)
  have "r" and t: "qc_items (tx sink') = [Inl QueueFull]" and z: "dropped_event_count sh = 0"
    using d
    by (auto simp: dispatch_event_def flush_queue_full_notice_def sink_def sh_def w_def spawn_shared_def
        queue_ops_def wait_for_capacity_def Let_def)
  then have d': "dispatch_event queue_ops w 7 (Inr event_new) sink sh = (True, sink', sh')" using d by simp
  from event_queued_or_counted [OF queue.event_channel_axioms d'] t z d' show ?thesis by auto
qed

text \<open>
  The loss is announced before the next event. With a queue that is not waited for, an event
  that is queued while the notice is armed comes right behind a \<open>QueueFull\<close> item, and
  the notice is disarmed; so the application sees the gap where it is.
\<close>

lemma notice_precedes_event:
  assumes "event_channel ops contents cap closed"
    and "dispatch_event ops w el item sink sh = (True, sink', sh')" and "overflow sink = DropIncoming"
    and "queue_full_notice_armed sh" and "dropped_event_count sh' = dropped_event_count sh"
  shows "contents (tx sink') = contents (tx sink) @ [Inl QueueFull, item] \<and> \<not> queue_full_notice_armed sh'"
  by (rule event_channel.dispatch_event_notice_first [OF assms])


end
