(* ===== verification/Stream_Delivery.thy ===== *)
theory Stream_Delivery
  imports Delivery
begin

text \<open>
  The reader task as a whole: from the bytes that arrive on the socket to the
  items in the event queue. \<open>read_bytes\<close> collects what a run reads, \<open>message_items\<close>
  says what a message contributes to the queue, and \<open>run_delivers\<close> shows that a
  run queues the items of the messages of the byte stream, in order and each once.
\<close>

section \<open>What a run reads and queues\<close>

fun read_bytes ::
  "externals \<Rightarrow> 'ch channel_ops \<Rightarrow> event_overflow \<Rightarrow> 'ch reader_input list \<Rightarrow> 'ch reader_state \<Rightarrow> string" where
  "read_bytes X ops ovf [] st = []"
| "read_bytes X ops ovf (inp # inps) st =
     (case parse_message X (rd_parser st) of
        (Inr None, _) \<Rightarrow> (case in_read inp of ReadBytes bs \<Rightarrow> bs | _ \<Rightarrow> [])
      | _ \<Rightarrow> []) @
     (case reader_iteration X ops ovf inp st of
        (Continue, st') \<Rightarrow> read_bytes X ops ovf inps st'
      | (Break _, _) \<Rightarrow> [])"

definition message_items :: "externals \<Rightarrow> bool \<Rightarrow> esl_message \<Rightarrow> item list" where
  "message_items X strict m =
     (if message_type m = Event
      then case event_message_format m of
             Inl e \<Rightarrow> [Inl (InvalidEventFormat (rejected e))]
           | Inr format \<Rightarrow> [parse_event X strict m format]
      else [])"

section \<open>The position in the stream\<close>

text \<open>
  After consuming \<open>fed\<close> and parsing \<open>ms\<close> the parser stands where the specification
  stands: whatever follows, the whole stream gives \<open>ms\<close> and then what the rest gives.
\<close>

definition at_position ::
  "externals \<Rightarrow> bool \<Rightarrow> parse_state \<times> string \<Rightarrow> string \<Rightarrow> esl_message list \<Rightarrow> parse_state \<times> string \<Rightarrow> bool" where
  "at_position X strict start fed ms now \<longleftrightarrow>
     (\<forall>more. frame_all X strict (fst start) (snd start @ fed @ more) =
        (case frame_all X strict (fst now) (snd now @ more) of (ms', r) \<Rightarrow> (ms @ ms', r)))"

lemma at_start: "at_position X strict start [] [] start"
  by (simp add: at_position_def split: prod.splits)

lemma at_fed:
  "at_position X strict start fed ms (st, s) \<Longrightarrow> at_position X strict start (fed @ bs) ms (st, s @ bs)"
  unfolding at_position_def by (metis append.assoc fst_conv snd_conv)

lemma at_message:
  assumes "at_position X strict start fed ms (st, s)" and "frame X strict st s = (Inr (Some m), st', s')"
  shows "at_position X strict start fed (ms @ [m]) (st', s')"
proof -
  have "frame X strict st (s @ more) = (Inr (Some m), st', s' @ more)" for more
    using frame_append(1) [OF assms(2), of more] by simp
  then have "frame_all X strict st (s @ more) =
      (case frame_all X strict st' (s' @ more) of (ms', r) \<Rightarrow> (m # ms', r))" for more
    by (subst frame_all.simps) simp
  with assms(1) show ?thesis by (simp add: at_position_def split: prod.splits)
qed

lemma at_incomplete:
  assumes "at_position X strict start fed ms (st, s)" and "frame X strict st s = (Inr None, st', s')"
  shows "at_position X strict start fed ms (st', s')"
proof -
  have "frame_all X strict st (s @ more) = frame_all X strict st' (s' @ more)" for more
    using frame_append(2) [OF assms(2), of more] by (subst (1 2) frame_all.simps) simp
  with assms(1) show ?thesis by (simp add: at_position_def)
qed

section \<open>One pass\<close>

context event_channel
begin

lemma send_room_cases:
  assumes "\<not> closed ch" and "length (contents ch) < capacity ch"
  obtains ch' where "try_send ops ch x = (SendOk, ch')" "contents ch' = contents ch @ [x]"
    "capacity ch' = capacity ch" "\<not> closed ch'"
  using send_room [OF assms, of x] send_contents [of ch x] by (metis prod.collapse)

text \<open>A message handled while there is room appends its items and leaves the notice disarmed.\<close>

lemma dispatch_message_items:
  assumes "dispatch_message X ops w el m strict sh sink = (Continue, sh', sink')"
    and "\<not> closed (tx sink)" and "length (contents (tx sink)) < capacity (tx sink)"
    and "\<not> queue_full_notice_armed sh"
  shows "contents (tx sink') = contents (tx sink) @ message_items X strict m \<and>
    capacity (tx sink') = capacity (tx sink) \<and> \<not> closed (tx sink') \<and> \<not> queue_full_notice_armed sh' \<and>
    stop_fired sink' = stop_fired sink"
proof -
  have flush: "flush_queue_full_notice ops (tx sink) sh = (True, tx sink, sh)"
    using assms(4) by (simp add: flush_queue_full_notice_def)
  have reply: "queue_full_notice_armed (dispatch_reply m sh) = queue_full_notice_armed sh"
    by (simp add: dispatch_reply_def Let_def split: option.splits)
  show ?thesis
  proof (cases "message_type m = Event")
    case True
    show ?thesis
    proof (cases "event_message_format m")
      case (Inl e)
      obtain ch' where "try_send ops (tx sink) (Inl (InvalidEventFormat (rejected e))) = (SendOk, ch')"
        "contents ch' = contents (tx sink) @ [Inl (InvalidEventFormat (rejected e))]"
        "capacity ch' = capacity (tx sink)" "\<not> closed ch'"
        using send_room_cases [OF assms(2,3)] by metis
      with assms(1,4) True Inl flush show ?thesis
        by (auto simp: dispatch_message_def dispatch_parsed_event_def dispatch_notice_def message_items_def)
    next
      case (Inr format)
      let ?x = "parse_event X strict m format"
      obtain ch' where "try_send ops (tx sink) ?x = (SendOk, ch')" "contents ch' = contents (tx sink) @ [?x]"
        "capacity ch' = capacity (tx sink)" "\<not> closed ch'"
        using send_room_cases [OF assms(2,3)] by metis
      with assms(1,4) True Inr flush show ?thesis
        by (auto simp: dispatch_message_def dispatch_parsed_event_def dispatch_event_def message_items_def)
    qed
  next
    case False
    with assms reply show ?thesis
      by (auto simp: dispatch_message_def message_items_def Let_def split: message_type.splits if_splits prod.splits)
  qed
qed

end

text \<open>What a run keeps: an open queue with a disarmed notice and a parser in step.\<close>

definition in_step :: "('ch \<Rightarrow> bool) \<Rightarrow> bool \<Rightarrow> 'ch reader_state \<Rightarrow> bool" where
  "in_step closed strict st \<longleftrightarrow>
     parser_wf (rd_parser st) \<and> strict_header_utf8 (rd_parser st) = strict \<and> \<not> draining st \<and>
     \<not> closed (rd_channel st) \<and> \<not> queue_full_notice_armed (rd_shared st)"

abbreviation view :: "'ch reader_state \<Rightarrow> parse_state \<times> string" where
  "view st \<equiv> (p_state (rd_parser st), remaining_bytes (rd_parser st))"

lemma read_Continue:
  assumes "after_read inp r st1 = (Continue, st')" and "read_into_parser X (in_read inp) p = (r, q)"
    and "st1 = st\<lparr>rd_parser := q\<rparr>"
  shows "remaining_bytes q = remaining_bytes p @ (case in_read inp of ReadBytes bs \<Rightarrow> bs | _ \<Rightarrow> [])
    \<and> p_state q = p_state p \<and> strict_header_utf8 q = strict_header_utf8 p \<and> (parser_wf p \<longrightarrow> parser_wf q)
    \<and> rd_parser st' = q \<and> rd_channel st' = rd_channel st \<and> rd_shared st' = rd_shared st \<and> draining st' = draining st"
proof -
  have d: "q = snd (add_data X bs p)" if "in_read inp = ReadBytes bs" "bs \<noteq> []" for bs
    using assms(2) that by (auto simp: read_into_parser_def split: prod.splits sum.splits)
  show ?thesis
    using assms d add_data_view [of X _ p] add_data_wf [of p X]
    by (cases "in_read inp")
      (auto simp: read_into_parser_def after_read_def split: if_splits prod.splits sum.splits esl_error.splits)
qed

context event_channel
begin

lemma iteration_delivers:
  assumes X: "esl_externals X"
    and it: "reader_iteration X ops ovf inp st = (Continue, st')" and stop: "\<not> in_stop inp"
    and inv: "in_step closed strict st"
    and room: "length (contents (rd_channel st)) < capacity (rd_channel st)"
    and pos: "at_position X strict start fed ms (view st)"
  shows "\<exists>ms'. at_position X strict start
        (fed @ (case parse_message X (rd_parser st) of
            (Inr None, _) \<Rightarrow> (case in_read inp of ReadBytes bs \<Rightarrow> bs | _ \<Rightarrow> []) | _ \<Rightarrow> [])) (ms @ ms') (view st') \<and>
      contents (rd_channel st') = contents (rd_channel st) @ concat (map (message_items X strict) ms') \<and>
      length (contents (rd_channel st')) \<le> Suc (length (contents (rd_channel st))) \<and>
      capacity (rd_channel st') = capacity (rd_channel st) \<and> in_step closed strict st'"
proof -
  obtain r p where p: "parse_message X (rd_parser st) = (r, p)" by fastforce
  have wf: "parser_wf (rd_parser st)" and sp: "strict_header_utf8 (rd_parser st) = strict"
    and nd: "\<not> draining st" and nc: "\<not> closed (rd_channel st)" and na: "\<not> queue_full_notice_armed (rd_shared st)"
    using inv by (simp_all add: in_step_def)
  note f = esl_externals.parse_message_frame [OF X wf, unfolded p parser_view_def, simplified]
  consider (msg) m where "r = Inr (Some m)" | (none) "r = Inr None" | (err) x where "r = Inl x"
    by (metis not_None_eq old.sum.exhaust)
  then show ?thesis
  proof cases
    case msg
    let ?sink = "\<lparr>tx = rd_channel st, overflow = (if draining st then DropIncoming else ovf),
      stop = \<not> draining st, stalled = 0, stop_fired = False\<rparr>"
    obtain flow sh sink where d: "dispatch_message X ops (in_wait inp) (in_elapsed inp) m
        (strict_header_utf8 p) (rd_shared st) ?sink = (flow, sh, sink)" by (metis prod_cases3)
    with it p msg have c: "flow = Continue" and st': "st' = st\<lparr>rd_parser := p, rd_shared := sh, rd_channel := tx sink,
        last_recv := last_recv st + stalled sink, draining := draining st \<or> stop_fired sink\<rparr>"
      by (auto simp: reader_iteration_def Let_def split: control_flow.splits)
    from dispatch_message_items [OF d [unfolded c]] nc room na
    have i: "contents (tx sink) = contents (rd_channel st) @ message_items X (strict_header_utf8 p) m"
      "capacity (tx sink) = capacity (rd_channel st)" "\<not> closed (tx sink)" "\<not> queue_full_notice_armed sh"
      "\<not> stop_fired sink" by simp_all
    have "length (message_items X (strict_header_utf8 p) m) \<le> 1"
      by (simp add: message_items_def split: sum.splits)
    moreover have "at_position X strict start fed (ms @ [m]) (p_state p, remaining_bytes p)"
      using f(1) sp msg by (intro at_message [OF pos]) simp
    ultimately show ?thesis
      using i f(2,3) sp nd p msg st' by (intro exI [of _ "[m]"]) (simp add: in_step_def)
  next
    case none
    obtain r1 q where q: "read_into_parser X (in_read inp) p = (r1, q)" by fastforce
    let ?st = "st\<lparr>rd_parser := p\<rparr>"
    have a: "after_read inp r1 (?st\<lparr>rd_parser := q\<rparr>) = (Continue, st')"
      using it p none nd stop q by (simp add: reader_iteration_def)
    note rc = read_Continue [OF a q refl]
    have "at_position X strict start fed ms (p_state p, remaining_bytes p)"
      using f(1) sp none by (intro at_incomplete [OF pos]) simp
    from at_fed [OF this] show ?thesis
      using rc f(2,3) sp nd nc na p none by (intro exI [of _ "[]"]) (simp add: in_step_def)
  next
    case err
    with it p show ?thesis by (simp add: reader_iteration_def)
  qed
qed

lemma run_delivers:
  assumes X: "esl_externals X"
    and "reader_run X ops ovf inps st = (None, st')" and "\<forall>inp \<in> set inps. \<not> in_stop inp"
    and "in_step closed strict st"
    and "length (contents (rd_channel st)) + length inps \<le> capacity (rd_channel st)"
    and "at_position X strict start fed ms (view st)"
  shows "\<exists>ms'. at_position X strict start (fed @ read_bytes X ops ovf inps st) (ms @ ms') (view st') \<and>
    contents (rd_channel st') = contents (rd_channel st) @ concat (map (message_items X strict) ms') \<and>
    in_step closed strict st'"
  using assms(2-)
proof (induction inps arbitrary: st fed ms)
  case Nil
  then show ?case by (intro exI [of _ "[]"]) simp
next
  case (Cons inp inps)
  let ?got = "case parse_message X (rd_parser st) of
      (Inr None, _) \<Rightarrow> (case in_read inp of ReadBytes bs \<Rightarrow> bs | _ \<Rightarrow> []) | _ \<Rightarrow> []"
  obtain fl st1 where it: "reader_iteration X ops ovf inp st = (fl, st1)" by fastforce
  with Cons.prems(1) have fl: "fl = Continue" and run: "reader_run X ops ovf inps st1 = (None, st')"
    by (cases fl; simp)+
  have room: "length (contents (rd_channel st)) < capacity (rd_channel st)" using Cons.prems(4) by simp
  from iteration_delivers [OF X it [unfolded fl] _ Cons.prems(3) room Cons.prems(5)] Cons.prems(2)
  obtain ms1 where m1: "at_position X strict start (fed @ ?got) (ms @ ms1) (view st1)"
    "contents (rd_channel st1) = contents (rd_channel st) @ concat (map (message_items X strict) ms1)"
    "length (contents (rd_channel st1)) \<le> Suc (length (contents (rd_channel st)))"
    "capacity (rd_channel st1) = capacity (rd_channel st)" "in_step closed strict st1" by auto
  have "length (contents (rd_channel st1)) + length inps \<le> capacity (rd_channel st1)"
    using m1(3,4) Cons.prems(4) by simp
  from Cons.IH [OF run _ m1(5) this m1(1)] Cons.prems(2) obtain ms2 where
    "at_position X strict start ((fed @ ?got) @ read_bytes X ops ovf inps st1) ((ms @ ms1) @ ms2) (view st')"
    "contents (rd_channel st') = contents (rd_channel st1) @ concat (map (message_items X strict) ms2)"
    "in_step closed strict st'" by auto
  then show ?case
    using m1(2) it fl by (intro exI [of _ "ms1 @ ms2"]) simp
qed

end

section \<open>Properties\<close>

text \<open>
  C13: the queue receives the events of the byte stream, in order, each once. A reader that
  ran for any number of passes without stopping, with room in the queue, has appended
  to it exactly the decoded events of an initial part of the messages that the bytes
  it read contain, in the order of the stream; and of all of them once no complete message is
  left in its parser. Replies and lingering disconnects between them add nothing.
\<close>

theorem events_delivered_in_order:
  assumes "externals_ok X" and "event_channel ops contents cap closed"
    and "reader_run X ops ovf inps st = (None, st')" and "\<forall>inp \<in> set inps. \<not> in_stop inp"
    and "in_step closed strict st" and "length (contents (rd_channel st)) + length inps \<le> cap (rd_channel st)"
  shows "\<exists>ms rest. fst (frame_all X strict (p_state (rd_parser st))
        (remaining_bytes (rd_parser st) @ read_bytes X ops ovf inps st)) = ms @ rest
    \<and> contents (rd_channel st') = contents (rd_channel st) @ concat (map (message_items X strict) ms)
    \<and> (\<not> parser_idle X (rd_parser st') \<or> rest = [])"
proof -
  note X = esl_externalsI [OF assms(1)]
  from event_channel.run_delivers [OF assms(2) X assms(3-6) at_start] obtain ms where
    m: "at_position X strict (view st) (read_bytes X ops ovf inps st) ms (view st')"
    "contents (rd_channel st') = contents (rd_channel st) @ concat (map (message_items X strict) ms)"
    "in_step closed strict st'" by auto
  obtain ms' r where r: "frame_all X strict (p_state (rd_parser st')) (remaining_bytes (rd_parser st')) = (ms', r)"
    by (metis surj_pair)
  have "frame_all X strict (p_state (rd_parser st)) (remaining_bytes (rd_parser st) @ read_bytes X ops ovf inps st) =
      (ms @ ms', r)"
    using m(1) [unfolded at_position_def, rule_format, of "[]"] r by simp
  moreover have "ms' = []" if "parser_idle X (rd_parser st')"
    using that r m(3) by (subst (asm) frame_all.simps) (simp add: parser_idle_def in_step_def)
  ultimately show ?thesis using m(2) by auto
qed

theorem events_delivered_in_order_witness:
  defines "X \<equiv> reference_externals"
    and "ch \<equiv> \<lparr>qc_items = [], qc_capacity = 9, qc_closed = False\<rparr>"
  defines "st \<equiv> \<lparr>rd_parser = parser_new X, rd_shared = spawn_shared None Inbound, rd_channel = ch, last_recv = 0,
      draining = False, result_tx = True, reexec_result = None\<rparr>"
    and "inp \<equiv> \<lambda>r. \<lparr>in_wait = BudgetElapsed ch, in_elapsed = 0, in_stop = False, in_read = r, in_now = 5\<rparr>"
  shows "\<exists>st' ms rest. reader_run X queue_ops DropIncoming
      [inp (ReadBytes (''Content-Type: log/data'' @ [NL, NL])), inp ReadTimeout] st = (None, st')
    \<and> qc_items (rd_channel st') = concat (map (message_items X False) ms) \<and> length (qc_items (rd_channel st')) = 1"
proof -
  let ?inps = "[inp (ReadBytes (''Content-Type: log/data'' @ [NL, NL])), inp ReadTimeout]"
  have pm: "parse_message X (parser_new X) = (Inr None, parser_new X)" unfolding X_def by code_simp
  let ?s = "''Content-Type: log/data'' @ [NL, NL]"
  let ?m = "\<lparr>message_type = Event, msg_headers = [(''Content-Type'', ''log/data'')], msg_body = None,
    msg_raw_body = None, msg_lossy_values = []\<rparr>"
  obtain p1 p2 where ad: "add_data X ?s (parser_new X) = (Inr (), p1)"
    and m: "parse_message X p1 = (Inr (Some ?m), p2)"
  proof -
    have "fst (parse_message X (snd (add_data X ?s (parser_new X)))) = Inr (Some ?m)" unfolding X_def by code_simp
    moreover have "fst (add_data X ?s (parser_new X)) = Inr ()"
      by (simp add: add_data_def Let_def check_size_limits_def parser_new_def MAX_BUFFER_SIZE_def)
    ultimately show thesis using that by (metis prod.collapse)
  qed
  have fmt: "event_message_format ?m = Inr Plain" by code_simp
  obtain r st' where run: "reader_run X queue_ops DropIncoming ?inps st = (r, st')" by (metis surj_pair)
  have it1: "reader_iteration X queue_ops DropIncoming (inp (ReadBytes (''Content-Type: log/data'' @ [NL, NL]))) st =
      (Continue, st\<lparr>rd_parser := p1, last_recv := 5\<rparr>)"
    using pm ad by (simp add: reader_iteration_def st_def inp_def read_into_parser_def after_read_def)
  have r: "r = None" and l: "length (qc_items (rd_channel st')) = 1"
    using run it1 m fmt
    by (auto simp: reader_iteration_def st_def Let_def dispatch_message_def dispatch_parsed_event_def dispatch_event_def
        flush_queue_full_notice_def spawn_shared_def queue_ops_def ch_def)
  have "in_step qc_closed False st"
    by (simp add: in_step_def st_def parser_wf_new ch_def spawn_shared_def) (simp add: parser_new_def)
  moreover have "\<forall>i \<in> set ?inps. \<not> in_stop i" by (simp add: inp_def)
  ultimately obtain ms where "qc_items (rd_channel st') = concat (map (message_items X False) ms)"
    using events_delivered_in_order [OF _ queue.event_channel_axioms run [unfolded r], of False] reference_externals_ok
    by (auto simp: X_def st_def ch_def)
  with run r l show ?thesis by blast
qed

end
