(* ===== verification/Command.thy ===== *)
theory Command
  imports Event_Wire
begin

text \<open>
  \<open>src/command/mod.rs\<close> and \<open>src/app/dptools.rs\<close>: the commands a client sends,
  their validation and their wire format. \<open>read_command\<close> specifies how the other
  end reads a command: a header block up to the first blank line, then as many
  body bytes as the first \<open>Content-Length\<close> line announces. The lemmas show that
  the wire format of every accepted command is read as that one command.
\<close>

section \<open>Validation and the builder\<close>

definition contains_wire_terminator :: "string \<Rightarrow> bool" where
  "contains_wire_terminator s \<longleftrightarrow> contains_char NL s \<or> contains_char CR s"

definition validate_no_newlines :: "string \<Rightarrow> string \<Rightarrow> unit esl_result" where
  "validate_no_newlines s what =
     (if contains_wire_terminator s then Inl (ProtocolError (what @ '' must not contain newlines''))
      else Inr ())"

record command_builder =
  cb_command :: string
  cb_headers :: index_map
  cb_body :: "string option"

definition builder_new :: "string \<Rightarrow> command_builder" where
  "builder_new cmd = \<lparr>cb_command = cmd, cb_headers = [], cb_body = None\<rparr>"

definition builder_header :: "string \<Rightarrow> string \<Rightarrow> command_builder \<Rightarrow> command_builder esl_result" where
  "builder_header name value b =
     bindR (validate_no_newlines name ''header name'') (\<lambda>_.
     bindR (validate_no_newlines value ''header value'') (\<lambda>_.
       Inr (b\<lparr>cb_headers := AList.update name value (cb_headers b)\<rparr>)))"

definition builder_body :: "string \<Rightarrow> command_builder \<Rightarrow> command_builder" where
  "builder_body body b = b\<lparr>cb_body := Some body\<rparr>"

definition builder_build :: "command_builder \<Rightarrow> string" where
  "builder_build b =
     cb_command b @ LINE_TERMINATOR @
     concat (map (\<lambda>(key, value). key @ '': '' @ value @ LINE_TERMINATOR) (cb_headers b)) @
     (case cb_body b of
        Some body \<Rightarrow> ''Content-Length: '' @ dec (length body) @ LINE_TERMINATOR @ LINE_TERMINATOR @ body
      | None \<Rightarrow> LINE_TERMINATOR)"

section \<open>Commands\<close>

datatype secret = Secret (secret_value: string)

definition secret_debug :: "secret \<Rightarrow> string" where
  "secret_debug s = ''[REDACTED]''"

record execute_options =
  event_lock :: bool
  async_mode :: bool
  loops :: "u32 option"

definition execute_options_default :: execute_options where
  "execute_options_default = \<lparr>event_lock = False, async_mode = False, loops = None\<rparr>"

datatype duration = Duration (as_secs: u64) (subsec_nanos: u32)

datatype esl_command =
    CmdAuth secret
  | CmdUserAuth string secret
  | CmdApi string
  | CmdBgApi string
  | CmdEvents string string
  | CmdFilter string string
  | CmdSendMsg "string option" esl_event
  | CmdExecute string "string option" "string option" execute_options
  | CmdExit
  | CmdLog string
  | CmdNoLog
  | CmdNoOp
  | CmdSendEvent esl_event
  | CmdMyEvents string "string option"
  | CmdLinger "duration option"
  | CmdNoLinger
  | CmdResume
  | CmdNixEvent string
  | CmdNoEvents
  | CmdFilterDelete string "string option"
  | CmdDivertEvents bool
  | CmdGetVar string
  | CmdConnect
  | CmdFilterDeleteAll

definition format_simple_command :: "string \<Rightarrow> string list \<Rightarrow> string" where
  "format_simple_command cmd args = cmd @ concat (map (\<lambda>a. SP # a) args) @ HEADER_TERMINATOR"

definition build_from_event :: "string \<Rightarrow> esl_event \<Rightarrow> string esl_result" where
  "build_from_event cmd ev =
     bindR (foldR (\<lambda>b (k, v). builder_header k v b) (builder_new cmd) (hmap (ev_headers ev))) (\<lambda>b.
       Inr (builder_build (case ev_body ev of Some body \<Rightarrow> builder_body body b | None \<Rightarrow> b)))"

definition sendevent_name :: "esl_event \<Rightarrow> string esl_result" where
  "sendevent_name ev =
     ok_or (ProtocolError ''sendevent requires Event-Name header or event_type set on the EslEvent'')
       (case event_type ev of Some t \<Rightarrow> Some (et_as_str t) | None \<Rightarrow> event_header ev EventName)"

definition validate_opt :: "string option \<Rightarrow> string \<Rightarrow> unit esl_result" where
  "validate_opt s what = (case s of Some u \<Rightarrow> validate_no_newlines u what | None \<Rightarrow> Inr ())"

fun validate :: "esl_command \<Rightarrow> unit esl_result" where
  "validate (CmdAuth password) = validate_no_newlines (secret_value password) ''password''"
| "validate (CmdUserAuth user password) =
     bindR (validate_no_newlines user ''user'') (\<lambda>_.
       validate_no_newlines (secret_value password) ''password'')"
| "validate (CmdApi command) = validate_no_newlines command ''api command''"
| "validate (CmdBgApi command) = validate_no_newlines command ''bgapi command''"
| "validate (CmdEvents format events) =
     bindR (validate_no_newlines format ''event format'') (\<lambda>_. validate_no_newlines events ''event list'')"
| "validate (CmdFilter header value) =
     bindR (validate_no_newlines header ''filter header'') (\<lambda>_. validate_no_newlines value ''filter value'')"
| "validate (CmdSendMsg uuid ev) = validate_opt uuid ''sendmsg uuid''"
| "validate (CmdExecute app args uuid options) =
     bindR (validate_no_newlines app ''execute app'') (\<lambda>_.
     bindR (validate_opt args ''execute args'') (\<lambda>_. validate_opt uuid ''execute uuid''))"
| "validate (CmdLog level) = validate_no_newlines level ''log level''"
| "validate (CmdSendEvent ev) =
     bindR (sendevent_name ev) (\<lambda>n. validate_no_newlines n ''sendevent event name'')"
| "validate (CmdMyEvents format uuid) =
     bindR (validate_no_newlines format ''myevents format'') (\<lambda>_. validate_opt uuid ''myevents uuid'')"
| "validate (CmdNixEvent events) = validate_no_newlines events ''nixevent list''"
| "validate (CmdFilterDelete header value) =
     bindR (validate_no_newlines header ''filter delete header'') (\<lambda>_.
       validate_opt value ''filter delete value'')"
| "validate (CmdGetVar name) = validate_no_newlines name ''getvar name''"
| "validate CmdExit = Inr ()"
| "validate CmdNoLog = Inr ()"
| "validate CmdNoOp = Inr ()"
| "validate (CmdLinger _) = Inr ()"
| "validate CmdNoLinger = Inr ()"
| "validate CmdResume = Inr ()"
| "validate CmdNoEvents = Inr ()"
| "validate (CmdDivertEvents _) = Inr ()"
| "validate CmdConnect = Inr ()"
| "validate CmdFilterDeleteAll = Inr ()"

text \<open>The arms \<open>SendMsg\<close> and \<open>Execute\<close> of \<open>to_wire_format\<close>; the second builds an event for the first.\<close>

definition sendmsg_wire :: "string option \<Rightarrow> esl_event \<Rightarrow> string esl_result" where
  "sendmsg_wire uuid ev =
     bindR (validate (CmdSendMsg uuid ev)) (\<lambda>_.
       build_from_event (''sendmsg'' @ (case uuid of Some u \<Rightarrow> SP # u | None \<Rightarrow> [])) ev)"

definition execute_event :: "externals \<Rightarrow> string \<Rightarrow> string option \<Rightarrow> execute_options \<Rightarrow> esl_event" where
  "execute_event X app args options =
     (let ev = set_header X ''call-command'' ''execute'' event_new;
          ev = set_header X ''execute-app-name'' app ev;
          ev = (case args of Some a \<Rightarrow> set_header X ''execute-app-arg'' a ev | None \<Rightarrow> ev);
          ev = (if event_lock options then set_header X ''event-lock'' ''true'' ev else ev);
          ev = (if async_mode options then set_header X ''async'' ''true'' ev else ev)
      in case loops options of Some n \<Rightarrow> set_header X ''loops'' (dec (unat n)) ev | None \<Rightarrow> ev)"

fun wire_body :: "externals \<Rightarrow> esl_command \<Rightarrow> string esl_result" where
  "wire_body X (CmdAuth password) = Inr (format_simple_command ''auth'' [secret_value password])"
| "wire_body X (CmdUserAuth user password) =
     Inr (format_simple_command ''userauth'' [user @ '':'' @ secret_value password])"
| "wire_body X (CmdApi command) = Inr (format_simple_command ''api'' [command])"
| "wire_body X (CmdBgApi command) = Inr (format_simple_command ''bgapi'' [command])"
| "wire_body X (CmdEvents format events) = Inr (format_simple_command ''event'' [format, events])"
| "wire_body X (CmdFilter header value) = Inr (format_simple_command ''filter'' [header, value])"
| "wire_body X (CmdSendMsg uuid ev) = sendmsg_wire uuid ev"
| "wire_body X (CmdExecute app args uuid options) = sendmsg_wire uuid (execute_event X app args options)"
| "wire_body X CmdExit = Inr (format_simple_command ''exit'' [])"
| "wire_body X (CmdLog level) = Inr (format_simple_command ''log'' [level])"
| "wire_body X CmdNoLog = Inr (format_simple_command ''nolog'' [])"
| "wire_body X CmdNoOp = Inr (format_simple_command ''noop'' [])"
| "wire_body X (CmdSendEvent ev) =
     bindR (sendevent_name ev) (\<lambda>n. build_from_event (''sendevent '' @ n) ev)"
| "wire_body X (CmdMyEvents format uuid) =
     Inr (case uuid of
            Some u \<Rightarrow> format_simple_command ''myevents'' [u, format]
          | None \<Rightarrow> format_simple_command ''myevents'' [format])"
| "wire_body X (CmdLinger timeout) =
     Inr (case timeout of
            Some d \<Rightarrow> format_simple_command ''linger'' [dec (unat (as_secs d))]
          | None \<Rightarrow> format_simple_command ''linger'' [])"
| "wire_body X CmdNoLinger = Inr (format_simple_command ''nolinger'' [])"
| "wire_body X CmdResume = Inr (format_simple_command ''resume'' [])"
| "wire_body X (CmdNixEvent events) = Inr (format_simple_command ''nixevent'' [events])"
| "wire_body X CmdNoEvents = Inr (format_simple_command ''noevents'' [])"
| "wire_body X (CmdFilterDelete header value) =
     Inr (if header = ''all'' then format_simple_command ''filter'' [''delete'', ''all'']
          else case value of
                 Some v \<Rightarrow> format_simple_command ''filter'' [''delete'', header, v]
               | None \<Rightarrow> format_simple_command ''filter'' [''delete'', header])"
| "wire_body X CmdFilterDeleteAll = Inr (format_simple_command ''filter'' [''delete'', ''all''])"
| "wire_body X (CmdDivertEvents on) =
     Inr (format_simple_command ''divert_events'' [if on then ''on'' else ''off''])"
| "wire_body X (CmdGetVar name) = Inr (format_simple_command ''getvar'' [name])"
| "wire_body X CmdConnect = Inr (format_simple_command ''connect'' [])"

definition to_wire_format :: "externals \<Rightarrow> esl_command \<Rightarrow> string esl_result" where
  "to_wire_format X c = bindR (validate c) (\<lambda>_. wire_body X c)"

fun redact_wire :: "esl_command \<Rightarrow> string \<Rightarrow> string" where
  "redact_wire (CmdAuth _) wire = ''auth [REDACTED]''"
| "redact_wire (CmdUserAuth user _) wire = ''userauth '' @ user @ '':[REDACTED]''"
| "redact_wire _ wire = unwrap_or wire (strip_suffix HEADER_TERMINATOR wire)"

section \<open>Application commands\<close>

definition app_execute :: "string \<Rightarrow> string option \<Rightarrow> esl_command" where
  "app_execute app args = CmdExecute app args None execute_options_default"

definition app_answer :: esl_command where "app_answer = app_execute ''answer'' None"

text \<open>Arguments whose types print themselves (causes, dial strings, dialplans) are taken as printed.\<close>

definition app_hangup :: "string option \<Rightarrow> esl_command" where
  "app_hangup cause = app_execute ''hangup'' cause"

definition app_playback :: "string \<Rightarrow> esl_command" where
  "app_playback file = app_execute ''playback'' (Some file)"

definition app_bridge :: "string \<Rightarrow> esl_command" where
  "app_bridge destination = app_execute ''bridge'' (Some destination)"

definition app_set_var :: "string \<Rightarrow> string \<Rightarrow> esl_command" where
  "app_set_var name value = app_execute ''set'' (Some (name @ ''='' @ value))"

definition app_park :: esl_command where "app_park = app_execute ''park'' None"

definition app_transfer :: "string \<Rightarrow> string option \<Rightarrow> string option \<Rightarrow> esl_command" where
  "app_transfer extension dialplan ctx =
     app_execute ''transfer''
       (Some (extension @
          (case dialplan of Some dp \<Rightarrow> SP # dp | None \<Rightarrow> if ctx \<noteq> None then '' XML'' else []) @
          (case ctx of Some c \<Rightarrow> SP # c | None \<Rightarrow> [])))"

section \<open>How a command is read\<close>

fun content_length_of :: "string list \<Rightarrow> nat" where
  "content_length_of [] = 0"
| "content_length_of (l # ls) =
     (case strip_prefix ''Content-Length: '' l of
        Some d \<Rightarrow> unwrap_or 0 (parse_usize d)
      | None \<Rightarrow> content_length_of ls)"

definition read_command :: "string \<Rightarrow> (string list \<times> string \<times> string) option" where
  "read_command s =
     (case str_find HEADER_TERMINATOR s of
        None \<Rightarrow> None
      | Some i \<Rightarrow>
          let ls = lines (take i s); rest = drop (i + 2) s; n = content_length_of (tl ls)
          in Some (ls, take n rest, drop n rest))"

definition line_ok :: "string \<Rightarrow> bool" where
  "line_ok l \<longleftrightarrow> NL \<notin> set l \<and> CR \<notin> set l"

lemma validate_no_newlines_iff [simp]: "validate_no_newlines s w = Inr u \<longleftrightarrow> line_ok s"
  by (simp add: validate_no_newlines_def contains_wire_terminator_def contains_char_def line_ok_def)

lemma validate_opt_iff [simp]: "validate_opt s w = Inr u \<longleftrightarrow> (\<forall>x. s = Some x \<longrightarrow> line_ok x)"
  by (auto simp: validate_opt_def split: option.splits)

lemma read_command_lines:
  assumes "ls \<noteq> []" and "\<forall>l \<in> set ls. l \<noteq> [] \<and> line_ok l"
    and "content_length_of (tl ls) = length body"
  shows "read_command (join [NL] ls @ HEADER_TERMINATOR @ body @ rest) = Some (ls, body, rest)"
proof -
  have "str_find HEADER_TERMINATOR (join [NL] ls @ HEADER_TERMINATOR @ body @ rest) = Some (length (join [NL] ls))"
    by (rule str_find_lines) (use assms(1,2) in \<open>auto simp: line_ok_def\<close>)
  moreover have "lines (join [NL] ls) = ls"
    by (rule lines_join) (use assms(2) in \<open>auto simp: line_ok_def\<close>)
  ultimately show ?thesis
    using assms(3) by (simp add: read_command_def Let_def HEADER_TERMINATOR_def del: str_find.simps)
qed

lemma read_simple_command:
  assumes "cmd \<noteq> []" and "line_ok cmd" and "\<forall>a \<in> set args. line_ok a"
  shows "\<exists>ls. read_command (format_simple_command cmd args @ rest) = Some (ls, [], rest)"
  using assms read_command_lines [of "[cmd @ concat (map (\<lambda>a. SP # a) args)]" "[]" rest]
  by (auto simp: format_simple_command_def line_ok_def)

text \<open>No header line of the event announces a length of its own.\<close>

definition no_length_header :: "esl_event \<Rightarrow> bool" where
  "no_length_header ev \<longleftrightarrow>
     (\<forall>kv \<in> set (hmap (ev_headers ev)). strip_prefix ''Content-Length: '' (header_line kv) = None)"

definition build_lines :: "string \<Rightarrow> index_map \<Rightarrow> string option \<Rightarrow> string list" where
  "build_lines cmd hs body =
     cmd # map header_line hs @
     (case body of Some b \<Rightarrow> [header_line (''Content-Length'', dec (length b))] | None \<Rightarrow> [])"

lemma builder_build_lines:
  "builder_build b =
     join [NL] (build_lines (cb_command b) (cb_headers b) (cb_body b)) @ HEADER_TERMINATOR @ unwrap_or [] (cb_body b)"
proof -
  have lines: "concat (map (\<lambda>x. f x @ [NL]) xs) = (if xs = [] then [] else join [NL] (map f xs) @ [NL])"
    for f :: "'a \<Rightarrow> string" and xs
    using concat_lines [of f "butlast xs" "last xs"]
    by (cases xs rule: rev_cases) auto
  have hd: "concat (map (\<lambda>(k, v). k @ '': '' @ v @ LINE_TERMINATOR) hs) = concat (map (\<lambda>kv. header_line kv @ [NL]) hs)"
    for hs by (simp add: header_line_def LINE_TERMINATOR_def split_def)
  have j: "join [NL] (cmd # ls) @ [NL] = cmd @ [NL] @ (if ls = [] then [] else join [NL] ls @ [NL])" for cmd ls
    by (cases ls) auto
  show ?thesis
  proof (cases "cb_body b")
    case None
    have "builder_build b = cb_command b @ [NL] @ concat (map (\<lambda>kv. header_line kv @ [NL]) (cb_headers b)) @ [NL]"
      using None unfolding builder_build_def hd by (simp add: LINE_TERMINATOR_def)
    also have "\<dots> = (join [NL] (cb_command b # map header_line (cb_headers b)) @ [NL]) @ [NL]"
      unfolding lines j by simp
    finally show ?thesis using None by (simp add: build_lines_def HEADER_TERMINATOR_def)
  next
    case (Some body)
    let ?l = "header_line (''Content-Length'', dec (length body))"
    have "builder_build b = cb_command b @ [NL] @ (concat (map (\<lambda>kv. header_line kv @ [NL]) (cb_headers b)) @ ?l) @ [NL, NL] @ body"
      using Some unfolding builder_build_def hd by (simp add: LINE_TERMINATOR_def header_line_def)
    also have "\<dots> = (cb_command b @ [NL] @ join [NL] (map header_line (cb_headers b) @ [?l])) @ [NL, NL] @ body"
      using concat_lines [of header_line "cb_headers b" "(''Content-Length'', dec (length body))"] by simp
    finally show ?thesis using Some
      by (simp add: build_lines_def HEADER_TERMINATOR_def join_Cons)
  qed
qed

lemma content_length_skip:
  "\<forall>l \<in> set ls. strip_prefix ''Content-Length: '' l = None \<Longrightarrow> content_length_of (ls @ ms) = content_length_of ms"
  by (induction ls) auto

lemma foldR_builder:
  assumes "foldR (\<lambda>b (k, v). builder_header k v b) b hs = Inr b'" and "distinct (map fst hs)"
    and "fst ` set (cb_headers b) \<inter> fst ` set hs = {}"
  shows "b' = b\<lparr>cb_headers := cb_headers b @ hs\<rparr> \<and> (\<forall>(k, v) \<in> set hs. line_ok k \<and> line_ok v)"
  using assms
proof (induction hs arbitrary: b)
  case (Cons kv hs)
  obtain k v where kv: "kv = (k, v)" by fastforce
  from Cons.prems(1) kv have ok: "line_ok k" "line_ok v"
    and f: "foldR (\<lambda>b (k, v). builder_header k v b) (b\<lparr>cb_headers := cb_headers b @ [(k, v)]\<rparr>) hs = Inr b'"
    using Cons.prems(3) by (auto simp: builder_header_def result_elims)
  from Cons.IH [OF f] Cons.prems(2,3) kv ok show ?case by auto
qed simp

lemma read_build_from_event:
  assumes "build_from_event cmd ev = Inr w" and "cmd \<noteq> []" "line_ok cmd"
    and "distinct (map fst (hmap (ev_headers ev)))" and "no_length_header ev"
    and "length (unwrap_or [] (ev_body ev)) < 2 ^ 64"
  shows "\<exists>ls. read_command (w @ rest) = Some (ls, unwrap_or [] (ev_body ev), rest)"
proof -
  let ?hs = "hmap (ev_headers ev)"
  from assms(1) obtain b where b: "foldR (\<lambda>b (k, v). builder_header k v b) (builder_new cmd) ?hs = Inr b"
    and w: "w = builder_build (case ev_body ev of Some body \<Rightarrow> builder_body body b | None \<Rightarrow> b)"
    by (auto simp: build_from_event_def result_elims)
  have b': "b = \<lparr>cb_command = cmd, cb_headers = ?hs, cb_body = None\<rparr>" "\<forall>(k, v) \<in> set ?hs. line_ok k \<and> line_ok v"
    using foldR_builder [OF b assms(4)] by (simp_all add: builder_new_def)
  let ?ls = "build_lines cmd ?hs (ev_body ev)"
  have "w = join [NL] ?ls @ HEADER_TERMINATOR @ unwrap_or [] (ev_body ev)"
    by (simp add: w builder_build_lines b' builder_body_def split: option.splits)
  moreover have "\<forall>l \<in> set ?ls. l \<noteq> [] \<and> line_ok l"
    using assms(2,3) b'(2) dec_no_NL dec_no_CR
    by (auto simp: build_lines_def header_line_def line_ok_def split: option.splits)
  moreover have "content_length_of (tl ?ls) = length (unwrap_or [] (ev_body ev))"
  proof -
    have skip: "content_length_of (map header_line ?hs @ ms) = content_length_of ms" for ms
      using assms(5) by (intro content_length_skip) (auto simp: no_length_header_def)
    have "content_length_of [header_line (''Content-Length'', dec n)] = n" if "n < 2 ^ 64" for n
      using parse_usize_dec [OF that] by (simp add: header_line_def)
    then show ?thesis using assms(6) skip [of "[]"] skip
      by (cases "ev_body ev") (simp_all add: build_lines_def del: content_length_of.simps(2))
  qed
  ultimately show ?thesis
    using read_command_lines [of ?ls "unwrap_or [] (ev_body ev)" rest] by (auto simp: build_lines_def)
qed

text \<open>The event a command carries, and the body that follows its header block.\<close>

fun command_event :: "externals \<Rightarrow> esl_command \<Rightarrow> esl_event option" where
  "command_event X (CmdSendMsg uuid ev) = Some ev"
| "command_event X (CmdSendEvent ev) = Some ev"
| "command_event X (CmdExecute app args uuid options) = Some (execute_event X app args options)"
| "command_event X _ = None"

definition command_body :: "externals \<Rightarrow> esl_command \<Rightarrow> string" where
  "command_body X c = (case command_event X c of Some ev \<Rightarrow> unwrap_or [] (ev_body ev) | None \<Rightarrow> [])"

definition carried_event_ok :: "externals \<Rightarrow> esl_event \<Rightarrow> bool" where
  "carried_event_ok X ev \<longleftrightarrow>
     event_wf X ev \<and> no_length_header ev \<and> length (unwrap_or [] (ev_body ev)) < 2 ^ 64"

fun carries_ok :: "externals \<Rightarrow> esl_command \<Rightarrow> bool" where
  "carries_ok X (CmdSendMsg uuid ev) = carried_event_ok X ev"
| "carries_ok X (CmdSendEvent ev) = carried_event_ok X ev"
| "carries_ok X _ = True"

lemma set_update: "set (AList.update k v m) \<subseteq> insert (k, v) (set m)"
  by (induction m) auto

lemma lower_append: "to_ascii_lowercase (a @ b) = to_ascii_lowercase a @ to_ascii_lowercase b"
  by (simp add: to_ascii_lowercase_def)

lemma length_key_lower: "to_ascii_lowercase ''Content-Length: '' = ''content-length: ''"
  and colon_lower: "to_ascii_lowercase '': '' = '': ''"
  by code_simp+

lemma prefix_lower: "s = p @ r \<Longrightarrow> to_ascii_lowercase s = to_ascii_lowercase p @ to_ascii_lowercase r"
  by (simp add: to_ascii_lowercase_def)

context esl_externals
begin

lemma no_length_set:
  assumes "no_length_header ev"
    and "\<And>u r. to_ascii_lowercase k @ '': '' @ u \<noteq> ''content-length: '' @ r"
  shows "no_length_header (set_header X k v ev)"
proof -
  have "strip_prefix ''Content-Length: '' (header_line (normalize_header_key X k, v)) \<noteq> Some r" for r
  proof
    assume "strip_prefix ''Content-Length: '' (header_line (normalize_header_key X k, v)) = Some r"
    then have "header_line (normalize_header_key X k, v) = ''Content-Length: '' @ r"
      by (simp only: strip_prefix_Some)
    from prefix_lower [OF this]
    have "to_ascii_lowercase k @ '': '' @ to_ascii_lowercase v = ''content-length: '' @ to_ascii_lowercase r"
      unfolding header_line_def length_key_lower fst_conv snd_conv lower_append normalize_lower colon_lower .
    with assms(2) show False by blast
  qed
  then have new: "strip_prefix ''Content-Length: '' (header_line (normalize_header_key X k, v)) = None" by blast
  show ?thesis
    unfolding no_length_header_def
  proof
    fix kv assume "kv \<in> set (hmap (ev_headers (set_header X k v ev)))"
    then have "kv = (normalize_header_key X k, v) \<or> kv \<in> set (hmap (ev_headers ev))"
      using set_update [of "normalize_header_key X k" v "hmap (ev_headers ev)"]
      by (auto simp: set_header_def insert_hmap)
    with new assms(1) show "strip_prefix ''Content-Length: '' (header_line kv) = None"
      unfolding no_length_header_def by blast
  qed
qed

lemma execute_event_ok: "carried_event_ok X (execute_event X app args options)"
proof -
  have lower: "to_ascii_lowercase ''call-command'' = ''call-command''"
    "to_ascii_lowercase ''execute-app-name'' = ''execute-app-name''"
    "to_ascii_lowercase ''execute-app-arg'' = ''execute-app-arg''"
    "to_ascii_lowercase ''event-lock'' = ''event-lock''" "to_ascii_lowercase ''async'' = ''async''"
    "to_ascii_lowercase ''loops'' = ''loops''"
    by code_simp+
  have new: "no_length_header event_new" by (simp add: no_length_header_def event_new_def headers_new_def)
  have set: "no_length_header (set_header X ''call-command'' v ev)"
    "no_length_header (set_header X ''execute-app-name'' v ev)"
    "no_length_header (set_header X ''execute-app-arg'' v ev)"
    "no_length_header (set_header X ''event-lock'' v ev)"
    "no_length_header (set_header X ''async'' v ev)" "no_length_header (set_header X ''loops'' v ev)"
    if "no_length_header ev" for v ev
    by (rule no_length_set [OF that], simp only: lower, simp)+
  have "no_length_header (execute_event X app args options)"
    by (simp add: execute_event_def Let_def set new split: option.splits)
  moreover have "event_wf X (execute_event X app args options)"
    by (simp add: execute_event_def Let_def event_wf_set event_wf_new split: option.splits)
  moreover have "ev_body (execute_event X app args options) = None"
    by (simp add: execute_event_def Let_def set_header_def event_new_def split: option.splits)
  ultimately show ?thesis by (simp add: carried_event_ok_def)
qed

lemma read_carried:
  assumes "build_from_event cmd ev = Inr w" and "cmd \<noteq> []" "line_ok cmd" and "carried_event_ok X ev"
  shows "\<exists>ls. read_command (w @ rest) = Some (ls, unwrap_or [] (ev_body ev), rest)"
  using assms by (intro read_build_from_event) (auto simp: carried_event_ok_def event_wf_def headers_wf_def)

lemma line_ok_simps [simp]: "line_ok []" "line_ok (c # s) \<longleftrightarrow> c \<noteq> NL \<and> c \<noteq> CR \<and> line_ok s"
  "line_ok (a @ b) \<longleftrightarrow> line_ok a \<and> line_ok b" "line_ok (dec n)"
  using dec_no_NL [of n] dec_no_CR [of n] by (auto simp: line_ok_def)

lemma read_sendmsg:
  assumes "sendmsg_wire uuid ev = Inr w" and "carried_event_ok X ev"
  shows "\<exists>ls. read_command (w @ rest) = Some (ls, unwrap_or [] (ev_body ev), rest)"
  using assms(1)
  by (intro read_carried [OF _ _ _ assms(2), of "''sendmsg'' @ (case uuid of Some u \<Rightarrow> SP # u | None \<Rightarrow> [])"])
    (auto simp: sendmsg_wire_def result_elims split: option.splits)

lemma wire_read_back:
  assumes "to_wire_format X c = Inr w" and "carries_ok X c"
  shows "\<exists>ls. read_command (w @ rest) = Some (ls, command_body X c, rest)"
proof -
  from assms(1) obtain u where v: "validate c = Inr u" and w: "wire_body X c = Inr w"
    by (auto simp: to_wire_format_def result_elims)
  show ?thesis
  proof (cases "command_event X c")
    case None
    then have b: "command_body X c = []" by (simp add: command_body_def)
    show ?thesis
      using v w None unfolding b
      by (cases c) (auto simp: result_elims intro!: read_simple_command split: option.splits if_splits)
  next
    case (Some ev)
    then have b: "command_body X c = unwrap_or [] (ev_body ev)" by (simp add: command_body_def)
    from Some consider (msg) uuid where "c = CmdSendMsg uuid ev" | (send) "c = CmdSendEvent ev"
      | (exec) app args uuid options where "c = CmdExecute app args uuid options"
        "ev = execute_event X app args options"
      by (cases c) auto
    then show ?thesis
    proof cases
      case msg
      with w assms(2) show ?thesis unfolding b by (auto intro: read_sendmsg)
    next
      case exec
      with w show ?thesis unfolding b by (auto intro: read_sendmsg execute_event_ok)
    next
      case send
      with v w obtain n where "sendevent_name ev = Inr n" "line_ok n" "build_from_event (''sendevent '' @ n) ev = Inr w"
        by (auto simp: result_elims)
      with send assms(2) show ?thesis unfolding b by (intro read_carried [of "''sendevent '' @ n"]) auto
    qed
  qed
qed

end

section \<open>Properties\<close>



lemma build_from_event_wire:
  assumes "build_from_event cmd ev = Inr w" and "distinct (map fst (hmap (ev_headers ev)))"
  shows "w = join [NL] (build_lines cmd (hmap (ev_headers ev)) (ev_body ev)) @ HEADER_TERMINATOR @
    unwrap_or [] (ev_body ev)"
proof -
  from assms(1) obtain b where b: "foldR (\<lambda>b (k, v). builder_header k v b) (builder_new cmd)
      (hmap (ev_headers ev)) = Inr b"
    and w: "w = builder_build (case ev_body ev of Some body \<Rightarrow> builder_body body b | None \<Rightarrow> b)"
    by (auto simp: build_from_event_def result_elims)
  have "b = \<lparr>cb_command = cmd, cb_headers = hmap (ev_headers ev), cb_body = None\<rparr>"
    using foldR_builder [OF b assms(2)] by (simp add: builder_new_def)
  then show ?thesis by (simp add: w builder_build_lines builder_body_def split: option.splits)
qed

text \<open>
  C39: a length header stored in an event is sent beside the computed one. When the event
  of a \<open>sendevent\<close> or \<open>sendmsg\<close> holds a \<open>Content-Length\<close> of its own, as an event
  that was received does, the command announces both lengths, the stored one first;
  \<open>to_plain_format\<close> skips the stored one.
\<close>

theorem stored_length_sent_twice:
  assumes "event_wf X ev" and "map_of (hmap (ev_headers ev)) HEADER_CONTENT_LENGTH = Some v"
    and "ev_body ev = Some body" and "build_from_event cmd ev = Inr w"
  shows "\<exists>before after. w = join [NL] (before @ [header_line (HEADER_CONTENT_LENGTH, v)] @ after @
    [header_line (HEADER_CONTENT_LENGTH, dec (length body))]) @ HEADER_TERMINATOR @ body"
proof -
  have d: "distinct (map fst (hmap (ev_headers ev)))" using assms(1) by (simp add: event_wf_def headers_wf_def)
  from assms(2) obtain xs ys where s: "hmap (ev_headers ev) = xs @ (HEADER_CONTENT_LENGTH, v) # ys"
    by (metis map_of_SomeD split_list)
  have "w = join [NL] ((cmd # map header_line xs) @ [header_line (HEADER_CONTENT_LENGTH, v)] @ map header_line ys @
      [header_line (HEADER_CONTENT_LENGTH, dec (length body))]) @ HEADER_TERMINATOR @ body"
    using build_from_event_wire [OF assms(4) d]
    by (simp add: build_lines_def s assms(3) HEADER_CONTENT_LENGTH_def)
  then show ?thesis by blast
qed

theorem stored_length_sent_twice_witness:
  defines "ev \<equiv> set_body ''hello'' (set_header reference_externals ''Content-Length'' ''1'' event_new)"
  shows "\<exists>w before after. build_from_event ''sendevent MESSAGE'' ev = Inr w \<and>
    w = join [NL] (before @ [''Content-Length: 1''] @ after @ [''Content-Length: 5'']) @ HEADER_TERMINATOR @ ''hello''"
proof -
  have wf: "event_wf reference_externals ev"
    unfolding ev_def using reference.event_wf_set [OF reference.event_wf_new]
    by (simp add: event_wf_def set_body_def)
  have m: "map_of (hmap (ev_headers ev)) HEADER_CONTENT_LENGTH = Some ''1''" and b: "ev_body ev = Some ''hello''"
    and r: "\<not> isl (build_from_event ''sendevent MESSAGE'' ev)"
    unfolding ev_def by code_simp+
  obtain w where w: "build_from_event ''sendevent MESSAGE'' ev = Inr w" using r by (metis sum.collapse(2))
  have h: "header_line (HEADER_CONTENT_LENGTH, ''1'') = ''Content-Length: 1''"
    "header_line (HEADER_CONTENT_LENGTH, dec (length ''hello'')) = ''Content-Length: 5''" by code_simp+
  from stored_length_sent_twice [OF wf m b w, unfolded h] w show ?thesis by blast
qed

end
