(* ===== verification/Subscription.thy ===== *)
theory Subscription
  imports Event_Type Event_Header
begin

text \<open>
  \<open>freeswitch-types/src/event/subscription.rs\<close>: the description of an event
  subscription, its validation and the token list of the \<open>event\<close> command.
  \<open>read_event_list\<close> specifies the grammar the switch applies: tokens are
  separated by spaces, and every token after \<open>CUSTOM\<close> is a subclass name. The
  lemmas show that what a subscription built by the builder prints is read back
  as its event names and its subclasses.
\<close>

section \<open>Tokens\<close>

datatype wire_token_fault = FaultEmpty | FaultNewline | FaultSpace

definition classify :: "string \<Rightarrow> wire_token_fault option" where
  "classify s =
     (if s = [] then Some FaultEmpty
      else if contains_char NL s \<or> contains_char CR s then Some FaultNewline
      else if contains_char SP s then Some FaultSpace
      else None)"

datatype event_subscription_error = EventSubscriptionError string

fun event_subscription_error_display :: "event_subscription_error \<Rightarrow> string" where
  "event_subscription_error_display (EventSubscriptionError s) =
     (case classify s of
        Some FaultEmpty \<Rightarrow> ''event subscription token is empty''
      | f \<Rightarrow>
          ''event subscription token contains '' @
          (case f of
             Some FaultNewline \<Rightarrow> ''a newline''
           | Some FaultSpace \<Rightarrow> ''a space''
           | _ \<Rightarrow> ''an unusable character'') @
          '' ('' @ dec (length s) @ '' bytes)'')"

record wire_token_rules =
  reject_empty :: bool
  reject_space :: bool

definition TOKEN :: wire_token_rules where "TOKEN = \<lparr>reject_empty = True, reject_space = True\<rparr>"
definition TEXT :: wire_token_rules where "TEXT = \<lparr>reject_empty = False, reject_space = False\<rparr>"

definition validate_wire_token :: "string \<Rightarrow> wire_token_rules \<Rightarrow> event_subscription_error + unit" where
  "validate_wire_token s rules =
     (let rejected =
        (case classify s of
           Some FaultEmpty \<Rightarrow> reject_empty rules
         | Some FaultNewline \<Rightarrow> True
         | Some FaultSpace \<Rightarrow> reject_space rules
         | None \<Rightarrow> False)
      in if rejected then Inl (EventSubscriptionError s) else Inr ())"

definition validate_raw_event :: "string \<Rightarrow> event_subscription_error + unit" where
  "validate_raw_event s = validate_wire_token s TOKEN"

definition validate_custom_subclass :: "string \<Rightarrow> event_subscription_error + unit" where
  "validate_custom_subclass s = validate_wire_token s TOKEN"

definition validate_filter_field :: "string \<Rightarrow> event_subscription_error + unit" where
  "validate_filter_field s = validate_wire_token s TEXT"

definition CUSTOM_TOKEN :: string where "CUSTOM_TOKEN = ''CUSTOM''"

definition is_custom_token :: "string \<Rightarrow> bool" where
  "is_custom_token name \<longleftrightarrow> eq_ignore_ascii_case name CUSTOM_TOKEN"

definition order_event_tokens :: "string list \<Rightarrow> string list \<Rightarrow> string list" where
  "order_event_tokens names subclasses =
     (let (tokens, custom) =
        fold (\<lambda>name (tokens, custom).
                if is_custom_token name then (tokens, True) else (tokens @ [name], custom))
             names ([], False)
      in if custom \<or> subclasses \<noteq> [] then tokens @ [CUSTOM_TOKEN] @ subclasses else tokens)"

text \<open>\<open>str::split_whitespace\<close>: the maximal runs between white space characters.\<close>

fun take_word :: "string \<Rightarrow> string \<times> string" where
  "take_word [] = ([], [])"
| "take_word (c # s) =
     (if strip_one_ws (c # s) \<noteq> None then ([], c # s)
      else (case take_word s of (w, r) \<Rightarrow> (c # w, r)))"

lemma take_word_length: "length (snd (take_word s)) \<le> length s"
  by (induction s) (auto split: prod.splits)

lemma trim_start_step: "trim_start s = (case strip_one_ws s of None \<Rightarrow> s | Some r \<Rightarrow> trim_start r)"
  by (rule trim_start.simps)

lemma trim_start_length: "length (trim_start s) \<le> length s"
proof (induction s rule: trim_start.induct)
  case (1 s)
  then show ?case
    by (subst trim_start_step) (fastforce dest: strip_one_ws_shorter split: option.splits)
qed

lemma split_whitespace_shorter:
  "trim_start s = c # r \<Longrightarrow> (w, rest) = take_word r \<Longrightarrow> length rest < length s"
  using trim_start_length [of s] take_word_length [of r] by (metis Suc_le_eq le_less_trans length_Cons less_Suc_eq_le snd_conv)

function split_whitespace :: "string \<Rightarrow> string list" where
  "split_whitespace s =
     (case trim_start s of
        [] \<Rightarrow> []
      | c # r \<Rightarrow> (case take_word r of (w, rest) \<Rightarrow> (c # w) # split_whitespace rest))"
  by pat_completeness auto
termination
  by (relation "measure length") (auto dest: split_whitespace_shorter)

declare split_whitespace.simps [simp del]

definition swallowed_event_types :: "string \<Rightarrow> string list" where
  "swallowed_event_types events =
     filter (\<lambda>t. parse_event_type t \<noteq> None)
       (drop 1 (dropWhile (\<lambda>t. \<not> is_custom_token t) (split_whitespace events)))"

section \<open>The builder\<close>

record event_subscription =
  es_format :: event_format
  es_events :: "esl_event_type list"
  es_raw_events :: "string list"
  es_custom_subclasses :: "string list"
  es_filters :: "(string \<times> string) list"

definition subscription_new :: "event_format \<Rightarrow> event_subscription" where
  "subscription_new f =
     \<lparr>es_format = f, es_events = [], es_raw_events = [], es_custom_subclasses = [], es_filters = []\<rparr>"

definition subscription_all :: "event_format \<Rightarrow> event_subscription" where
  "subscription_all f =
     \<lparr>es_format = f, es_events = [Et_All], es_raw_events = [], es_custom_subclasses = [], es_filters = []\<rparr>"

definition sub_event :: "esl_event_type \<Rightarrow> event_subscription \<Rightarrow> event_subscription" where
  "sub_event e s = s\<lparr>es_events := es_events s @ [e]\<rparr>"

definition sub_events :: "esl_event_type list \<Rightarrow> event_subscription \<Rightarrow> event_subscription" where
  "sub_events es s = s\<lparr>es_events := es_events s @ es\<rparr>"

definition event_raw :: "string \<Rightarrow> event_subscription \<Rightarrow> event_subscription_error + event_subscription" where
  "event_raw e s =
     bindR (validate_raw_event e) (\<lambda>_. Inr (s\<lparr>es_raw_events := es_raw_events s @ [e]\<rparr>))"

definition events_raw :: "string list \<Rightarrow> event_subscription \<Rightarrow> event_subscription_error + event_subscription" where
  "events_raw es s = foldR (\<lambda>s e. event_raw e s) s es"

definition custom_subclass :: "string \<Rightarrow> event_subscription \<Rightarrow> event_subscription_error + event_subscription" where
  "custom_subclass c s =
     bindR (validate_custom_subclass c) (\<lambda>_. Inr (s\<lparr>es_custom_subclasses := es_custom_subclasses s @ [c]\<rparr>))"

definition custom_subclasses ::
  "string list \<Rightarrow> event_subscription \<Rightarrow> event_subscription_error + event_subscription" where
  "custom_subclasses cs s = foldR (\<lambda>s c. custom_subclass c s) s cs"

definition sub_filter ::
  "event_header \<Rightarrow> string \<Rightarrow> event_subscription \<Rightarrow> event_subscription_error + event_subscription" where
  "sub_filter h v s =
     bindR (validate_filter_field v) (\<lambda>_. Inr (s\<lparr>es_filters := es_filters s @ [(eh_as_str h, v)]\<rparr>))"

definition filter_raw ::
  "string \<Rightarrow> string \<Rightarrow> event_subscription \<Rightarrow> event_subscription_error + event_subscription" where
  "filter_raw h v s =
     bindR (validate_filter_field h) (\<lambda>_.
     bindR (validate_filter_field v) (\<lambda>_. Inr (s\<lparr>es_filters := es_filters s @ [(h, v)]\<rparr>)))"

definition is_all :: "event_subscription \<Rightarrow> bool" where
  "is_all s \<longleftrightarrow> Et_All \<in> set (es_events s)"

definition sub_is_empty :: "event_subscription \<Rightarrow> bool" where
  "sub_is_empty s \<longleftrightarrow> es_events s = [] \<and> es_raw_events s = [] \<and> es_custom_subclasses s = []"

definition to_event_string :: "event_subscription \<Rightarrow> string option" where
  "to_event_string s =
     (if Et_All \<in> set (es_events s) then Some ''ALL''
      else let parts = order_event_tokens (map et_as_str (es_events s) @ es_raw_events s)
                         (es_custom_subclasses s)
           in if parts = [] then None else Some (join [SP] parts))"

text \<open>The checks of \<open>TryFrom<EventSubscriptionRaw>\<close>, which deserialization runs.\<close>

definition subscription_try_from :: "event_subscription \<Rightarrow> event_subscription_error + event_subscription" where
  "subscription_try_from raw =
     bindR (foldR (\<lambda>_ re. validate_raw_event re) () (es_raw_events raw)) (\<lambda>_.
     bindR (foldR (\<lambda>_ sc. validate_custom_subclass sc) () (es_custom_subclasses raw)) (\<lambda>_.
     bindR (foldR (\<lambda>_ (h, v). bindR (validate_filter_field h) (\<lambda>_. validate_filter_field v)) () (es_filters raw)) (\<lambda>_.
       Inr raw)))"

section \<open>Well-formed subscriptions\<close>

definition token_ok :: "string \<Rightarrow> bool" where
  "token_ok s \<longleftrightarrow> s \<noteq> [] \<and> NL \<notin> set s \<and> CR \<notin> set s \<and> SP \<notin> set s"

definition subscription_wf :: "event_subscription \<Rightarrow> bool" where
  "subscription_wf s \<longleftrightarrow>
     (\<forall>e \<in> set (es_events s). et_wf e) \<and> (\<forall>r \<in> set (es_raw_events s). token_ok r) \<and>
     (\<forall>c \<in> set (es_custom_subclasses s). token_ok c) \<and>
     (\<forall>(h, v) \<in> set (es_filters s). NL \<notin> set h \<and> CR \<notin> set h \<and> NL \<notin> set v \<and> CR \<notin> set v)"

lemma validate_token_iff [simp]:
  "validate_raw_event s = Inr u \<longleftrightarrow> token_ok s" "validate_custom_subclass s = Inr u \<longleftrightarrow> token_ok s"
  by (auto simp: validate_raw_event_def validate_custom_subclass_def validate_wire_token_def classify_def
      TOKEN_def token_ok_def contains_char_def)

lemma validate_text_iff [simp]:
  "validate_filter_field s = Inr u \<longleftrightarrow> NL \<notin> set s \<and> CR \<notin> set s"
  by (auto simp: validate_filter_field_def validate_wire_token_def classify_def TEXT_def contains_char_def)

lemma subscription_wf_new [simp]: "subscription_wf (subscription_new f)" "subscription_wf (subscription_all f)"
  using et_wf_named(2) by (simp_all add: subscription_wf_def subscription_new_def subscription_all_def)

lemma subscription_wf_events [simp]:
  "subscription_wf s \<Longrightarrow> et_wf e \<Longrightarrow> subscription_wf (sub_event e s)"
  "subscription_wf s \<Longrightarrow> \<forall>e \<in> set es. et_wf e \<Longrightarrow> subscription_wf (sub_events es s)"
  by (auto simp: subscription_wf_def sub_event_def sub_events_def)

lemma event_raw_wf: "subscription_wf s \<Longrightarrow> event_raw e s = Inr s' \<Longrightarrow> subscription_wf s'"
  by (auto simp: event_raw_def subscription_wf_def result_elims)

lemma custom_subclass_wf: "subscription_wf s \<Longrightarrow> custom_subclass c s = Inr s' \<Longrightarrow> subscription_wf s'"
  by (auto simp: custom_subclass_def subscription_wf_def result_elims)

lemma events_raw_wf: "subscription_wf s \<Longrightarrow> events_raw es s = Inr s' \<Longrightarrow> subscription_wf s'"
  unfolding events_raw_def by (rule foldR_invariant [where P = subscription_wf]) (auto intro: event_raw_wf)

lemma custom_subclasses_wf: "subscription_wf s \<Longrightarrow> custom_subclasses cs s = Inr s' \<Longrightarrow> subscription_wf s'"
  unfolding custom_subclasses_def
  by (rule foldR_invariant [where P = subscription_wf]) (auto intro: custom_subclass_wf)

lemma filter_raw_wf: "subscription_wf s \<Longrightarrow> filter_raw h v s = Inr s' \<Longrightarrow> subscription_wf s'"
  by (auto simp: filter_raw_def subscription_wf_def result_elims)

section \<open>The token list\<close>

lemma fold_order:
  "fold (\<lambda>name (tokens, custom).
        if is_custom_token name then (tokens, True) else (tokens @ [name], custom)) names (ts, c) =
     (ts @ filter (\<lambda>n. \<not> is_custom_token n) names, c \<or> (\<exists>n \<in> set names. is_custom_token n))"
  by (induction names arbitrary: ts c) auto

lemma order_event_tokens_eq:
  "order_event_tokens names subs =
     filter (\<lambda>n. \<not> is_custom_token n) names @
     (if subs \<noteq> [] \<or> (\<exists>n \<in> set names. is_custom_token n) then CUSTOM_TOKEN # subs else [])"
  by (auto simp: order_event_tokens_def fold_order)

definition read_event_list :: "string \<Rightarrow> string list \<times> string list" where
  "read_event_list s =
     (let ts = split_str [SP] s
      in (takeWhile (\<lambda>t. \<not> is_custom_token t) ts, drop 1 (dropWhile (\<lambda>t. \<not> is_custom_token t) ts)))"

lemma custom_token_self [simp]: "is_custom_token CUSTOM_TOKEN"
  by (simp add: is_custom_token_def eq_ignore_ascii_case_def)

lemma first_at_char: "c \<notin> set x \<Longrightarrow> first_at [c] (x @ [c] @ r) (length x)"
  by (auto simp: first_at_def prefix_def nth_append)
    (metis (no_types, lifting) Cons_nth_drop_Suc append_Cons drop_append length_append less_SucI
      list.inject nth_append nth_mem trans_less_add1)

lemma split_join_char:
  assumes "ts \<noteq> []" and "\<forall>t \<in> set ts. c \<notin> set t"
  shows "split_str [c] (join [c] ts) = ts"
  using assms
proof (induction ts)
  case (Cons t ts)
  show ?case
  proof (cases "ts = []")
    case True
    have "\<not> occurs_in [c] t"
      using Cons.prems by (force simp: occurs_in_def prefix_def dest: arg_cong [where f = set] set_drop_subset [THEN subsetD])
    with True show ?thesis by (simp add: split_str_single)
  next
    case False
    have "split_str [c] (t @ [c] @ join [c] ts) = t # split_str [c] (join [c] ts)"
      using Cons.prems by (intro split_str_step first_at_char) auto
    with False Cons show ?thesis by (simp add: join_Cons)
  qed
qed simp

definition event_names :: "event_subscription \<Rightarrow> string list" where
  "event_names s = filter (\<lambda>n. \<not> is_custom_token n) (map et_as_str (es_events s) @ es_raw_events s)"

lemma et_wf_token_ok: "et_wf t \<Longrightarrow> token_ok (et_as_str t)"
  using et_wf_token [of t] et_wf_token(2) [of t NL] et_wf_token(2) [of t CR] et_wf_token(2) [of t SP]
  by (auto simp: token_ok_def is_letter_def)

lemma read_ordered_tokens:
  assumes "\<forall>t \<in> set names \<union> set subs. token_ok t" and "order_event_tokens names subs \<noteq> []"
  shows "read_event_list (join [SP] (order_event_tokens names subs)) =
    (filter (\<lambda>n. \<not> is_custom_token n) names, subs)"
proof -
  let ?ts = "order_event_tokens names subs"
  have "\<forall>t \<in> set ?ts. SP \<notin> set t"
    using assms(1) by (auto simp: order_event_tokens_eq token_ok_def CUSTOM_TOKEN_def)
  then have "split_str [SP] (join [SP] ?ts) = ?ts" using assms(2) by (intro split_join_char) auto
  then show ?thesis
    by (auto simp: read_event_list_def order_event_tokens_eq takeWhile_append dropWhile_append
        takeWhile_eq_all_conv dropWhile_eq_Nil_conv)
qed

lemma subscription_read_back:
  assumes "subscription_wf s" and "\<not> is_all s" and "to_event_string s = Some str"
  shows "read_event_list str = (event_names s, es_custom_subclasses s)"
proof -
  have "\<forall>t \<in> set (map et_as_str (es_events s) @ es_raw_events s) \<union> set (es_custom_subclasses s). token_ok t"
    using assms(1) et_wf_token_ok by (auto simp: subscription_wf_def)
  then show ?thesis
    using assms(2,3) read_ordered_tokens
    by (auto simp: to_event_string_def is_all_def event_names_def Let_def split: if_splits)
qed

lemma to_event_string_None:
  "subscription_wf s \<Longrightarrow> to_event_string s = None \<longleftrightarrow> sub_is_empty s"
  by (auto simp: to_event_string_def sub_is_empty_def Let_def order_event_tokens_eq filter_empty_conv
      CUSTOM_TOKEN_def)

text \<open>The printed list is one line, so it can be the argument of a command.\<close>

lemma set_join: "set (join sep ts) \<subseteq> set sep \<union> (\<Union>t \<in> set ts. set t)"
  by (induction sep ts rule: join.induct) auto

lemma event_string_one_line:
  assumes "subscription_wf s" and "to_event_string s = Some str"
  shows "NL \<notin> set str \<and> CR \<notin> set str"
proof (cases "is_all s")
  case True
  with assms(2) show ?thesis by (auto simp: to_event_string_def is_all_def)
next
  case False
  let ?ts = "order_event_tokens (map et_as_str (es_events s) @ es_raw_events s) (es_custom_subclasses s)"
  have "\<forall>t \<in> set ?ts. NL \<notin> set t \<and> CR \<notin> set t"
    using assms(1) et_wf_token_ok
    by (auto simp: order_event_tokens_eq subscription_wf_def token_ok_def CUSTOM_TOKEN_def)
  moreover have "str = join [SP] ?ts"
    using assms(2) False by (auto simp: to_event_string_def is_all_def Let_def split: if_splits)
  ultimately show ?thesis using set_join [of "[SP]" ?ts] by auto
qed

lemma header_names_one_line: "\<forall>n \<in> set event_header_names. NL \<notin> set n \<and> CR \<notin> set n"
  by code_simp

lemma sub_filter_wf:
  "subscription_wf s \<Longrightarrow> eh_wf h \<Longrightarrow> sub_filter h v s = Inr s' \<Longrightarrow> subscription_wf s'"
  using header_names_one_line by (auto simp: sub_filter_def subscription_wf_def result_elims eh_wf_def)

lemma foldR_unit: "foldR (\<lambda>_ x. g x) () xs = Inr () \<longleftrightarrow> (\<forall>x \<in> set xs. g x = Inr ())"
  by (induction xs) (auto simp: result_elims)

lemma try_from_wf:
  "subscription_try_from raw = Inr s \<Longrightarrow> \<forall>e \<in> set (es_events raw). et_wf e \<Longrightarrow> subscription_wf s"
  by (auto simp: subscription_try_from_def result_elims foldR_unit split_def subscription_wf_def)

section \<open>Properties\<close>

text \<open>
  No builder lets a token through that would split on the wire. A
  subscription made by the constructors, extended by any of the builder
  methods that accepted their argument, or taken from deserialized data, holds only
  non-empty names without blanks and line ends and filters without line ends.
\<close>

lemma subscription_builders_wf:
  "subscription_wf (subscription_new f) \<and> subscription_wf (subscription_all f)
   \<and> (\<forall>s s' t e c es cs h v.
        (subscription_wf s \<and> et_wf t \<longrightarrow> subscription_wf (sub_event t s)) \<and>
        (subscription_wf s \<and> event_raw e s = Inr s' \<longrightarrow> subscription_wf s' \<and> token_ok e) \<and>
        (subscription_wf s \<and> events_raw es s = Inr s' \<longrightarrow> subscription_wf s') \<and>
        (subscription_wf s \<and> custom_subclass c s = Inr s' \<longrightarrow> subscription_wf s' \<and> token_ok c) \<and>
        (subscription_wf s \<and> custom_subclasses cs s = Inr s' \<longrightarrow> subscription_wf s') \<and>
        (subscription_wf s \<and> eh_wf h \<and> sub_filter h v s = Inr s' \<longrightarrow> subscription_wf s') \<and>
        (subscription_wf s \<and> filter_raw e v s = Inr s' \<longrightarrow> subscription_wf s') \<and>
        ((\<forall>t \<in> set (es_events s). et_wf t) \<and> subscription_try_from s = Inr s' \<longrightarrow> subscription_wf s'))"
proof -
  have "token_ok e" if "event_raw e s = Inr s'" for e s s'
    using that by (auto simp: event_raw_def result_elims)
  moreover have "token_ok c" if "custom_subclass c s = Inr s'" for c s s'
    using that by (auto simp: custom_subclass_def result_elims)
  ultimately have raw: "\<forall>e s s'. event_raw e s = Inr s' \<longrightarrow> token_ok e" "\<forall>c s s'. custom_subclass c s = Inr s' \<longrightarrow> token_ok c"
    by blast+
  show ?thesis
    using raw subscription_wf_new subscription_wf_events(1) event_raw_wf events_raw_wf custom_subclass_wf
      custom_subclasses_wf sub_filter_wf filter_raw_wf try_from_wf
    by (intro conjI allI impI) meson+
qed



end
