(* ===== verification/Client.thy ===== *)
theory Client
  imports Reader Command Subscription
begin

text \<open>
  \<open>src/connection/client.rs\<close>. The critical sections of \<open>send_command\<close> are functions
  on the shared state, and \<open>send_command\<close> composes them with what other tasks do
  between them (\<open>send_env\<close>). The other client methods send one or more commands;
  they are written over an arbitrary \<open>send\<close> with a state of its own, so that they
  can be read as sequences of commands.
\<close>

section \<open>Sending one command\<close>

definition is_connected :: "shared_state \<Rightarrow> bool" where
  "is_connected sh \<longleftrightarrow> status sh = Connected"

definition install_waiter :: "nat \<Rightarrow> shared_state \<Rightarrow> unit esl_result \<times> shared_state" where
  "install_waiter w sh =
     (if reader_dead (pending sh) then (Inl ConnectionClosed, sh)
      else (Inr (), sh\<lparr>pending := (pending sh)\<lparr>waiting := Some w\<rparr>\<rparr>))"

definition write_failed :: "shared_state \<Rightarrow> shared_state" where
  "write_failed sh = sh\<lparr>pending := (pending sh)\<lparr>waiting := None\<rparr>\<rparr>"

definition timeout_waiter :: "shared_state \<Rightarrow> shared_state" where
  "timeout_waiter sh =
     (let p = pending sh in
      if waiting p \<noteq> None
      then sh\<lparr>pending := p\<lparr>waiting := None, stale_replies := stale_replies p + 1\<rparr>\<rparr>
      else sh)"

datatype wait_result = Reply esl_message | SenderDropped | TimedOut

record send_env =
  before_lock :: "shared_state \<Rightarrow> shared_state"
  write_result :: "string option"
  while_waiting :: "shared_state \<Rightarrow> shared_state"
  wait_result :: wait_result

definition send_command ::
  "externals \<Rightarrow> nat \<Rightarrow> send_env \<Rightarrow> esl_command \<Rightarrow> shared_state \<Rightarrow> esl_response esl_result \<times> shared_state" where
  "send_command X w env command sh =
     (if \<not> is_connected sh then (Inl NotConnected, sh)
      else case to_wire_format X command of
             Inl e \<Rightarrow> (Inl e, sh)
           | Inr command_str \<Rightarrow>
               (case install_waiter w (before_lock env sh) of
                  (Inl e, sh) \<Rightarrow> (Inl e, sh)
                | (Inr _, sh) \<Rightarrow>
                    (case write_result env of
                       Some e \<Rightarrow> (Inl (Io e), write_failed sh)
                     | None \<Rightarrow>
                         let timeout_ms = command_timeout_ms sh; sh = while_waiting env sh in
                         (case wait_result env of
                            Reply message \<Rightarrow> (Inr (response_from_message X message), sh)
                          | SenderDropped \<Rightarrow> (Inl ConnectionClosed, sh)
                          | TimedOut \<Rightarrow> (Inl (Timeout timeout_ms), timeout_waiter sh)))))"

section \<open>Sequences of commands\<close>

type_synonym ('s, 'a) client_op = "'s \<Rightarrow> 'a esl_result \<times> 's"
type_synonym 's sender = "esl_command \<Rightarrow> ('s, esl_response) client_op"

definition bindS :: "('s, 'a) client_op \<Rightarrow> ('a \<Rightarrow> ('s, 'b) client_op) \<Rightarrow> ('s, 'b) client_op" where
  "bindS m f s = (case m s of (Inl e, s') \<Rightarrow> (Inl e, s') | (Inr a, s') \<Rightarrow> f a s')"

definition returnS :: "'a \<Rightarrow> ('s, 'a) client_op" where
  "returnS a s = (Inr a, s)"

definition liftS :: "'a esl_result \<Rightarrow> ('s, 'a) client_op" where
  "liftS r s = (r, s)"

definition send_command_ok :: "'s sender \<Rightarrow> esl_command \<Rightarrow> ('s, unit) client_op" where
  "send_command_ok send c = bindS (send c) (\<lambda>r. liftS (mapR (\<lambda>_. ()) (into_result r)))"

definition api :: "'s sender \<Rightarrow> string \<Rightarrow> ('s, esl_response) client_op" where
  "api send command = send (CmdApi command)"

definition bgapi :: "'s sender \<Rightarrow> string \<Rightarrow> ('s, esl_response) client_op" where
  "bgapi send command = send (CmdBgApi command)"

definition send_subscription_events :: "'s sender \<Rightarrow> event_subscription \<Rightarrow> ('s, unit) client_op" where
  "send_subscription_events send sub =
     (case to_event_string sub of
        Some events_str \<Rightarrow> send_command_ok send (CmdEvents (format_as_str (es_format sub)) events_str)
      | None \<Rightarrow> returnS ())"

definition subscribe_events :: "'s sender \<Rightarrow> event_format \<Rightarrow> esl_event_type list \<Rightarrow> ('s, unit) client_op" where
  "subscribe_events send format events =
     send_subscription_events send (sub_events events (subscription_new format))"

definition subscribe_all_events :: "'s sender \<Rightarrow> event_format \<Rightarrow> ('s, unit) client_op" where
  "subscribe_all_events send format = subscribe_events send format [Et_All]"

definition client_filter_raw :: "'s sender \<Rightarrow> string \<Rightarrow> string \<Rightarrow> ('s, unit) client_op" where
  "client_filter_raw send header value = send_command_ok send (CmdFilter header value)"

definition client_filter :: "'s sender \<Rightarrow> event_header \<Rightarrow> string \<Rightarrow> ('s, unit) client_op" where
  "client_filter send header value = client_filter_raw send (eh_as_str header) value"

fun apply_filters :: "'s sender \<Rightarrow> (string \<times> string) list \<Rightarrow> ('s, unit) client_op" where
  "apply_filters send [] = returnS ()"
| "apply_filters send ((header, value) # filters) =
     bindS (client_filter_raw send header value) (\<lambda>_. apply_filters send filters)"

definition subscribe_events_raw :: "'s sender \<Rightarrow> event_format \<Rightarrow> string \<Rightarrow> ('s, unit) client_op" where
  "subscribe_events_raw send format events = send_command_ok send (CmdEvents (format_as_str format) events)"

definition apply_subscription :: "'s sender \<Rightarrow> event_subscription \<Rightarrow> ('s, unit) client_op" where
  "apply_subscription send sub =
     bindS (apply_filters send (es_filters sub)) (\<lambda>_. send_subscription_events send sub)"

definition nixevent_raw :: "'s sender \<Rightarrow> string \<Rightarrow> ('s, unit) client_op" where
  "nixevent_raw send events = send_command_ok send (CmdNixEvent events)"

definition nixevent :: "'s sender \<Rightarrow> esl_event_type list \<Rightarrow> ('s, unit) client_op" where
  "nixevent send events = nixevent_raw send (join [SP] (order_event_tokens (map et_as_str events) []))"

definition nixevent_str_diff ::
  "'s sender \<Rightarrow> string list \<Rightarrow> string list \<Rightarrow> string \<Rightarrow> ('s, unit) client_op" where
  "nixevent_str_diff send old new pre =
     (let removed = filter (\<lambda>s. s \<notin> set new) old
      in if removed \<noteq> [] then nixevent_raw send (pre @ join [SP] removed) else returnS ())"

definition noevents :: "'s sender \<Rightarrow> ('s, unit) client_op" where
  "noevents send = send_command_ok send CmdNoEvents"

definition filter_delete_raw :: "'s sender \<Rightarrow> string \<Rightarrow> string option \<Rightarrow> ('s, unit) client_op" where
  "filter_delete_raw send header value = send_command_ok send (CmdFilterDelete header value)"

definition filter_delete :: "'s sender \<Rightarrow> event_header \<Rightarrow> string option \<Rightarrow> ('s, unit) client_op" where
  "filter_delete send header value = filter_delete_raw send (eh_as_str header) value"

definition filter_delete_all :: "'s sender \<Rightarrow> ('s, unit) client_op" where
  "filter_delete_all send = send_command_ok send CmdFilterDeleteAll"

definition resubscribe :: "'s sender \<Rightarrow> event_subscription \<Rightarrow> ('s, unit) client_op" where
  "resubscribe send sub =
     bindS (send_subscription_events send sub) (\<lambda>_.
     bindS (filter_delete_all send) (\<lambda>_.
     bindS (apply_filters send (es_filters sub)) (\<lambda>_.
     bindS (noevents send) (\<lambda>_.
       send_subscription_events send sub))))"

text \<open>
  The order in which a \<open>HashSet\<close> yields the removed event types is unspecified;
  \<open>hash_order\<close> rearranges the difference.
\<close>

definition removed_types ::
  "(esl_event_type list \<Rightarrow> esl_event_type list) \<Rightarrow> event_subscription \<Rightarrow> event_subscription \<Rightarrow> esl_event_type list" where
  "removed_types hash_order old new =
     hash_order (remdups (filter (\<lambda>t. t \<notin> set (es_events new)) (es_events old)))"

definition resubscribe_from ::
  "(esl_event_type list \<Rightarrow> esl_event_type list) \<Rightarrow> 's sender \<Rightarrow> event_subscription \<Rightarrow> event_subscription \<Rightarrow>
    ('s, unit) client_op" where
  "resubscribe_from hash_order send old new =
     bindS (send_subscription_events send new) (\<lambda>_.
     bindS (filter_delete_all send) (\<lambda>_.
     bindS (apply_filters send (es_filters new)) (\<lambda>_.
     bindS (let removed = removed_types hash_order old new
            in if removed \<noteq> [] then nixevent send removed else returnS ()) (\<lambda>_.
     bindS (nixevent_str_diff send (es_raw_events old) (es_raw_events new) []) (\<lambda>_.
       nixevent_str_diff send (es_custom_subclasses old) (es_custom_subclasses new) ''CUSTOM '')))))"

definition execute_with_options ::
  "'s sender \<Rightarrow> string \<Rightarrow> string option \<Rightarrow> string option \<Rightarrow> execute_options \<Rightarrow> ('s, esl_response) client_op" where
  "execute_with_options send app args uuid options = send (CmdExecute app args uuid options)"

definition execute :: "'s sender \<Rightarrow> string \<Rightarrow> string option \<Rightarrow> string option \<Rightarrow> ('s, esl_response) client_op" where
  "execute send app args uuid = execute_with_options send app args uuid execute_options_default"

definition sendmsg :: "'s sender \<Rightarrow> string option \<Rightarrow> esl_event \<Rightarrow> ('s, esl_response) client_op" where
  "sendmsg send uuid ev = send (CmdSendMsg uuid ev)"

definition sendevent :: "'s sender \<Rightarrow> esl_event \<Rightarrow> ('s, esl_response) client_op" where
  "sendevent send ev = send (CmdSendEvent ev)"

definition myevents :: "'s sender \<Rightarrow> event_format \<Rightarrow> ('s, unit) client_op" where
  "myevents send format = send_command_ok send (CmdMyEvents (format_as_str format) None)"

definition myevents_uuid :: "'s sender \<Rightarrow> string \<Rightarrow> event_format \<Rightarrow> ('s, unit) client_op" where
  "myevents_uuid send uuid format = send_command_ok send (CmdMyEvents (format_as_str format) (Some uuid))"

definition linger :: "'s sender \<Rightarrow> duration option \<Rightarrow> ('s, unit) client_op" where
  "linger send timeout = send_command_ok send (CmdLinger timeout)"

definition nolinger :: "'s sender \<Rightarrow> ('s, unit) client_op" where
  "nolinger send = send_command_ok send CmdNoLinger"

definition resume :: "'s sender \<Rightarrow> ('s, unit) client_op" where
  "resume send = send_command_ok send CmdResume"

definition connect_session :: "'s sender \<Rightarrow> ('s, esl_response) client_op" where
  "connect_session send = send CmdConnect"

definition divert_events :: "'s sender \<Rightarrow> bool \<Rightarrow> ('s, unit) client_op" where
  "divert_events send on = send_command_ok send (CmdDivertEvents on)"

definition getvar :: "'s sender \<Rightarrow> string \<Rightarrow> ('s, string) client_op" where
  "getvar send name =
     bindS (send (CmdGetVar name)) (\<lambda>response.
       liftS (ok_or (ProtocolError ''getvar response missing Reply-Text header'') (reply_text response)))"

definition getvar_is_unset :: "string \<Rightarrow> bool" where
  "getvar_is_unset reply \<longleftrightarrow> reply = [] \<or> reply = UNDEF_VALUE \<or> reply = REPLY_COMMAND_NOT_FOUND"

definition getvar_opt :: "'s sender \<Rightarrow> string \<Rightarrow> ('s, string option) client_op" where
  "getvar_opt send name =
     bindS (getvar send name) (\<lambda>value. returnS (if getvar_is_unset value then None else Some value))"

definition client_log :: "'s sender \<Rightarrow> string \<Rightarrow> ('s, esl_response) client_op" where
  "client_log send level = send (CmdLog level)"

definition nolog :: "'s sender \<Rightarrow> ('s, esl_response) client_op" where "nolog send = send CmdNoLog"
definition noop :: "'s sender \<Rightarrow> ('s, esl_response) client_op" where "noop send = send CmdNoOp"
definition exit :: "'s sender \<Rightarrow> ('s, esl_response) client_op" where "exit send = send CmdExit"

section \<open>Settings and disconnect\<close>

text \<open>\<open>duration.as_millis() as u64\<close>: the low 64 bits of the milliseconds.\<close>

definition set_liveness_timeout :: "nat \<Rightarrow> shared_state \<Rightarrow> shared_state" where
  "set_liveness_timeout millis sh = sh\<lparr>liveness_timeout_ms := of_nat millis\<rparr>"

definition set_command_timeout :: "nat \<Rightarrow> shared_state \<Rightarrow> shared_state" where
  "set_command_timeout millis sh = sh\<lparr>command_timeout_ms := of_nat millis\<rparr>"

text \<open>\<open>shutdown\<close> is the error of shutting down the write half, if any.\<close>

definition disconnect :: "string option \<Rightarrow> shared_state \<Rightarrow> unit esl_result \<times> shared_state" where
  "disconnect shutdown sh =
     (case shutdown of Some e \<Rightarrow> Inl (Io e) | None \<Rightarrow> Inr (),
      sh\<lparr>status := Disconnected ClientRequested\<rparr>)"

section \<open>Re-exec teardown\<close>

text \<open>
  \<open>src/connection/reexec.rs\<close>: \<open>stop_sent\<close> says whether the reader still held the
  receiver of the stop signal, \<open>result\<close> what arrived on the result channel
  (\<open>None\<close>: the outer timeout; \<open>Some None\<close>: the sender was dropped), with the
  errors' texts as the runtime prints them.
\<close>

definition teardown_for_reexec ::
  "bool \<Rightarrow> string esl_result option option \<Rightarrow> string \<Rightarrow> string \<Rightarrow> shared_state \<Rightarrow> string esl_result \<times> shared_state" where
  "teardown_for_reexec stop_sent result elapsed_text recv_text sh =
     (if waiting (pending sh) \<noteq> None then (Inl (ReexecFailed ''command still in-flight''), sh)
      else if \<not> reexec_caller sh then (Inl (ReexecFailed ''teardown already called''), sh)
      else let sh = sh\<lparr>reexec_caller := False, liveness_timeout_ms := 0\<rparr> in
           if \<not> stop_sent then (Inl (ReexecFailed ''reader task is gone, stop signal not delivered''), sh)
           else case result of
                  None \<Rightarrow> (Inl (ReexecFailed (''timed out waiting for reader to stop: '' @ elapsed_text)), sh)
                | Some None \<Rightarrow>
                    (Inl (ReexecFailed (''reader task exited without sending result: '' @ recv_text)), sh)
                | Some (Some (Inl e)) \<Rightarrow> (Inl e, sh)
                | Some (Some (Inr residual)) \<Rightarrow>
                    (Inr residual, sh\<lparr>status := Disconnected ReexecTeardown\<rparr>))"

section \<open>After the reader has gone\<close>

lemma reader_loop_dead:
  assumes "reader_loop X ops ovf inps st = (Some reason, st')"
  shows "reader_dead (pending (rd_shared st')) \<and> waiting (pending (rd_shared st')) = None \<and>
    (\<forall>r. reason = Some r \<longrightarrow> status (rd_shared st') = Disconnected r)"
  using assms
  by (auto simp: reader_loop_def reader_exit_def fail_pending_reply_def split: prod.splits option.splits)

section \<open>A silent connection\<close>

text \<open>A pass of the loop in which the read timed out and nothing else happened.\<close>

definition idle_input :: "'ch reader_input \<Rightarrow> bool" where
  "idle_input inp \<longleftrightarrow> \<not> in_stop inp \<and> in_read inp = ReadTimeout"

context esl_externals
begin

lemma idle_iteration:
  assumes "parser_wf (rd_parser st)" and "parser_idle X (rd_parser st)" and "\<not> draining st" and "idle_input inp"
  shows "\<exists>p. parser_wf p \<and> parser_idle X p \<and> reader_iteration X ops ovf inp st =
    (if liveness_expired (rd_shared st) (last_recv st) (in_now inp) then Break (Some HeartbeatExpiredReason)
     else Continue, st\<lparr>rd_parser := p\<rparr>)"
proof -
  obtain r p where p: "parse_message X (rd_parser st) = (r, p)" by fastforce
  note f = parse_message_frame [OF assms(1), unfolded p parser_view_def, simplified]
  have r: "r = Inr None" and v: "p_state p = p_state (rd_parser st)" "remaining_bytes p = remaining_bytes (rd_parser st)"
    using f(1) assms(2) by (simp_all add: parser_idle_def)
  have "parser_idle X p" using assms(2) v f(2) by (simp add: parser_idle_def)
  with f(3) show ?thesis
    using assms(3,4) by (intro exI [of _ p])
      (simp add: reader_iteration_def p r idle_input_def read_into_parser_def after_read_def)
qed

lemma idle_run:
  assumes "parser_wf (rd_parser st)" and "parser_idle X (rd_parser st)" and "\<not> draining st"
    and "\<forall>inp \<in> set inps. idle_input inp"
  shows "fst (reader_run X ops ovf inps st) =
    (if \<exists>inp \<in> set inps. liveness_expired (rd_shared st) (last_recv st) (in_now inp)
     then Some (Some HeartbeatExpiredReason) else None)"
  using assms
proof (induction inps arbitrary: st)
  case (Cons inp inps)
  from idle_iteration [OF Cons.prems(1-3), of inp ops ovf] Cons.prems(4) obtain p where
    p: "parser_wf p" "parser_idle X p" "reader_iteration X ops ovf inp st =
      (if liveness_expired (rd_shared st) (last_recv st) (in_now inp) then Break (Some HeartbeatExpiredReason)
       else Continue, st\<lparr>rd_parser := p\<rparr>)" by auto
  with Cons.IH [of "st\<lparr>rd_parser := p\<rparr>"] Cons.prems(3,4) show ?case by simp
qed simp

end

section \<open>Properties\<close>



text \<open>
  C30: a silent connection is given up after the liveness time-out and not before. A reader
  with nothing buffered whose reads only time out stops with \<open>HeartbeatExpired\<close> at the
  first pass that sees more than the configured time since the last received byte; with
  the time-out at zero it never does.
\<close>

theorem silent_connection_expires:
  assumes "externals_ok X" and "parser_wf (rd_parser st)" and "parser_idle X (rd_parser st)"
    and "\<not> draining st" and "\<forall>inp \<in> set inps. idle_input inp"
  shows "fst (reader_run X ops ovf inps st) =
    (if liveness_timeout_ms (rd_shared st) \<noteq> 0 \<and>
        (\<exists>inp \<in> set inps. last_recv st + unat (liveness_timeout_ms (rd_shared st)) * 1000000 < in_now inp)
     then Some (Some HeartbeatExpiredReason) else None)"
proof -
  have "liveness_expired sh recv now \<longleftrightarrow>
      liveness_timeout_ms sh \<noteq> 0 \<and> recv + unat (liveness_timeout_ms sh) * 1000000 < now" for sh recv now
    by (auto simp: liveness_expired_def Let_def)
  with esl_externals.idle_run [OF esl_externalsI [OF assms(1)] assms(2-5)] show ?thesis by auto
qed

theorem silent_connection_expires_witness:
  defines "st \<equiv> \<lparr>rd_parser = parser_new reference_externals,
      rd_shared = (spawn_shared None Inbound)\<lparr>liveness_timeout_ms := 3\<rparr>,
      rd_channel = \<lparr>qc_items = [], qc_capacity = 1, qc_closed = False\<rparr>, last_recv = 0, draining = False,
      result_tx = True, reexec_result = None\<rparr>"
    and "inp \<equiv> \<lambda>t. \<lparr>in_wait = BudgetElapsed \<lparr>qc_items = [], qc_capacity = 1, qc_closed = False\<rparr>, in_elapsed = 0,
      in_stop = False, in_read = ReadTimeout, in_now = t\<rparr>"
  shows "fst (reader_run reference_externals queue_ops DropIncoming [inp 2000000, inp 4000000] st) =
      Some (Some HeartbeatExpiredReason)
    \<and> fst (reader_run reference_externals queue_ops DropIncoming [inp 2000000] st) = None"
proof -
  have f: "frame reference_externals False WaitingForHeaders [] = (Inr None, WaitingForHeaders, [])" by code_simp
  have w: "parser_wf (rd_parser st)" by (simp add: st_def parser_wf_new)
  have i: "parser_idle reference_externals (rd_parser st)" "\<not> draining st"
    using f by (simp_all add: st_def parser_idle_def parser_new_def remaining_bytes_def)
  from silent_connection_expires [OF reference_externals_ok w i, of "[inp 2000000, inp 4000000]" queue_ops DropIncoming]
    silent_connection_expires [OF reference_externals_ok w i, of "[inp 2000000]" queue_ops DropIncoming]
  show ?thesis by (simp add: idle_input_def inp_def) (simp add: st_def)
qed

end
