(* ===== verification/Correlation.thy ===== *)
theory Correlation
  imports Client
begin

text \<open>
  Which command gets which reply. ESL carries no correlation identifiers: the
  switch answers the commands of a connection in the order it reads them. The
  step relation \<open>step\<close> interleaves the critical sections of \<open>send_command\<close>, the
  reader's handling of replies and its exit; \<open>answers n\<close> is the message that
  answers command \<open>n\<close>. The invariant \<open>correlated\<close> ties the stale counter to the
  replies in flight; it holds for fewer than \<open>2 ^ 32\<close> steps, after which the
  32-bit counter could wrap.
\<close>

datatype phase = Installed | Written

record system =
  sy_shared :: shared_state
  sy_owner :: "nat option"
  sy_phase :: phase
  sy_inflight :: "nat list"
  sy_next :: nat

definition system_init :: system where
  "system_init =
     \<lparr>sy_shared = spawn_shared None Inbound, sy_owner = None, sy_phase = Installed, sy_inflight = [], sy_next = 0\<rparr>"

inductive step :: "(nat \<Rightarrow> esl_message) \<Rightarrow> system \<Rightarrow> system \<Rightarrow> bool" for answers where
  install: "sy_owner s = None \<Longrightarrow> install_waiter (sy_next s) (sy_shared s) = (Inr (), sh) \<Longrightarrow>
    step answers s (s\<lparr>sy_shared := sh, sy_owner := Some (sy_next s), sy_phase := Installed, sy_next := Suc (sy_next s)\<rparr>)"
| write_ok: "sy_owner s = Some w \<Longrightarrow> sy_phase s = Installed \<Longrightarrow>
    step answers s (s\<lparr>sy_phase := Written, sy_inflight := sy_inflight s @ [w]\<rparr>)"
| write_err: "sy_owner s = Some w \<Longrightarrow> sy_phase s = Installed \<Longrightarrow>
    step answers s (s\<lparr>sy_shared := write_failed (sy_shared s), sy_owner := None\<rparr>)"
| reply: "sy_inflight s = w # ws \<Longrightarrow> \<not> reader_dead (pending (sy_shared s)) \<Longrightarrow>
    step answers s (s\<lparr>sy_inflight := ws, sy_shared := dispatch_reply (answers w) (sy_shared s)\<rparr>)"
| receive: "sy_owner s = Some w \<Longrightarrow> sy_phase s = Written \<Longrightarrow> (w, m) \<in> set (oneshots (sy_shared s)) \<Longrightarrow>
    step answers s (s\<lparr>sy_owner := None\<rparr>)"
| timed_out: "sy_owner s = Some w \<Longrightarrow> sy_phase s = Written \<Longrightarrow>
    step answers s (s\<lparr>sy_shared := timeout_waiter (sy_shared s), sy_owner := None\<rparr>)"
| exit: "step answers s (s\<lparr>sy_shared := reader_exit reason (sy_shared s)\<rparr>)"
| sender_dropped: "sy_owner s = Some w \<Longrightarrow> sy_phase s = Written \<Longrightarrow> reader_dead (pending (sy_shared s)) \<Longrightarrow>
    step answers s (s\<lparr>sy_owner := None\<rparr>)"

inductive_cases stepE: "step answers s s'"

section \<open>The invariant\<close>

text \<open>The slot and the counter, for a reader that is alive.\<close>

definition slot_ok :: "system \<Rightarrow> bool" where
  "slot_ok s =
     (let p = pending (sy_shared s) in
      case sy_owner s of
        None \<Rightarrow> waiting p = None \<and> unat (stale_replies p) = length (sy_inflight s)
      | Some w \<Rightarrow>
          (case sy_phase s of
             Installed \<Rightarrow> waiting p = Some w \<and> unat (stale_replies p) = length (sy_inflight s)
           | Written \<Rightarrow>
               waiting p = Some w \<and> (\<exists>pre. sy_inflight s = pre @ [w] \<and> unat (stale_replies p) = length pre) \<or>
               waiting p = None \<and> sy_inflight s = [] \<and> stale_replies p = 0))"

text \<open>Command numbers are fresh, and a command that still waits has got nothing.\<close>

definition fresh_ok :: "system \<Rightarrow> bool" where
  "fresh_ok s \<longleftrightarrow>
     (\<forall>w \<in> fst ` set (oneshots (sy_shared s)). w < sy_next s) \<and>
     (\<forall>w. waiting (pending (sy_shared s)) = Some w \<longrightarrow>
        w < sy_next s \<and> w \<notin> fst ` set (oneshots (sy_shared s)))"

definition correlated :: "(nat \<Rightarrow> esl_message) \<Rightarrow> system \<Rightarrow> bool" where
  "correlated answers s \<longleftrightarrow>
     (reader_dead (pending (sy_shared s)) \<longrightarrow> waiting (pending (sy_shared s)) = None) \<and>
     (\<not> reader_dead (pending (sy_shared s)) \<longrightarrow> slot_ok s) \<and> fresh_ok s \<and>
     (\<forall>(w, m) \<in> set (oneshots (sy_shared s)). m = answers w)"

lemma correlated_init: "correlated answers system_init"
  by (simp add: correlated_def slot_ok_def fresh_ok_def system_init_def spawn_shared_def pending_reply_new_def)

lemma unat_stale_zero: "unat (p :: u32) = 0 \<longleftrightarrow> p = 0"
  by (simp add: unat_eq_0)

lemma reply_correlated:
  assumes "correlated answers s" and "sy_inflight s = w # ws" and "\<not> reader_dead (pending (sy_shared s))"
  shows "correlated answers (s\<lparr>sy_inflight := ws, sy_shared := dispatch_reply (answers w) (sy_shared s)\<rparr>)"
proof -
  let ?p = "pending (sy_shared s)"
  have slot: "slot_ok s" using assms(1,3) by (simp add: correlated_def)
  show ?thesis
  proof (cases "stale_replies ?p = 0")
    case True
    with slot assms(2) obtain v where v: "sy_owner s = Some v" "sy_phase s = Written" "waiting ?p = Some v" "w = v" "ws = []"
      by (auto simp: slot_ok_def Let_def split: option.splits phase.splits)
    with True assms show ?thesis
      by (auto simp: correlated_def slot_ok_def fresh_ok_def dispatch_reply_def Let_def)
  next
    case False
    then have u: "unat (stale_replies ?p - 1) = unat (stale_replies ?p) - 1" "0 < stale_replies ?p" "0 < unat (stale_replies ?p)"
      by (simp_all add: unat_minus_one word_gt_0 unat_gt_0)
    show ?thesis
      using slot assms u
      by (auto simp: correlated_def slot_ok_def fresh_ok_def dispatch_reply_def Let_def Cons_eq_append_conv
          split: option.splits phase.splits)
  qed
qed

lemma timeout_correlated:
  assumes "correlated answers s" and "sy_owner s = Some w" and "sy_phase s = Written"
    and "length (sy_inflight s) < 2 ^ 32"
  shows "correlated answers (s\<lparr>sy_shared := timeout_waiter (sy_shared s), sy_owner := None\<rparr>)"
proof -
  let ?p = "pending (sy_shared s)"
  have "unat (stale_replies ?p + 1) = unat (stale_replies ?p) + 1" if "unat (stale_replies ?p) + 1 < 2 ^ 32"
    using that by (simp add: unat_word_ariths)
  with assms show ?thesis
    by (auto simp: correlated_def slot_ok_def fresh_ok_def timeout_waiter_def Let_def)
qed

lemma step_correlated:
  assumes "step answers s s'" and "correlated answers s" and "length (sy_inflight s) < 2 ^ 32"
  shows "correlated answers s' \<and> length (sy_inflight s') \<le> Suc (length (sy_inflight s))"
  using assms(1)
proof cases
  case (reply w ws)
  with reply_correlated [OF assms(2) reply(2,3)] show ?thesis by simp
next
  case (timed_out w)
  with timeout_correlated [OF assms(2) timed_out(2,3) assms(3)] show ?thesis by simp
next
  case (receive w m)
  with assms(2) have "w \<in> fst ` set (oneshots (sy_shared s))" "fresh_ok s" by (force simp: correlated_def)+
  then have "waiting (pending (sy_shared s)) \<noteq> Some w" by (auto simp: fresh_ok_def)
  with receive assms(2) show ?thesis by (auto simp: correlated_def slot_ok_def fresh_ok_def Let_def)
next
  case (install sh)
  with assms(2) show ?thesis
    by (force simp: correlated_def slot_ok_def fresh_ok_def install_waiter_def Let_def split: if_splits)
next
  case (exit reason)
  with assms(2) show ?thesis
    by (auto simp: correlated_def fresh_ok_def reader_exit_def fail_pending_reply_def split: option.splits)
qed (use assms in \<open>auto simp: correlated_def slot_ok_def fresh_ok_def write_failed_def Let_def\<close>)

lemma steps_correlated:
  assumes "(step answers ^^ n) system_init s" and "n < 2 ^ 32"
  shows "correlated answers s \<and> length (sy_inflight s) \<le> n"
  using assms
proof (induction n arbitrary: s)
  case 0
  then have "s = system_init" by simp
  moreover have "sy_inflight system_init = []" by (simp add: system_init_def)
  ultimately show ?case by (simp add: correlated_init)
next
  case (Suc n)
  then obtain r where r: "(step answers ^^ n) system_init r" "step answers r s" by auto
  with Suc have "correlated answers r" "length (sy_inflight r) \<le> n" by auto
  with step_correlated [OF r(2)] Suc.prems(2) show ?case by fastforce
qed

text \<open>A reply that arrives while nothing stale is in flight reaches the command that waits.\<close>

lemma reply_reaches_waiter:
  assumes "correlated answers s" and "\<not> reader_dead (pending (sy_shared s))"
    and "sy_inflight s = [w]" and "sy_owner s = Some w" and "sy_phase s = Written"
    and "waiting (pending (sy_shared s)) \<noteq> None"
  shows "(w, answers w) \<in> set (oneshots (dispatch_reply (answers w) (sy_shared s)))"
  using assms by (auto simp: correlated_def slot_ok_def dispatch_reply_def Let_def unat_eq_0)

section \<open>A cancelled command\<close>

text \<open>
  Dropping the future of \<open>send_command\<close> while it awaits the reply releases the
  writer lock and drops the receiver, and runs none of the code after the await.
\<close>

inductive cancel_step :: "system \<Rightarrow> system \<Rightarrow> bool" where
  cancel: "sy_owner s = Some w \<Longrightarrow> sy_phase s = Written \<Longrightarrow> cancel_step s (s\<lparr>sy_owner := None\<rparr>)"

lemma cancel_then_next:
  assumes "sy_owner s = Some w" and "sy_phase s = Written" and "sy_inflight s = [w]"
    and "waiting (pending (sy_shared s)) = Some w" and "stale_replies (pending (sy_shared s)) = 0"
    and "\<not> reader_dead (pending (sy_shared s))"
  shows "\<exists>s1 s2 s3 s4. cancel_step s s1 \<and> step answers s1 s2 \<and> step answers s2 s3 \<and> step answers s3 s4 \<and>
    (sy_next s, answers w) \<in> set (oneshots (sy_shared s4))"
proof (intro exI conjI)
  let ?s1 = "s\<lparr>sy_owner := None\<rparr>"
  let ?sh = "(sy_shared s)\<lparr>pending := (pending (sy_shared s))\<lparr>waiting := Some (sy_next s)\<rparr>\<rparr>"
  let ?s2 = "?s1\<lparr>sy_shared := ?sh, sy_owner := Some (sy_next s), sy_phase := Installed, sy_next := Suc (sy_next s)\<rparr>"
  let ?s3 = "?s2\<lparr>sy_phase := Written, sy_inflight := [w, sy_next s]\<rparr>"
  let ?s4 = "?s3\<lparr>sy_inflight := [sy_next s], sy_shared := dispatch_reply (answers w) ?sh\<rparr>"
  show "cancel_step s ?s1" using assms by (intro cancel)
  show "step answers ?s1 ?s2"
    using step.install [of ?s1 ?sh answers] assms(6) by (simp add: install_waiter_def)
  show "step answers ?s2 ?s3"
    using step.write_ok [of ?s2 "sy_next s" answers] assms(3) by simp
  show "step answers ?s3 ?s4"
    using step.reply [of ?s3 w "[sy_next s]" answers] assms(6) by simp
  show "(sy_next s, answers w) \<in> set (oneshots (sy_shared ?s4))"
    using assms(5) by (simp add: dispatch_reply_def Let_def)
qed

section \<open>Properties\<close>

text \<open>
  C2: no command ever gets the reply of another. In every interleaving of senders, the
  reader and time-outs of fewer than \<open>2 ^ 32\<close> steps, the message delivered to a
  command is the switch's answer to that command: replies that arrive after their
  command has timed out are discarded by count, never handed to a later command.
\<close>

theorem replies_correlated:
  assumes "(step answers ^^ n) system_init s" and "n < 2 ^ 32" and "(w, m) \<in> set (oneshots (sy_shared s))"
  shows "m = answers w"
  using steps_correlated [OF assms(1,2)] assms(3) by (auto simp: correlated_def)

lemma run_one_command:
  "\<exists>s. (step answers ^^ 2) system_init s \<and> sy_owner s = Some 0 \<and> sy_phase s = Written \<and> sy_inflight s = [0] \<and>
     waiting (pending (sy_shared s)) = Some 0 \<and> stale_replies (pending (sy_shared s)) = 0 \<and>
     \<not> reader_dead (pending (sy_shared s)) \<and> sy_next s = 1"
proof -
  let ?sh = "snd (install_waiter 0 (sy_shared system_init))"
  let ?s1 = "system_init\<lparr>sy_shared := ?sh, sy_owner := Some 0, sy_phase := Installed, sy_next := Suc 0\<rparr>"
  let ?s2 = "?s1\<lparr>sy_phase := Written, sy_inflight := [0]\<rparr>"
  have i: "install_waiter 0 (sy_shared system_init) = (Inr (), ?sh)"
    by (simp add: install_waiter_def system_init_def spawn_shared_def pending_reply_new_def)
  have a: "step answers system_init ?s1"
    using step.install [of system_init ?sh answers] i by (simp add: system_init_def)
  have b: "step answers ?s1 ?s2"
    using step.write_ok [of ?s1 0 answers] by (simp add: system_init_def)
  from a b have "(step answers ^^ 2) system_init ?s2" by (auto simp: numeral_2_eq_2)
  then show ?thesis
    by (intro exI [of _ ?s2])
      (simp add: install_waiter_def system_init_def spawn_shared_def pending_reply_new_def)
qed

theorem replies_correlated_witness:
  fixes a :: esl_message
  defines "a \<equiv> \<lparr>message_type = CommandReply, msg_headers = [], msg_body = None, msg_raw_body = None, msg_lossy_values = []\<rparr>"
  shows "\<exists>s m. (step (\<lambda>_. a) ^^ 3) system_init s \<and> (0, m) \<in> set (oneshots (sy_shared s)) \<and> m = a"
proof -
  obtain s where s: "(step (\<lambda>_. a) ^^ 2) system_init s" "sy_owner s = Some 0" "sy_phase s = Written"
      "sy_inflight s = [0]" "waiting (pending (sy_shared s)) = Some 0" "stale_replies (pending (sy_shared s)) = 0"
      "\<not> reader_dead (pending (sy_shared s))"
    using run_one_command by blast
  let ?t = "s\<lparr>sy_inflight := [], sy_shared := dispatch_reply a (sy_shared s)\<rparr>"
  have "step (\<lambda>_. a) s ?t" using step.reply [of s 0 "[]" "\<lambda>_. a"] s by simp
  with s(1) have r: "(step (\<lambda>_. a) ^^ 3) system_init ?t" by (auto simp: numeral_3_eq_3 numeral_2_eq_2)
  have m: "(0, a) \<in> set (oneshots (sy_shared ?t))" using s by (simp add: dispatch_reply_def Let_def)
  have "a = (\<lambda>_ :: nat. a) 0" by (rule replies_correlated [OF r _ m]) simp
  with r m show ?thesis by blast
qed

text \<open>
  A waiting command is not starved by the discarding. When the only reply in flight
  is the one to the command that waits, the reader's next dispatch delivers it.
\<close>

lemma reply_delivered:
  assumes "(step answers ^^ n) system_init s" and "n < 2 ^ 32"
    and "\<not> reader_dead (pending (sy_shared s))" and "sy_inflight s = [w]"
    and "sy_owner s = Some w" and "sy_phase s = Written" and "waiting (pending (sy_shared s)) \<noteq> None"
  shows "(w, answers w) \<in> set (oneshots (dispatch_reply (answers w) (sy_shared s)))"
  using reply_reaches_waiter [of answers s w] steps_correlated [OF assms(1,2)] assms(3-) by blast

text \<open>
  C35: a command whose future is dropped while it waits hands its reply to the next. The
  abandoned waiter is not counted as stale, and the next command replaces it, so the late reply
  is delivered to that command. Time-outs of the client itself are safe
  (the theorems above); a caller's \<open>select!\<close> or \<open>timeout\<close> around a client call is not.
\<close>

theorem cancelled_command_misdelivers:
  "\<exists>s s1 s4. (step answers)\<^sup>*\<^sup>* system_init s \<and> cancel_step s s1 \<and> (step answers)\<^sup>*\<^sup>* s1 s4 \<and>
     (1, answers 0) \<in> set (oneshots (sy_shared s4))"
proof -
  obtain s where s: "(step answers ^^ 2) system_init s" "sy_owner s = Some 0" "sy_phase s = Written"
      "sy_inflight s = [0]" "waiting (pending (sy_shared s)) = Some 0" "stale_replies (pending (sy_shared s)) = 0"
      "\<not> reader_dead (pending (sy_shared s))" "sy_next s = 1"
    using run_one_command by blast
  from cancel_then_next [OF s(2-7), of answers] s(8) obtain s1 s2 s3 s4 where
    "cancel_step s s1" "step answers s1 s2" "step answers s2 s3" "step answers s3 s4"
    "(1, answers 0) \<in> set (oneshots (sy_shared s4))" by auto
  moreover have "(step answers)\<^sup>*\<^sup>* system_init s" using s(1) by (rule relpowp_imp_rtranclp)
  ultimately show ?thesis by (meson converse_rtranclp_into_rtranclp rtranclp.rtrancl_refl)
qed

end
