(* ===== verification/Handover.thy ===== *)
theory Handover
  imports Client
begin

text \<open>
  The hand-over of a connection across \<open>exec\<close>: the reader stops between two
  messages and returns the bytes it has not parsed, the new process starts a
  parser on them. The lemmas show that the new parser continues exactly where the
  old one stopped, and what the hand-over does not carry: the count of replies
  that are still due to commands that timed out.
\<close>

lemma drain_for_reexec_stops:
  assumes "drain_for_reexec X outcome st = (Break (Some ReexecTeardown), st')" and "result_tx st"
  shows "p_state (rd_parser st) = WaitingForHeaders \<and>
    reexec_result st' = Some (Inr (remaining_bytes (rd_parser st))) \<and> rd_parser st' = rd_parser st"
  using assms
  by (auto simp: drain_for_reexec_def is_waiting_for_headers_def fail_reexec_def Let_def
      split: if_splits prod.splits sum.splits read_step.splits)

lemma drain_for_reexec_mid_body:
  assumes "drain_for_reexec X outcome st = (Break r, st')" and "\<not> is_waiting_for_headers (rd_parser st)"
    and "result_tx st"
  shows "r = None \<and> (\<exists>e. reexec_result st' = Some (Inl e))"
  using assms
  by (auto simp: drain_for_reexec_def fail_reexec_def Let_def
      split: if_splits prod.splits sum.splits read_step.splits)

lemma adopt_parser_view:
  assumes "adopt_parser X residual options = Inr p"
  shows "parser_wf p \<and> p_state p = WaitingForHeaders \<and> remaining_bytes p = residual \<and>
    strict_header_utf8 p = co_strict_header_utf8 options"
proof -
  let ?q = "with_strict_header_utf8 (co_strict_header_utf8 options) (parser_new X)"
  have q: "parser_wf ?q" "p_state ?q = WaitingForHeaders" "remaining_bytes ?q = []"
      "strict_header_utf8 ?q = co_strict_header_utf8 options"
    using parser_wf_new parser_wf_strict
    by blast (simp_all add: with_strict_header_utf8_def parser_new_def remaining_bytes_def)
  show ?thesis
  proof (cases "residual = []")
    case True
    with assms q show ?thesis by (simp add: adopt_parser_def)
  next
    case False
    with assms have "p = snd (add_data X residual ?q)"
      by (auto simp: adopt_parser_def Let_def split: prod.splits sum.splits)
    with q add_data_wf [OF q(1), of X residual] show ?thesis by simp
  qed
qed

lemma adopt_parser_fits:
  "length residual \<le> MAX_BUFFER_SIZE \<Longrightarrow> \<exists>p. adopt_parser X residual options = Inr p"
  by (auto simp: adopt_parser_def Let_def add_data_def check_size_limits_def with_strict_header_utf8_def
      parser_new_def)

context esl_externals
begin

text \<open>Two parsers with the same view give the same messages for the same later bytes.\<close>

lemma feed_same_view:
  assumes "parser_wf p" "parser_wf q"
    and "p_state p = p_state q" "remaining_bytes p = remaining_bytes q" "strict_header_utf8 p = strict_header_utf8 q"
    and "chunks \<noteq> []" and "feed X chunks p = (ms, e, p')" "feed X chunks q = (ns, f, q')"
    and "\<not> is_overflow e" "\<not> is_overflow f"
  shows "ms = ns \<and> e = f"
proof -
  have ne: "chunks \<noteq> [] \<or> parser_idle X p" "chunks \<noteq> [] \<or> parser_idle X q" using assms(6) by simp_all
  from feed_frame_all [OF ne(1) assms(1) assms(7) assms(9)] feed_frame_all [OF ne(2) assms(2) assms(8) assms(10)]
    assms(3-5)
  show ?thesis by auto
qed

end

section \<open>Stale replies\<close>

text \<open>Teardown looks at the waiter only.\<close>

lemma teardown_with_stale:
  assumes "waiting (pending sh) = None" and "reexec_caller sh"
  shows "fst (teardown_for_reexec True (Some (Some (Inr residual))) t1 t2 sh) = Inr residual"
  using assms by (simp add: teardown_for_reexec_def Let_def)

lemma old_process_discards:
  assumes "0 < stale_replies (pending sh)"
  shows "oneshots (dispatch_reply m sh) = oneshots sh"
  using assms by (simp add: dispatch_reply_def Let_def)

lemma new_process_delivers:
  assumes "install_waiter w (spawn_shared auth mode) = (r, sh)"
  shows "oneshots (dispatch_reply m sh) = [(w, m)]"
  using assms by (auto simp: install_waiter_def spawn_shared_def pending_reply_new_def dispatch_reply_def Let_def)

section \<open>Properties\<close>

text \<open>
  C9: a connection handed over across re-exec continues without loss or duplication. When
  the old reader has stopped for the hand-over and sent its residual bytes, a new
  process that adopts them under the same decoding mode parses from every later sequence of reads
  exactly the messages the old parser would have parsed, and ends with the same error.
\<close>

theorem reexec_continues:
  assumes "externals_ok X" and "parser_wf (rd_parser st)"
    and "drain_for_reexec X outcome st = (Break (Some ReexecTeardown), st')" and "result_tx st"
    and "reexec_result st' = Some (Inr residual)"
    and "adopt_parser X residual options = Inr q"
    and "co_strict_header_utf8 options = strict_header_utf8 (rd_parser st)"
    and "chunks \<noteq> []" and "feed X chunks (rd_parser st) = (ms, e, p')" and "feed X chunks q = (ns, f, q')"
    and "\<not> is_overflow e" and "\<not> is_overflow f"
  shows "ms = ns \<and> e = f"
proof -
  have s: "p_state (rd_parser st) = WaitingForHeaders" "residual = remaining_bytes (rd_parser st)"
    using drain_for_reexec_stops [OF assms(3,4)] assms(5) by simp_all
  have q: "parser_wf q" "p_state q = WaitingForHeaders" "remaining_bytes q = residual"
      "strict_header_utf8 q = co_strict_header_utf8 options"
    using adopt_parser_view [OF assms(6)] by simp_all
  show ?thesis
    by (rule esl_externals.feed_same_view [OF esl_externalsI [OF assms(1)] assms(2) q(1) _ _ _ assms(8-12)])
      (use s q assms(7) in simp_all)
qed

lemma drain_idle_stops:
  assumes "is_waiting_for_headers (rd_parser st)" and "result_tx st"
  shows "drain_for_reexec X outcome st = (Break (Some ReexecTeardown),
    st\<lparr>result_tx := False, reexec_result := Some (Inr (remaining_bytes (rd_parser st)))\<rparr>)"
  using assms by (simp add: drain_for_reexec_def)

theorem reexec_continues_witness:
  defines "X \<equiv> reference_externals"
  defines "p \<equiv> snd (add_data X ''Content-Type: auth/req'' (parser_new X))"
    and "later \<equiv> [''uest'' @ [NL, NL]]"
  shows "\<exists>q. adopt_parser X (remaining_bytes p) connect_options_default = Inr q \<and>
    fst (feed X later q) = fst (feed X later p) \<and> length (fst (feed X later p)) = 1"
proof -
  let ?st = "\<lparr>rd_parser = p, rd_shared = spawn_shared None Inbound, rd_channel = (), last_recv = 0,
    draining = True, result_tx = True, reexec_result = None\<rparr>"
  have ok: "externals_ok X" by (simp add: X_def reference_externals_ok)
  have w: "parser_wf (rd_parser ?st)" by (simp add: p_def add_data_wf parser_wf_new)
  have "is_waiting_for_headers p" and len: "length (remaining_bytes p) \<le> MAX_BUFFER_SIZE"
    by (simp_all add: p_def is_waiting_for_headers_def parser_new_def remaining_bytes_def add_data_def
        Let_def MAX_BUFFER_SIZE_def)
  then have d: "drain_for_reexec X ReadTimeout ?st = (Break (Some ReexecTeardown),
      ?st\<lparr>result_tx := False, reexec_result := Some (Inr (remaining_bytes p))\<rparr>)"
    by (simp add: drain_idle_stops)
  obtain q where q: "adopt_parser X (remaining_bytes p) connect_options_default = Inr q"
    using adopt_parser_fits [OF len] by blast
  have s: "co_strict_header_utf8 connect_options_default = strict_header_utf8 (rd_parser ?st)"
    by (simp add: p_def parser_new_def connect_options_default_def)
  obtain ms e p' ns f q' where f: "feed X later (rd_parser ?st) = (ms, e, p')" "feed X later q = (ns, f, q')"
    by (metis prod_cases3)
  have "\<not> is_overflow (fst (snd (feed X later p)))" and l: "length (fst (feed X later p)) = 1"
    unfolding X_def p_def later_def by code_simp+
  moreover have "\<not> is_overflow (fst (snd (feed X later q)))"
  proof -
    have "case adopt_parser X (remaining_bytes p) connect_options_default of
        Inr q \<Rightarrow> \<not> is_overflow (fst (snd (feed X later q))) | Inl _ \<Rightarrow> False"
      unfolding X_def p_def later_def by code_simp
    with q show ?thesis by simp
  qed
  ultimately have "\<not> is_overflow e" "\<not> is_overflow f" using f by simp_all
  from reexec_continues [OF ok w d _ _ q s _ f this] f q l show ?thesis by (simp add: later_def)
qed

text \<open>
  A drain that fails hands nothing over. When the reader stops inside a message body, at
  end of file, at the time limit or on an error, the teardown gets the error and
  no residual bytes; the reader task ends there.
\<close>

lemma reexec_mid_body_fails:
  assumes "drain_for_reexec X outcome st = (Break r, st')" and "\<not> is_waiting_for_headers (rd_parser st)"
    and "result_tx st"
  shows "r = None \<and> (\<exists>e. reexec_result st' = Some (Inl e) \<and>
    fst (teardown_for_reexec True (Some (reexec_result st')) t1 t2 sh) \<noteq> Inr residual)"
  using drain_for_reexec_mid_body [OF assms]
  by (auto simp: teardown_for_reexec_def Let_def)

text \<open>
  C36: replies still due to timed-out commands are not handed over. The teardown succeeds
  although the old process still counts a reply as stale; the old process would have discarded
  that reply, but the adopting process starts its count at zero and delivers it to its
  first command.
\<close>

theorem stale_count_lost:
  assumes "waiting (pending sh) = None" and "reexec_caller sh" and "0 < stale_replies (pending sh)"
    and "install_waiter w (spawn_shared auth mode) = (r, fresh)"
  shows "fst (teardown_for_reexec True (Some (Some (Inr residual))) t1 t2 sh) = Inr residual
    \<and> oneshots (dispatch_reply late sh) = oneshots sh \<and> oneshots (dispatch_reply late fresh) = [(w, late)]"
  using teardown_with_stale [OF assms(1,2)] old_process_discards [OF assms(3)] new_process_delivers [OF assms(4)]
  by blast

theorem stale_count_lost_witness:
  defines "late \<equiv> \<lparr>message_type = CommandReply, msg_headers = [], msg_body = None, msg_raw_body = None, msg_lossy_values = []\<rparr>"
    and "sh \<equiv> timeout_waiter (snd (install_waiter 0 (spawn_shared None Inbound)))"
  shows "oneshots (dispatch_reply late sh) = []
    \<and> oneshots (dispatch_reply late (snd (install_waiter 1 (spawn_shared None Inbound)))) = [(1, late)]"
proof -
  have sh: "waiting (pending sh) = None" "reexec_caller sh" "0 < stale_replies (pending sh)" "oneshots sh = []"
    by (simp_all add: sh_def timeout_waiter_def install_waiter_def spawn_shared_def pending_reply_new_def Let_def)
  have "install_waiter 1 (spawn_shared None Inbound) =
      (Inr (), snd (install_waiter 1 (spawn_shared None Inbound)))"
    by (simp add: install_waiter_def spawn_shared_def pending_reply_new_def)
  from stale_count_lost [OF sh(1-3) this] sh(4) show ?thesis by simp
qed

end
