(* ===== verification/Resubscribe.thy ===== *)
theory Resubscribe
  imports Client
begin

text \<open>
  What the subscription methods of the client send, and what it means to the
  switch. \<open>switch_apply\<close> specifies the effect of a command on the event names and
  subclasses the switch delivers (\<open>event\<close> adds, \<open>nixevent\<close> removes, \<open>noevents\<close>
  clears; the wholesale name \<open>ALL\<close> is left out). The lemmas run the methods
  against a switch that accepts every command and records it.
\<close>

section \<open>A switch that accepts everything\<close>

definition ok_response :: esl_response where
  "ok_response =
     \<lparr>rs_headers = headers_new, rs_body = None, rs_raw_body = None, rs_status = ReplyOk, rs_lossy_values = []\<rparr>"

definition accept :: "esl_command list sender" where
  "accept c log = (Inr ok_response, log @ [c])"

record switch_state =
  sw_names :: "string set"
  sw_subclasses :: "string set"

fun switch_apply :: "esl_command \<Rightarrow> switch_state \<Rightarrow> switch_state" where
  "switch_apply (CmdEvents format events) s =
     (case read_event_list events of (ns, cs) \<Rightarrow>
        s\<lparr>sw_names := sw_names s \<union> set ns, sw_subclasses := sw_subclasses s \<union> set cs\<rparr>)"
| "switch_apply (CmdNixEvent events) s =
     (case read_event_list events of (ns, cs) \<Rightarrow>
        s\<lparr>sw_names := sw_names s - set ns, sw_subclasses := sw_subclasses s - set cs\<rparr>)"
| "switch_apply CmdNoEvents s = s\<lparr>sw_names := {}, sw_subclasses := {}\<rparr>"
| "switch_apply _ s = s"

definition switch_run :: "esl_command list \<Rightarrow> switch_state \<Rightarrow> switch_state" where
  "switch_run cs s = fold switch_apply cs s"

lemma bindS_simps [simp]: "bindS (returnS a) f s = f a s"
  by (simp add: bindS_def returnS_def)

lemma send_ok_accept [simp]: "send_command_ok accept c log = (Inr (), log @ [c])"
  by (simp add: send_command_ok_def bindS_def accept_def liftS_def into_result_def ok_response_def)

lemma bindS_accept: "m log = (Inr a, log') \<Longrightarrow> bindS m f log = f a log'"
  by (simp add: bindS_def)

lemma apply_filters_accept:
  "apply_filters accept fs log = (Inr (), log @ map (\<lambda>(h, v). CmdFilter h v) fs)"
proof (induction fs arbitrary: log)
  case (Cons f fs)
  then show ?case by (cases f) (simp add: bindS_def client_filter_raw_def)
qed (simp add: returnS_def)

section \<open>The commands of each method\<close>

definition events_commands :: "event_subscription \<Rightarrow> esl_command list" where
  "events_commands sub =
     (case to_event_string sub of Some e \<Rightarrow> [CmdEvents (format_as_str (es_format sub)) e] | None \<Rightarrow> [])"

definition filter_commands :: "event_subscription \<Rightarrow> esl_command list" where
  "filter_commands sub = map (\<lambda>(h, v). CmdFilter h v) (es_filters sub)"

definition nix_types :: "esl_event_type list \<Rightarrow> esl_command list" where
  "nix_types ts =
     (if ts \<noteq> [] then [CmdNixEvent (join [SP] (order_event_tokens (map et_as_str ts) []))] else [])"

definition nix_strings :: "string list \<Rightarrow> string list \<Rightarrow> string \<Rightarrow> esl_command list" where
  "nix_strings old new pre =
     (let removed = filter (\<lambda>s. s \<notin> set new) old
      in if removed \<noteq> [] then [CmdNixEvent (pre @ join [SP] removed)] else [])"

lemma send_subscription_events_accept:
  "send_subscription_events accept sub log = (Inr (), log @ events_commands sub)"
  by (simp add: send_subscription_events_def events_commands_def returnS_def split: option.splits)

lemma nixevent_str_diff_accept:
  "nixevent_str_diff accept old new pre log = (Inr (), log @ nix_strings old new pre)"
  by (simp add: nixevent_str_diff_def nix_strings_def nixevent_raw_def returnS_def Let_def)

lemma nixevent_accept:
  "(if ts \<noteq> [] then nixevent accept ts else returnS ()) log = (Inr (), log @ nix_types ts)"
  by (simp add: nixevent_def nixevent_raw_def nix_types_def returnS_def)

lemma apply_subscription_commands:
  "apply_subscription accept sub [] = (Inr (), filter_commands sub @ events_commands sub)"
  unfolding apply_subscription_def
  by (subst bindS_accept [OF apply_filters_accept])
    (simp add: send_subscription_events_accept filter_commands_def)

lemma resubscribe_from_commands:
  "resubscribe_from ho accept old new [] =
     (Inr (), events_commands new @ [CmdFilterDeleteAll] @ filter_commands new @
        nix_types (removed_types ho old new) @
        nix_strings (es_raw_events old) (es_raw_events new) [] @
        nix_strings (es_custom_subclasses old) (es_custom_subclasses new) ''CUSTOM '')"
proof -
  have fd: "filter_delete_all accept log = (Inr (), log @ [CmdFilterDeleteAll])" for log
    by (simp add: filter_delete_all_def)
  show ?thesis
    unfolding resubscribe_from_def Let_def
    by (subst bindS_accept, rule send_subscription_events_accept, subst bindS_accept, rule fd,
        subst bindS_accept, rule apply_filters_accept, subst bindS_accept, rule nixevent_accept,
        subst bindS_accept, rule nixevent_str_diff_accept, subst nixevent_str_diff_accept)
      (simp add: filter_commands_def)
qed

section \<open>What the switch delivers\<close>

lemma switch_run_append: "switch_run (a @ b) s = switch_run b (switch_run a s)"
  by (simp add: switch_run_def)

lemma switch_filters: "switch_run (filter_commands sub) s = s"
proof -
  have "fold switch_apply (map (\<lambda>(h, v). CmdFilter h v) fs) s = s" for fs
    by (induction fs) auto
  then show ?thesis by (simp add: filter_commands_def switch_run_def)
qed

lemma switch_events:
  assumes "subscription_wf sub" and "\<not> is_all sub"
  shows "switch_run (events_commands sub) s =
    s\<lparr>sw_names := sw_names s \<union> set (event_names sub),
      sw_subclasses := sw_subclasses s \<union> set (es_custom_subclasses sub)\<rparr>"
proof (cases "to_event_string sub")
  case None
  then have "sub_is_empty sub" using to_event_string_None [OF assms(1)] by simp
  with None show ?thesis by (simp add: events_commands_def switch_run_def sub_is_empty_def event_names_def)
next
  case (Some e)
  with subscription_read_back [OF assms Some] show ?thesis by (simp add: events_commands_def switch_run_def)
qed

lemma switch_nix_types:
  assumes "\<forall>t \<in> set ts. et_wf t \<and> \<not> is_custom_token (et_as_str t)"
  shows "switch_run (nix_types ts) s = s\<lparr>sw_names := sw_names s - set (map et_as_str ts)\<rparr>"
proof (cases "ts = []")
  case False
  have o: "order_event_tokens (map et_as_str ts) [] = map et_as_str ts"
    using assms by (simp add: order_event_tokens_eq filter_id_conv)
  have "read_event_list (join [SP] (map et_as_str ts)) = (map et_as_str ts, [])"
    using read_ordered_tokens [of "map et_as_str ts" "[]"] assms False et_wf_token_ok
    by (auto simp: o filter_id_conv)
  with False show ?thesis by (simp add: nix_types_def o switch_run_def)
qed (simp add: nix_types_def switch_run_def)

lemma switch_nix_raw:
  assumes "\<forall>r \<in> set old. token_ok r \<and> \<not> is_custom_token r"
  shows "switch_run (nix_strings old new []) s = s\<lparr>sw_names := sw_names s - (set old - set new)\<rparr>"
proof -
  let ?rm = "filter (\<lambda>s. s \<notin> set new) old"
  have o: "order_event_tokens ?rm [] = ?rm"
    using assms by (auto simp: order_event_tokens_eq intro: filter_cong)
  show ?thesis
  proof (cases "?rm = []")
    case True
    then have e: "set old - set new = {}" by (auto simp: filter_empty_conv)
    show ?thesis unfolding e by (simp add: nix_strings_def switch_run_def True)
  next
    case False
    have "read_event_list (join [SP] ?rm) = (?rm, [])"
      using read_ordered_tokens [of ?rm "[]"] assms False unfolding o by (auto intro: filter_cong)
    moreover have "set ?rm = set old - set new" by auto
    ultimately show ?thesis using False by (simp add: nix_strings_def switch_run_def)
  qed
qed

lemma switch_nix_custom:
  assumes "\<forall>c \<in> set old. token_ok c"
  shows "switch_run (nix_strings old new ''CUSTOM '') s =
    s\<lparr>sw_subclasses := sw_subclasses s - (set old - set new)\<rparr>"
proof -
  let ?rm = "filter (\<lambda>s. s \<notin> set new) old"
  show ?thesis
  proof (cases "?rm = []")
    case True
    then have e: "set old - set new = {}" by (auto simp: filter_empty_conv)
    show ?thesis unfolding e by (simp add: nix_strings_def switch_run_def True)
  next
    case False
    have "order_event_tokens [] ?rm = CUSTOM_TOKEN # ?rm" using False by (simp add: order_event_tokens_eq)
    moreover have "join [SP] (CUSTOM_TOKEN # ?rm) = ''CUSTOM '' @ join [SP] ?rm"
      using False by (simp add: join_Cons CUSTOM_TOKEN_def)
    ultimately have "read_event_list (''CUSTOM '' @ join [SP] ?rm) = ([], ?rm)"
      using read_ordered_tokens [of "[]" ?rm] assms by auto
    moreover have "set ?rm = set old - set new" by auto
    ultimately show ?thesis using False by (simp add: nix_strings_def switch_run_def)
  qed
qed

section \<open>Changing a subscription without a gap\<close>

text \<open>
  The conditions under which the removals do not touch what the new subscription
  wants: no name is typed on one side and raw on the other, and no removed name
  is spelled \<open>CUSTOM\<close>.
\<close>

definition separable :: "event_subscription \<Rightarrow> event_subscription \<Rightarrow> bool" where
  "separable old new \<longleftrightarrow>
     (\<forall>t \<in> set (es_events old) - set (es_events new).
        \<not> is_custom_token (et_as_str t) \<and> et_as_str t \<notin> set (event_names new)) \<and>
     (\<forall>r \<in> set (es_raw_events old). \<not> is_custom_token r) \<and>
     (\<forall>r \<in> set (es_raw_events old) - set (es_raw_events new). r \<notin> set (event_names new))"

definition subscribed :: "event_subscription \<Rightarrow> switch_state" where
  "subscribed sub = \<lparr>sw_names = set (event_names sub), sw_subclasses = set (es_custom_subclasses sub)\<rparr>"

definition resubscribe_commands ::
  "(esl_event_type list \<Rightarrow> esl_event_type list) \<Rightarrow> event_subscription \<Rightarrow> event_subscription \<Rightarrow> esl_command list" where
  "resubscribe_commands ho old new = snd (resubscribe_from ho accept old new [])"

lemma removed_types_set:
  assumes "\<And>xs. set (ho xs) = set xs"
  shows "set (removed_types ho old new) = set (es_events old) - set (es_events new)"
  by (auto simp: removed_types_def assms)

lemma resubscribe_final:
  assumes ho: "\<And>xs. set (ho xs) = set xs"
    and wf: "subscription_wf old" "subscription_wf new" and all: "\<not> is_all new" and sep: "separable old new"
  shows "switch_run (resubscribe_commands ho old new) (subscribed old) = subscribed new"
proof -
  let ?rt = "removed_types ho old new"
  have rt: "\<forall>t \<in> set ?rt. et_wf t \<and> \<not> is_custom_token (et_as_str t)"
    using removed_types_set [OF ho, of old new] wf(1) sep by (auto simp: subscription_wf_def separable_def)
  have raw: "\<forall>r \<in> set (es_raw_events old). token_ok r \<and> \<not> is_custom_token r"
    and cus: "\<forall>c \<in> set (es_custom_subclasses old). token_ok c"
    using wf(1) sep by (auto simp: subscription_wf_def separable_def)
  have fd: "switch_run (CmdFilterDeleteAll # cs) s = switch_run cs s" for cs s
    by (simp add: switch_run_def)
  have run: "switch_run (resubscribe_commands ho old new) (subscribed old) =
    \<lparr>sw_names = set (event_names old) \<union> set (event_names new) - set (map et_as_str ?rt) -
        (set (es_raw_events old) - set (es_raw_events new)),
     sw_subclasses = set (es_custom_subclasses old) \<union> set (es_custom_subclasses new) -
        (set (es_custom_subclasses old) - set (es_custom_subclasses new))\<rparr>"
    by (simp add: resubscribe_commands_def resubscribe_from_commands switch_run_append fd switch_filters
        switch_events [OF wf(2) all] switch_nix_types [OF rt] switch_nix_raw [OF raw]
        switch_nix_custom [OF cus] subscribed_def)
  have "set (event_names old) \<union> set (event_names new) - set (map et_as_str ?rt) -
      (set (es_raw_events old) - set (es_raw_events new)) = set (event_names new)"
    using sep unfolding set_map removed_types_set [OF ho] by (auto simp: event_names_def separable_def)
  moreover have "set (es_custom_subclasses old) \<union> set (es_custom_subclasses new) -
      (set (es_custom_subclasses old) - set (es_custom_subclasses new)) = set (es_custom_subclasses new)"
    by auto
  ultimately show ?thesis using run by (simp add: subscribed_def)
qed

text \<open>Commands that leave a set of names subscribed.\<close>

definition keeps :: "string set \<Rightarrow> esl_command \<Rightarrow> bool" where
  "keeps D c \<longleftrightarrow> (\<forall>s. D \<subseteq> sw_names s \<longrightarrow> D \<subseteq> sw_names (switch_apply c s))"

lemma keeps_run:
  assumes "\<forall>c \<in> set cs. keeps D c" and "D \<subseteq> sw_names s"
  shows "D \<subseteq> sw_names (switch_run (take k cs) s)"
  using assms
proof (induction cs arbitrary: k s)
  case (Cons c cs)
  then show ?case by (cases k) (simp_all add: switch_run_def keeps_def)
qed (simp add: switch_run_def)

lemma keeps_singleton:
  assumes "\<And>s. D \<subseteq> sw_names s \<Longrightarrow> D \<subseteq> sw_names (switch_run cs s)" and "length cs \<le> 1"
  shows "\<forall>c \<in> set cs. keeps D c"
  using assms by (cases cs) (auto simp: keeps_def switch_run_def)

lemma resubscribe_no_gap:
  assumes ho: "\<And>xs. set (ho xs) = set xs"
    and wf: "subscription_wf old" "subscription_wf new" and all: "\<not> is_all new" and sep: "separable old new"
  shows "set (event_names old) \<inter> set (event_names new) \<subseteq>
    sw_names (switch_run (take k (resubscribe_commands ho old new)) (subscribed old))"
proof -
  let ?D = "set (event_names old) \<inter> set (event_names new)" and ?rt = "removed_types ho old new"
  have rt: "\<forall>t \<in> set ?rt. et_wf t \<and> \<not> is_custom_token (et_as_str t)"
    using removed_types_set [OF ho, of old new] wf(1) sep by (auto simp: subscription_wf_def separable_def)
  have raw: "\<forall>r \<in> set (es_raw_events old). token_ok r \<and> \<not> is_custom_token r"
    and cus: "\<forall>c \<in> set (es_custom_subclasses old). token_ok c"
    using wf(1) sep by (auto simp: subscription_wf_def separable_def)
  have "\<forall>c \<in> set (events_commands new). keeps ?D c"
  proof (rule keeps_singleton)
    show "length (events_commands new) \<le> 1" by (simp add: events_commands_def split: option.splits)
  qed (auto simp: switch_events [OF wf(2) all])
  moreover have "\<forall>c \<in> set (CmdFilterDeleteAll # filter_commands new). keeps ?D c"
    by (auto simp: keeps_def filter_commands_def)
  moreover have "\<forall>c \<in> set (nix_types ?rt). keeps ?D c"
  proof (rule keeps_singleton)
    show "?D \<subseteq> sw_names (switch_run (nix_types ?rt) s)" if "?D \<subseteq> sw_names s" for s
      using that sep unfolding switch_nix_types [OF rt] set_map removed_types_set [OF ho]
      by (auto simp: separable_def)
  qed (simp add: nix_types_def)
  moreover have "\<forall>c \<in> set (nix_strings (es_raw_events old) (es_raw_events new) []). keeps ?D c"
  proof (rule keeps_singleton)
    show "?D \<subseteq> sw_names (switch_run (nix_strings (es_raw_events old) (es_raw_events new) []) s)"
      if "?D \<subseteq> sw_names s" for s
      using that sep unfolding switch_nix_raw [OF raw] by (auto simp: separable_def)
  qed (simp add: nix_strings_def Let_def)
  moreover have "\<forall>c \<in> set (nix_strings (es_custom_subclasses old) (es_custom_subclasses new) ''CUSTOM ''). keeps ?D c"
  proof (rule keeps_singleton)
    show "length (nix_strings (es_custom_subclasses old) (es_custom_subclasses new) ''CUSTOM '') \<le> 1"
      by (simp add: nix_strings_def Let_def)
  qed (simp add: switch_nix_custom [OF cus] del: append.simps)
  ultimately have "\<forall>c \<in> set (resubscribe_commands ho old new). keeps ?D c"
    by (auto simp: resubscribe_commands_def resubscribe_from_commands)
  then show ?thesis by (rule keeps_run) (simp add: subscribed_def)
qed

section \<open>Properties\<close>



lemma switch_removed_typed:
  assumes ho: "\<And>xs. set (ho xs) = set xs" and wf: "subscription_wf old" "subscription_wf new"
    and all: "\<not> is_all new"
    and plain: "\<forall>t \<in> set (es_events old). \<not> is_custom_token (et_as_str t)"
      "\<forall>r \<in> set (es_raw_events old). \<not> is_custom_token r"
  shows "sw_names (switch_run (resubscribe_commands ho old new) (subscribed old)) =
    set (event_names old) \<union> set (event_names new) - et_as_str ` (set (es_events old) - set (es_events new)) -
      (set (es_raw_events old) - set (es_raw_events new))"
proof -
  let ?rt = "removed_types ho old new"
  have rt: "\<forall>t \<in> set ?rt. et_wf t \<and> \<not> is_custom_token (et_as_str t)"
    using removed_types_set [OF ho, of old new] wf(1) plain(1) by (auto simp: subscription_wf_def)
  have raw: "\<forall>r \<in> set (es_raw_events old). token_ok r \<and> \<not> is_custom_token r"
    and cus: "\<forall>c \<in> set (es_custom_subclasses old). token_ok c"
    using wf(1) plain(2) by (auto simp: subscription_wf_def)
  have fd: "switch_run (CmdFilterDeleteAll # cs) s = switch_run cs s" for cs s
    by (simp add: switch_run_def)
  show ?thesis
    by (simp add: resubscribe_commands_def resubscribe_from_commands switch_run_append fd switch_filters
        switch_events [OF wf(2) all] switch_nix_types [OF rt] switch_nix_raw [OF raw]
        switch_nix_custom [OF cus] subscribed_def removed_types_set [OF ho])
qed

text \<open>
  C38: an event that moves from the typed to the raw list is lost. When the old subscription names it
  by its type and the new one spells it as a raw name, \<open>resubscribe_from\<close> first
  subscribes it again and then removes it with the types the new subscription no longer lists: at
  the end the switch does not deliver an event the new subscription asks for.
\<close>

theorem typed_to_raw_event_lost:
  assumes "\<And>xs. set (ho xs) = set xs" and "subscription_wf old" and "subscription_wf new" and "\<not> is_all new"
    and "\<forall>t \<in> set (es_events old). \<not> is_custom_token (et_as_str t)"
    and "\<forall>r \<in> set (es_raw_events old). \<not> is_custom_token r"
    and "t \<in> set (es_events old) - set (es_events new)" and "et_as_str t \<in> set (es_raw_events new)"
  shows "et_as_str t \<in> set (event_names new)
    \<and> et_as_str t \<notin> sw_names (switch_run (resubscribe_commands ho old new) (subscribed old))"
  unfolding switch_removed_typed [OF assms(1-6)] using assms(5,7,8) by (auto simp: event_names_def)

theorem typed_to_raw_event_lost_witness:
  defines "old \<equiv> sub_event Et_BackgroundJob (subscription_new Plain)"
    and "new \<equiv> (subscription_new Plain)\<lparr>es_raw_events := [''BACKGROUND_JOB'']\<rparr>"
  shows "''BACKGROUND_JOB'' \<in> set (event_names new)
    \<and> ''BACKGROUND_JOB'' \<notin> sw_names (switch_run (resubscribe_commands id old new) (subscribed old))"
proof -
  have c: "subscription_wf old" "subscription_wf new" "\<not> is_all new"
      "\<forall>t \<in> set (es_events old). \<not> is_custom_token (et_as_str t)"
      "\<forall>r \<in> set (es_raw_events old). \<not> is_custom_token r"
      "Et_BackgroundJob \<in> set (es_events old) - set (es_events new)"
      "et_as_str Et_BackgroundJob \<in> set (es_raw_events new)"
    unfolding old_def new_def by code_simp+
  from typed_to_raw_event_lost [of id, OF _ c] show ?thesis by simp
qed

end
