(* ===== verification/Auth.thy ===== *)
theory Auth
  imports Connection Command
begin

text \<open>
  \<open>src/connection/auth.rs\<close> and the connect path of \<open>src/connection/mod.rs\<close>: the
  authentication handshake over the parser. The successive reads of the socket
  are a list of outcomes; a handshake that still waits when the list is used up
  has not returned, which is the value \<open>None\<close>. The bytes written to the socket are
  part of the result.
\<close>

datatype auth_method = AuthPassword secret | AuthUser string secret

fun recv_message ::
  "externals \<Rightarrow> u64 \<Rightarrow> read_outcome list \<Rightarrow> esl_parser \<Rightarrow>
    esl_message esl_result option \<times> read_outcome list \<times> esl_parser" where
  "recv_message X timeout_ms outcomes p =
     (case parse_message X p of
        (Inl e, p) \<Rightarrow> (Some (Inl e), outcomes, p)
      | (Inr (Some message), p) \<Rightarrow> (Some (Inr message), outcomes, p)
      | (Inr None, p) \<Rightarrow>
          (case outcomes of
             [] \<Rightarrow> (None, [], p)
           | o1 # outcomes \<Rightarrow>
               (case read_into_parser X o1 p of
                  (Inl e, p) \<Rightarrow> (Some (Inl e), outcomes, p)
                | (Inr Fed, p) \<Rightarrow> recv_message X timeout_ms outcomes p
                | (Inr Eof, p) \<Rightarrow> (Some (Inl ConnectionClosed), outcomes, p)
                | (Inr Idle, p) \<Rightarrow> (Some (Inl (Timeout timeout_ms)), outcomes, p))))"

declare recv_message.simps [simp del]

definition salvage_truncated_auth_response ::
  "externals \<Rightarrow> esl_parser \<Rightarrow> esl_message option esl_result \<times> esl_parser" where
  "salvage_truncated_auth_response X p =
     (if \<not> is_waiting_for_headers p then (Inr None, p)
      else let data = remaining_bytes p in
      if data = [] then (Inr None, p)
      else case from_utf8 data of
             Inl _ \<Rightarrow> (Inl (ProtocolError ''invalid UTF-8 in truncated auth response''), p)
           | Inr data_str \<Rightarrow>
               (case char_rfind NL data_str of
                  None \<Rightarrow> (Inr None, p)
                | Some last_nl \<Rightarrow>
                    let trailing = drop (last_nl + 1) data_str;
                        header_block = (if trailing = [] \<or> contains_char COLON trailing then data_str
                                        else take last_nl data_str)
                    in (case parse_headers X (strict_header_utf8 p) header_block of
                          Inl e \<Rightarrow> (Inl e, p)
                        | Inr (headers, lossy_values) \<Rightarrow>
                            (case map_of headers HEADER_CONTENT_TYPE of
                               None \<Rightarrow>
                                 (Inl (ProtocolError (''truncated response missing Content-Type header '' @
                                    [CHR 0xE2, CHR 0x80, CHR 0x94] @ '' not an auth response'')), p)
                             | Some content_type \<Rightarrow>
                                 if content_type \<noteq> CONTENT_TYPE_COMMAND_REPLY
                                 then (Inl (ProtocolError (''truncated response has Content-Type '' @ [CHR 0x27] @
                                         content_type @ [CHR 0x27] @ '', expected command/reply'')), p)
                                 else (case message_type_from_content_type content_type of
                                         Inl e \<Rightarrow> (Inl e, p)
                                       | Inr mt \<Rightarrow>
                                           (Inr (Some (with_lossy_values lossy_values
                                              (message_new mt headers None))),
                                            drain_buffer X p))))))"

fun auth_command :: "auth_method \<Rightarrow> esl_command" where
  "auth_command (AuthPassword password) = CmdAuth password"
| "auth_command (AuthUser user password) = CmdUserAuth user password"

definition auth_check :: "esl_response \<Rightarrow> esl_response esl_result" where
  "auth_check response =
     (if \<not> is_success response
      then Inl (case reply_text response of
                  Some t \<Rightarrow> AuthenticationFailed t
                | None \<Rightarrow> ProtocolError ''auth response missing Reply-Text header'')
      else Inr response)"

text \<open>The part after the request: the reply, or what can be salvaged of it.\<close>

definition auth_response_message ::
  "externals \<Rightarrow> u64 \<Rightarrow> read_outcome list \<Rightarrow> esl_parser \<Rightarrow>
    esl_message esl_result option \<times> read_outcome list \<times> esl_parser" where
  "auth_response_message X timeout_ms outcomes p =
     (case recv_message X timeout_ms outcomes p of
        (Some (Inl (Timeout t)), outcomes, p) \<Rightarrow>
          (case salvage_truncated_auth_response X p of
             (Inr (Some msg), p) \<Rightarrow> (Some (Inr msg), outcomes, p)
           | (Inr None, p) \<Rightarrow> (Some (Inl (Timeout t)), outcomes, p)
           | (Inl e, p) \<Rightarrow> (Some (Inl e), outcomes, p))
      | r \<Rightarrow> r)"

record auth_run =
  ar_result :: "esl_response esl_result option"
  ar_written :: string
  ar_rest :: "read_outcome list"
  ar_parser :: esl_parser

definition auth_reply_phase ::
  "externals \<Rightarrow> u64 \<Rightarrow> string \<Rightarrow> read_outcome list \<Rightarrow> esl_parser \<Rightarrow> auth_run" where
  "auth_reply_phase X timeout_ms wire outcomes p =
     (case auth_response_message X timeout_ms outcomes p of
        (None, outcomes, p) \<Rightarrow>
          \<lparr>ar_result = None, ar_written = wire, ar_rest = outcomes, ar_parser = p\<rparr>
      | (Some (Inl e), outcomes, p) \<Rightarrow>
          \<lparr>ar_result = Some (Inl e), ar_written = wire, ar_rest = outcomes, ar_parser = p\<rparr>
      | (Some (Inr msg), outcomes, p) \<Rightarrow>
          \<lparr>ar_result = Some (auth_check (response_from_message X msg)), ar_written = wire,
           ar_rest = outcomes, ar_parser = p\<rparr>)"

definition authenticate ::
  "externals \<Rightarrow> auth_method \<Rightarrow> u64 \<Rightarrow> string option \<Rightarrow> read_outcome list \<Rightarrow> esl_parser \<Rightarrow> auth_run" where
  "authenticate X method timeout_ms write_error outcomes p =
     (case recv_message X timeout_ms outcomes p of
        (None, outcomes, p) \<Rightarrow>
          \<lparr>ar_result = None, ar_written = [], ar_rest = outcomes, ar_parser = p\<rparr>
      | (Some (Inl e), outcomes, p) \<Rightarrow>
          \<lparr>ar_result = Some (Inl e), ar_written = [], ar_rest = outcomes, ar_parser = p\<rparr>
      | (Some (Inr message), outcomes, p) \<Rightarrow>
          let fail = (\<lambda>e. \<lparr>ar_result = Some (Inl e), ar_written = [], ar_rest = outcomes, ar_parser = p\<rparr>) in
          if message_type message = RudeRejection
          then fail (AccessDenied (unwrap_or ''rude-rejection without body'' (msg_body message)))
          else if message_type message \<noteq> AuthRequest then fail (ProtocolError ''Expected auth request'')
          else case to_wire_format X (auth_command method) of
                 Inl e \<Rightarrow> fail e
               | Inr wire \<Rightarrow>
                   (case write_error of
                      Some e \<Rightarrow> fail (Io e)
                    | None \<Rightarrow> auth_reply_phase X timeout_ms wire outcomes p))"

text \<open>The check \<open>connect_with_auth\<close> makes before it opens the socket.\<close>

fun check_user_format :: "auth_method \<Rightarrow> unit esl_result" where
  "check_user_format (AuthPassword _) = Inr ()"
| "check_user_format (AuthUser user _) =
     (if contains_char CHR ''@'' user then Inr ()
      else Inl (AuthenticationFailed (''Invalid username format '' @ [CHR 0x27] @ user @ [CHR 0x27] @
             '': must be user@domain (e.g., admin@default)'')))"

definition connect_with_auth ::
  "externals \<Rightarrow> auth_method \<Rightarrow> connect_options \<Rightarrow> unit esl_result \<Rightarrow> string option \<Rightarrow> read_outcome list \<Rightarrow>
    (shared_state \<times> esl_parser) esl_result option" where
  "connect_with_auth X method options tcp write_error outcomes =
     (case bindR (check_user_format method) (\<lambda>_. tcp) of
        Inl e \<Rightarrow> Some (Inl e)
      | Inr _ \<Rightarrow>
          (let parser = with_strict_header_utf8 (co_strict_header_utf8 options) (parser_new X);
               run = authenticate X method (connect_timeout options) write_error outcomes parser
           in map_option (mapR (\<lambda>r. (spawn_shared (Some r) Inbound, ar_parser run))) (ar_result run)))"

section \<open>Salvaging and the handshake\<close>

lemma command_reply_type: "message_type_from_content_type CONTENT_TYPE_COMMAND_REPLY = Inr CommandReply"
  by code_simp

lemma drain_buffer_empty: "remaining_bytes (drain_buffer X p) = []"
  by (simp add: drain_buffer_def remaining_bytes_def)

lemma salvage_cases:
  "salvage_truncated_auth_response X p = (r, p') \<Longrightarrow>
     case r of
       Inr (Some m) \<Rightarrow> message_type m = CommandReply \<and> msg_body m = None \<and> msg_raw_body m = None \<and>
         map_of (msg_headers m) HEADER_CONTENT_TYPE = Some CONTENT_TYPE_COMMAND_REPLY \<and>
         p_state p = WaitingForHeaders \<and> remaining_bytes p' = []
     | _ \<Rightarrow> p' = p"
  unfolding salvage_truncated_auth_response_def is_waiting_for_headers_def Let_def
  by (auto simp: command_reply_type drain_buffer_empty message_new_def with_lossy_values_def
      split: if_splits sum.splits option.splits prod.splits parse_state.splits)

section \<open>Properties\<close>



text \<open>
  C34: the handshake accepts any message without a \<open>Reply-Text\<close> as a successful login. A
  missing text counts as success, so the branch that reports a missing header is
  never taken; the type of the message is not looked at, so even a disconnect notice or a rejection that
  answers the password is a login.
\<close>

theorem auth_accepts_missing_reply_text:
  assumes "recv_message X t outcomes p = (Some (Inr req), os, p1)" and "message_type req = AuthRequest"
    and "to_wire_format X (auth_command method) = Inr wire"
    and "recv_message X t os p1 = (Some (Inr msg), os', p2)"
    and "reply_text (response_from_message X msg) = None"
  shows "ar_result (authenticate X method t None outcomes p) = Some (Inr (response_from_message X msg))"
proof -
  let ?r = "response_from_message X msg"
  have "is_success ?r"
    using response_wf_from_message [of X msg] assms(5) by (simp add: response_wf_def is_success_def status_of_def)
  with assms show ?thesis
    by (simp add: authenticate_def auth_reply_phase_def auth_response_message_def auth_check_def Let_def)
qed

theorem auth_accepts_missing_reply_text_witness:
  defines "X \<equiv> reference_externals"
  defines "p \<equiv> snd (add_data X (''Content-Type: auth/request'' @ [NL, NL] @
    ''Content-Type: text/disconnect-notice'' @ [NL, NL]) (parser_new X))"
  shows "\<exists>r. ar_result (authenticate X (AuthPassword (Secret ''ClueCon'')) 2000 None [] p) = Some (Inr r)"
proof -
  let ?req = "\<lparr>message_type = AuthRequest, msg_headers = [(''Content-Type'', ''auth/request'')], msg_body = None,
    msg_raw_body = None, msg_lossy_values = []\<rparr>"
  let ?msg = "\<lparr>message_type = Disconnect, msg_headers = [(''Content-Type'', ''text/disconnect-notice'')],
    msg_body = None, msg_raw_body = None, msg_lossy_values = []\<rparr>"
  obtain r1 os p1 where r1: "recv_message X 2000 [] p = (r1, os, p1)" by (metis prod_cases3)
  obtain r2 os' p2 where r2: "recv_message X 2000 os p1 = (r2, os', p2)" by (metis prod_cases3)
  have a: "case recv_message X 2000 [] p of (r, os, p1) \<Rightarrow> r = Some (Inr ?req) \<and>
      (case recv_message X 2000 os p1 of (r', os', p2) \<Rightarrow> r' = Some (Inr ?msg))"
    unfolding X_def p_def by code_simp
  then have "r1 = Some (Inr ?req)" "r2 = Some (Inr ?msg)" using r1 r2 by simp_all
  moreover have "\<not> isl (to_wire_format X (auth_command (AuthPassword (Secret ''ClueCon''))))"
    and t: "reply_text (response_from_message X ?msg) = None"
    unfolding X_def by code_simp+
  then obtain wire where w: "to_wire_format X (auth_command (AuthPassword (Secret ''ClueCon''))) = Inr wire"
    by (metis sum.collapse(2))
  ultimately show ?thesis
    using auth_accepts_missing_reply_text [OF r1 [unfolded \<open>r1 = _\<close>] _ w r2 [unfolded \<open>r2 = _\<close>] t]
    by simp
qed

text \<open>
  Salvaging invents nothing. Only a parser that waits for headers is salvaged, the
  message it yields is a command reply without a body whose headers name that content type, and the
  truncated bytes are then gone; in every other case, refusals included, the parser is left as it was.
\<close>

lemma salvage_conservative:
  "case salvage_truncated_auth_response X p of
     (Inr (Some m), p') \<Rightarrow> message_type m = CommandReply \<and> msg_body m = None \<and> msg_raw_body m = None \<and>
       map_of (msg_headers m) HEADER_CONTENT_TYPE = Some CONTENT_TYPE_COMMAND_REPLY \<and>
       p_state p = WaitingForHeaders \<and> remaining_bytes p' = []
   | (_, p') \<Rightarrow> p' = p"
  using salvage_cases [of X p] by (auto split: prod.splits sum.splits option.splits)

end
