(* ===== verification/Bgjob.thy ===== *)
theory Bgjob
  imports Response
begin

text \<open>
  \<open>src/bgjob.rs\<close>: the tracker of background jobs. It is a map from Job-UUID to the
  caller's context, kept as an association list with distinct keys (the order of
  a \<open>HashMap\<close> is unspecified and no operation depends on it). The locale
  \<open>job_tracker\<close> states what a tracker promises of single steps; the lemmas in it
  extend the promise to whole event streams: each tracked job completes exactly
  once, with the context it was tracked with.
\<close>

type_synonym 'c bg_job_tracker = "(string \<times> 'c) list"

definition tracker_new :: "'c bg_job_tracker" where "tracker_new = []"

definition track :: "string \<Rightarrow> 'c \<Rightarrow> 'c bg_job_tracker \<Rightarrow> 'c bg_job_tracker" where
  "track uuid ctx t = AList.update uuid ctx t"

text \<open>\<open>bgapi\<close>: \<open>reply\<close> is what the client's \<open>bgapi\<close> call returned.\<close>

definition tracker_bgapi ::
  "esl_response esl_result \<Rightarrow> 'c \<Rightarrow> 'c bg_job_tracker \<Rightarrow> string esl_result \<times> 'c bg_job_tracker" where
  "tracker_bgapi reply ctx t =
     (case bindR (bindR reply into_result) (\<lambda>resp.
             ok_or (ProtocolError ''bgapi response missing Job-UUID header'') (job_uuid resp)) of
        Inl e \<Rightarrow> (Inl e, t)
      | Inr uuid \<Rightarrow> (Inr uuid, track uuid ctx t))"

definition event_job_uuid :: "esl_event \<Rightarrow> string option" where
  "event_job_uuid ev = event_header ev JobUuid"

definition try_complete :: "esl_event \<Rightarrow> 'c bg_job_tracker \<Rightarrow> ('c \<times> esl_event) option \<times> 'c bg_job_tracker" where
  "try_complete ev t =
     (if \<not> is_event_type ev Et_BackgroundJob then (None, t)
      else case event_job_uuid ev of
             None \<Rightarrow> (None, t)
           | Some uuid \<Rightarrow>
               (case map_of t uuid of
                  None \<Rightarrow> (None, t)
                | Some ctx \<Rightarrow> (Some (ctx, ev), AList.delete uuid t)))"

definition pending_count :: "'c bg_job_tracker \<Rightarrow> nat" where "pending_count t = length t"

definition is_pending :: "'c bg_job_tracker \<Rightarrow> string \<Rightarrow> bool" where
  "is_pending t uuid \<longleftrightarrow> map_of t uuid \<noteq> None"

definition cancel :: "string \<Rightarrow> 'c bg_job_tracker \<Rightarrow> 'c option \<times> 'c bg_job_tracker" where
  "cancel uuid t = (map_of t uuid, AList.delete uuid t)"

definition pending_jobs :: "'c bg_job_tracker \<Rightarrow> string list" where "pending_jobs t = map fst t"

text \<open>\<open>f\<close> decides on an entry and may change its context.\<close>

definition retain :: "(string \<Rightarrow> 'c \<Rightarrow> bool \<times> 'c) \<Rightarrow> 'c bg_job_tracker \<Rightarrow> 'c bg_job_tracker" where
  "retain f t =
     map (\<lambda>(u, c). (u, snd (f u c))) (filter (\<lambda>(u, c). fst (f u c)) t)"

definition result_parse_body :: "esl_event \<Rightarrow> string esl_result" where
  "result_parse_body ev = parse_api_body (unwrap_or [] (ev_body ev))"

section \<open>The interface\<close>

definition completes :: "string \<Rightarrow> esl_event \<Rightarrow> bool" where
  "completes uuid ev \<longleftrightarrow> is_event_type ev Et_BackgroundJob \<and> event_job_uuid ev = Some uuid"

text \<open>What a client of the tracker collects over a stream of events.\<close>

fun run_jobs ::
  "(esl_event \<Rightarrow> 't \<Rightarrow> ('c \<times> esl_event) option \<times> 't) \<Rightarrow> esl_event list \<Rightarrow> 't \<Rightarrow> ('c \<times> esl_event) list" where
  "run_jobs complete [] t = []"
| "run_jobs complete (ev # evs) t =
     (case complete ev t of
        (None, t') \<Rightarrow> run_jobs complete evs t'
      | (Some r, t') \<Rightarrow> r # run_jobs complete evs t')"

locale job_tracker =
  fixes lookup :: "'t \<Rightarrow> string \<Rightarrow> 'c option"
    and complete :: "esl_event \<Rightarrow> 't \<Rightarrow> ('c \<times> esl_event) option \<times> 't"
  assumes complete_hit: "completes u ev \<Longrightarrow> lookup t u = Some c \<Longrightarrow>
      fst (complete ev t) = Some (c, ev) \<and> lookup (snd (complete ev t)) u = None"
    and complete_other: "\<not> completes u ev \<Longrightarrow> lookup (snd (complete ev t)) u = lookup t u"
    and complete_miss: "completes u ev \<Longrightarrow> lookup t u = None \<Longrightarrow>
      fst (complete ev t) = None \<and> lookup (snd (complete ev t)) u = None"
    and complete_event: "fst (complete ev t) = Some (c, ev') \<Longrightarrow> ev' = ev"
begin

lemma run_step:
  assumes "\<not> completes u ev"
  shows "filter (\<lambda>r. completes u (snd r)) (run_jobs complete (ev # evs) t) =
    filter (\<lambda>r. completes u (snd r)) (run_jobs complete evs (snd (complete ev t)))"
  using assms complete_event [of ev t] by (cases "complete ev t") (auto split: option.splits)

lemma run_absent:
  "lookup t u = None \<Longrightarrow> filter (\<lambda>r. completes u (snd r)) (run_jobs complete evs t) = []"
proof (induction evs arbitrary: t)
  case (Cons ev evs)
  show ?case
  proof (cases "completes u ev")
    case True
    with complete_miss [of u ev t] Cons show ?thesis by (cases "complete ev t") auto
  next
    case False
    with Cons complete_other [OF False, of t] show ?thesis by (simp add: run_step del: run_jobs.simps)
  qed
qed simp

lemma run_exactly_once:
  "lookup t u = Some c \<Longrightarrow> \<exists>ev \<in> set evs. completes u ev \<Longrightarrow>
     map fst (filter (\<lambda>r. completes u (snd r)) (run_jobs complete evs t)) = [c]"
proof (induction evs arbitrary: t)
  case (Cons ev evs)
  show ?case
  proof (cases "completes u ev")
    case True
    with complete_hit [of u ev t c] Cons.prems run_absent show ?thesis by (cases "complete ev t") auto
  next
    case False
    with Cons complete_other [OF False, of t] show ?thesis by (simp add: run_step del: run_jobs.simps)
  qed
qed simp

end

section \<open>The tracker implements it\<close>

lemma try_complete_cases:
  "try_complete ev t =
     (case event_job_uuid ev of
        Some u \<Rightarrow>
          if completes u ev
          then (case map_of t u of Some c \<Rightarrow> (Some (c, ev), AList.delete u t) | None \<Rightarrow> (None, t))
          else (None, t)
      | None \<Rightarrow> (None, t))"
  by (auto simp: try_complete_def completes_def split: option.splits)

interpretation tracker: job_tracker map_of try_complete
proof unfold_locales
  show "fst (try_complete ev t) = Some (c, ev) \<and> map_of (snd (try_complete ev t)) u = None"
    if "completes u ev" "map_of t u = Some c" for u ev and t :: "(string \<times> 'a) list" and c
    using that by (auto simp: try_complete_cases completes_def map_of_delete split: option.splits)
  show "map_of (snd (try_complete ev t)) u = map_of t u"
    if "\<not> completes u ev" for u ev and t :: "(string \<times> 'a) list"
    using that by (auto simp: try_complete_cases completes_def map_of_delete split: option.splits)
  show "fst (try_complete ev t) = None \<and> map_of (snd (try_complete ev t)) u = None"
    if "completes u ev" "map_of t u = None" for u ev and t :: "(string \<times> 'a) list"
    using that by (auto simp: try_complete_cases completes_def split: option.splits)
  show "ev' = ev" if "fst (try_complete ev t) = Some (c, ev')" for ev ev' and t :: "(string \<times> 'a) list" and c
    using that by (auto simp: try_complete_cases split: option.splits if_splits)
qed

lemma tracker_bgapi_ok:
  "tracker_bgapi reply ctx t = (Inr u, t') \<Longrightarrow> map_of t' u = Some ctx"
  by (auto simp: tracker_bgapi_def track_def map_of_update split: sum.splits)

lemma tracker_bgapi_err: "tracker_bgapi reply ctx t = (Inl e, t') \<Longrightarrow> t' = t"
  by (auto simp: tracker_bgapi_def split: sum.splits)

definition tracker_wf :: "'c bg_job_tracker \<Rightarrow> bool" where
  "tracker_wf t \<longleftrightarrow> distinct (map fst t)"

lemma tracker_wf_ops:
  "tracker_wf tracker_new"
  "tracker_wf t \<Longrightarrow> tracker_wf (track u c t)"
  "tracker_wf t \<Longrightarrow> tracker_wf (snd (try_complete ev t))"
  "tracker_wf t \<Longrightarrow> tracker_wf (snd (cancel u t))"
  "tracker_wf t \<Longrightarrow> tracker_wf (retain f t)"
  by (auto simp: tracker_wf_def tracker_new_def track_def try_complete_cases cancel_def retain_def
      distinct_update distinct_keys_delete distinct_map_filter comp_def split_def split: option.splits)

lemma retain_lookup:
  assumes "tracker_wf t"
  shows "map_of (retain f t) u =
    (case map_of t u of None \<Rightarrow> None | Some c \<Rightarrow> if fst (f u c) then Some (snd (f u c)) else None)"
  using assms
proof (induction t)
  case (Cons x t)
  have "map_of (retain f t) u = None" if "u \<notin> fst ` set t" for u
    using that by (force simp: retain_def map_of_eq_None_iff)
  with Cons show ?case by (cases x) (auto simp: retain_def tracker_wf_def)
qed (simp add: retain_def)

lemma run_jobs_events: "r \<in> set (run_jobs try_complete evs t) \<Longrightarrow> snd r \<in> set evs"
proof (induction evs arbitrary: t)
  case (Cons ev evs)
  then show ?case
    using tracker.complete_event [of ev t] by (cases "try_complete ev t") (auto split: option.splits)
qed simp

section \<open>Properties\<close>

text \<open>
  C23: a background job completes exactly once. A job tracked by a successful
  \<open>bgapi\<close> is handed back, with its context, by the first event that completes it and by no
  later one, whatever other events and jobs are interleaved; a job that is not
  tracked is never handed back; and a failed \<open>bgapi\<close> tracks nothing.
\<close>

theorem job_completes_once:
  "case tracker_bgapi reply ctx t of
     (Inl e, t') \<Rightarrow> t' = t
   | (Inr u, t') \<Rightarrow>
       map fst (filter (\<lambda>r. completes u (snd r)) (run_jobs try_complete evs t')) =
         (if \<exists>ev \<in> set evs. completes u ev then [ctx] else [])"
proof (cases "tracker_bgapi reply ctx t")
  case (Pair r t')
  show ?thesis
  proof (cases r)
    case (Inl e)
    with Pair tracker_bgapi_err [of reply ctx t e t'] show ?thesis by simp
  next
    case (Inr u)
    then have l: "map_of t' u = Some ctx" using tracker_bgapi_ok [of reply ctx t u t'] Pair by simp
    have "filter (\<lambda>r. completes u (snd r)) (run_jobs try_complete evs t') = []"
      if "\<not> (\<exists>ev \<in> set evs. completes u ev)"
      using that run_jobs_events [of _ evs t'] by (fastforce simp: filter_empty_conv)
    with tracker.run_exactly_once [OF l] Inr show ?thesis by (auto simp: Pair)
  qed
qed

end
