(* ===== verification/Switch_Text.thy ===== *)
theory Switch_Text
  imports Utf8
begin

text \<open>
  Traced text: \<open>types switch_passes/mod.rs\<close>. The string passes of the switch run over
  characters, each paired with the byte range of the input it came from.

  A Rust \<open>char\<close> is the string of its UTF-8 bytes, so \<open>len_utf8\<close> is the length, an ASCII
  character a singleton, and a text the concatenation of its characters. \<open>chars\<close> is
  \<open>str::chars\<close>; the lemmas show that a valid string is the concatenation of its characters,
  that \<open>chars\<close> distributes over the concatenation of valid strings, and that
  \<open>untrace\<close> undoes \<open>trace\<close>.
\<close>

named_theorems text_simps \<open>characters of concatenated texts\<close>

section \<open>Characters\<close>

type_synonym rchar = string
type_synonym traced = "rchar \<times> nat \<times> nat"

abbreviation NUL :: rchar where "NUL \<equiv> [CHR 0x00]"
abbreviation BACKSLASH :: rchar where "BACKSLASH \<equiv> [CHR 0x5C]"
abbreviation QUOTE :: rchar where "QUOTE \<equiv> [CHR 0x27]"
abbreviation SPACE :: rchar where "SPACE \<equiv> [CHR 0x20]"
abbreviation VTAB :: rchar where "VTAB \<equiv> [CHR 0x0B]"
abbreviation TAB :: rchar where "TAB \<equiv> [CHR 0x09]"

definition char_is_ascii :: "rchar \<Rightarrow> bool" where
  "char_is_ascii c \<longleftrightarrow> list_all is_ascii c"

definition is_ascii_graphic :: "rchar \<Rightarrow> bool" where
  "is_ascii_graphic c \<longleftrightarrow> (\<exists>b \<in> set c. c = [b] \<and> 33 \<le> (of_char b :: nat) \<and> (of_char b :: nat) \<le> 126)"

definition is_ascii_alphanumeric :: "rchar \<Rightarrow> bool" where
  "is_ascii_alphanumeric c \<longleftrightarrow> (\<exists>b \<in> set c. c = [b] \<and> (is_letter b \<or> is_digit b))"

function chars :: "string \<Rightarrow> rchar list" where
  "chars s = (if s = [] then [] else take (snd (utf8_next s)) s # chars (drop (snd (utf8_next s)) s))"
  by pat_completeness auto
termination by (relation "measure length") auto

declare chars.simps [simp del]

text \<open>A value of type \<open>char\<close>: the bytes of one well-formed sequence.\<close>

definition char_ok :: "rchar \<Rightarrow> bool" where
  "char_ok c \<longleftrightarrow> c \<noteq> [] \<and> utf8_next c = (True, length c)"

section \<open>Traces\<close>

function trace_from :: "nat \<Rightarrow> string \<Rightarrow> traced list" where
  "trace_from at s =
     (if s = [] then []
      else (take (snd (utf8_next s)) s, at, at + snd (utf8_next s)) #
           trace_from (at + snd (utf8_next s)) (drop (snd (utf8_next s)) s))"
  by pat_completeness auto
termination by (relation "measure (\<lambda>(at, s). length s)") auto

declare trace_from.simps [simp del]

definition trace :: "string \<Rightarrow> traced list" where
  "trace s = trace_from 0 s"

text \<open>\<open>is_continuation\<close> of \<open>separate.rs\<close>: the entry of a byte after the first of its character.\<close>

definition is_continuation :: "traced \<Rightarrow> bool" where
  "is_continuation e \<longleftrightarrow> (case e of (_, start, stop) \<Rightarrow> start > stop)"

definition untrace :: "traced list \<Rightarrow> string" where
  "untrace text = concat (map fst (filter (\<lambda>e. \<not> is_continuation e) text))"

definition byte_range :: "traced list \<Rightarrow> nat \<times> nat \<Rightarrow> nat \<times> nat \<Rightarrow> nat \<times> nat" where
  "byte_range text extent span =
     ((if fst span = 0 \<or> \<not> fst span - 1 < length text then fst extent
       else snd (snd (text ! (fst span - 1)))),
      (if snd span < length text then fst (snd (text ! snd span)) else snd extent))"

definition extent :: "traced list \<Rightarrow> nat \<times> nat" where
  "extent text =
     (let start = (if text = [] then 0 else fst (snd (hd text)))
      in (start, if text = [] then start else snd (snd (last text))))"

section \<open>Lemmas\<close>

lemma char_ok_ascii [simp]: "is_ascii b \<Longrightarrow> char_ok [b]"
  by (simp add: char_ok_def utf8_next_ascii)

lemma chars_Nil [simp]: "chars [] = []" and trace_from_Nil [simp]: "trace_from k [] = []"
  by (subst chars.simps trace_from.simps, simp)+

lemma utf8_next_char_ok: "char_ok c \<Longrightarrow> utf8_next (c @ s) = (True, length c)"
  using utf8_next_valid_prefix [of c "length c" s] by (simp add: char_ok_def)

lemma chars_Cons [text_simps]: "char_ok c \<Longrightarrow> chars (c @ s) = c # chars s"
  by (subst chars.simps) (simp add: utf8_next_char_ok, simp add: char_ok_def)

lemma trace_from_Cons:
  "char_ok c \<Longrightarrow> trace_from k (c @ s) = (c, k, k + length c) # trace_from (k + length c) s"
  by (subst trace_from.simps) (simp add: utf8_next_char_ok, simp add: char_ok_def)

lemma chars_ascii_Cons [text_simps]: "is_ascii b \<Longrightarrow> chars (b # s) = [b] # chars s"
  using chars_Cons [of "[b]" s] by simp

lemma chars_concat [text_simps]: "list_all char_ok cs \<Longrightarrow> chars (concat cs) = cs"
  by (induction cs) (simp_all add: chars_Cons)

lemma concat_chars [simp]: "concat (chars s) = s"
proof (induction s rule: chars.induct)
  case (1 s)
  then show ?case by (subst chars.simps) simp
qed

lemma chars_ok: "utf8_valid s \<Longrightarrow> list_all char_ok (chars s)"
proof (induction s rule: chars.induct)
  case (1 s)
  show ?case
  proof (cases "s = []")
    case False
    with "1.prems" have v: "fst (utf8_next s)" "utf8_valid (drop (snd (utf8_next s)) s)"
      by (simp_all add: utf8_valid_step)
    have "utf8_next (take (snd (utf8_next s)) s @ []) = (True, snd (utf8_next s))"
      using v(1) by (intro utf8_next_valid_prefix [OF False]) (simp add: prod_eq_iff)
    then have "char_ok (take (snd (utf8_next s)) s)"
      using utf8_next_le [OF False] utf8_next_pos [of s] False by (simp add: char_ok_def min_def)
    with "1.IH" [OF False v(2)] False show ?thesis by (subst chars.simps) simp
  qed simp
qed

lemma valid_concat: "list_all char_ok cs \<Longrightarrow> utf8_valid (concat cs)"
proof (induction cs)
  case (Cons c cs)
  then have "c @ concat cs \<noteq> []" by (simp add: char_ok_def)
  with Cons show ?case by (simp add: utf8_valid_step utf8_next_char_ok)
qed simp

lemma valid_iff_chars: "utf8_valid s \<longleftrightarrow> list_all char_ok (chars s)"
  using chars_ok valid_concat [of "chars s"] by auto

lemma chars_append [text_simps]: "utf8_valid a \<Longrightarrow> chars (a @ b) = chars a @ chars b"
proof (induction a rule: utf8_valid.induct)
  case (1 a)
  show ?case
  proof (cases "a = []")
    case False
    have ok: "list_all char_ok (chars a)" by (rule chars_ok [OF "1.prems"])
    obtain c cs where c: "chars a = c # cs" using False by (subst (asm) chars.simps) auto
    have a: "a = c @ concat cs" using concat_chars [of a] c by simp
    have "chars (concat cs @ b) = cs @ chars b" if "list_all char_ok cs" for cs
      using that by (induction cs) (simp_all add: chars_Cons)
    with ok c a show ?thesis by (simp add: chars_Cons)
  qed simp
qed

lemma valid_append: "utf8_valid a \<Longrightarrow> utf8_valid (a @ b) \<longleftrightarrow> utf8_valid b"
  using valid_iff_chars by (simp add: valid_iff_chars [of "a @ b"] valid_iff_chars [of b] chars_append)

lemma map_fst_trace_from [simp]: "map fst (trace_from k s) = chars s"
proof (induction k s rule: trace_from.induct)
  case (1 k s)
  then show ?case by (subst trace_from.simps, subst chars.simps) simp
qed

lemma map_fst_trace [simp]: "map fst (trace s) = chars s"
  by (simp add: trace_def)

lemma trace_from_not_continuation: "e \<in> set (trace_from k s) \<Longrightarrow> \<not> is_continuation e"
proof (induction k s rule: trace_from.induct)
  case (1 k s)
  then show ?case by (subst (asm) (2) trace_from.simps) (auto simp: is_continuation_def split: if_splits)
qed

lemma trace_not_continuation [simp]: "e \<in> set (trace s) \<Longrightarrow> \<not> is_continuation e"
  by (simp add: trace_def trace_from_not_continuation)

lemma untrace_no_continuation:
  "\<forall>e \<in> set text. \<not> is_continuation e \<Longrightarrow> untrace text = concat (map fst text)"
  by (simp add: untrace_def cong: filter_cong)

lemma untrace_trace [simp]: "untrace (trace s) = s"
  using trace_not_continuation by (simp add: untrace_no_continuation)

lemma length_trace [simp]: "length (trace s) = length (chars s)"
  using length_map [of fst "trace s"] by simp

lemma char_bytes_not_ascii:
  assumes "char_ok c" and "length c \<noteq> 1" and "b \<in> set c"
  shows "\<not> is_ascii b"
proof -
  obtain i where i: "i < length c" "b = c ! i" using assms(3) by (auto simp: in_set_conv_nth)
  have "utf8_next c = (True, length c)" using assms(1) by (simp add: char_ok_def)
  moreover from this assms(2) have "length c \<in> {2, 3, 4}" by (auto simp: utf8_next_def Let_def split: if_splits)
  then have "i = 0 \<or> i = 1 \<or> i = 2 \<or> i = 3" using i(1) by auto
  ultimately have "128 \<le> byte_at c i" using i(1) assms(2)
    by (auto simp: utf8_next_def Let_def second_ok_def is_cont_def char_width_def split: if_splits)
  then show ?thesis using i by (simp add: byte_at_def is_ascii_def)
qed

lemma ascii_chars_iff:
  assumes "utf8_valid s" and "is_ascii b"
  shows "[b] \<in> set (chars s) \<longleftrightarrow> b \<in> set s"
proof
  assume "[b] \<in> set (chars s)"
  then have "b \<in> (\<Union>c \<in> set (chars s). set c)" by force
  then have "b \<in> set (concat (chars s))" by (simp only: set_concat)
  then show "b \<in> set s" by simp
next
  assume "b \<in> set s"
  then have "b \<in> set (concat (chars s))" by simp
  then obtain c where c: "c \<in> set (chars s)" "b \<in> set c" by (auto simp only: set_concat)
  then have "char_ok c" using chars_ok [OF assms(1)] by (simp add: list_all_iff)
  then have "length c = 1" using char_bytes_not_ascii c(2) assms(2) by blast
  with c(2) have "c = [b]" by (cases c) auto
  with c(1) show "[b] \<in> set (chars s)" by simp
qed

end
