(* ===== verification/Separate.thy ===== *)
theory Separate
  imports Switch_Text
begin

text \<open>
  The switch's string separators: \<open>types switch_passes/separate.rs\<close>. Two scanners cut a text into raw
  token spans, on one delimiter (\<open>char_delim\<close>) or on blanks (\<open>blank_delim\<close>); \<open>cleanup\<close> unescapes, unquotes
  and trims a token. \<open>CBuffer\<close> runs both in place over a NUL-terminated buffer, as the C does:
  terminators overwrite delimiters, and cleaned tokens overwrite the raw ones.

  The scanning loops recurse over the text from the position reached, which is carried along; an
  escape drops one more character, so running past the end needs no case of its own.
\<close>

section \<open>The scanners\<close>

record cut =
  cut_spans :: "(nat \<times> nat) list"
  cut_held_delimiter :: bool
  cut_open_quote :: bool

definition skip_spaces :: "traced list \<Rightarrow> traced list" where
  "skip_spaces text = dropWhile (\<lambda>e. fst e = SPACE) text"

definition has_quote :: "traced list \<Rightarrow> bool" where
  "has_quote rest \<longleftrightarrow> list_ex (\<lambda>e. fst e = QUOTE) (takeWhile (\<lambda>e. fst e \<noteq> NUL) rest)"

text \<open>The variables of the loop of \<open>char_delim\<close>.\<close>

record char_scan =
  cs_spans :: "(nat \<times> nat) list"
  cs_begin :: "nat option"
  cs_inside_quotes :: bool
  cs_held_delimiter :: bool

function char_delim_loop ::
  "rchar \<Rightarrow> nat \<Rightarrow> nat \<Rightarrow> traced list \<Rightarrow> char_scan \<Rightarrow> char_scan \<times> nat option" where
  "char_delim_loop delim limit i [] v = (v, None)"
| "char_delim_loop delim limit i ((c, p) # rest) v =
     (if c = NUL then (v, Some i)
      else if cs_begin v = None \<and> limit \<le> length (cs_spans v) + 1 then (v\<lparr>cs_begin := Some i\<rparr>, None)
      else let start = unwrap_or i (cs_begin v); v = v\<lparr>cs_begin := Some start\<rparr>
           in if c = BACKSLASH then char_delim_loop delim limit (i + 2) (drop 1 rest) v
              else if c = QUOTE \<and> (cs_inside_quotes v \<or> has_quote rest)
              then char_delim_loop delim limit (i + 1) rest (v\<lparr>cs_inside_quotes := \<not> cs_inside_quotes v\<rparr>)
              else if c = delim \<and> \<not> cs_inside_quotes v
              then char_delim_loop delim limit (i + 1) rest
                     (v\<lparr>cs_spans := cs_spans v @ [(start, i)], cs_begin := None\<rparr>)
              else if c = delim
              then char_delim_loop delim limit (i + 1) rest (v\<lparr>cs_held_delimiter := True\<rparr>)
              else char_delim_loop delim limit (i + 1) rest v)"
  by pat_completeness auto
termination by (relation "measure (\<lambda>(_, _, _, text, _). length text)") auto

definition char_delim :: "traced list \<Rightarrow> rchar \<Rightarrow> nat \<Rightarrow> cut" where
  "char_delim text delim limit =
     (let (v, stop) = char_delim_loop delim limit 0 text
            \<lparr>cs_spans = [], cs_begin = None, cs_inside_quotes = False, cs_held_delimiter = False\<rparr>;
          stop = unwrap_or (length text) stop
      in \<lparr>cut_spans = (case cs_begin v of Some start \<Rightarrow> cs_spans v @ [(start, stop)] | None \<Rightarrow> cs_spans v),
          cut_held_delimiter = cs_held_delimiter v, cut_open_quote = cs_inside_quotes v\<rparr>)"

datatype blank_state = Start | SkipInitialSpace | FindDelim | SkipEndingSpace

record blank_scan =
  bs_spans :: "(nat \<times> nat) list"
  bs_state :: blank_state
  bs_begin :: nat
  bs_inside_quotes :: bool
  bs_held_delimiter :: bool

fun state_rank :: "blank_state \<Rightarrow> nat" where
  "state_rank SkipEndingSpace = 3"
| "state_rank Start = 2"
| "state_rank SkipInitialSpace = 1"
| "state_rank FindDelim = 0"

function blank_delim_loop :: "nat \<Rightarrow> nat \<Rightarrow> traced list \<Rightarrow> blank_scan \<Rightarrow> blank_scan \<times> nat option" where
  "blank_delim_loop limit i [] v = (v, None)"
| "blank_delim_loop limit i ((c, p) # rest) v =
     (if c = NUL then (v, Some i)
      else case bs_state v of
        Start \<Rightarrow>
          if limit \<le> length (bs_spans v) + 1 then (v\<lparr>bs_begin := i, bs_state := FindDelim\<rparr>, None)
          else blank_delim_loop limit i ((c, p) # rest) (v\<lparr>bs_begin := i, bs_state := SkipInitialSpace\<rparr>)
      | SkipInitialSpace \<Rightarrow>
          if c = SPACE then blank_delim_loop limit (i + 1) rest v
          else blank_delim_loop limit i ((c, p) # rest) (v\<lparr>bs_state := FindDelim\<rparr>)
      | SkipEndingSpace \<Rightarrow>
          if c = SPACE then blank_delim_loop limit (i + 1) rest v
          else blank_delim_loop limit i ((c, p) # rest) (v\<lparr>bs_state := Start\<rparr>)
      | FindDelim \<Rightarrow>
          if c = BACKSLASH then blank_delim_loop limit (i + 2) (drop 1 rest) v
          else if c = QUOTE
          then blank_delim_loop limit (i + 1) rest (v\<lparr>bs_inside_quotes := \<not> bs_inside_quotes v\<rparr>)
          else if c = SPACE \<and> \<not> bs_inside_quotes v
          then blank_delim_loop limit (i + 1) rest
                 (v\<lparr>bs_spans := bs_spans v @ [(bs_begin v, i)], bs_state := SkipEndingSpace\<rparr>)
          else if c = SPACE
          then blank_delim_loop limit (i + 1) rest (v\<lparr>bs_held_delimiter := True\<rparr>)
          else blank_delim_loop limit (i + 1) rest v)"
  by pat_completeness auto
termination
  by (relation "measures [\<lambda>(_, _, text, _). length text, \<lambda>(_, _, _, v). state_rank (bs_state v)]") auto

declare char_delim_loop.simps(2) [simp del] blank_delim_loop.simps(2) [simp del]

definition blank_delim :: "traced list \<Rightarrow> nat \<Rightarrow> cut" where
  "blank_delim text limit =
     (let (v, stop) = blank_delim_loop limit 0 text
            \<lparr>bs_spans = [], bs_state = Start, bs_begin = 0, bs_inside_quotes = False, bs_held_delimiter = False\<rparr>;
          stop = unwrap_or (length text) stop
      in \<lparr>cut_spans = (if bs_state v \<in> {SkipInitialSpace, FindDelim} then bs_spans v @ [(bs_begin v, stop)]
                       else bs_spans v),
          cut_held_delimiter = bs_held_delimiter v, cut_open_quote = bs_inside_quotes v\<rparr>)"

section \<open>Escapes and cleanup\<close>

definition unescape :: "rchar \<Rightarrow> rchar option \<Rightarrow> rchar option" where
  "unescape nx delim =
     (if Some nx = delim \<or> nx \<in> {QUOTE, ''\"'', BACKSLASH} then Some nx
      else if nx = ''n'' then Some [NL]
      else if nx = ''r'' then Some [CR]
      else if nx = ''t'' then Some TAB
      else if nx = ''s'' then Some SPACE
      else None)"

definition takes_a_backslash :: "rchar \<Rightarrow> rchar option \<Rightarrow> bool" where
  "takes_a_backslash c delim \<longleftrightarrow> c \<in> {BACKSLASH, QUOTE} \<or> Some c = delim"

definition escape_inside_token :: "string \<Rightarrow> rchar option \<Rightarrow> string" where
  "escape_inside_token text delim =
     concat (map (\<lambda>c. if takes_a_backslash c delim then BACKSLASH @ c else c) (chars text))"

text \<open>The loop of \<open>cleanup_written\<close>: the characters written, and where the terminator goes.\<close>

function cleanup_loop ::
  "rchar option \<Rightarrow> bool \<Rightarrow> traced list \<Rightarrow> nat option \<Rightarrow> traced list \<Rightarrow> traced list \<times> nat option" where
  "cleanup_loop delim inside_quotes out stop [] = (out, stop)"
| "cleanup_loop delim inside_quotes out stop ((c, start, fin) # rest) =
     (case (if c = BACKSLASH \<and> rest \<noteq> []
            then map_option (\<lambda>e. (e, start, snd (snd (hd rest)))) (unescape (fst (hd rest)) delim)
            else None) of
        Some e \<Rightarrow> cleanup_loop delim inside_quotes (out @ [e]) (Some (length out + 1)) (drop 1 rest)
      | None \<Rightarrow>
          if c = QUOTE \<and> (inside_quotes \<or> has_quote rest)
          then cleanup_loop delim (\<not> inside_quotes) out
                 (if \<not> inside_quotes then Some (length out) else stop) rest
          else cleanup_loop delim inside_quotes (out @ [(c, start, fin)])
                 (if c \<noteq> SPACE \<or> inside_quotes then Some (length out + 1) else stop) rest)"
  by pat_completeness auto
termination by (relation "measure (\<lambda>(_, _, _, _, text). length text)") auto

declare cleanup_loop.simps(2) [simp del]

definition cleanup_written :: "traced list \<Rightarrow> rchar option \<Rightarrow> traced list \<times> nat option" where
  "cleanup_written raw delim = cleanup_loop delim False [] None (skip_spaces raw)"

definition cleanup :: "traced list \<Rightarrow> rchar option \<Rightarrow> traced list" where
  "cleanup raw delim = (let (out, stop) = cleanup_written raw delim in take (unwrap_or 0 stop) out)"

section \<open>The in-place buffer\<close>

datatype head = Picked rchar | Unreadable | Absent

definition char_at :: "traced list \<Rightarrow> nat \<Rightarrow> rchar" where
  "char_at text i = (if i < length text then fst (text ! i) else NUL)"

definition argument_head :: "traced list \<Rightarrow> head" where
  "argument_head text =
     (if char_at text 0 = ''^'' \<and> char_at text 1 = ''^'' \<and> char_at text 2 \<noteq> NUL
         \<and> \<not> char_is_ascii (char_at text 2) then Unreadable
      else if char_at text 0 = ''^'' \<and> char_at text 1 = ''^'' \<and> char_at text 2 \<noteq> NUL
         \<and> char_at text 3 \<noteq> NUL then Picked (char_at text 2)
      else Absent)"

type_synonym cbuffer = "traced list"

definition CONTINUATION :: rchar where
  "CONTINUATION = [CHR 0xC2, CHR 0x80]"

record split_token =
  tok_raw :: "nat \<times> nat"
  tok_start :: nat

record split =
  sp_tokens :: "split_token list"
  sp_delimiter :: rchar
  sp_held_delimiter :: bool
  sp_open_quote :: bool
  sp_unreadable_head :: bool

text \<open>The entries and origins \<open>with_origins\<close> pushes for the characters from position \<open>at\<close> on.\<close>

fun origin_entries :: "nat \<Rightarrow> traced list \<Rightarrow> (traced \<times> nat) list" where
  "origin_entries at [] = []"
| "origin_entries at ((c, start, fin) # rest) =
     ((c, start, fin), at) #
     (if start < fin \<and> \<not> (rest \<noteq> [] \<and> is_continuation (hd rest))
      then replicate (length c - 1) ((CONTINUATION, fin + 1, fin), at + 1) else []) @
     origin_entries (at + 1) rest"

definition with_origins :: "traced list \<Rightarrow> cbuffer \<times> nat list" where
  "with_origins text =
     (let fin = snd (extent text); entries = origin_entries 0 text
      in (map fst entries @ [(NUL, fin, fin), (NUL, fin, fin)],
          map snd entries @ [length text, length text]))"

definition cb_new :: "traced list \<Rightarrow> cbuffer" where
  "cb_new text = fst (with_origins text)"

definition cb_terminate :: "nat \<Rightarrow> cbuffer \<Rightarrow> cbuffer" where
  "cb_terminate i b = (if i < length b then b[i := (NUL, snd (b ! i))] else b)"

definition cb_c_str :: "cbuffer \<Rightarrow> nat \<Rightarrow> traced list" where
  "cb_c_str b i = takeWhile (\<lambda>e. fst e \<noteq> NUL) (drop i b)"

definition cb_cleanup :: "nat \<Rightarrow> rchar option \<Rightarrow> cbuffer \<Rightarrow> nat \<times> cbuffer" where
  "cb_cleanup i delim b =
     (let raw = cb_c_str b i;
          start = i + (length raw - length (skip_spaces raw));
          (written, stop) = cleanup_written raw delim;
          b = take start b @ written @ drop (start + length written) b
      in (start, case stop of Some stop \<Rightarrow> cb_terminate (start + stop) b | None \<Rightarrow> b))"

text \<open>The tokens of \<open>split\<close>, cleaned one after the other in the buffer.\<close>

fun cb_tokens :: "nat \<Rightarrow> rchar option \<Rightarrow> (nat \<times> nat) list \<Rightarrow> cbuffer \<Rightarrow> split_token list \<times> cbuffer" where
  "cb_tokens index delim [] b = ([], b)"
| "cb_tokens index delim ((first, fin) # spans) b =
     (let (start, b) = cb_cleanup (index + first) delim b;
          (tokens, b) = cb_tokens index delim spans b
      in (\<lparr>tok_raw = (index + first, index + fin), tok_start = start\<rparr> # tokens, b))"

definition cb_split :: "nat \<Rightarrow> rchar \<Rightarrow> nat \<Rightarrow> cbuffer \<Rightarrow> split \<times> cbuffer" where
  "cb_split index delim limit b =
     (let cut = (if limit = 0 then \<lparr>cut_spans = [], cut_held_delimiter = False, cut_open_quote = False\<rparr>
                 else if delim = SPACE then blank_delim (drop index b) limit
                 else char_delim (drop index b) delim limit);
          b = fold (\<lambda>span b. if char_at b (index + snd span) = delim then cb_terminate (index + snd span) b else b)
                (cut_spans cut) b;
          (tokens, b) = cb_tokens index (if delim \<noteq> SPACE then Some delim else None) (cut_spans cut) b
      in (\<lparr>sp_tokens = tokens, sp_delimiter = delim, sp_held_delimiter = cut_held_delimiter cut,
           sp_open_quote = cut_open_quote cut, sp_unreadable_head = False\<rparr>, b))"

definition cb_separate :: "nat \<Rightarrow> rchar \<Rightarrow> nat \<Rightarrow> cbuffer \<Rightarrow> split \<times> cbuffer" where
  "cb_separate index delim limit b =
     (case argument_head (cb_c_str b index) of
        Picked picked \<Rightarrow> cb_split (index + 3) picked limit b
      | Unreadable \<Rightarrow> (let (sp, b) = cb_split index delim limit b in (sp\<lparr>sp_unreadable_head := True\<rparr>, b))
      | Absent \<Rightarrow> cb_split index delim limit b)"

section \<open>Splits of a text\<close>

record token =
  token_raw :: "nat \<times> nat"
  token_text :: "traced list"

record separated =
  sd_tokens :: "token list"
  sd_delimiter :: rchar
  sd_held_delimiter :: bool
  sd_open_quote :: bool

definition read_back :: "traced list \<Rightarrow> (cbuffer \<Rightarrow> split \<times> cbuffer) \<Rightarrow> separated" where
  "read_back text cut_in =
     (let (b, origins) = with_origins text;
          (sp, b) = cut_in b;
          within = (\<lambda>at. if at < length origins then min (origins ! at) (length text) else length text)
      in \<lparr>sd_tokens = map (\<lambda>t. \<lparr>token_raw = (within (fst (tok_raw t)), within (snd (tok_raw t))),
             token_text = filter (\<lambda>e. \<not> is_continuation e) (cb_c_str b (tok_start t))\<rparr>) (sp_tokens sp),
          sd_delimiter = sp_delimiter sp, sd_held_delimiter = sp_held_delimiter sp,
          sd_open_quote = sp_open_quote sp\<rparr>)"

definition separate :: "traced list \<Rightarrow> rchar \<Rightarrow> nat \<Rightarrow> separated" where
  "separate text delim limit = read_back text (cb_separate 0 delim limit)"

definition separate_on :: "traced list \<Rightarrow> rchar \<Rightarrow> nat \<Rightarrow> separated" where
  "separate_on text delim limit = read_back text (cb_split 0 delim limit)"

definition USIZE_MAX :: nat where
  "USIZE_MAX = 2 ^ 64 - 1"

definition slice :: "'a list \<Rightarrow> nat \<times> nat \<Rightarrow> 'a list" where
  "slice xs r = take (snd r - fst r) (drop (fst r) xs)"

definition separate_string_char_delim :: "string \<Rightarrow> rchar \<Rightarrow> string list" where
  "separate_string_char_delim s delim =
     (let text = trace s
      in map (\<lambda>span. untrace (cleanup (slice text span) (Some delim))) (cut_spans (char_delim text delim USIZE_MAX)))"

section \<open>Parentheses and substrings\<close>

fun end_paren_loop :: "rchar \<Rightarrow> rchar \<Rightarrow> nat \<Rightarrow> nat \<Rightarrow> traced list \<Rightarrow> nat option" where
  "end_paren_loop opn cls depth i [] = None"
| "end_paren_loop opn cls depth i ((c, p) # rest) =
     (if c = opn \<and> opn \<noteq> cls then end_paren_loop opn cls (depth + 1) (i + 1) rest
      else if c = cls
      then if depth - 1 = 0 then Some i else end_paren_loop opn cls (depth - 1) (i + 1) rest
      else end_paren_loop opn cls depth (i + 1) rest)"

definition find_end_paren :: "traced list \<Rightarrow> rchar \<Rightarrow> rchar \<Rightarrow> nat option" where
  "find_end_paren text opn cls =
     (let skip = length text - length (skip_spaces text)
      in if \<not> skip < length text \<or> fst (text ! skip) \<noteq> opn then None
         else end_paren_loop opn cls 1 (skip + 1) (drop (skip + 1) text))"

definition find_text :: "traced list \<Rightarrow> string \<Rightarrow> nat option" where
  "find_text text needle =
     (let needle = chars needle
      in if length text < length needle then None
         else find (\<lambda>i. map fst (take (length needle) (drop i text)) = needle)
                [0..<Suc (length text - length needle)])"

function string_spans ::
  "traced list \<Rightarrow> string \<Rightarrow> nat \<Rightarrow> (nat \<times> nat) list \<Rightarrow> nat \<Rightarrow> (nat \<times> nat) list" where
  "string_spans text delim limit spans start =
     (if length spans + 1 < limit
      then case find_text (drop start text) delim of
             None \<Rightarrow> spans @ [(start, length text)]
           | Some at \<Rightarrow> string_spans text delim limit (spans @ [(start, start + at)])
                          (start + at + length (chars delim))
      else spans @ [(start, length text)])"
  by pat_completeness auto
termination by (relation "measure (\<lambda>(_, _, limit, spans, _). limit - length spans)") auto

declare string_spans.simps [simp del]

definition separate_string_string :: "traced list \<Rightarrow> string \<Rightarrow> nat \<Rightarrow> (nat \<times> nat) list" where
  "separate_string_string text delim limit = string_spans text delim limit [] 0"

end
