(* ===== verification/Separate_Tokens.thy ===== *)
theory Separate_Tokens
  imports Separate
begin

text \<open>
  Escaped tokens and how the separators read them. An escaped token is a list of pieces: a
  character that stands for itself, an escape, a backslash that the separator keeps, or a quoted run of these. Both scanners pass over
  such a token without cutting it, \<open>cleanup\<close> reads the characters it stands for, so a list of tokens
  joined by the delimiter comes back from the split. The last part rests on the contract
  \<open>token_scanner\<close> alone, which both scanners meet.
\<close>

section \<open>Pieces\<close>

datatype atom = Chr rchar | Esc rchar rchar | Hold rchar
datatype piece = Plain rchar | Escape rchar rchar | Kept rchar | Quoted "atom list"

fun atom_writes :: "atom \<Rightarrow> rchar list" where
  "atom_writes (Chr c) = [c]"
| "atom_writes (Esc e c) = [BACKSLASH, e]"
| "atom_writes (Hold c) = [BACKSLASH, c]"

fun atom_reads :: "atom \<Rightarrow> rchar list" where
  "atom_reads (Chr c) = [c]"
| "atom_reads (Esc e c) = [c]"
| "atom_reads (Hold c) = [BACKSLASH, c]"

text \<open>A character behind a backslash that no escape consumes.\<close>

definition held :: "rchar option \<Rightarrow> rchar \<Rightarrow> bool" where
  "held delim c \<longleftrightarrow> c \<notin> {NUL, SPACE} \<and> unescape c delim = None"

lemma heldD: "held delim c \<Longrightarrow> c \<notin> {NUL, SPACE, QUOTE, BACKSLASH} \<and> unescape c delim = None"
  by (auto simp: held_def unescape_def)

fun atom_ok :: "rchar option \<Rightarrow> atom \<Rightarrow> bool" where
  "atom_ok delim (Chr c) \<longleftrightarrow> c \<notin> {BACKSLASH, QUOTE, NUL}"
| "atom_ok delim (Esc e c) \<longleftrightarrow> e \<noteq> NUL \<and> unescape e delim = Some c"
| "atom_ok delim (Hold c) \<longleftrightarrow> held delim c"

abbreviation run_writes :: "atom list \<Rightarrow> rchar list" where
  "run_writes as \<equiv> concat (map atom_writes as)"

abbreviation run_reads :: "atom list \<Rightarrow> rchar list" where
  "run_reads as \<equiv> concat (map atom_reads as)"

fun piece_writes :: "piece \<Rightarrow> rchar list" where
  "piece_writes (Plain c) = [c]"
| "piece_writes (Escape e c) = [BACKSLASH, e]"
| "piece_writes (Kept c) = [BACKSLASH, c]"
| "piece_writes (Quoted as) = QUOTE # run_writes as @ [QUOTE]"

fun piece_reads :: "piece \<Rightarrow> rchar list" where
  "piece_reads (Plain c) = [c]"
| "piece_reads (Escape e c) = [c]"
| "piece_reads (Kept c) = [BACKSLASH, c]"
| "piece_reads (Quoted as) = run_reads as"

fun piece_ok :: "rchar \<Rightarrow> rchar option \<Rightarrow> piece \<Rightarrow> bool" where
  "piece_ok sep delim (Plain c) \<longleftrightarrow> c \<notin> {BACKSLASH, QUOTE, NUL, sep}"
| "piece_ok sep delim (Escape e c) \<longleftrightarrow> e \<noteq> NUL \<and> unescape e delim = Some c"
| "piece_ok sep delim (Kept c) \<longleftrightarrow> held delim c"
| "piece_ok sep delim (Quoted as) \<longleftrightarrow> list_all (atom_ok delim) as"

text \<open>Whether quotes hold a delimiter, which the scanners report.\<close>

definition holds :: "rchar \<Rightarrow> piece list \<Rightarrow> bool" where
  "holds sep ps \<longleftrightarrow> list_ex (\<lambda>p. case p of Quoted as \<Rightarrow> Chr sep \<in> set as | _ \<Rightarrow> False) ps"

lemma holds_simps [simp]:
  "\<not> holds sep []" "holds sep (Plain c # ps) = holds sep ps" "holds sep (Escape e c # ps) = holds sep ps"
  "holds sep (Kept c # ps) = holds sep ps"
  "holds sep (Quoted as # ps) \<longleftrightarrow> Chr sep \<in> set as \<or> holds sep ps"
  by (simp_all add: holds_def)

definition writes :: "piece list \<Rightarrow> rchar list" where
  "writes ps = concat (map piece_writes ps)"

definition reads :: "piece list \<Rightarrow> rchar list" where
  "reads ps = concat (map piece_reads ps)"

text \<open>A token that keeps its edges: pieces that neither begin nor end with a bare space.\<close>

definition token_ok :: "rchar \<Rightarrow> rchar option \<Rightarrow> piece list \<Rightarrow> bool" where
  "token_ok sep delim ps \<longleftrightarrow> list_all (piece_ok sep delim) ps \<and>
     (ps = [] \<or> hd ps \<noteq> Plain SPACE \<and> last ps \<noteq> Plain SPACE)"

lemma writes_simps [simp]:
  "writes [] = []" "writes (p # ps) = piece_writes p @ writes ps" "writes (ps @ qs) = writes ps @ writes qs"
  by (simp_all add: writes_def)

lemma reads_simps [simp]:
  "reads [] = []" "reads (p # ps) = piece_reads p @ reads ps" "reads (ps @ qs) = reads ps @ reads qs"
  by (simp_all add: reads_def)

lemma writes_Nil_iff [simp]: "writes ps = [] \<longleftrightarrow> ps = []"
proof (cases ps)
  case (Cons p qs)
  then show ?thesis by (cases p) simp_all
qed simp

lemma Nil_writes_iff [simp]: "[] = writes ps \<longleftrightarrow> ps = []"
  using writes_Nil_iff [of ps] by metis

lemma map_fst_ConsD: "map fst ts = c # cs \<Longrightarrow> \<exists>p ts'. ts = (c, p) # ts' \<and> map fst ts' = cs"
  by (cases ts) auto

lemma map_fst_appendD: "map fst ts = a @ b \<Longrightarrow> \<exists>ta tb. ts = ta @ tb \<and> map fst ta = a \<and> map fst tb = b"
  by (simp add: map_eq_append_conv) metis

lemma has_quote_Cons [simp]: "has_quote ((QUOTE, p) # rest)"
  by (simp add: has_quote_def)

lemma has_quote_through: "NUL \<notin> fst ` set w \<Longrightarrow> has_quote (w @ (QUOTE, p) # rest)"
  by (induction w) (auto simp: has_quote_def)

lemma run_no_NUL: "list_all (atom_ok d) as \<Longrightarrow> NUL \<notin> set (run_writes as)"
proof (induction as)
  case (Cons a as)
  then show ?case by (cases a) (auto dest: heldD)
qed simp

lemma atom_split:
  assumes "map fst w = run_writes (a # as)"
  shows "\<exists>wa w'. w = wa @ w' \<and> map fst wa = atom_writes a \<and> map fst w' = run_writes as"
  using assms by (auto dest: map_fst_appendD)

lemma quoted_split:
  assumes "map fst w = piece_writes (Quoted as) @ cs" and "list_all (atom_ok d) as"
  shows "\<exists>q q' wa w'. w = (QUOTE, q) # wa @ (QUOTE, q') # w' \<and> map fst wa = run_writes as \<and> map fst w' = cs
    \<and> (\<forall>rest. has_quote (wa @ (QUOTE, q') # rest))"
proof -
  from assms(1) obtain q w1 where w1: "w = (QUOTE, q) # w1" "map fst w1 = run_writes as @ QUOTE # cs"
    by (auto dest: map_fst_ConsD)
  from map_fst_appendD [OF w1(2)] obtain wa wb where wb: "w1 = wa @ wb" "map fst wa = run_writes as" "map fst wb = QUOTE # cs"
    by auto
  from map_fst_ConsD [OF wb(3)] obtain q' w' where w': "wb = (QUOTE, q') # w'" "map fst w' = cs" by auto
  have "NUL \<notin> fst ` set wa" using run_no_NUL [OF assms(2)] wb(2) by (metis list.set_map)
  with w1(1) wb(1,2) w' show ?thesis
    by (intro exI [of _ q] exI [of _ q'] exI [of _ wa] exI [of _ w']) (simp add: has_quote_through)
qed

section \<open>The scanners pass over a token\<close>

lemma char_delim_run:
  assumes "list_all (atom_ok d) as" and "map fst w = run_writes as" and "cs_begin v = Some b" and "cs_inside_quotes v"
  shows "char_delim_loop delim limit i (w @ rest) v =
    char_delim_loop delim limit (i + length w) rest (v\<lparr>cs_held_delimiter := cs_held_delimiter v \<or> delim \<notin> {BACKSLASH, QUOTE} \<and> Chr delim \<in> set as\<rparr>)"
  using assms
proof (induction as arbitrary: w i v)
  case (Cons a as)
  have v: "v\<lparr>cs_begin := Some b\<rparr> = v" using Cons.prems by simp
  from atom_split [OF Cons.prems(2)] obtain wa w' where w: "w = wa @ w'" "map fst wa = atom_writes a" "map fst w' = run_writes as"
    by auto
  show ?case
  proof (cases a)
    case (Chr c)
    then obtain q where wa: "wa = [(c, q)]" using w(2) by (auto dest: map_fst_ConsD)
    show ?thesis
    proof (cases "c = delim")
      case True
      have "char_delim_loop delim limit i (w @ rest) v = char_delim_loop delim limit (i + 1) (w' @ rest) (v\<lparr>cs_held_delimiter := True\<rparr>)"
        using Cons.prems Chr w(1) wa True by (simp add: char_delim_loop.simps v)
      with Cons.IH [OF _ w(3), of "v\<lparr>cs_held_delimiter := True\<rparr>" "i + 1"] Cons.prems Chr wa w(1) True show ?thesis
        by simp
    next
      case False
      have "char_delim_loop delim limit i (w @ rest) v = char_delim_loop delim limit (i + 1) (w' @ rest) v"
        using Cons.prems Chr w(1) wa False by (simp add: char_delim_loop.simps v)
      with Cons.IH [OF _ w(3), of v "i + 1"] Cons.prems Chr wa w(1) False show ?thesis by simp
    qed
  next
    case (Esc e c)
    then obtain q r where wa: "wa = [(BACKSLASH, q), (e, r)]" using w(2) by (auto dest!: map_fst_ConsD)
    have "char_delim_loop delim limit i (w @ rest) v = char_delim_loop delim limit (i + 2) (w' @ rest) v"
      using Cons.prems w(1) wa by (simp add: char_delim_loop.simps v)
    with Cons.IH [OF _ w(3), of v "i + 2"] Cons.prems Esc wa w(1) show ?thesis by simp
  next
    case (Hold c)
    then obtain q r where wa: "wa = [(BACKSLASH, q), (c, r)]" using w(2) by (auto dest!: map_fst_ConsD)
    have "char_delim_loop delim limit i (w @ rest) v = char_delim_loop delim limit (i + 2) (w' @ rest) v"
      using Cons.prems w(1) wa by (simp add: char_delim_loop.simps v)
    with Cons.IH [OF _ w(3), of v "i + 2"] Cons.prems Hold wa w(1) show ?thesis by simp
  qed
qed simp

lemma char_delim_skip:
  assumes "list_all (piece_ok delim d) ps" and "map fst w = writes ps" and "cs_begin v = Some b"
    and "\<not> cs_inside_quotes v" and "delim \<notin> {BACKSLASH, QUOTE}"
  shows "char_delim_loop delim limit i (w @ rest) v =
    char_delim_loop delim limit (i + length w) rest (v\<lparr>cs_held_delimiter := cs_held_delimiter v \<or> holds delim ps\<rparr>)"
  using assms
proof (induction ps arbitrary: w i v)
  case (Cons p ps)
  have v: "v\<lparr>cs_begin := Some b\<rparr> = v" using Cons.prems by simp
  show ?case
  proof (cases p)
    case (Plain c)
    then obtain q w' where "w = (c, q) # w'" "map fst w' = writes ps"
      using Cons.prems(2) by (auto dest: map_fst_ConsD)
    with Cons Plain show ?thesis by (simp add: char_delim_loop.simps v)
  next
    case (Escape e c)
    then obtain q r w' where "w = (BACKSLASH, q) # (e, r) # w'" "map fst w' = writes ps"
      using Cons.prems(2) by (auto dest!: map_fst_ConsD)
    with Cons Escape show ?thesis by (simp add: char_delim_loop.simps v)
  next
    case (Kept c)
    then obtain q r w' where "w = (BACKSLASH, q) # (c, r) # w'" "map fst w' = writes ps"
      using Cons.prems(2) by (auto dest!: map_fst_ConsD)
    with Cons Kept show ?thesis by (simp add: char_delim_loop.simps v)
  next
    case (Quoted as)
    have as: "list_all (atom_ok d) as" using Cons.prems(1) Quoted by simp
    obtain q q' wa w' where
      w: "w = (QUOTE, q) # wa @ (QUOTE, q') # w'" "map fst wa = run_writes as" "map fst w' = writes ps"
      "\<forall>rest. has_quote (wa @ (QUOTE, q') # rest)"
      using quoted_split [OF _ as, of w "writes ps"] Cons.prems(2) unfolding Quoted writes_simps by blast
    let ?u = "v\<lparr>cs_inside_quotes := True\<rparr>"
    let ?w = "v\<lparr>cs_held_delimiter := cs_held_delimiter v \<or> Chr delim \<in> set as\<rparr>"
    have "char_delim_loop delim limit i (w @ rest) v = char_delim_loop delim limit (i + 1) (wa @ (QUOTE, q') # w' @ rest) ?u"
      using Cons.prems(3,4) w(1,4) by (simp add: char_delim_loop.simps v)
    also have "\<dots> = char_delim_loop delim limit (i + 1 + length wa) ((QUOTE, q') # w' @ rest)
        (?u\<lparr>cs_held_delimiter := cs_held_delimiter v \<or> Chr delim \<in> set as\<rparr>)"
      using Cons.prems(3,5) by (subst char_delim_run [OF as w(2)]) auto
    also have "\<dots> = char_delim_loop delim limit (i + 1 + length wa + 1) (w' @ rest) ?w"
      using Cons.prems(3,4) v by (cases v) (simp add: char_delim_loop.simps)
    also have "\<dots> = char_delim_loop delim limit (i + length w) rest
        (v\<lparr>cs_held_delimiter := cs_held_delimiter v \<or> holds delim (p # ps)\<rparr>)"
      using Cons.IH [OF _ w(3), of ?w] Cons.prems w(1) Quoted by (simp add: disj_assoc add.assoc)
    finally show ?thesis .
  qed
qed simp

lemma blank_delim_run:
  assumes "list_all (atom_ok d) as" and "map fst w = run_writes as" and "bs_state v = FindDelim" and "bs_inside_quotes v"
  shows "blank_delim_loop limit i (w @ rest) v =
    blank_delim_loop limit (i + length w) rest (v\<lparr>bs_held_delimiter := bs_held_delimiter v \<or> Chr SPACE \<in> set as\<rparr>)"
  using assms
proof (induction as arbitrary: w i v)
  case (Cons a as)
  from atom_split [OF Cons.prems(2)] obtain wa w' where w: "w = wa @ w'" "map fst wa = atom_writes a" "map fst w' = run_writes as"
    by auto
  show ?case
  proof (cases a)
    case (Chr c)
    then obtain q where wa: "wa = [(c, q)]" using w(2) by (auto dest: map_fst_ConsD)
    let ?v = "if c = SPACE then v\<lparr>bs_held_delimiter := True\<rparr> else v"
    have "blank_delim_loop limit i (w @ rest) v = blank_delim_loop limit (i + 1) (w' @ rest) ?v"
      using Cons.prems Chr w(1) wa by (simp add: blank_delim_loop.simps)
    with Cons.IH [OF _ w(3), of ?v "i + 1"] Cons.prems Chr wa w(1) show ?thesis by (cases "c = SPACE") auto
  next
    case (Esc e c)
    then obtain q r where wa: "wa = [(BACKSLASH, q), (e, r)]" using w(2) by (auto dest!: map_fst_ConsD)
    have "blank_delim_loop limit i (w @ rest) v = blank_delim_loop limit (i + 2) (w' @ rest) v"
      using Cons.prems w(1) wa by (simp add: blank_delim_loop.simps)
    with Cons.IH [OF _ w(3), of v "i + 2"] Cons.prems Esc wa w(1) show ?thesis by simp
  next
    case (Hold c)
    then obtain q r where wa: "wa = [(BACKSLASH, q), (c, r)]" using w(2) by (auto dest!: map_fst_ConsD)
    have "blank_delim_loop limit i (w @ rest) v = blank_delim_loop limit (i + 2) (w' @ rest) v"
      using Cons.prems w(1) wa by (simp add: blank_delim_loop.simps)
    with Cons.IH [OF _ w(3), of v "i + 2"] Cons.prems Hold wa w(1) show ?thesis by simp
  qed
qed simp

lemma blank_delim_skip:
  assumes "list_all (piece_ok SPACE d) ps" and "map fst w = writes ps" and "bs_state v = FindDelim"
    and "\<not> bs_inside_quotes v"
  shows "blank_delim_loop limit i (w @ rest) v =
    blank_delim_loop limit (i + length w) rest (v\<lparr>bs_held_delimiter := bs_held_delimiter v \<or> holds SPACE ps\<rparr>)"
  using assms
proof (induction ps arbitrary: w i v)
  case (Cons p ps)
  show ?case
  proof (cases p)
    case (Plain c)
    then obtain q w' where "w = (c, q) # w'" "map fst w' = writes ps"
      using Cons.prems(2) by (auto dest: map_fst_ConsD)
    with Cons Plain show ?thesis by (simp add: blank_delim_loop.simps)
  next
    case (Escape e c)
    then obtain q r w' where "w = (BACKSLASH, q) # (e, r) # w'" "map fst w' = writes ps"
      using Cons.prems(2) by (auto dest!: map_fst_ConsD)
    with Cons Escape show ?thesis by (simp add: blank_delim_loop.simps)
  next
    case (Kept c)
    then obtain q r w' where "w = (BACKSLASH, q) # (c, r) # w'" "map fst w' = writes ps"
      using Cons.prems(2) by (auto dest!: map_fst_ConsD)
    with Cons Kept show ?thesis by (simp add: blank_delim_loop.simps)
  next
    case (Quoted as)
    have as: "list_all (atom_ok d) as" using Cons.prems(1) Quoted by simp
    obtain q q' wa w' where
      w: "w = (QUOTE, q) # wa @ (QUOTE, q') # w'" "map fst wa = run_writes as" "map fst w' = writes ps"
      using quoted_split [OF _ as, of w "writes ps"] Cons.prems(2) unfolding Quoted writes_simps by blast
    let ?u = "v\<lparr>bs_inside_quotes := True\<rparr>"
    let ?w = "v\<lparr>bs_held_delimiter := bs_held_delimiter v \<or> Chr SPACE \<in> set as\<rparr>"
    have "blank_delim_loop limit i (w @ rest) v = blank_delim_loop limit (i + 1) (wa @ (QUOTE, q') # w' @ rest) ?u"
      using Cons.prems(3,4) w(1) by (simp add: blank_delim_loop.simps)
    also have "\<dots> = blank_delim_loop limit (i + 1 + length wa) ((QUOTE, q') # w' @ rest)
        (?u\<lparr>bs_held_delimiter := bs_held_delimiter v \<or> Chr SPACE \<in> set as\<rparr>)"
      using Cons.prems(3) by (subst blank_delim_run [OF as w(2)]) auto
    also have "\<dots> = blank_delim_loop limit (i + 1 + length wa + 1) (w' @ rest) ?w"
      using Cons.prems(3,4) by (cases v) (simp add: blank_delim_loop.simps)
    also have "\<dots> = blank_delim_loop limit (i + length w) rest
        (v\<lparr>bs_held_delimiter := bs_held_delimiter v \<or> holds SPACE (p # ps)\<rparr>)"
      using Cons.IH [OF _ w(3), of ?w] Cons.prems w(1) Quoted by (simp add: disj_assoc add.assoc)
    finally show ?thesis .
  qed
qed simp

section \<open>Cleanup reads a token\<close>

text \<open>A kept backslash and the character behind it are written one after the other.\<close>

lemma cleanup_loop_held:
  assumes "held d c"
  shows "cleanup_loop d q out stop ((BACKSLASH, x) # (c, y) # rest) =
    cleanup_loop d q (out @ [(BACKSLASH, x), (c, y)]) (Some (length out + 2)) rest"
  using heldD [OF assms] by (cases x; cases y) (simp add: cleanup_loop.simps)

lemma cleanup_loop_run:
  assumes "list_all (atom_ok d) as" and "map fst w = run_writes as"
  shows "\<exists>r. cleanup_loop d True out (Some (length out)) (w @ rest) = cleanup_loop d True (out @ r) (Some (length out + length r)) rest
    \<and> map fst r = run_reads as"
  using assms
proof (induction as arbitrary: w out)
  case (Cons a as)
  from atom_split [OF Cons.prems(2)] obtain wa w' where w: "w = wa @ w'" "map fst wa = atom_writes a" "map fst w' = run_writes as"
    by auto
  obtain x where x: "cleanup_loop d True out (Some (length out)) (w @ rest) =
      cleanup_loop d True (out @ x) (Some (length (out @ x))) (w' @ rest)" "map fst x = atom_reads a"
  proof (cases a)
    case (Chr c)
    then obtain q q' where wa: "wa = [(c, q, q')]" using w(2) by (auto dest: map_fst_ConsD)
    with Chr Cons.prems(1) w(1) show thesis by (intro that [of "[(c, q, q')]"]) (simp_all add: cleanup_loop.simps)
  next
    case (Esc e c)
    then obtain q q' r r' where wa: "wa = [(BACKSLASH, q, q'), (e, r, r')]" using w(2) by (auto dest!: map_fst_ConsD)
    with Esc Cons.prems(1) w(1) show thesis by (intro that [of "[(c, q, r')]"]) (simp_all add: cleanup_loop.simps)
  next
    case (Hold c)
    then obtain q r where wa: "wa = [(BACKSLASH, q), (c, r)]" using w(2) by (auto dest!: map_fst_ConsD)
    with Hold Cons.prems(1) w(1) show thesis by (intro that [of "[(BACKSLASH, q), (c, r)]"]) (simp_all add: cleanup_loop_held)
  qed
  obtain r where "cleanup_loop d True (out @ x) (Some (length (out @ x))) (w' @ rest) =
      cleanup_loop d True ((out @ x) @ r) (Some (length (out @ x) + length r)) rest" "map fst r = run_reads as"
    using Cons.IH [OF _ w(3), of "out @ x"] Cons.prems(1) by auto
  with x show ?case by (intro exI [of _ "x @ r"]) (simp add: add.assoc)
qed auto

lemma cleanup_loop_token:
  assumes "list_all (piece_ok sep d) ps" and "map fst w = writes ps" and "ps \<noteq> []" and "last ps \<noteq> Plain SPACE"
  shows "\<exists>r. cleanup_loop d False out stop w = (out @ r, Some (length out + length r)) \<and> map fst r = reads ps"
  using assms
proof (induction ps arbitrary: w out stop)
  case (Cons p ps)
  have *: "\<exists>r. cleanup_loop d False out1 stop1 w' = (out1 @ r, Some (length out1 + length r)) \<and> map fst r = reads ps"
    if "map fst w' = writes ps" "ps = [] \<Longrightarrow> stop1 = Some (length out1)" for w' out1 stop1
    using Cons.IH [of w' out1 stop1] Cons.prems that by (cases "ps = []") auto
  show ?case
  proof (cases p)
    case (Plain c)
    then obtain s e w' where w: "w = (c, s, e) # w'" "map fst w' = writes ps"
      using Cons.prems(2) by (auto dest: map_fst_ConsD)
    from Plain Cons.prems(1) have c: "c \<noteq> BACKSLASH" "c \<noteq> QUOTE" by auto
    obtain r where "cleanup_loop d False (out @ [(c, s, e)]) (if c \<noteq> SPACE then Some (length out + 1) else stop) w' =
        ((out @ [(c, s, e)]) @ r, Some (length (out @ [(c, s, e)]) + length r))" "map fst r = reads ps"
      using * [OF w(2), of "if c \<noteq> SPACE then Some (length out + 1) else stop" "out @ [(c, s, e)]"]
        Plain Cons.prems(4) by (auto split: if_splits)
    with w c Plain show ?thesis by (intro exI [of _ "(c, s, e) # r"]) (simp add: cleanup_loop.simps)
  next
    case (Escape e c)
    then obtain q q' r r' w' where w: "w = (BACKSLASH, q, q') # (e, r, r') # w'" "map fst w' = writes ps"
      using Cons.prems(2) by (auto dest!: map_fst_ConsD)
    obtain t where "cleanup_loop d False (out @ [(c, q, r')]) (Some (length out + 1)) w' =
        ((out @ [(c, q, r')]) @ t, Some (length (out @ [(c, q, r')]) + length t))" "map fst t = reads ps"
      using * [OF w(2), of "Some (length out + 1)" "out @ [(c, q, r')]"] by auto
    with w Escape Cons.prems(1) show ?thesis
      by (intro exI [of _ "(c, q, r') # t"]) (simp add: cleanup_loop.simps)
  next
    case (Kept c)
    then obtain q r w' where w: "w = (BACKSLASH, q) # (c, r) # w'" "map fst w' = writes ps"
      using Cons.prems(2) by (auto dest!: map_fst_ConsD)
    let ?o = "out @ [(BACKSLASH, q), (c, r)]"
    obtain t where "cleanup_loop d False ?o (Some (length out + 2)) w' = (?o @ t, Some (length ?o + length t))" "map fst t = reads ps"
      using * [OF w(2), of "Some (length out + 2)" ?o] by auto
    with w Kept Cons.prems(1) show ?thesis
      by (intro exI [of _ "(BACKSLASH, q) # (c, r) # t"]) (simp add: cleanup_loop_held)
  next
    case (Quoted as)
    have as: "list_all (atom_ok d) as" using Cons.prems(1) Quoted by simp
    obtain q q' wa w' where
      w: "w = (QUOTE, q) # wa @ (QUOTE, q') # w'" "map fst wa = run_writes as" "map fst w' = writes ps"
      "\<forall>rest. has_quote (wa @ (QUOTE, q') # rest)"
      using quoted_split [OF _ as, of w "writes ps"] Cons.prems(2) unfolding Quoted writes_simps by blast
    obtain r where r: "cleanup_loop d True out (Some (length out)) (wa @ (QUOTE, q') # w') =
        cleanup_loop d True (out @ r) (Some (length out + length r)) ((QUOTE, q') # w')" "map fst r = run_reads as"
      using cleanup_loop_run [OF as w(2)] by auto
    obtain t where "cleanup_loop d False (out @ r) (Some (length (out @ r))) w' =
        ((out @ r) @ t, Some (length (out @ r) + length t))" "map fst t = reads ps"
      using * [OF w(3), of "Some (length (out @ r))" "out @ r"] by auto
    moreover have "cleanup_loop d False out stop w = cleanup_loop d True out (Some (length out)) (wa @ (QUOTE, q') # w')"
      using w(1,4) by (cases q) (simp add: cleanup_loop.simps)
    moreover have "cleanup_loop d True (out @ r) (Some (length out + length r)) ((QUOTE, q') # w') =
        cleanup_loop d False (out @ r) (Some (length (out @ r))) w'"
      by (cases q') (simp add: cleanup_loop.simps)
    ultimately show ?thesis using r Quoted by (intro exI [of _ "r @ t"]) simp
  qed
qed simp

lemma cleanup_token:
  assumes "token_ok sep d ps" and "map fst w = writes ps"
  shows "map fst (cleanup w d) = reads ps"
proof (cases ps)
  case Nil
  with assms show ?thesis by (simp add: cleanup_def cleanup_written_def skip_spaces_def)
next
  case (Cons p qs)
  have "skip_spaces w = w"
    using assms Cons by (cases p; cases w) (auto simp: token_ok_def skip_spaces_def)
  moreover obtain r where "cleanup_loop d False [] None w = ([] @ r, Some (length r))" "map fst r = reads ps"
    using cleanup_loop_token [of sep d ps w "[]" None] assms Cons by (auto simp: token_ok_def)
  ultimately show ?thesis by (simp add: cleanup_def cleanup_written_def)
qed

section \<open>Splitting joined tokens\<close>

fun join_with :: "'a \<Rightarrow> 'a list list \<Rightarrow> 'a list" where
  "join_with d [] = []"
| "join_with d [w] = w"
| "join_with d (w # ws) = w @ d # join_with d ws"

fun token_spans :: "nat \<Rightarrow> 'a list list \<Rightarrow> (nat \<times> nat) list" where
  "token_spans i [] = []"
| "token_spans i (w # ws) = (i, i + length w) # token_spans (i + length w + 1) ws"

lemma join_with_Cons: "ws \<noteq> [] \<Longrightarrow> join_with d (w # ws) = w @ d # join_with d ws"
  by (cases ws) simp_all

lemma length_token_spans [simp]: "length (token_spans i ws) = length ws"
  by (induction ws arbitrary: i) simp_all

lemma token_spans_Nil_iff [simp]: "token_spans i ws = [] \<longleftrightarrow> ws = []"
  by (cases ws) simp_all

lemma slice_token_spans:
  "map fst ts = join_with d ws \<Longrightarrow> length pre = i \<Longrightarrow>
   map (\<lambda>sp. map fst (slice (pre @ ts) sp)) (token_spans i ws) = ws"
proof (induction ws arbitrary: pre i ts)
  case (Cons w ws)
  show ?case
  proof (cases "ws = []")
    case True
    with Cons.prems show ?thesis by (simp add: slice_def) (metis length_map take_all order_refl)
  next
    case False
    from Cons.prems(1) obtain ta q tb where t: "ts = ta @ (d, q) # tb" "map fst ta = w" "map fst tb = join_with d ws"
      unfolding join_with_Cons [OF False] by (auto dest!: map_fst_appendD map_fst_ConsD)
    have "map (\<lambda>sp. map fst (slice ((pre @ ta @ [(d, q)]) @ tb) sp)) (token_spans (i + length w + 1) ws) = ws"
      using t(2) Cons.prems(2) by (intro Cons.IH [OF t(3)]) auto
    moreover have "length ta = length w" using t(2) by auto
    ultimately show ?thesis using t Cons.prems(2) by (simp add: slice_def)
  qed
qed simp

lemma char_delim_loop_joined:
  assumes "list_all (\<lambda>ps. list_all (piece_ok delim d) ps) pss" and "pss \<noteq> []" and "last pss \<noteq> []"
    and "map fst ts = join_with delim (map writes pss)" and "delim \<notin> {BACKSLASH, QUOTE, NUL}"
    and "length (cs_spans v) + length pss < limit" and "cs_begin v = None" "\<not> cs_inside_quotes v"
  shows "\<exists>b. char_delim_loop delim limit i ts v =
      (v\<lparr>cs_spans := cs_spans v @ butlast (token_spans i (map writes pss)), cs_begin := Some b,
          cs_held_delimiter := cs_held_delimiter v \<or> list_ex (holds delim) pss\<rparr>, None)
    \<and> (b, i + length ts) = last (token_spans i (map writes pss))"
  using assms
proof (induction pss arbitrary: ts v i)
  case (Cons ps pss)
  show ?case
  proof (cases "pss = []")
    case True
    with Cons.prems obtain c p rest where t: "ts = (c, p) # rest" by (cases ts) auto
    have ok: "list_all (piece_ok delim d) ps" "map fst ts = writes ps" using Cons.prems True by simp_all
    have c: "c \<noteq> NUL" using ok t Cons.prems(3) True by (cases ps; cases "hd ps") auto
    have "char_delim_loop delim limit i ts v = char_delim_loop delim limit i ts (v\<lparr>cs_begin := Some i\<rparr>)"
      using Cons.prems(6,7) c unfolding t by (simp add: char_delim_loop.simps)
    also have "\<dots> = (v\<lparr>cs_begin := Some i, cs_held_delimiter := cs_held_delimiter v \<or> holds delim ps\<rparr>, None)"
      using char_delim_skip [OF ok, of "v\<lparr>cs_begin := Some i\<rparr>" i limit i "[]"] Cons.prems(5,8) by simp
    finally show ?thesis using True ok(2) by (simp flip: ok(2))
  next
    case False
    from Cons.prems(4) obtain ta q tb where t: "ts = ta @ (delim, q) # tb" "map fst ta = writes ps"
      "map fst tb = join_with delim (map writes pss)"
      unfolding list.map(2) using False by (subst (asm) join_with_Cons) (auto dest!: map_fst_appendD map_fst_ConsD)
    let ?h = "cs_held_delimiter v \<or> holds delim ps"
    let ?v = "v\<lparr>cs_spans := cs_spans v @ [(i, i + length ta)], cs_begin := None, cs_held_delimiter := ?h\<rparr>"
    have ok: "list_all (piece_ok delim d) ps" using Cons.prems by simp
    have "char_delim_loop delim limit i ts v = char_delim_loop delim limit i ts (v\<lparr>cs_begin := Some i\<rparr>)"
    proof (cases ta)
      case Nil
      then show ?thesis using Cons.prems(5,6,7) unfolding t by (simp add: char_delim_loop.simps)
    next
      case (Cons e ta')
      with ok t(2) have "fst e \<noteq> NUL" by (cases ps; cases "hd ps") auto
      then show ?thesis using Cons.prems(6,7) unfolding t Cons by (cases e) (simp add: char_delim_loop.simps)
    qed
    also have "\<dots> = char_delim_loop delim limit (i + length ta) ((delim, q) # tb)
        (v\<lparr>cs_begin := Some i, cs_held_delimiter := ?h\<rparr>)"
      unfolding t(1) using Cons.prems(5,8) char_delim_skip [OF ok t(2), of "v\<lparr>cs_begin := Some i\<rparr>" i] by simp
    also have "\<dots> = char_delim_loop delim limit (i + length ta + 1) tb ?v"
      using Cons.prems(5,6,8) by (cases v) (simp add: char_delim_loop.simps)
    finally have eq: "char_delim_loop delim limit i ts v = char_delim_loop delim limit (i + length ta + 1) tb ?v" .
    have "length ta = length (writes ps)" using t(2) by (metis length_map)
    moreover obtain b where "char_delim_loop delim limit (i + length ta + 1) tb ?v =
        (?v\<lparr>cs_spans := cs_spans ?v @ butlast (token_spans (i + length ta + 1) (map writes pss)),
          cs_begin := Some b, cs_held_delimiter := cs_held_delimiter ?v \<or> list_ex (holds delim) pss\<rparr>, None)"
      "(b, i + length ta + 1 + length tb) = last (token_spans (i + length ta + 1) (map writes pss))"
      using Cons.IH [of tb ?v "i + length ta + 1"] Cons.prems False t(3) by auto
    ultimately show ?thesis
      unfolding eq by (intro exI [of _ b]) (cases v, simp add: t(1) False add_ac disj_assoc)
  qed
qed simp

lemma butlast_last: "xs \<noteq> [] \<Longrightarrow> x = last xs \<Longrightarrow> butlast xs @ [x] = xs"
  by simp

lemma char_delim_joined:
  assumes "list_all (\<lambda>ps. list_all (piece_ok delim d) ps) pss" and "pss = [] \<or> last pss \<noteq> []"
    and "map fst ts = join_with delim (map writes pss)" and "delim \<notin> {BACKSLASH, QUOTE, NUL}"
    and "length pss < limit"
  shows "char_delim ts delim limit = \<lparr>cut_spans = token_spans 0 (map writes pss),
      cut_held_delimiter = list_ex (holds delim) pss, cut_open_quote = False\<rparr>"
proof (cases "pss = []")
  case True
  with assms show ?thesis by (simp add: char_delim_def)
next
  case False
  with assms char_delim_loop_joined [of delim d pss ts
      "\<lparr>cs_spans = [], cs_begin = None, cs_inside_quotes = False, cs_held_delimiter = False\<rparr>" limit 0]
  obtain b where "char_delim_loop delim limit 0 ts
      \<lparr>cs_spans = [], cs_begin = None, cs_inside_quotes = False, cs_held_delimiter = False\<rparr> =
      (\<lparr>cs_spans = butlast (token_spans 0 (map writes pss)), cs_begin = Some b, cs_inside_quotes = False,
        cs_held_delimiter = list_ex (holds delim) pss\<rparr>, None)" and b: "(b, length ts) = last (token_spans 0 (map writes pss))"
    by auto
  then show ?thesis using False by (simp add: char_delim_def butlast_last)
qed

lemma blank_delim_loop_start:
  assumes "bs_state v \<in> {Start, SkipEndingSpace}" and "length (bs_spans v) + 1 < limit"
    and "c \<notin> {NUL, SPACE}"
  shows "blank_delim_loop limit i ((c, p) # rest) v =
    blank_delim_loop limit i ((c, p) # rest) (v\<lparr>bs_begin := i, bs_state := FindDelim\<rparr>)"
proof -
  have start: "blank_delim_loop limit i ((c, p) # rest) v =
      blank_delim_loop limit i ((c, p) # rest) (v\<lparr>bs_begin := i, bs_state := FindDelim\<rparr>)"
    if "bs_state v = Start" "length (bs_spans v) + 1 < limit" for v
    using that assms(3) by (simp add: blank_delim_loop.simps(2) [of limit i c p rest v]
        blank_delim_loop.simps(2) [of limit i c p rest "v\<lparr>bs_begin := i, bs_state := SkipInitialSpace\<rparr>"])
  show ?thesis
  proof (cases "bs_state v = Start")
    case False
    with assms have "blank_delim_loop limit i ((c, p) # rest) v =
        blank_delim_loop limit i ((c, p) # rest) (v\<lparr>bs_state := Start\<rparr>)"
      by (simp add: blank_delim_loop.simps(2) [of limit i c p rest v])
    with start [of "v\<lparr>bs_state := Start\<rparr>"] assms(2) show ?thesis by simp
  qed (use start assms(2) in simp)
qed

lemma token_first:
  assumes "token_ok sep d ps" and "ps \<noteq> []" and "map fst w = writes ps"
  shows "\<exists>c p w'. w = (c, p) # w' \<and> c \<notin> {NUL, SPACE}"
proof (cases ps)
  case (Cons q qs)
  with assms show ?thesis by (cases q) (auto simp: token_ok_def dest!: map_fst_ConsD)
qed (use assms in simp)

lemma blank_delim_loop_joined:
  assumes "list_all (\<lambda>ps. token_ok SPACE d ps \<and> ps \<noteq> []) pss" and "pss \<noteq> []"
    and "map fst ts = join_with SPACE (map writes pss)" and "length (bs_spans v) + length pss < limit"
    and "bs_state v \<in> {Start, SkipEndingSpace}" "\<not> bs_inside_quotes v"
  shows "\<exists>b. blank_delim_loop limit i ts v =
      (v\<lparr>bs_spans := bs_spans v @ butlast (token_spans i (map writes pss)), bs_begin := b, bs_state := FindDelim,
          bs_held_delimiter := bs_held_delimiter v \<or> list_ex (holds SPACE) pss\<rparr>, None)
    \<and> (b, i + length ts) = last (token_spans i (map writes pss))"
  using assms
proof (induction pss arbitrary: ts v i)
  case (Cons ps pss)
  have ok: "token_ok SPACE d ps" "ps \<noteq> []" "list_all (piece_ok SPACE d) ps"
    using Cons.prems(1) by (auto simp: token_ok_def)
  let ?h = "bs_held_delimiter v \<or> holds SPACE ps"
  let ?v = "v\<lparr>bs_begin := i, bs_state := FindDelim, bs_held_delimiter := ?h\<rparr>"
  have skip: "blank_delim_loop limit i (ta @ rest) v = blank_delim_loop limit (i + length ta) rest ?v"
    if w: "map fst ta = writes ps" for ta rest
  proof -
    obtain c p w' where "ta = (c, p) # w'" "c \<notin> {NUL, SPACE}" using token_first [OF ok(1,2) w] by auto
    then have "blank_delim_loop limit i (ta @ rest) v =
        blank_delim_loop limit i (ta @ rest) (v\<lparr>bs_begin := i, bs_state := FindDelim\<rparr>)"
      using blank_delim_loop_start [of v limit c i p "w' @ rest"] Cons.prems(4,5) by simp
    then show ?thesis
      using blank_delim_skip [OF ok(3) w, of "v\<lparr>bs_begin := i, bs_state := FindDelim\<rparr>"] Cons.prems(6) by simp
  qed
  show ?case
  proof (cases "pss = []")
    case True
    with Cons.prems(3) have w: "map fst ts = writes ps" by simp
    then show ?thesis using skip [OF w, of "[]"] True by (simp flip: w)
  next
    case False
    from Cons.prems(3) obtain ta q tb where t: "ts = ta @ (SPACE, q) # tb" "map fst ta = writes ps"
      "map fst tb = join_with SPACE (map writes pss)"
      unfolding list.map(2) using False by (subst (asm) join_with_Cons) (auto dest!: map_fst_appendD map_fst_ConsD)
    let ?w = "?v\<lparr>bs_spans := bs_spans v @ [(i, i + length ta)], bs_state := SkipEndingSpace\<rparr>"
    have eq: "blank_delim_loop limit i ts v = blank_delim_loop limit (i + length ta + 1) tb ?w"
      unfolding t(1) skip [OF t(2)] using Cons.prems(6) by (simp add: blank_delim_loop.simps)
    have "length ta = length (writes ps)" using t(2) by (metis length_map)
    moreover obtain b where "blank_delim_loop limit (i + length ta + 1) tb ?w =
        (?w\<lparr>bs_spans := bs_spans ?w @ butlast (token_spans (i + length ta + 1) (map writes pss)),
          bs_begin := b, bs_state := FindDelim, bs_held_delimiter := bs_held_delimiter ?w \<or> list_ex (holds SPACE) pss\<rparr>, None)"
      "(b, i + length ta + 1 + length tb) = last (token_spans (i + length ta + 1) (map writes pss))"
      using Cons.IH [of tb ?w "i + length ta + 1"] Cons.prems False t(3) by auto
    ultimately show ?thesis
      unfolding eq by (intro exI [of _ b]) (cases v, simp add: t(1) False add_ac disj_assoc)
  qed
qed simp

lemma blank_delim_joined:
  assumes "list_all (\<lambda>ps. token_ok SPACE d ps \<and> ps \<noteq> []) pss"
    and "map fst ts = join_with SPACE (map writes pss)" and "length pss < limit"
  shows "blank_delim ts limit = \<lparr>cut_spans = token_spans 0 (map writes pss),
      cut_held_delimiter = list_ex (holds SPACE) pss, cut_open_quote = False\<rparr>"
proof (cases "pss = []")
  case True
  with assms show ?thesis by (simp add: blank_delim_def)
next
  case False
  with assms blank_delim_loop_joined [of d pss ts
      "\<lparr>bs_spans = [], bs_state = Start, bs_begin = 0, bs_inside_quotes = False, bs_held_delimiter = False\<rparr>" limit 0]
  obtain b where "blank_delim_loop limit 0 ts
      \<lparr>bs_spans = [], bs_state = Start, bs_begin = 0, bs_inside_quotes = False, bs_held_delimiter = False\<rparr> =
      (\<lparr>bs_spans = butlast (token_spans 0 (map writes pss)), bs_state = FindDelim, bs_begin = b,
        bs_inside_quotes = False, bs_held_delimiter = list_ex (holds SPACE) pss\<rparr>, None)"
    and b: "(b, length ts) = last (token_spans 0 (map writes pss))"
    by auto
  then show ?thesis using False by (simp add: blank_delim_def butlast_last)
qed

section \<open>Positions\<close>

text \<open>A text as a trace leaves it: no continuation entries, and positions that grow.\<close>

definition ordered :: "traced list \<Rightarrow> bool" where
  "ordered ts \<longleftrightarrow> sorted_wrt (\<lambda>a b. fst (snd a) < snd (snd b)) ts \<and> (\<forall>e \<in> set ts. fst (snd e) < snd (snd e))"

lemma ordered_simps [simp]:
  "ordered []"
  "ordered ((c, s, e) # ts) \<longleftrightarrow> s < e \<and> (\<forall>t \<in> set ts. s < snd (snd t)) \<and> ordered ts"
  by (auto simp: ordered_def)

lemma ordered_append: "ordered (a @ b) \<Longrightarrow> ordered a \<and> ordered b"
  by (auto simp: ordered_def sorted_wrt_append)

lemma ordered_slice: "ordered ts \<Longrightarrow> ordered (slice ts sp)"
  unfolding slice_def by (metis append_take_drop_id ordered_append)

lemma ordered_not_continuation: "ordered ts \<Longrightarrow> e \<in> set ts \<Longrightarrow> \<not> is_continuation e"
  by (auto simp: ordered_def is_continuation_def)

lemma ordered_trace_from: "ordered (trace_from k s) \<and> (\<forall>e \<in> set (trace_from k s). k < snd (snd e))"
proof (induction k s rule: trace_from.induct)
  case (1 k s)
  show ?case
  proof (cases "s = []")
    case False
    with 1 utf8_next_pos [of s] show ?thesis by (subst (1 2) trace_from.simps) fastforce
  qed simp
qed

lemma ordered_trace [simp]: "ordered (trace s)"
  by (simp add: trace_def ordered_trace_from)

lemma cleanup_loop_positions:
  "ordered ts \<Longrightarrow> \<forall>e \<in> set out. fst (snd e) < snd (snd e) \<Longrightarrow>
   \<forall>e \<in> set (fst (cleanup_loop d q out stop ts)). fst (snd e) < snd (snd e)"
proof (induction d q out stop ts rule: cleanup_loop.induct)
  case (2 d q out stop c s e ts)
  have pos: "s < e" "ordered ts" "ordered (drop 1 ts)" "ts \<noteq> [] \<Longrightarrow> s < snd (snd (hd ts))"
    using "2.prems" ordered_append [of "take 1 ts" "drop 1 ts"] by (auto simp del: drop_Suc)
  show ?case
  proof (cases "if c = BACKSLASH \<and> ts \<noteq> []
      then map_option (\<lambda>e. (e, s, snd (snd (hd ts)))) (unescape (fst (hd ts)) d) else None")
    case None
    with 2 pos show ?thesis by (subst cleanup_loop.simps) auto
  next
    case (Some x)
    with pos have "fst (snd x) < snd (snd x)" by (auto split: if_splits)
    with 2 pos Some show ?thesis by (subst cleanup_loop.simps) auto
  qed
qed simp

lemma cleanup_positions:
  assumes "ordered ts"
  shows "\<forall>e \<in> set (cleanup ts d). fst (snd e) < snd (snd e)"
proof -
  have "ordered (skip_spaces ts)"
    using assms unfolding skip_spaces_def by (metis ordered_append takeWhile_dropWhile_id)
  then show ?thesis
    using cleanup_loop_positions [of "skip_spaces ts" "[]" d False None]
    by (auto simp: cleanup_def cleanup_written_def case_prod_beta dest: in_set_takeD)
qed

lemma untrace_cleanup: "ordered ts \<Longrightarrow> untrace (cleanup ts d) = concat (map fst (cleanup ts d))"
  using cleanup_positions [of ts d] by (intro untrace_no_continuation) (auto simp: is_continuation_def)

section \<open>The contract of a scanner\<close>

locale token_scanner =
  fixes scan :: "traced list \<Rightarrow> cut" and sep :: rchar and delim :: "rchar option" and joinable :: "piece list list \<Rightarrow> bool"
  assumes scan_joined: "list_all (token_ok sep delim) pss \<Longrightarrow> joinable pss \<Longrightarrow>
      map fst ts = join_with sep (map writes pss) \<Longrightarrow>
      scan ts = \<lparr>cut_spans = token_spans 0 (map writes pss), cut_held_delimiter = list_ex (holds sep) pss,
        cut_open_quote = False\<rparr>"
begin

lemma tokens_read_back:
  assumes "list_all (token_ok sep delim) pss" and "joinable pss"
    and "map fst ts = join_with sep (map writes pss)"
  shows "map (\<lambda>sp. map fst (cleanup (slice ts sp) delim)) (cut_spans (scan ts)) = map reads pss"
proof -
  have sl: "map (\<lambda>sp. map fst (slice ts sp)) (token_spans 0 (map writes pss)) = map writes pss"
    using slice_token_spans [OF assms(3), of "[]" 0] by simp
  show ?thesis
  proof (rule nth_equalityI)
    fix k assume "k < length (map (\<lambda>sp. map fst (cleanup (slice ts sp) delim)) (cut_spans (scan ts)))"
    then have k: "k < length pss" by (simp add: scan_joined [OF assms])
    then have "map fst (slice ts (token_spans 0 (map writes pss) ! k)) = writes (pss ! k)"
      using arg_cong [OF sl, of "\<lambda>xs. xs ! k"] by simp
    moreover have "token_ok sep delim (pss ! k)" using assms(1) k by (simp add: list_all_length)
    ultimately show "map (\<lambda>sp. map fst (cleanup (slice ts sp) delim)) (cut_spans (scan ts)) ! k = map reads pss ! k"
      using k by (simp add: scan_joined [OF assms] cleanup_token)
  qed (simp add: scan_joined [OF assms])
qed

lemma texts_read_back:
  assumes "list_all (token_ok sep delim) pss" and "joinable pss"
    and "map fst ts = join_with sep (map writes pss)" and "ordered ts"
  shows "map (\<lambda>sp. untrace (cleanup (slice ts sp) delim)) (cut_spans (scan ts)) = map (concat \<circ> reads) pss"
proof -
  have "map concat (map (\<lambda>sp. map fst (cleanup (slice ts sp) delim)) (cut_spans (scan ts))) = map concat (map reads pss)"
    using tokens_read_back [OF assms(1-3)] by simp
  then show ?thesis using untrace_cleanup [OF ordered_slice [OF assms(4)]] by (simp add: comp_def)
qed

end

definition blank_joinable :: "nat \<Rightarrow> piece list list \<Rightarrow> bool" where
  "blank_joinable limit pss \<longleftrightarrow> [] \<notin> set pss \<and> length pss < limit"

definition char_joinable :: "nat \<Rightarrow> piece list list \<Rightarrow> bool" where
  "char_joinable limit pss \<longleftrightarrow> (pss = [] \<or> last pss \<noteq> []) \<and> length pss < limit"

interpretation blank: token_scanner "\<lambda>ts. blank_delim ts limit" SPACE None "blank_joinable limit"
  by unfold_locales (rule blank_delim_joined, auto simp: blank_joinable_def list_all_iff)

text \<open>A delimiter that the scan on one character can use.\<close>

definition delim_ok :: "rchar \<Rightarrow> bool" where
  "delim_ok d \<longleftrightarrow> d \<notin> {BACKSLASH, QUOTE, NUL, SPACE} \<and> char_ok d"

lemma char_scanner:
  assumes "delim_ok d"
  shows "token_scanner (\<lambda>ts. char_delim ts d limit) d (Some d) (char_joinable limit)"
proof
  fix pss and ts :: "traced list"
  assume ok: "list_all (token_ok d (Some d)) pss" "map fst ts = join_with d (map writes pss)"
    and len: "char_joinable limit pss"
  from ok(1) have "list_all (\<lambda>ps. list_all (piece_ok d (Some d)) ps) pss"
    by (auto simp: token_ok_def list_all_iff)
  then show "char_delim ts d limit = \<lparr>cut_spans = token_spans 0 (map writes pss),
      cut_held_delimiter = list_ex (holds d) pss, cut_open_quote = False\<rparr>"
    using char_delim_joined ok(2) assms len by (auto simp: char_joinable_def delim_ok_def)
qed

interpretation comma: token_scanner "\<lambda>ts. char_delim ts '','' limit" "'',''" "Some '',''" "char_joinable limit"
  by (rule char_scanner) (simp add: delim_ok_def is_ascii_def)

section \<open>Properties\<close>

definition escape_pieces :: "rchar option \<Rightarrow> string \<Rightarrow> piece list" where
  "escape_pieces delim t = map (\<lambda>c. if takes_a_backslash c delim then Escape c c else Plain c) (chars t)"

lemma reads_escape_pieces [simp]: "reads (escape_pieces d t) = chars t"
proof -
  have "reads (map (\<lambda>c. if takes_a_backslash c d then Escape c c else Plain c) cs) = cs" for cs
    by (induction cs) simp_all
  then show ?thesis by (simp add: escape_pieces_def)
qed

lemma writes_escape_pieces: "concat (writes (escape_pieces d t)) = escape_inside_token t d"
proof -
  have "concat (writes (map (\<lambda>c. if takes_a_backslash c d then Escape c c else Plain c) cs)) =
      concat (map (\<lambda>c. if takes_a_backslash c d then BACKSLASH @ c else c) cs)" for cs
    by (induction cs) simp_all
  then show ?thesis by (simp add: escape_pieces_def escape_inside_token_def)
qed

lemma writes_ok:
  assumes "utf8_valid t" shows "list_all char_ok (writes (escape_pieces d t))"
proof -
  have "list_all char_ok (writes (map (\<lambda>c. if takes_a_backslash c d then Escape c c else Plain c) cs))"
    if "list_all char_ok cs" for cs
    using that by (induction cs) (auto simp: is_ascii_def)
  with chars_ok [OF assms] show ?thesis by (simp add: escape_pieces_def)
qed

text \<open>A text that stands in a token as it is: valid, without NUL, no space at its edges.\<close>

definition edge_free :: "string \<Rightarrow> bool" where
  "edge_free t \<longleftrightarrow> utf8_valid t \<and> NUL \<notin> set (chars t) \<and>
     (t = [] \<or> hd (chars t) \<noteq> SPACE \<and> last (chars t) \<noteq> SPACE)"

lemma chars_Nil_iff [simp]: "chars t = [] \<longleftrightarrow> t = []"
  by (subst chars.simps) simp

lemma escape_pieces_token_ok:
  assumes "edge_free t" and "delim_ok d"
  shows "token_ok d (Some d) (escape_pieces (Some d) t)"
  using assms
  by (cases "t = []")
    (auto simp: token_ok_def escape_pieces_def edge_free_def list_all_iff takes_a_backslash_def unescape_def
      hd_map last_map delim_ok_def)

lemma chars_join_with:
  assumes "list_all (list_all char_ok) css" and "char_ok d"
  shows "chars (join d (map concat css)) = join_with d css"
  using assms
proof (induction css)
  case (Cons cs css)
  then show ?case by (cases css) (simp_all add: chars_concat chars_append valid_concat chars_Cons)
qed simp

text \<open>
  A list of texts written as tokens is read back. Each text escaped with
  \<open>escape_inside_token\<close> and joined by the delimiter comes back unchanged from the split on that
  delimiter and its cleanup, whatever delimiters, quotes and backslashes the texts
  contain, when no text begins or ends with a space and the last one is not empty (a
  trailing delimiter yields no token).
\<close>

lemma escaped_tokens_roundtrip:
  assumes "delim_ok d" and "\<forall>t \<in> set toks. edge_free t" and "toks = [] \<or> last toks \<noteq> []"
    and "length toks < USIZE_MAX"
  shows "separate_string_char_delim (join d (map (\<lambda>t. escape_inside_token t (Some d)) toks)) d = toks"
proof -
  let ?pss = "map (escape_pieces (Some d)) toks"
  let ?s = "join d (map (\<lambda>t. escape_inside_token t (Some d)) toks)"
  have ok: "list_all (token_ok d (Some d)) ?pss"
    using assms(1,2) by (auto simp: list_all_iff intro!: escape_pieces_token_ok)
  have j: "char_joinable USIZE_MAX ?pss"
    using assms(3,4) by (auto simp: char_joinable_def last_map escape_pieces_def)
  have "chars (join d (map concat (map writes ?pss))) = join_with d (map writes ?pss)"
    using assms(1,2) by (intro chars_join_with) (auto simp: list_all_iff delim_ok_def edge_free_def
        dest!: writes_ok [unfolded list_all_iff, rotated])
  then have "map fst (trace ?s) = join_with d (map writes ?pss)"
    by (simp add: writes_escape_pieces comp_def)
  from token_scanner.texts_read_back [OF char_scanner [OF assms(1)] ok j this ordered_trace]
  show ?thesis by (simp add: separate_string_char_delim_def comp_def)
qed

end
