(* ===== verification/Separate_In_Place.thy ===== *)
theory Separate_In_Place
  imports Separate_Tokens
begin

text \<open>
  The split in the buffer refines the split of the text. \<open>CBuffer\<close> holds one entry per byte,
  ends every token by overwriting its delimiter with NUL and cleans the tokens in place, each over its
  own raw text. Seen through \<open>read_back\<close> this gives the spans that the scanner cuts in the
  text itself, each cleaned on its own: the entries of the bytes after the first do not change what
  the scanners and the cleanup do, and cleaning one token leaves the others as they were.
\<close>

section \<open>Buffers\<close>

lemma length_cb_terminate [simp]: "length (cb_terminate i b) = length b"
  by (simp add: cb_terminate_def)

lemma nth_cb_terminate:
  "k < length b \<Longrightarrow> cb_terminate i b ! k = (if k = i then (NUL, snd (b ! k)) else b ! k)"
  by (auto simp: cb_terminate_def nth_list_update)

lemma cb_c_strI:
  "drop i b = xs @ z # rest \<Longrightarrow> fst z = NUL \<Longrightarrow> \<forall>x \<in> set xs. fst x \<noteq> NUL \<Longrightarrow> cb_c_str b i = xs"
  by (simp add: cb_c_str_def takeWhile_tail)

lemma cb_c_str_not_NUL: "x \<in> set (cb_c_str b i) \<Longrightarrow> fst x \<noteq> NUL"
  by (auto simp: cb_c_str_def dest: set_takeWhileD)

lemma cb_c_str_split:
  assumes "i + length (cb_c_str b i) < length b"
  shows "\<exists>z rest. drop i b = cb_c_str b i @ z # rest \<and> fst z = NUL"
proof -
  let ?w = "dropWhile (\<lambda>e. fst e \<noteq> NUL) (drop i b)"
  have d: "drop i b = cb_c_str b i @ ?w" by (simp add: cb_c_str_def)
  have "length (drop i b) = length (cb_c_str b i) + length ?w" by (metis d length_append)
  with assms have "0 < length ?w" unfolding length_drop by linarith
  then have "?w \<noteq> []" by (simp del: dropWhile_eq_Nil_conv)
  with hd_dropWhile [OF this] d show ?thesis by (cases ?w) auto
qed

lemma cb_c_str_cong:
  assumes "length b' = length b" and "\<And>k. i \<le> k \<Longrightarrow> k \<le> i + length (cb_c_str b i) \<Longrightarrow> b' ! k = b ! k"
    and "i + length (cb_c_str b i) < length b"
  shows "cb_c_str b' i = cb_c_str b i"
proof -
  let ?n = "length (cb_c_str b i)"
  obtain z rest where z: "drop i b = cb_c_str b i @ z # rest" "fst z = NUL"
    using cb_c_str_split [OF assms(3)] by auto
  have "take (Suc ?n) (drop i b') = take (Suc ?n) (drop i b)"
    using assms by (intro nth_equalityI) auto
  then have "take (Suc ?n) (drop i b') = cb_c_str b i @ [z]" by (simp add: z(1))
  then have "drop i b' = cb_c_str b i @ z # drop (Suc ?n) (drop i b')"
    by (metis append.assoc append_Cons append_Nil append_take_drop_id)
  with z(2) show ?thesis by (intro cb_c_strI) (auto dest: cb_c_str_not_NUL)
qed

section \<open>Cleanup in place\<close>

lemma unescape_not_NUL: "unescape c d = Some e \<Longrightarrow> c \<noteq> NUL \<Longrightarrow> e \<noteq> NUL"
  by (auto simp: unescape_def split: if_splits)

lemma cleanup_loop_written:
  "\<forall>e \<in> set out \<union> set ts. fst e \<noteq> NUL \<Longrightarrow> \<forall>n. stop = Some n \<longrightarrow> n \<le> length out \<Longrightarrow>
   cleanup_loop d q out stop ts = (out', stop') \<Longrightarrow>
   length out' \<le> length out + length ts \<and> (\<forall>e \<in> set out'. fst e \<noteq> NUL) \<and> (\<forall>n. stop' = Some n \<longrightarrow> n \<le> length out')"
proof (induction d q out stop ts rule: cleanup_loop.induct)
  case (2 d q out stop c s e ts)
  show ?case
  proof (cases "if c = BACKSLASH \<and> ts \<noteq> []
      then map_option (\<lambda>e. (e, s, snd (snd (hd ts)))) (unescape (fst (hd ts)) d) else None")
    case None
    have eq: "cleanup_loop d q out stop ((c, s, e) # ts) =
        (if c = QUOTE \<and> (q \<or> has_quote ts)
         then cleanup_loop d (\<not> q) out (if \<not> q then Some (length out) else stop) ts
         else cleanup_loop d q (out @ [(c, s, e)]) (if c \<noteq> SPACE \<or> q then Some (length out + 1) else stop) ts)"
      by (subst cleanup_loop.simps) (simp only: None option.case)
    show ?thesis
    proof (cases "c = QUOTE \<and> (q \<or> has_quote ts)")
      case True
      have st: "\<forall>n. (if \<not> q then Some (length out) else stop) = Some n \<longrightarrow> n \<le> length out"
        using "2.prems"(2) by simp
      have "\<forall>e \<in> set out \<union> set ts. fst e \<noteq> NUL" using "2.prems"(1) by auto
      from "2.IH"(1) [OF None True this st] "2.prems"(3) eq True show ?thesis by simp
    next
      case False
      have st: "\<forall>n. (if c \<noteq> SPACE \<or> q then Some (length out + 1) else stop) = Some n \<longrightarrow> n \<le> length (out @ [(c, s, e)])"
        using "2.prems"(2) by auto
      have "\<forall>e \<in> set (out @ [(c, s, e)]) \<union> set ts. fst e \<noteq> NUL" using "2.prems"(1) by auto
      from "2.IH"(2) [OF None False this st] "2.prems"(3) eq False show ?thesis by auto
    qed
  next
    case (Some x)
    then have x: "ts \<noteq> []" "fst x \<noteq> NUL"
      using "2.prems"(1) unescape_not_NUL [of "fst (hd ts)" d] by (auto split: if_splits)
    have eq: "cleanup_loop d q out stop ((c, s, e) # ts) =
        cleanup_loop d q (out @ [x]) (Some (length out + 1)) (drop 1 ts)"
      by (subst cleanup_loop.simps) (simp only: Some option.case)
    have "\<forall>e \<in> set (out @ [x]) \<union> set (drop 1 ts). fst e \<noteq> NUL"
      using "2.prems"(1) x by (auto dest: in_set_dropD)
    from "2.IH"(3) [OF Some this] "2.prems"(3) eq x show ?thesis by (simp add: Suc_le_eq)
  qed
qed simp

lemma skip_spaces_le: "length (skip_spaces ts) \<le> length ts"
  by (simp add: skip_spaces_def length_dropWhile_le)

lemma cleanup_loop_Some: "stop \<noteq> None \<Longrightarrow> snd (cleanup_loop d q out stop ts) \<noteq> None"
proof (induction d q out stop ts rule: cleanup_loop.induct)
  case (2 d q out stop c s e ts)
  then show ?case
    by (subst cleanup_loop.simps)
      (cases "if c = BACKSLASH \<and> ts \<noteq> []
        then map_option (\<lambda>e. (e, s, snd (snd (hd ts)))) (unescape (fst (hd ts)) d) else None";
       simp del: not_None_eq)
qed simp

lemma cleanup_written_None:
  assumes "cleanup_written raw d = (out, None)" shows "skip_spaces raw = []"
proof (rule ccontr)
  assume "skip_spaces raw \<noteq> []"
  then obtain c s e ts where ts: "skip_spaces raw = (c, s, e) # ts" "c \<noteq> SPACE"
    using hd_dropWhile [of "\<lambda>e. fst e = SPACE" raw] by (cases "skip_spaces raw") (auto simp: skip_spaces_def)
  have "snd (cleanup_loop d False [] None (skip_spaces raw)) \<noteq> None"
    unfolding ts(1) using ts(2)
    by (subst cleanup_loop.simps) (simp add: cleanup_loop_Some split: option.split del: not_None_eq)
  with assms show False by (simp add: cleanup_written_def)
qed

lemma cb_cleanup_spec:
  assumes "i + length (cb_c_str b i) < length b"
  shows "\<exists>start b'. cb_cleanup i d b = (start, b') \<and> i \<le> start \<and> length b' = length b
    \<and> (\<forall>k. k < i \<or> i + length (cb_c_str b i) < k \<longrightarrow> k < length b \<longrightarrow> b' ! k = b ! k)
    \<and> cb_c_str b' start = cleanup (cb_c_str b i) d
    \<and> start + length (cb_c_str b' start) \<le> i + length (cb_c_str b i)"
proof -
  define raw where "raw = cb_c_str b i"
  define s where "s = skip_spaces raw"
  define start where "start = i + (length raw - length s)"
  obtain out stop where w: "cleanup_written raw d = (out, stop)" by fastforce
  obtain z rest where z: "drop i b = raw @ z # rest" "fst z = NUL"
    using cb_c_str_split [OF assms] by (auto simp: raw_def)
  have "\<forall>e \<in> set s. fst e \<noteq> NUL"
    by (auto simp: s_def skip_spaces_def raw_def dest!: set_dropWhileD dest: cb_c_str_not_NUL)
  then have out: "length out \<le> length s" "\<forall>e \<in> set out. fst e \<noteq> NUL" "\<forall>n. stop = Some n \<longrightarrow> n \<le> length out"
    using cleanup_loop_written [of "[]" s None d False out stop] w by (auto simp: cleanup_written_def s_def)
  have le: "length s \<le> length raw" "i + length raw < length b"
    using skip_spaces_le [of raw] assms by (simp_all add: s_def raw_def)
  define b1 where "b1 = take start b @ out @ drop (start + length out) b"
  define b' where "b' = (case stop of Some n \<Rightarrow> cb_terminate (start + n) b1 | None \<Rightarrow> b1)"
  have len: "length b1 = length b" "length b' = length b"
    using out le by (auto simp: b1_def b'_def start_def split: option.splits)
  have st: "i \<le> start" "start + length out \<le> i + length raw" using le out(1) by (auto simp: start_def)
  have b1: "b1 ! k = b ! k" if "k < start \<or> start + length out \<le> k" "k < length b" for k
    using that st le by (auto simp: b1_def nth_append min_def)
  have keep: "b' ! k = b ! k" if "k < i \<or> i + length raw < k" "k < length b" for k
    using that b1 [of k] st out(3) len by (auto simp: b'_def nth_cb_terminate split: option.splits)
  have str: "cb_c_str b' start = cleanup raw d"
  proof (cases stop)
    case None
    with cleanup_written_None [of raw d out] w have "s = []" by (simp add: s_def)
    then have "start = i + length raw" "out = []" using out(1) by (simp_all add: start_def)
    then have "b' = b" using None by (simp add: b'_def b1_def)
    then have "drop start b' = z # rest"
      using z(1) \<open>start = i + length raw\<close> by (metis add.commute append_eq_conv_conj drop_drop)
    with z(2) have "cb_c_str b' start = []" by (intro cb_c_strI [of _ _ "[]"]) auto
    then show ?thesis by (simp add: cleanup_def w None)
  next
    case (Some n)
    then have n: "n \<le> length out" "start + n < length b1" using out(3) st le len by simp_all
    have start: "length (take start b) = start" using st le by simp
    have "drop start b1 = out @ drop (start + length out) b" using start by (simp add: b1_def)
    then have "take n (drop start b1) = take n out" using n by simp
    moreover have "drop start b' = take n (drop start b1) @ (NUL, snd (b1 ! (start + n))) # drop (start + n + 1) b1"
      using n by (simp add: b'_def Some cb_terminate_def upd_conv_take_nth_drop drop_take) 
    ultimately have "cb_c_str b' start = take n out"
      using out(2) by (intro cb_c_strI) (auto dest: in_set_takeD)
    then show ?thesis by (simp add: cleanup_def w Some)
  qed
  have "length (cleanup raw d) \<le> length out" by (simp add: cleanup_def w)
  then have "start + length (cb_c_str b' start) \<le> i + length raw" using st str by simp
  moreover have "cb_cleanup i d b = (start, b')"
    unfolding cb_cleanup_def Let_def b'_def b1_def start_def s_def raw_def using w by (simp add: raw_def)
  ultimately show ?thesis using st(1) len(2) keep str unfolding raw_def by blast
qed

lemma cb_tokens_spec:
  assumes "sorted_wrt (\<lambda>s t. fst s + length (cb_c_str b (index + fst s)) < fst t) spans"
    and "\<forall>s \<in> set spans. index + fst s + length (cb_c_str b (index + fst s)) < length b"
  shows "\<exists>toks b'. cb_tokens index d spans b = (toks, b') \<and> length b' = length b
    \<and> map tok_raw toks = map (\<lambda>s. (index + fst s, index + snd s)) spans
    \<and> map (\<lambda>t. cb_c_str b' (tok_start t)) toks = map (\<lambda>s. cleanup (cb_c_str b (index + fst s)) d) spans
    \<and> (\<forall>k < length b. (\<forall>s \<in> set spans. k < index + fst s) \<longrightarrow> b' ! k = b ! k)"
  using assms
proof (induction spans arbitrary: b)
  case (Cons sp spans)
  obtain first fin where sp: "sp = (first, fin)" by fastforce
  let ?i = "index + first" let ?n = "length (cb_c_str b ?i)"
  from Cons.prems(2) sp have n: "?i + ?n < length b" by simp
  from cb_cleanup_spec [OF n, of d] obtain start b1 where b1: "cb_cleanup ?i d b = (start, b1)" "?i \<le> start"
    "length b1 = length b" "\<And>k. k < ?i \<or> ?i + ?n < k \<Longrightarrow> k < length b \<Longrightarrow> b1 ! k = b ! k"
    "cb_c_str b1 start = cleanup (cb_c_str b ?i) d" "start + length (cb_c_str b1 start) \<le> ?i + ?n" by metis
  have same: "cb_c_str b1 (index + fst s) = cb_c_str b (index + fst s)" if "s \<in> set spans" for s
    using that Cons.prems sp b1(3) by (intro cb_c_str_cong) (auto intro!: b1(4))
  have "sorted_wrt (\<lambda>s t. fst s + length (cb_c_str b1 (index + fst s)) < fst t) spans"
    using Cons.prems(1) same by (auto intro: sorted_wrt_mono_rel [rotated])
  moreover have "\<forall>s \<in> set spans. index + fst s + length (cb_c_str b1 (index + fst s)) < length b1"
    using Cons.prems(2) same b1(3) by simp
  ultimately obtain toks b' where t: "cb_tokens index d spans b1 = (toks, b')" "length b' = length b1"
    "map tok_raw toks = map (\<lambda>s. (index + fst s, index + snd s)) spans"
    "map (\<lambda>t. cb_c_str b' (tok_start t)) toks = map (\<lambda>s. cleanup (cb_c_str b1 (index + fst s)) d) spans"
    "\<And>k. k < length b1 \<Longrightarrow> (\<forall>s \<in> set spans. k < index + fst s) \<Longrightarrow> b' ! k = b1 ! k"
    using Cons.IH [of b1] by auto
  have early: "\<forall>s \<in> set spans. k < index + fst s" if "k \<le> ?i + ?n" for k
    using that Cons.prems(1) sp by auto
  have "cb_c_str b' start = cb_c_str b1 start"
    using t(2) b1(3,6) n by (intro cb_c_str_cong t(5) early) auto
  moreover have "b' ! k = b ! k" if "k < length b" "\<forall>s \<in> set (sp # spans). k < index + fst s" for k
    using that t(5) [of k] b1(3,4) sp by auto
  ultimately show ?case
    using t b1 same sp by (simp cong: map_cong)
qed simp

section \<open>Where the scanners cut\<close>

text \<open>Spans that follow each other from one position to another, one position apart.\<close>

fun tiled :: "nat \<Rightarrow> (nat \<times> nat) list \<Rightarrow> nat \<Rightarrow> bool" where
  "tiled i [] j \<longleftrightarrow> i = j"
| "tiled i ((first, fin) # spans) j \<longleftrightarrow> first = i \<and> first \<le> fin \<and> tiled (fin + 1) spans j"

lemma tiled_snoc [simp]: "tiled i (spans @ [(first, fin)]) j \<longleftrightarrow> tiled i spans first \<and> first \<le> fin \<and> j = fin + 1"
  by (induction i spans first rule: tiled.induct) auto

text \<open>Spans in order, each inside the text, that end at the delimiter or with the text.\<close>

definition spans_in :: "traced list \<Rightarrow> rchar \<Rightarrow> (nat \<times> nat) list \<Rightarrow> bool" where
  "spans_in ts d spans \<longleftrightarrow> sorted_wrt (\<lambda>s t. snd s < fst t) spans \<and>
     (\<forall>s \<in> set spans. fst s < length ts \<and> fst s \<le> snd s \<and> snd s \<le> length ts \<and>
        (snd s < length ts \<longrightarrow> fst (ts ! snd s) = d))"

lemma tiled_le: "tiled i spans j \<Longrightarrow> i \<le> j"
  by (induction i spans j rule: tiled.induct) auto

lemma tiled_sorted:
  "tiled i spans j \<Longrightarrow> sorted_wrt (\<lambda>s t. snd s < fst t) spans \<and> (\<forall>s \<in> set spans. i \<le> fst s \<and> fst s \<le> snd s \<and> snd s < j)"
proof (induction i spans j rule: tiled.induct)
  case (2 i first fin spans j)
  then show ?case using tiled_le [of "fin + 1" spans j] by fastforce
qed simp

definition char_inv :: "traced list \<Rightarrow> rchar \<Rightarrow> nat \<Rightarrow> char_scan \<Rightarrow> bool" where
  "char_inv ts d i v \<longleftrightarrow> tiled 0 (cs_spans v) (unwrap_or i (cs_begin v))
     \<and> (\<forall>s \<in> set (cs_spans v). snd s < length ts \<and> fst (ts ! snd s) = d)
     \<and> (case cs_begin v of Some b \<Rightarrow> b < length ts \<and> b \<le> i | None \<Rightarrow> i \<le> length ts)"

lemma char_delim_loop_inv:
  assumes "char_delim_loop d limit i rest v = (v', stop)" and "rest = drop i ts" and "NUL \<notin> fst ` set ts"
    and "char_inv ts d i v"
  shows "stop = None \<and> (\<exists>j. char_inv ts d j v' \<and> (cs_begin v' = None \<longrightarrow> j = length ts))"
  using assms
proof (induction d limit i rest v arbitrary: v' rule: char_delim_loop.induct)
  case (1 d limit i v)
  then show ?case by (auto simp: char_inv_def intro!: exI [of _ i] split: option.splits)
next
  case (2 d limit i c p rest v)
  have i: "i < length ts" using "2.prems"(2) by (metis drop_eq_Nil leI list.distinct(1))
  then have c: "ts ! i = (c, p)" "rest = drop (i + 1) ts"
    using "2.prems"(2) by (simp_all add: Cons_nth_drop_Suc [symmetric])
  then have nul: "c \<noteq> NUL" using "2.prems"(3) i by (metis fst_conv imageI nth_mem)
  have two: "drop 1 rest = drop (i + 2) ts" using c(2) by simp
  let ?b = "unwrap_or i (cs_begin v)" let ?v = "v\<lparr>cs_begin := Some ?b\<rparr>"
  have b: "tiled 0 (cs_spans v) ?b" "?b \<le> i" "\<forall>s \<in> set (cs_spans v). snd s < length ts \<and> fst (ts ! snd s) = d"
    using "2.prems"(4) by (auto simp: char_inv_def split: option.splits)
  have inv: "char_inv ts d j ?v" if "i \<le> j" for j using b that i by (simp add: char_inv_def)
  note eq = "2.prems"(1) [unfolded char_delim_loop.simps(2) Let_def, unfolded if_not_P [OF nul]]
  note IH = "2.IH" [OF nul]
  show ?case
  proof (cases "cs_begin v = None \<and> limit \<le> length (cs_spans v) + 1")
    case True
    with eq "2.prems"(4) i show ?thesis by (auto simp: char_inv_def)
  next
    case False
    note eq = eq [unfolded if_not_P [OF False]] and IH = IH [OF False refl refl]
    consider "c = BACKSLASH" | "c \<noteq> BACKSLASH" "c = QUOTE \<and> (cs_inside_quotes ?v \<or> has_quote rest)"
      | "c \<noteq> BACKSLASH" "\<not> (c = QUOTE \<and> (cs_inside_quotes ?v \<or> has_quote rest))" "c = d \<and> \<not> cs_inside_quotes ?v"
      | "c \<noteq> BACKSLASH" "\<not> (c = QUOTE \<and> (cs_inside_quotes ?v \<or> has_quote rest))" "\<not> (c = d \<and> \<not> cs_inside_quotes ?v)" by blast
    then show ?thesis
    proof cases
      case 1
      with IH(1) [OF 1 _ two "2.prems"(3) inv] eq show ?thesis by simp
    next
      case 2
      have "char_inv ts d (i + 1) (?v\<lparr>cs_inside_quotes := \<not> cs_inside_quotes ?v\<rparr>)"
        using inv [of "i + 1"] by (simp add: char_inv_def)
      from IH(2) [OF 2 _ c(2) "2.prems"(3) this] eq 2 show ?thesis by auto
    next
      case 3
      have "char_inv ts d (i + 1) (?v\<lparr>cs_spans := cs_spans ?v @ [(?b, i)], cs_begin := None\<rparr>)"
        using b i c(1) 3(3) by (auto simp: char_inv_def)
      from IH(3) [OF 3 _ c(2) "2.prems"(3) this] eq 3 show ?thesis by auto
    next
      case 4
      have held: "char_inv ts d (i + 1) (?v\<lparr>cs_held_delimiter := True\<rparr>)"
        using inv [of "i + 1"] by (simp add: char_inv_def)
      show ?thesis
      proof (cases "c = d")
        case True
        with IH(4) [OF 4 True _ c(2) "2.prems"(3) held] eq 4 show ?thesis by auto
      next
        case False
        with IH(5) [OF 4 False _ c(2) "2.prems"(3) inv] eq 4 show ?thesis by auto
      qed
    qed
  qed
qed

lemma char_delim_spans_in:
  assumes "NUL \<notin> fst ` set ts"
  shows "spans_in ts d (cut_spans (char_delim ts d limit))"
proof -
  let ?v = "\<lparr>cs_spans = [], cs_begin = None, cs_inside_quotes = False, cs_held_delimiter = False\<rparr>"
  obtain v stop where l: "char_delim_loop d limit 0 ts ?v = (v, stop)" by fastforce
  have "char_inv ts d 0 ?v" by (simp add: char_inv_def)
  from char_delim_loop_inv [OF l _ assms this] obtain j where
    inv: "stop = None" "char_inv ts d j v" by auto
  show ?thesis
  proof (cases "cs_begin v")
    case None
    with inv tiled_sorted [of 0 "cs_spans v" j] show ?thesis
      by (auto simp: char_delim_def l char_inv_def spans_in_def dest: le_less_trans)
  next
    case (Some b)
    with inv tiled_sorted [of 0 "cs_spans v" b] show ?thesis
      by (auto simp: char_delim_def l char_inv_def spans_in_def sorted_wrt_append dest: le_less_trans)
  qed
qed

definition blank_inv :: "traced list \<Rightarrow> nat \<Rightarrow> blank_scan \<Rightarrow> bool" where
  "blank_inv ts i v \<longleftrightarrow> sorted_wrt (\<lambda>s t. snd s < fst t) (bs_spans v)
     \<and> (\<forall>s \<in> set (bs_spans v). fst s \<le> snd s \<and> snd s < length ts \<and> fst (ts ! snd s) = SPACE)
     \<and> (if bs_state v \<in> {SkipInitialSpace, FindDelim}
        then (\<forall>s \<in> set (bs_spans v). snd s < bs_begin v) \<and> bs_begin v < length ts \<and> bs_begin v \<le> i
        else \<forall>s \<in> set (bs_spans v). snd s < i)"

lemma blank_delim_loop_inv:
  assumes "blank_delim_loop limit i rest v = (v', stop)" and "rest = drop i ts" and "NUL \<notin> fst ` set ts"
    and "blank_inv ts i v"
  shows "stop = None \<and> (\<exists>j. blank_inv ts j v')"
  using assms
proof (induction limit i rest v arbitrary: v' rule: blank_delim_loop.induct)
  case (1 limit i v)
  then show ?case by auto
next
  case (2 limit i c p rest v)
  have i: "i < length ts" using "2.prems"(2) by (metis drop_eq_Nil leI list.distinct(1))
  then have c: "ts ! i = (c, p)" "rest = drop (i + 1) ts"
    using "2.prems"(2) by (simp_all add: Cons_nth_drop_Suc [symmetric])
  then have nul: "c \<noteq> NUL" using "2.prems"(3) i by (metis fst_conv imageI nth_mem)
  have two: "drop 1 rest = drop (i + 2) ts" using c(2) by simp
  note eq = trans [OF sym [OF blank_delim_loop.simps(2)] "2.prems"(1), unfolded if_not_P [OF nul]]
  note IH = "2.IH" [OF nul] and more = "2.prems"(3)
  have next1: "blank_inv ts (i + 1) v" using "2.prems"(4) by (auto simp: blank_inv_def less_Suc_eq)
  show ?case
  proof (cases "bs_state v")
    case Start
    have "blank_inv ts i (v\<lparr>bs_begin := i, bs_state := SkipInitialSpace\<rparr>)"
      "blank_inv ts i (v\<lparr>bs_begin := i, bs_state := FindDelim\<rparr>)"
      using "2.prems"(4) i Start by (simp_all add: blank_inv_def)
    with IH(1) [OF Start _ _ "2.prems"(2) more] eq Start show ?thesis by (auto split: if_splits)
  next
    case SkipInitialSpace
    have "blank_inv ts i (v\<lparr>bs_state := FindDelim\<rparr>)" using "2.prems"(4) SkipInitialSpace by (simp add: blank_inv_def)
    with IH(2) [OF SkipInitialSpace _ _ c(2) more next1] IH(3) [OF SkipInitialSpace _ _ "2.prems"(2) more] eq SkipInitialSpace
    show ?thesis by (auto split: if_splits)
  next
    case SkipEndingSpace
    have "blank_inv ts i (v\<lparr>bs_state := Start\<rparr>)" using "2.prems"(4) SkipEndingSpace by (simp add: blank_inv_def)
    with IH(9) [OF SkipEndingSpace _ _ c(2) more next1] IH(10) [OF SkipEndingSpace _ _ "2.prems"(2) more] eq SkipEndingSpace
    show ?thesis by (auto split: if_splits)
  next
    case FindDelim
    have inv: "blank_inv ts (i + 2) v" "blank_inv ts (i + 1) (v\<lparr>bs_inside_quotes := \<not> bs_inside_quotes v\<rparr>)"
      "blank_inv ts (i + 1) (v\<lparr>bs_held_delimiter := True\<rparr>)"
      using "2.prems"(4) FindDelim by (auto simp: blank_inv_def)
    have cut: "blank_inv ts (i + 1) (v\<lparr>bs_spans := bs_spans v @ [(bs_begin v, i)], bs_state := SkipEndingSpace\<rparr>)" if "c = SPACE"
      using "2.prems"(4) FindDelim that c(1) i by (auto simp: blank_inv_def sorted_wrt_append)
    show ?thesis
      using eq FindDelim IH(4) [OF FindDelim _ _ two more inv(1)] IH(5) [OF FindDelim _ _ _ c(2) more inv(2)]
        IH(6) [OF FindDelim _ _ _ _ c(2) more cut] IH(7) [OF FindDelim _ _ _ _ _ c(2) more inv(3)]
        IH(8) [OF FindDelim _ _ _ _ _ c(2) more next1]
      by (auto split: if_splits)
  qed
qed

lemma blank_delim_spans_in:
  assumes "NUL \<notin> fst ` set ts"
  shows "spans_in ts SPACE (cut_spans (blank_delim ts limit))"
proof -
  let ?v = "\<lparr>bs_spans = [], bs_state = Start, bs_begin = 0, bs_inside_quotes = False, bs_held_delimiter = False\<rparr>"
  obtain v stop where l: "blank_delim_loop limit 0 ts ?v = (v, stop)" by fastforce
  have "blank_inv ts 0 ?v" by (simp add: blank_inv_def)
  from blank_delim_loop_inv [OF l _ assms this] obtain j where inv: "stop = None" "blank_inv ts j v" by auto
  then show ?thesis
    by (auto simp: blank_delim_def l blank_inv_def spans_in_def sorted_wrt_append split: if_splits dest: le_less_trans)
qed

section \<open>One entry per byte\<close>

definition expand1 :: "traced \<Rightarrow> traced list" where
  "expand1 e = e # replicate (length (fst e) - 1) (CONTINUATION, snd (snd e) + 1, snd (snd e))"

definition expand :: "traced list \<Rightarrow> traced list" where
  "expand ts = concat (map expand1 ts)"

text \<open>The characters of a text that a buffer can hold: none is NUL, and one of several bytes is not ASCII.\<close>

definition plain_text :: "traced list \<Rightarrow> bool" where
  "plain_text ts \<longleftrightarrow> ordered ts \<and> (\<forall>e \<in> set ts. char_ok (fst e) \<and> fst e \<noteq> NUL)"

lemma expand_simps [simp]:
  "expand [] = []" "expand (e # ts) = expand1 e @ expand ts" "expand (a @ b) = expand a @ expand b"
  by (simp_all add: expand_def)

lemma plain_text_simps [simp]:
  "plain_text []"
  "plain_text ((c, p, q) # ts) \<longleftrightarrow> p < q \<and> (\<forall>t \<in> set ts. p < snd (snd t)) \<and> char_ok c \<and> c \<noteq> NUL \<and> plain_text ts"
  by (auto simp: plain_text_def)

lemma plain_text_appendD: "plain_text (a @ b) \<Longrightarrow> plain_text a \<and> plain_text b"
  by (auto simp: plain_text_def dest: ordered_append)

lemma plain_no_NUL: "plain_text ts \<Longrightarrow> NUL \<notin> fst ` set ts"
  by (force simp: plain_text_def)

lemma expand1_single: "length c = 1 \<Longrightarrow> expand1 (c, p) = [(c, p)]"
  by (simp add: expand1_def)

lemma CONTINUATION_neq [simp]:
  "CONTINUATION \<noteq> [x]" "[x] \<noteq> CONTINUATION"
  by (simp_all add: CONTINUATION_def)

lemma char_not_ascii: "char_ok c \<Longrightarrow> length c \<noteq> 1 \<Longrightarrow> c \<noteq> [x]"
  by auto

lemma origin_entries_expand:
  assumes "ordered ts"
  shows "map fst (origin_entries k ts) = expand ts"
  using assms
proof (induction k ts rule: origin_entries.induct)
  case (2 k c p q ts)
  then have "\<not> (ts \<noteq> [] \<and> is_continuation (hd ts))"
    using ordered_not_continuation [of ts "hd ts"] by auto
  with 2 show ?case by (simp add: expand1_def)
qed simp

lemma origins_at:
  assumes "ordered ts" and "n < length ts"
  shows "snd (origin_entries k ts ! length (expand (take n ts))) = k + n
    \<and> length (expand (take n ts)) < length (origin_entries k ts)"
  using assms
proof (induction k ts arbitrary: n rule: origin_entries.induct)
  case (2 k c p q ts)
  have len: "length (origin_entries k' ts) = length (expand ts)" for k'
    using origin_entries_expand [of ts k'] "2.prems"(1) by (metis length_map ordered_simps(2))
  from 2 have "\<not> (ts \<noteq> [] \<and> is_continuation (hd ts))"
    using ordered_not_continuation [of ts "hd ts"] by auto
  with 2 show ?case
    by (cases n) (auto simp: expand1_def nth_append len)
qed simp

lemma has_quote_step: "has_quote ((c, p) # rest) \<longleftrightarrow> c \<noteq> NUL \<and> (c = QUOTE \<or> has_quote rest)"
  by (simp add: has_quote_def)

lemma has_quote_conts [simp]: "has_quote (replicate n (CONTINUATION, p) @ rest) = has_quote rest"
  by (induction n) (simp_all add: has_quote_step)

lemma has_quote_expand:
  assumes "plain_text ts" and "fst z = NUL"
  shows "has_quote (expand ts @ z # zs) = has_quote ts"
  using assms
proof (induction ts)
  case Nil
  then show ?case by (cases z) (simp add: has_quote_step, simp add: has_quote_def)
next
  case (Cons e ts)
  then show ?case by (cases e) (simp add: expand1_def has_quote_step)
qed

lemma char_delim_conts:
  "cs_begin v = Some b \<Longrightarrow> d \<noteq> CONTINUATION \<Longrightarrow>
   char_delim_loop d limit i (replicate n (CONTINUATION, p) @ rest) v = char_delim_loop d limit (i + n) rest v"
proof (induction n arbitrary: i)
  case (Suc n)
  then have "v\<lparr>cs_begin := Some b\<rparr> = v" by simp
  from Suc show ?case by (simp add: char_delim_loop.simps(2) \<open>v\<lparr>cs_begin := Some b\<rparr> = v\<close>)
qed simp

lemma blank_delim_conts:
  "bs_state v = FindDelim \<Longrightarrow>
   blank_delim_loop limit i (replicate n (CONTINUATION, p) @ rest) v = blank_delim_loop limit (i + n) rest v"
  by (induction n arbitrary: i) (simp_all add: blank_delim_loop.simps(2))

text \<open>A scan with its positions renamed.\<close>

definition move_char :: "(nat \<Rightarrow> nat) \<Rightarrow> char_scan \<Rightarrow> char_scan" where
  "move_char f v = \<lparr>cs_spans = map (map_prod f f) (cs_spans v), cs_begin = map_option f (cs_begin v),
     cs_inside_quotes = cs_inside_quotes v, cs_held_delimiter = cs_held_delimiter v\<rparr>"

lemma move_char_simps [simp]:
  "cs_spans (move_char f v) = map (map_prod f f) (cs_spans v)" "cs_begin (move_char f v) = map_option f (cs_begin v)"
  "cs_inside_quotes (move_char f v) = cs_inside_quotes v"
  "(move_char f v)\<lparr>cs_begin := Some (f b)\<rparr> = move_char f (v\<lparr>cs_begin := Some b\<rparr>)"
  "(move_char f v)\<lparr>cs_inside_quotes := q\<rparr> = move_char f (v\<lparr>cs_inside_quotes := q\<rparr>)"
  "(move_char f v)\<lparr>cs_held_delimiter := q\<rparr> = move_char f (v\<lparr>cs_held_delimiter := q\<rparr>)"
  "(move_char f v)\<lparr>cs_spans := map (map_prod f f) (cs_spans v) @ [(f b, f e)], cs_begin := None\<rparr> =
     move_char f (v\<lparr>cs_spans := cs_spans v @ [(b, e)], cs_begin := None\<rparr>)"
  by (simp_all add: move_char_def)

lemma unwrap_map: "unwrap_or (f i) (map_option f x) = f (unwrap_or i x)"
  by (cases x) simp_all

lemma char_delim_expand:
  assumes "plain_text ts" and "length d = 1" and "fst z = NUL" and "fst z' = NUL"
    and "\<forall>n \<le> length ts. f (i + n) = j + length (expand (take n ts))"
  shows "\<exists>stop. char_delim_loop d limit j (expand ts @ [z, z']) (move_char f v) =
      (move_char f (fst (char_delim_loop d limit i ts v)), stop)
    \<and> (\<forall>n. stop = Some n \<longrightarrow> j + length (expand ts) \<le> n)"
  using assms
proof (induction d limit i ts v arbitrary: j rule: char_delim_loop.induct)
  case (1 d limit i v)
  then show ?case by (cases z) (simp add: char_delim_loop.simps(2))
next
  case (2 d limit i c p ts v)
  obtain start fin where p: "p = (start, fin)" by fastforce
  have c: "c \<noteq> NUL" "plain_text ts" using "2.prems"(1) p by simp_all
  let ?n = "length c - 1" let ?k = "(CONTINUATION, fin + 1, fin)"
  have ex: "expand ((c, p) # ts) @ [z, z'] = (c, p) # replicate ?n ?k @ (expand ts @ [z, z'])"
    by (simp add: expand1_def p)
  have f: "f i = j" "\<forall>n \<le> length ts. f ((i + 1) + n) = (j + 1 + ?n) + length (expand (take n ts))"
    using "2.prems"(5) [rule_format, of 0] "2.prems"(5) [rule_format, of "Suc _"] by (auto simp: expand1_def)
  note hq = has_quote_expand [OF c(2) "2.prems"(3), of "[z']"]
  let ?b = "unwrap_or i (cs_begin v)" let ?v = "v\<lparr>cs_begin := Some ?b\<rparr>"
  have b: "unwrap_or j (map_option f (cs_begin v)) = f ?b" using unwrap_map [of f i] f(1) by simp
  note IH = "2.IH" [OF c(1)] and loop = char_delim_loop.simps(2) [unfolded Let_def]
  have dc: "d \<noteq> CONTINUATION" using "2.prems"(2) by (auto simp: CONTINUATION_def)
  show ?case
  proof (cases "cs_begin v = None \<and> limit \<le> length (cs_spans v) + 1")
    case True
    then show ?thesis unfolding ex using c f(1) by (auto simp: loop simp flip: move_char_simps(4))
  next
    case False
    note IH = IH [OF False refl refl]
    consider (esc) "c = BACKSLASH" | (quote) "c \<noteq> BACKSLASH" "c = QUOTE \<and> (cs_inside_quotes ?v \<or> has_quote ts)"
      | (delim) "c \<noteq> BACKSLASH" "\<not> (c = QUOTE \<and> (cs_inside_quotes ?v \<or> has_quote ts))" "c = d \<and> \<not> cs_inside_quotes ?v"
      | (held) "c \<noteq> BACKSLASH" "\<not> (c = QUOTE \<and> (cs_inside_quotes ?v \<or> has_quote ts))" "\<not> (c = d \<and> \<not> cs_inside_quotes ?v)" "c = d"
      | (plain) "c \<noteq> BACKSLASH" "\<not> (c = QUOTE \<and> (cs_inside_quotes ?v \<or> has_quote ts))" "\<not> (c = d \<and> \<not> cs_inside_quotes ?v)" "c \<noteq> d" by blast
    then show ?thesis
    proof cases
      case esc
      have eq: "char_delim_loop d limit j ((c, p) # expand ts @ [z, z']) (move_char f v) =
          char_delim_loop d limit (j + 2) (drop 1 (expand ts @ [z, z'])) (move_char f ?v)"
        using esc False b by (auto simp: loop)
      show ?thesis
      proof (cases ts)
        case Nil
        with esc eq False "2.prems"(4) show ?thesis unfolding ex by (cases z') (auto simp: loop expand1_def)
      next
        case (Cons t ts')
        let ?m = "length (fst t) - 1"
        have "\<forall>n \<le> length (drop 1 ts). f ((i + 2) + n) = (j + 2 + ?m) + length (expand (take n (drop 1 ts)))"
          using f(2) [rule_format, of "Suc _"] esc Cons by (auto simp: expand1_def)
        from IH(1) [OF esc _ "2.prems"(2-4) this] c(2) Cons obtain stop where
          "char_delim_loop d limit (j + 2 + ?m) (expand ts' @ [z, z']) (move_char f ?v) =
            (move_char f (fst (char_delim_loop d limit (i + 2) ts' ?v)), stop)"
          "\<forall>n. stop = Some n \<longrightarrow> j + 2 + ?m + length (expand ts') \<le> n"
          by (cases t) auto
        moreover have "char_delim_loop d limit (j + 2) (drop 1 (expand ts @ [z, z'])) (move_char f ?v) =
            char_delim_loop d limit (j + 2 + ?m) (expand ts' @ [z, z']) (move_char f ?v)"
          using char_delim_conts [of "move_char f ?v" "f ?b" d limit "j + 2" ?m "(snd (snd t) + 1, snd (snd t))" "expand ts' @ [z, z']"] dc
          by (simp add: Cons expand1_def)
        ultimately show ?thesis unfolding ex using esc eq False Cons by (auto simp: loop expand1_def)
      qed
    next
      case quote
      with IH(2) [OF quote c(2) "2.prems"(2-4) f(2)] False b hq show ?thesis unfolding ex
        by (auto simp: loop expand1_def)
    next
      case delim
      let ?w = "?v\<lparr>cs_spans := cs_spans ?v @ [(?b, i)], cs_begin := None\<rparr>"
      have mv: "(move_char f (v\<lparr>cs_begin := x\<rparr>))\<lparr>cs_spans := map (map_prod f f) (cs_spans v) @ [(f b, j)], cs_begin := None\<rparr> =
          move_char f (v\<lparr>cs_spans := cs_spans v @ [(b, i)], cs_begin := None\<rparr>)" for b x
        using f(1) by (simp add: move_char_def)
      have one: "?n = 0" using delim(3) "2.prems"(2) by simp
      have "char_delim_loop d limit j ((c, p) # (expand ts @ [z, z'])) (move_char f v) =
          char_delim_loop d limit (j + 1) (expand ts @ [z, z']) (move_char f ?w)"
        using delim False b hq c(1) by (auto simp: loop mv)
      moreover have "char_delim_loop d limit i ((c, p) # ts) v = char_delim_loop d limit (i + 1) ts ?w"
        using delim False c(1) by (auto simp: loop)
      moreover have "length (expand ((c, p) # ts)) = length (expand ts) + 1" using one by (simp add: expand1_def)
      ultimately show ?thesis unfolding ex one
        using IH(3) [OF delim c(2) "2.prems"(2-4) f(2) [unfolded one]] by auto
    next
      case held
      let ?w = "?v\<lparr>cs_held_delimiter := True\<rparr>"
      have one: "?n = 0" using held(4) "2.prems"(2) by simp
      have "char_delim_loop d limit j ((c, p) # (expand ts @ [z, z'])) (move_char f v) =
          char_delim_loop d limit (j + 1) (expand ts @ [z, z']) (move_char f ?w)"
        using held False b hq c(1) by (auto simp: loop)
      moreover have "char_delim_loop d limit i ((c, p) # ts) v = char_delim_loop d limit (i + 1) ts ?w"
        using held False c(1) by (auto simp: loop)
      moreover have "length (expand ((c, p) # ts)) = length (expand ts) + 1" using one by (simp add: expand1_def)
      ultimately show ?thesis unfolding ex one
        using IH(4) [OF held c(2) "2.prems"(2-4) f(2) [unfolded one]] by auto
    next
      case plain
      have "char_delim_loop d limit j ((c, p) # replicate ?n ?k @ (expand ts @ [z, z'])) (move_char f v) =
          char_delim_loop d limit (j + 1 + ?n) (expand ts @ [z, z']) (move_char f ?v)"
        using plain False b hq c(1) char_delim_conts [of "move_char f ?v" "f ?b" d limit "j + 1" ?n "(fin + 1, fin)" "expand ts @ [z, z']"] dc
        by (auto simp: loop)
      with IH(5) [OF plain c(2) "2.prems"(2-4) f(2)] plain False c(1) show ?thesis unfolding ex
        by (auto simp: loop expand1_def p)
    qed
  qed
qed

definition move_blank :: "(nat \<Rightarrow> nat) \<Rightarrow> blank_scan \<Rightarrow> blank_scan" where
  "move_blank f v = \<lparr>bs_spans = map (map_prod f f) (bs_spans v), bs_state = bs_state v, bs_begin = f (bs_begin v),
     bs_inside_quotes = bs_inside_quotes v, bs_held_delimiter = bs_held_delimiter v\<rparr>"

lemma move_blank_simps [simp]:
  "bs_spans (move_blank f v) = map (map_prod f f) (bs_spans v)" "bs_begin (move_blank f v) = f (bs_begin v)"
  "bs_inside_quotes (move_blank f v) = bs_inside_quotes v" "bs_state (move_blank f v) = bs_state v"
  "(move_blank f v)\<lparr>bs_inside_quotes := q\<rparr> = move_blank f (v\<lparr>bs_inside_quotes := q\<rparr>)"
  "(move_blank f v)\<lparr>bs_held_delimiter := q\<rparr> = move_blank f (v\<lparr>bs_held_delimiter := q\<rparr>)"
  "(move_blank f v)\<lparr>bs_state := s\<rparr> = move_blank f (v\<lparr>bs_state := s\<rparr>)"
  by (simp_all add: move_blank_def)

lemma blank_delim_expand:
  assumes "plain_text ts" and "fst z = NUL" and "fst z' = NUL"
    and "\<forall>n \<le> length ts. f (i + n) = j + length (expand (take n ts))"
  shows "\<exists>stop. blank_delim_loop limit j (expand ts @ [z, z']) (move_blank f v) =
      (move_blank f (fst (blank_delim_loop limit i ts v)), stop)
    \<and> (\<forall>n. stop = Some n \<longrightarrow> j + length (expand ts) \<le> n)"
  using assms
proof (induction limit i ts v arbitrary: j rule: blank_delim_loop.induct)
  case (1 limit i v)
  then show ?case by (cases z) (simp add: blank_delim_loop.simps(2))
next
  case (2 limit i c p ts v)
  obtain start fin where p: "p = (start, fin)" by fastforce
  have c: "c \<noteq> NUL" "plain_text ts" using "2.prems"(1) p by simp_all
  let ?n = "length c - 1" let ?k = "(CONTINUATION, fin + 1, fin)"
  have ex: "expand ((c, p) # ts) @ [z, z'] = (c, p) # replicate ?n ?k @ (expand ts @ [z, z'])"
    by (simp add: expand1_def p)
  have f: "f i = j" "\<forall>n \<le> length ts. f ((i + 1) + n) = (j + 1 + ?n) + length (expand (take n ts))"
    using "2.prems"(4) [rule_format, of 0] "2.prems"(4) [rule_format, of "Suc _"] by (auto simp: expand1_def)
  have len: "length (expand ((c, p) # ts)) = length (expand ts) + 1 + ?n" by (simp add: expand1_def)
  note IH = "2.IH" [OF c(1)] and loop = blank_delim_loop.simps(2)
  note mv = move_blank_def
  have step: "blank_delim_loop limit i ((c, p) # ts) v =
      (case bs_state v of
        Start \<Rightarrow>
          if limit \<le> length (bs_spans v) + 1 then (v\<lparr>bs_begin := i, bs_state := FindDelim\<rparr>, None)
          else blank_delim_loop limit i ((c, p) # ts) (v\<lparr>bs_begin := i, bs_state := SkipInitialSpace\<rparr>)
      | SkipInitialSpace \<Rightarrow>
          if c = SPACE then blank_delim_loop limit (i + 1) ts v
          else blank_delim_loop limit i ((c, p) # ts) (v\<lparr>bs_state := FindDelim\<rparr>)
      | SkipEndingSpace \<Rightarrow>
          if c = SPACE then blank_delim_loop limit (i + 1) ts v
          else blank_delim_loop limit i ((c, p) # ts) (v\<lparr>bs_state := Start\<rparr>)
      | FindDelim \<Rightarrow>
          if c = BACKSLASH then blank_delim_loop limit (i + 2) (drop 1 ts) v
          else if c = QUOTE
          then blank_delim_loop limit (i + 1) ts (v\<lparr>bs_inside_quotes := \<not> bs_inside_quotes v\<rparr>)
          else if c = SPACE \<and> \<not> bs_inside_quotes v
          then blank_delim_loop limit (i + 1) ts
                 (v\<lparr>bs_spans := bs_spans v @ [(bs_begin v, i)], bs_state := SkipEndingSpace\<rparr>)
          else if c = SPACE
          then blank_delim_loop limit (i + 1) ts (v\<lparr>bs_held_delimiter := True\<rparr>)
          else blank_delim_loop limit (i + 1) ts v)"
    for i p ts v limit by (rule trans [OF loop if_not_P [OF c(1)]])
  show ?case
  proof (cases "bs_state v")
    case Start
    show ?thesis
    proof (cases "limit \<le> length (bs_spans v) + 1")
      case True
      have "(move_blank f v)\<lparr>bs_begin := j, bs_state := FindDelim\<rparr> = move_blank f (v\<lparr>bs_begin := i, bs_state := FindDelim\<rparr>)"
        using f(1) by (simp add: mv)
      with True Start show ?thesis unfolding ex by (subst (1 2) step) simp
    next
      case False
      have "(move_blank f v)\<lparr>bs_begin := j, bs_state := SkipInitialSpace\<rparr> =
          move_blank f (v\<lparr>bs_begin := i, bs_state := SkipInitialSpace\<rparr>)"
        using f(1) by (simp add: mv)
      with IH(1) [OF Start False "2.prems"] Start False show ?thesis
        unfolding ex by (subst (1 2) step) simp
    qed
  next
    case SkipInitialSpace
    show ?thesis
    proof (cases "c = SPACE")
      case True
      with IH(2) [OF SkipInitialSpace True c(2) "2.prems"(2,3) f(2)] SkipInitialSpace show ?thesis
        unfolding ex len by (subst (1 2) step) simp
    next
      case False
      with IH(3) [OF SkipInitialSpace False "2.prems"] SkipInitialSpace show ?thesis
        unfolding ex by (subst (1 2) step) simp
    qed
  next
    case SkipEndingSpace
    show ?thesis
    proof (cases "c = SPACE")
      case True
      with IH(9) [OF SkipEndingSpace True c(2) "2.prems"(2,3) f(2)] SkipEndingSpace show ?thesis
        unfolding ex len by (subst (1 2) step) simp
    next
      case False
      with IH(10) [OF SkipEndingSpace False "2.prems"] SkipEndingSpace show ?thesis
        unfolding ex by (subst (1 2) step) simp
    qed
  next
    case FindDelim
    note IH = IH(4-8) [OF FindDelim]
    consider (esc) "c = BACKSLASH" | (quote) "c \<noteq> BACKSLASH" "c = QUOTE"
      | (delim) "c \<noteq> BACKSLASH" "c \<noteq> QUOTE" "c = SPACE \<and> \<not> bs_inside_quotes v"
      | (held) "c \<noteq> BACKSLASH" "c \<noteq> QUOTE" "\<not> (c = SPACE \<and> \<not> bs_inside_quotes v)" "c = SPACE"
      | (plain) "c \<noteq> BACKSLASH" "c \<noteq> QUOTE" "\<not> (c = SPACE \<and> \<not> bs_inside_quotes v)" "c \<noteq> SPACE" by blast
    then show ?thesis
    proof cases
      case esc
      show ?thesis
      proof (cases ts)
        case Nil
        have "blank_delim_loop limit (j + 2) [z'] w = (w, Some (j + 2))" for w
          using "2.prems"(3) by (cases z') (simp add: loop)
        with esc FindDelim Nil show ?thesis unfolding ex len by (subst (1 2) step) simp
      next
        case (Cons t ts')
        let ?m = "length (fst t) - 1"
        have "\<forall>n \<le> length (drop 1 ts). f ((i + 2) + n) = (j + 2 + ?m) + length (expand (take n (drop 1 ts)))"
          using f(2) [rule_format, of "Suc _"] esc Cons by (auto simp: expand1_def)
        from IH(1) [OF esc _ "2.prems"(2,3) this] c(2) Cons obtain stop where
          st: "blank_delim_loop limit (j + 2 + ?m) (expand ts' @ [z, z']) (move_blank f v) =
            (move_blank f (fst (blank_delim_loop limit (i + 2) ts' v)), stop)"
          "\<forall>n. stop = Some n \<longrightarrow> j + 2 + ?m + length (expand ts') \<le> n"
          by (cases t) auto
        have "blank_delim_loop limit (j + 2) (drop 1 (expand ts @ [z, z'])) (move_blank f v) =
            blank_delim_loop limit (j + 2 + ?m) (expand ts' @ [z, z']) (move_blank f v)"
          using blank_delim_conts [of "move_blank f v" limit "j + 2" ?m "(snd (snd t) + 1, snd (snd t))" "expand ts' @ [z, z']"] FindDelim
          by (simp add: Cons expand1_def)
        with st esc FindDelim Cons show ?thesis unfolding ex len by (subst (1 2) step) (auto simp: expand1_def)
      qed
    next
      case quote
      with IH(2) [OF quote c(2) "2.prems"(2,3) f(2)] FindDelim show ?thesis
        unfolding ex len by (subst (1 2) step) simp
    next
      case delim
      have "(move_blank f v)\<lparr>bs_spans := map (map_prod f f) (bs_spans v) @ [(f (bs_begin v), j)], bs_state := SkipEndingSpace\<rparr> =
          move_blank f (v\<lparr>bs_spans := bs_spans v @ [(bs_begin v, i)], bs_state := SkipEndingSpace\<rparr>)"
        using f(1) by (simp add: mv)
      with delim IH(3) [OF delim c(2) "2.prems"(2,3) f(2)] FindDelim show ?thesis
        unfolding ex len by (subst (1 2) step) simp
    next
      case held
      with IH(4) [OF held c(2) "2.prems"(2,3) f(2)] FindDelim show ?thesis
        unfolding ex len by (subst (1 2) step) simp
    next
      case plain
      with IH(5) [OF plain c(2) "2.prems"(2,3) f(2)] FindDelim
        blank_delim_conts [of "move_blank f v" limit "j + 1" ?n "(fin + 1, fin)" "expand ts @ [z, z']"]
      show ?thesis unfolding ex len by (subst (1 2) step) (simp add: add_ac)
    qed
  qed
qed

section \<open>Cleanup of one entry per byte\<close>

definition strip :: "traced list \<Rightarrow> traced list" where
  "strip ts = filter (\<lambda>e. \<not> is_continuation e) ts"

lemma strip_simps [simp]:
  "strip [] = []" "strip (a @ b) = strip a @ strip b" "p < q \<Longrightarrow> strip ((c, p, q) # ts) = (c, p, q) # strip ts"
  "strip (replicate n (CONTINUATION, Suc q, q)) = []"
  by (simp_all add: strip_def is_continuation_def)

lemma strip_expand: "ordered ts \<Longrightarrow> strip (expand ts) = ts"
  by (induction ts) (auto simp: expand1_def)

lemma skip_spaces_expand: "skip_spaces (expand ts) = expand (skip_spaces ts)"
proof (induction ts)
  case (Cons e ts)
  then show ?case by (cases "fst e = SPACE") (simp_all add: skip_spaces_def expand1_def)
qed (simp add: skip_spaces_def)

text \<open>The terminator's place, counted with continuation entries.\<close>

definition stop_in :: "traced list \<Rightarrow> nat option \<Rightarrow> nat option" where
  "stop_in out stop = map_option (\<lambda>n. length (expand (take n out))) stop"

lemma stop_in_append: "\<forall>n. stop = Some n \<longrightarrow> n \<le> length out \<Longrightarrow> stop_in (out @ x) stop = stop_in out stop"
  by (cases stop) (simp_all add: stop_in_def)

lemma stop_in_length [simp]: "stop_in out (Some (length out)) = Some (length (expand out))"
  by (simp add: stop_in_def)

lemma cleanup_loop_conts:
  "cleanup_loop d q out stop (replicate n (CONTINUATION, p, r) @ ts) =
   cleanup_loop d q (out @ replicate n (CONTINUATION, p, r)) (if n = 0 then stop else Some (length out + n)) ts"
proof (induction n arbitrary: out stop)
  case (Suc n)
  show ?case by (simp add: cleanup_loop.simps(2) Suc)
qed simp

lemma unescape_ascii: "unescape c d = Some e \<Longrightarrow> (\<forall>x. d = Some x \<longrightarrow> length x = 1) \<Longrightarrow> length c = 1"
  by (auto simp: unescape_def split: if_splits)

lemma has_quote_expand_end: "plain_text ts \<Longrightarrow> has_quote (expand ts) = has_quote ts"
proof (induction ts)
  case (Cons e ts)
  then show ?case by (cases e) (simp add: expand1_def has_quote_step)
qed simp

lemma hd_expand: "ts \<noteq> [] \<Longrightarrow> hd (expand ts) = hd ts" and expand_Nil_iff [simp]: "expand ts = [] \<longleftrightarrow> ts = []"
  by (cases ts; simp add: expand1_def)+

lemma unescape_single: "unescape c d = Some e \<Longrightarrow> (\<forall>x. d = Some x \<longrightarrow> length x = 1) \<Longrightarrow> length e = 1"
  by (auto simp: unescape_def split: if_splits)

text \<open>The cleanup of a buffer is the buffer of the cleanup.\<close>

lemma cleanup_loop_expand:
  assumes "plain_text ts" and "\<forall>x. d = Some x \<longrightarrow> length x = 1"
    and "\<forall>n. stop = Some n \<longrightarrow> n \<le> length out"
  shows "\<exists>out' stop'. cleanup_loop d q out stop ts = (out', stop') \<and> (\<forall>n. stop' = Some n \<longrightarrow> n \<le> length out')
    \<and> cleanup_loop d q (expand out) (stop_in out stop) (expand ts) = (expand out', stop_in out' stop')"
  using assms
proof (induction ts arbitrary: q out stop rule: length_induct)
  case (1 ts)
  show ?case
  proof (cases ts)
    case Nil
    with 1 show ?thesis by simp
  next
    case (Cons e0 ts')
    obtain c p r where e0: "e0 = (c, p, r)" by (cases e0) auto
    let ?n = "length c - 1"
    have pl: "plain_text ts'" using "1.prems"(1) Cons e0 by simp
    have ex: "expand ts = (c, p, r) # replicate ?n (CONTINUATION, Suc r, r) @ expand ts'"
      by (simp add: Cons e0 expand1_def)
    have IH: "length ys < length ts \<Longrightarrow> plain_text ys \<Longrightarrow> \<forall>n. stop = Some n \<longrightarrow> n \<le> length out \<Longrightarrow>
        \<exists>out' stop'. cleanup_loop d q out stop ys = (out', stop') \<and> (\<forall>n. stop' = Some n \<longrightarrow> n \<le> length out')
        \<and> cleanup_loop d q (expand out) (stop_in out stop) (expand ys) = (expand out', stop_in out' stop')" for ys stop out q
      using "1.IH" "1.prems"(2) by blast
    let ?esc = "\<lambda>ts. if c = BACKSLASH \<and> ts \<noteq> []
      then map_option (\<lambda>e. (e, p, snd (snd (hd ts)))) (unescape (fst (hd ts)) d) else None"
    have esc: "?esc (replicate ?n (CONTINUATION, Suc r, r) @ expand ts') = ?esc ts'"
      by (cases "c = BACKSLASH") (simp_all add: hd_expand)
    show ?thesis
    proof (cases "?esc ts'")
      case (Some x)
      then have x: "c = BACKSLASH" "ts' \<noteq> []" "unescape (fst (hd ts')) d = Some (fst x)"
        by (auto split: if_splits)
      then have d1: "drop 1 (expand ts') = expand (drop 1 ts')"
        using unescape_ascii [OF x(3) "1.prems"(2)] by (cases ts') (simp_all add: expand1_def)
      have ox: "expand (out @ [x]) = expand out @ [x]"
        using unescape_single [OF x(3) "1.prems"(2)] by (simp add: expand1_def)
      have "plain_text (drop 1 ts')" using pl plain_text_appendD [of "take 1 ts'" "drop 1 ts'"] by simp
      moreover have "length (drop 1 ts') < length ts" using Cons by simp
      ultimately obtain out' stop' where
        "cleanup_loop d q (out @ [x]) (Some (length out + 1)) (drop 1 ts') = (out', stop')"
        "\<forall>n. stop' = Some n \<longrightarrow> n \<le> length out'"
        "cleanup_loop d q (expand out @ [x]) (Some (length (expand out) + 1)) (expand (drop 1 ts')) = (expand out', stop_in out' stop')"
        using IH [of "drop 1 ts'" "Some (length (out @ [x]))" "out @ [x]" q] unfolding stop_in_length ox by auto
      then show ?thesis
        unfolding ex unfolding Cons e0 cleanup_loop.simps(2) esc Some using x(1) d1 by simp
    next
      case None
      have hq: "has_quote (replicate ?n (CONTINUATION, Suc r, r) @ expand ts') = has_quote ts'"
        by (simp add: has_quote_expand_end pl)
      have len: "length ts' < length ts" using Cons by simp
      show ?thesis
      proof (cases "c = QUOTE \<and> (q \<or> has_quote ts')")
        case True
        let ?stop = "if \<not> q then Some (length out) else stop"
        have "stop_in out ?stop = (if \<not> q then Some (length (expand out)) else stop_in out stop)" by simp
        with IH [OF len pl, of ?stop out "\<not> q"] "1.prems"(3) True show ?thesis
          unfolding ex unfolding Cons e0 cleanup_loop.simps(2) esc hq None by auto
      next
        case False
        let ?out = "out @ [(c, p, r)]"
        let ?stop = "if c \<noteq> SPACE \<or> q then Some (length ?out) else stop"
        have eo: "expand ?out = expand out @ (c, p, r) # replicate ?n (CONTINUATION, Suc r, r)" by (simp add: expand1_def)
        have so: "stop_in ?out ?stop = (if ?n = 0 then if c \<noteq> SPACE \<or> q then Some (length (expand out) + 1) else stop_in out stop
            else Some (length (expand out) + 1 + ?n))"
        proof (cases "c \<noteq> SPACE \<or> q")
          case True
          then have "stop_in ?out ?stop = Some (length (expand ?out))" by (simp only: if_True stop_in_length)
          then show ?thesis using True by (auto simp: eo expand1_def)
        next
          case False
          then show ?thesis using "1.prems"(3) stop_in_append [of stop out] by simp
        qed
        have "cleanup_loop d q (expand out) (stop_in out stop) (expand ts) =
            cleanup_loop d q (expand ?out) (stop_in ?out ?stop) (expand ts')"
          unfolding ex cleanup_loop.simps(2) esc hq None option.case if_not_P [OF False] so eo
          by (simp add: cleanup_loop_conts)
        moreover have "\<forall>n. ?stop = Some n \<longrightarrow> n \<le> length ?out" using "1.prems"(3) by auto
        ultimately show ?thesis
          using IH [OF len pl, of ?stop ?out q] False
          unfolding Cons e0 cleanup_loop.simps(2) None by auto
      qed
    qed
  qed
qed

lemma cleanup_buffer:
  assumes "plain_text ts" and "\<forall>x. d = Some x \<longrightarrow> length x = 1"
  shows "cleanup (expand ts) d = expand (cleanup ts d)"
proof -
  have "plain_text (skip_spaces ts)"
    using assms(1) unfolding skip_spaces_def by (metis plain_text_appendD takeWhile_dropWhile_id)
  from cleanup_loop_expand [OF this assms(2), of None "[]" False] obtain out' stop' where
    o: "cleanup_loop d False [] None (skip_spaces ts) = (out', stop')"
    "cleanup_loop d False [] None (expand (skip_spaces ts)) = (expand out', stop_in out' stop')"
    by (auto simp: stop_in_def)
  have "take (length (expand (take n out'))) (expand out') = expand (take n out')" for n
    by (metis append_eq_conv_conj append_take_drop_id expand_simps(3))
  then show ?thesis
    by (cases stop') (simp_all add: cleanup_def cleanup_written_def skip_spaces_expand o stop_in_def)
qed

lemma cleanup_expand:
  assumes "plain_text ts" and "\<forall>x. d = Some x \<longrightarrow> length x = 1"
  shows "strip (cleanup (expand ts) d) = cleanup ts d"
proof -
  have "strip (expand us) = us" if "\<forall>e \<in> set us. fst (snd e) < snd (snd e)" for us
    using that by (induction us) (auto simp: expand1_def)
  then show ?thesis using cleanup_positions [of ts d] assms by (simp add: cleanup_buffer plain_text_def)
qed

section \<open>The split in the buffer\<close>

text \<open>The cut of the text itself, without a buffer.\<close>

definition direct_cut :: "traced list \<Rightarrow> rchar \<Rightarrow> nat \<Rightarrow> cut" where
  "direct_cut ts d limit =
     (if limit = 0 then \<lparr>cut_spans = [], cut_held_delimiter = False, cut_open_quote = False\<rparr>
      else if d = SPACE then blank_delim ts limit else char_delim ts d limit)"

definition cleanup_delim :: "rchar \<Rightarrow> rchar option" where
  "cleanup_delim d = (if d \<noteq> SPACE then Some d else None)"

definition pos_in :: "traced list \<Rightarrow> nat \<Rightarrow> nat" where
  "pos_in ts n = length (expand (take n ts))"

text \<open>A span of the buffer that stands for a span of the text; the last may reach past the terminator.\<close>

definition span_rel :: "traced list \<Rightarrow> nat \<times> nat \<Rightarrow> nat \<times> nat \<Rightarrow> bool" where
  "span_rel ts s' s \<longleftrightarrow> fst s' = pos_in ts (fst s) \<and>
     (snd s' = pos_in ts (snd s) \<or> snd s = length ts \<and> length (expand ts) \<le> snd s')"

lemma pos_in_mono: "m \<le> n \<Longrightarrow> pos_in ts m \<le> pos_in ts n"
  by (metis append_take_drop_id expand_simps(3) le_add1 length_append min.absorb1 pos_in_def take_take)

lemma pos_in_Suc: "n < length ts \<Longrightarrow> pos_in ts n < pos_in ts (Suc n)"
  by (simp add: pos_in_def take_Suc_conv_app_nth expand1_def)

lemma pos_in_less: "m < n \<Longrightarrow> m < length ts \<Longrightarrow> pos_in ts m < pos_in ts n"
  using pos_in_Suc [of m ts] pos_in_mono [of "Suc m" n ts] by simp

lemma pos_in_length [simp]: "pos_in ts (length ts) = length (expand ts)" and pos_in_0 [simp]: "pos_in ts 0 = 0"
  by (simp_all add: pos_in_def)

lemma expand_slice:
  assumes "a \<le> e" "e \<le> length ts"
  shows "drop (pos_in ts a) (expand ts) = expand (slice ts (a, e)) @ drop (pos_in ts e) (expand ts)"
    and "length (expand (slice ts (a, e))) = pos_in ts e - pos_in ts a"
proof -
  have ts: "ts = take a ts @ slice ts (a, e) @ drop e ts"
    using assms by (simp add: slice_def) (metis append.assoc append_take_drop_id le_add_diff_inverse take_add)
  have te: "take e ts = take a ts @ slice ts (a, e)" using assms by (simp add: slice_def) (metis le_add_diff_inverse take_add)
  show "drop (pos_in ts a) (expand ts) = expand (slice ts (a, e)) @ drop (pos_in ts e) (expand ts)"
    unfolding pos_in_def te using arg_cong [OF ts, of expand] by (simp add: append_eq_conv_conj)
  show "length (expand (slice ts (a, e))) = pos_in ts e - pos_in ts a" by (simp add: pos_in_def te)
qed

lemma direct_cut_spans_in:
  "plain_text ts \<Longrightarrow> spans_in ts d (cut_spans (direct_cut ts d limit))"
  using char_delim_spans_in [OF plain_no_NUL, of ts d limit] blank_delim_spans_in [OF plain_no_NUL, of ts limit]
  by (auto simp: direct_cut_def) (simp_all add: spans_in_def)

lemma char_delim_buffer:
  assumes "plain_text ts" and "length d = 1" and "fst z = NUL" "fst z' = NUL"
  shows "list_all2 (span_rel ts) (cut_spans (char_delim (expand ts @ [z, z']) d limit)) (cut_spans (char_delim ts d limit))
    \<and> cut_held_delimiter (char_delim (expand ts @ [z, z']) d limit) = cut_held_delimiter (char_delim ts d limit)
    \<and> cut_open_quote (char_delim (expand ts @ [z, z']) d limit) = cut_open_quote (char_delim ts d limit)"
proof -
  let ?v = "\<lparr>cs_spans = [], cs_begin = None, cs_inside_quotes = False, cs_held_delimiter = False\<rparr>"
  let ?f = "pos_in ts"
  obtain v stop0 where v: "char_delim_loop d limit 0 ts ?v = (v, stop0)" by fastforce
  have "char_inv ts d 0 ?v" by (simp add: char_inv_def)
  with char_delim_loop_inv [OF v _ plain_no_NUL [OF assms(1)]] have s0: "stop0 = None" by simp
  have mv: "move_char ?f ?v = ?v" by (simp add: move_char_def)
  obtain stop where st: "char_delim_loop d limit 0 (expand ts @ [z, z']) ?v = (move_char ?f v, stop)"
    "\<forall>n. stop = Some n \<longrightarrow> length (expand ts) \<le> n"
    using char_delim_expand [OF assms, of ?f 0 0 limit ?v] by (auto simp: v mv pos_in_def)
  have "list_all2 (span_rel ts) (map (map_prod ?f ?f) sps) sps" for sps
    by (induction sps) (auto simp: span_rel_def)
  with st(2) show ?thesis
    unfolding char_delim_def v st(1) s0 Let_def case_prod_conv
    by (cases "cs_begin v"; cases stop) (simp_all add: span_rel_def move_char_def list_all2_appendI)
qed

lemma blank_delim_buffer:
  assumes "plain_text ts" and "fst z = NUL" "fst z' = NUL"
  shows "list_all2 (span_rel ts) (cut_spans (blank_delim (expand ts @ [z, z']) limit)) (cut_spans (blank_delim ts limit))
    \<and> cut_held_delimiter (blank_delim (expand ts @ [z, z']) limit) = cut_held_delimiter (blank_delim ts limit)
    \<and> cut_open_quote (blank_delim (expand ts @ [z, z']) limit) = cut_open_quote (blank_delim ts limit)"
proof -
  let ?v = "\<lparr>bs_spans = [], bs_state = Start, bs_begin = 0, bs_inside_quotes = False, bs_held_delimiter = False\<rparr>"
  let ?f = "pos_in ts"
  obtain v stop0 where v: "blank_delim_loop limit 0 ts ?v = (v, stop0)" by fastforce
  have "blank_inv ts 0 ?v" by (simp add: blank_inv_def)
  with blank_delim_loop_inv [OF v _ plain_no_NUL [OF assms(1)]] have s0: "stop0 = None" by simp
  have mv: "move_blank ?f ?v = ?v" by (simp add: move_blank_def)
  obtain stop where st: "blank_delim_loop limit 0 (expand ts @ [z, z']) ?v = (move_blank ?f v, stop)"
    "\<forall>n. stop = Some n \<longrightarrow> length (expand ts) \<le> n"
    using blank_delim_expand [OF assms, of ?f 0 0 limit ?v] by (auto simp: v mv pos_in_def)
  have "list_all2 (span_rel ts) (map (map_prod ?f ?f) sps) sps" for sps
    by (induction sps) (auto simp: span_rel_def)
  with st(2) show ?thesis
    unfolding blank_delim_def v st(1) s0 Let_def case_prod_conv
    by (cases stop) (simp_all add: span_rel_def move_blank_def list_all2_appendI)
qed

lemma direct_cut_buffer:
  assumes "plain_text ts" and "length d = 1" and "fst z = NUL" "fst z' = NUL"
  shows "list_all2 (span_rel ts) (cut_spans (direct_cut (expand ts @ [z, z']) d limit)) (cut_spans (direct_cut ts d limit))
    \<and> cut_held_delimiter (direct_cut (expand ts @ [z, z']) d limit) = cut_held_delimiter (direct_cut ts d limit)
    \<and> cut_open_quote (direct_cut (expand ts @ [z, z']) d limit) = cut_open_quote (direct_cut ts d limit)"
  using char_delim_buffer [OF assms] blank_delim_buffer [OF assms(1,3,4)] by (simp add: direct_cut_def)

text \<open>The terminators \<open>split\<close> writes over the delimiters.\<close>

abbreviation terminate_spans :: "nat \<Rightarrow> rchar \<Rightarrow> (nat \<times> nat) list \<Rightarrow> cbuffer \<Rightarrow> cbuffer" where
  "terminate_spans index d spans b \<equiv>
     fold (\<lambda>s b. if char_at b (index + snd s) = d then cb_terminate (index + snd s) b else b) spans b"

lemma length_terminate_spans [simp]: "length (terminate_spans index d spans b) = length b"
  by (induction spans arbitrary: b) simp_all

lemma nth_terminate_spans:
  assumes "d \<noteq> NUL" and "k < length b"
  shows "terminate_spans index d spans b ! k =
    (if fst (b ! k) = d \<and> k \<in> (\<lambda>s. index + snd s) ` set spans then (NUL, snd (b ! k)) else b ! k)"
  using assms(2)
proof (induction spans arbitrary: b)
  case (Cons s spans)
  let ?b = "if char_at b (index + snd s) = d then cb_terminate (index + snd s) b else b"
  have len: "k < length ?b" using Cons.prems by simp
  have "?b ! k = (if k = index + snd s \<and> fst (b ! k) = d then (NUL, snd (b ! k)) else b ! k)"
    using Cons.prems by (auto simp: nth_cb_terminate char_at_def)
  with Cons.IH [OF len] assms(1) show ?case by auto
qed simp

lemma cb_c_str_nth:
  assumes "i + n < length b" and "\<And>k. k < n \<Longrightarrow> fst (b ! (i + k)) \<noteq> NUL" and "fst (b ! (i + n)) = NUL"
  shows "cb_c_str b i = take n (drop i b)"
proof (rule cb_c_strI)
  show "drop i b = take n (drop i b) @ b ! (i + n) # drop (Suc (i + n)) b"
    using assms(1) by (metis Cons_nth_drop_Suc add.commute append_take_drop_id drop_drop)
  show "\<forall>x \<in> set (take n (drop i b)). fst x \<noteq> NUL"
    using assms(1,2) by (force simp: in_set_conv_nth)
qed (rule assms(3))

lemma expand_not_NUL: "plain_text ts \<Longrightarrow> x \<in> set (expand ts) \<Longrightarrow> fst x \<noteq> NUL"
  by (induction ts) (auto simp: expand1_def)

lemma nth_pos_in:
  assumes "n < length ts" shows "expand ts ! pos_in ts n = ts ! n"
proof -
  have "expand ts = expand (take n ts @ ts ! n # drop (Suc n) ts)" using assms by (simp add: id_take_nth_drop [symmetric])
  then show ?thesis by (simp add: pos_in_def expand1_def nth_append)
qed

lemma terminated_c_str:
  assumes ts: "plain_text ts" and d: "d \<noteq> NUL" and z: "fst z = NUL" and pre: "length pre = index"
    and rel: "list_all2 (span_rel ts) spans' spans" and wf: "spans_in ts d spans" and k: "k < length spans"
  shows "cb_c_str (terminate_spans index d spans' (pre @ expand ts @ [z, z'])) (index + fst (spans' ! k)) =
      expand (slice ts (spans ! k))
    \<and> fst (spans' ! k) + length (expand (slice ts (spans ! k))) = pos_in ts (snd (spans ! k))"
proof -
  let ?b = "pre @ expand ts @ [z, z']" let ?c = "terminate_spans index d spans' ?b"
  obtain a e where s: "spans ! k = (a, e)" by fastforce
  have ae: "a < length ts" "a \<le> e" "e \<le> length ts" "e < length ts \<Longrightarrow> fst (ts ! e) = d"
    using bspec [OF conjunct2 [OF wf [unfolded spans_in_def]] nth_mem [OF k]] s by simp_all
  note rk = list_all2_nthD2 [OF rel k, unfolded s span_rel_def]
  let ?n = "pos_in ts e - pos_in ts a"
  have pe: "pos_in ts a \<le> pos_in ts e" "pos_in ts e \<le> length (expand ts)"
    using pos_in_mono [OF ae(2)] pos_in_mono [OF ae(3), of ts] by simp_all
  have not_end: "index + pos_in ts a + m \<notin> (\<lambda>s. index + snd s) ` set spans'" if "m < ?n" for m
  proof
    assume "index + pos_in ts a + m \<in> (\<lambda>s. index + snd s) ` set spans'"
    then obtain l where l: "l < length spans" "snd (spans' ! l) = pos_in ts a + m"
      using rel by (auto simp: in_set_conv_nth list_all2_lengthD)
    have rl: "snd (spans' ! l) = pos_in ts (snd (spans ! l)) \<or> length (expand ts) \<le> snd (spans' ! l)"
      using list_all2_nthD2 [OF rel l(1)] by (auto simp: span_rel_def)
    have m: "pos_in ts a + m < pos_in ts e" using that by simp
    with rl l(2) pe(2) have eq: "pos_in ts (snd (spans ! l)) = pos_in ts a + m" by auto
    have so: "snd (spans ! i) < fst (spans ! j)" if "i < j" "j < length spans" for i j
      using wf that by (simp add: spans_in_def sorted_wrt_iff_nth_less)
    have le: "fst (spans ! l) \<le> snd (spans ! l)"
      using bspec [OF conjunct2 [OF wf [unfolded spans_in_def]] nth_mem [OF l(1)]] by simp
    consider "l < k" | "l = k" | "k < l" by linarith
    then show False
    proof cases
      case 1
      with so [of l k] k s have "snd (spans ! l) < a" by simp
      then show False using pos_in_less [of "snd (spans ! l)" a ts] ae(1) eq by simp
    next
      case 2
      then show False using eq m s by simp
    next
      case 3
      with so [of k l] l(1) s le have "e \<le> snd (spans ! l)" by simp
      then show False using pos_in_mono [of e "snd (spans ! l)" ts] eq m by simp
    qed
  qed
  have nth: "?c ! (index + pos_in ts a + m) = expand ts ! (pos_in ts a + m)" if "m < ?n" for m
    using that not_end [OF that] pe pre
    by (subst nth_terminate_spans [OF d]) (auto simp: nth_append)
  have "fst (?c ! (index + pos_in ts e)) = NUL"
  proof (cases "e < length ts")
    case True
    then have at: "snd (spans' ! k) = pos_in ts e" "pos_in ts e < length (expand ts)"
      using rk pos_in_less [of e "length ts" ts] by auto
    then have "index + pos_in ts e \<in> (\<lambda>s. index + snd s) ` set spans'"
      using k list_all2_lengthD [OF rel] by (intro image_eqI [of _ _ "spans' ! k"]) simp_all
    with at(2) True ae(4) pre show ?thesis
      by (subst nth_terminate_spans [OF d]) (simp_all add: nth_append nth_pos_in)
  next
    case False
    with ae(3) have "e = length ts" by simp
    with pre z d show ?thesis by (subst nth_terminate_spans [OF d]) (auto simp: nth_append)
  qed
  moreover have "fst (?c ! (index + pos_in ts a + m)) \<noteq> NUL" if "m < ?n" for m
    using nth [OF that] that pe(2) expand_not_NUL [OF ts] by (auto intro!: expand_not_NUL [OF ts] nth_mem)
  ultimately have "cb_c_str ?c (index + pos_in ts a) = take ?n (drop (index + pos_in ts a) ?c)"
    using pe pre by (intro cb_c_str_nth) (auto simp: add.assoc)
  also have "\<dots> = take ?n (drop (pos_in ts a) (expand ts))"
    using pe by (intro nth_equalityI) (simp_all add: nth [unfolded add.assoc] pre add.assoc)
  also have "\<dots> = expand (slice ts (a, e))"
    using expand_slice [OF ae(2,3)] by simp
  finally show ?thesis using rk expand_slice(2) [OF ae(2,3)] pe(1) by (simp add: s)
qed

lemma cb_split_refines:
  assumes ts: "plain_text ts" and d: "length d = 1" "d \<noteq> NUL" and z: "fst z = NUL" "fst z' = NUL" and pre: "length pre = index"
  shows "\<exists>sp b'. cb_split index d limit (pre @ expand ts @ [z, z']) = (sp, b')
    \<and> sp_delimiter sp = d \<and> sp_held_delimiter sp = cut_held_delimiter (direct_cut ts d limit)
    \<and> sp_open_quote sp = cut_open_quote (direct_cut ts d limit) \<and> \<not> sp_unreadable_head sp
    \<and> list_all2 (\<lambda>t s. \<exists>s'. tok_raw t = (index + fst s', index + snd s') \<and> span_rel ts s' s) (sp_tokens sp)
        (cut_spans (direct_cut ts d limit))
    \<and> map (\<lambda>t. strip (cb_c_str b' (tok_start t))) (sp_tokens sp) =
      map (\<lambda>s. cleanup (slice ts s) (cleanup_delim d)) (cut_spans (direct_cut ts d limit))"
proof -
  let ?b = "pre @ expand ts @ [z, z']"
  let ?cut = "direct_cut (expand ts @ [z, z']) d limit" let ?spans = "cut_spans (direct_cut ts d limit)"
  define spans' where "spans' = cut_spans ?cut"
  note cut = direct_cut_buffer [OF ts d(1) z, of limit]
  then have rel: "list_all2 (span_rel ts) spans' ?spans" by (simp add: spans'_def)
  have wf: "spans_in ts d ?spans" by (rule direct_cut_spans_in [OF ts])
  define c where "c = terminate_spans index d spans' ?b"
  have len: "length spans' = length ?spans" by (rule list_all2_lengthD [OF rel])
  note str = terminated_c_str [OF ts d(2) z(1) pre rel wf, of _ z', folded c_def]
  have in_text: "snd (?spans ! k) \<le> length ts" if "k < length ?spans" for k
    using bspec [OF conjunct2 [OF wf [unfolded spans_in_def]] nth_mem [OF that]] by simp
  have chain: "sorted_wrt (\<lambda>s t. fst s + length (cb_c_str c (index + fst s)) < fst t) spans'"
    unfolding sorted_wrt_iff_nth_less
  proof (intro allI impI)
    fix i j assume ij: "i < j" "j < length spans'"
    with len have "snd (?spans ! i) < fst (?spans ! j)" "fst (?spans ! j) < length ts"
      using wf by (simp_all add: spans_in_def sorted_wrt_iff_nth_less)
    then have "pos_in ts (snd (?spans ! i)) < pos_in ts (fst (?spans ! j))" by (intro pos_in_less) simp_all
    then show "fst (spans' ! i) + length (cb_c_str c (index + fst (spans' ! i))) < fst (spans' ! j)"
      using str [of i] ij len list_all2_nthD [OF rel, of j] by (simp add: span_rel_def)
  qed
  have inside: "\<forall>s \<in> set spans'. index + fst s + length (cb_c_str c (index + fst s)) < length c"
  proof
    fix s assume "s \<in> set spans'"
    then obtain k where k: "k < length ?spans" "s = spans' ! k" by (metis in_set_conv_nth len)
    then show "index + fst s + length (cb_c_str c (index + fst s)) < length c"
      using str [of k] pos_in_mono [OF in_text [OF k(1)], of ts] pre by (simp add: c_def)
  qed
  obtain toks b' where t: "cb_tokens index (cleanup_delim d) spans' c = (toks, b')"
    "map tok_raw toks = map (\<lambda>s. (index + fst s, index + snd s)) spans'"
    "map (\<lambda>t. cb_c_str b' (tok_start t)) toks = map (\<lambda>s. cleanup (cb_c_str c (index + fst s)) (cleanup_delim d)) spans'"
    using cb_tokens_spec [OF chain inside, of "cleanup_delim d"] by auto
  have "drop index ?b = expand ts @ [z, z']" using pre by simp
  then have split: "cb_split index d limit ?b =
      (\<lparr>sp_tokens = toks, sp_delimiter = d, sp_held_delimiter = cut_held_delimiter ?cut,
        sp_open_quote = cut_open_quote ?cut, sp_unreadable_head = False\<rparr>, b')"
    using t(1) by (simp add: cb_split_def direct_cut_def [symmetric] cleanup_delim_def [symmetric] Let_def
        spans'_def [symmetric] c_def [symmetric])
  have ltoks: "length toks = length ?spans" using arg_cong [OF t(2), of length] len by simp
  have raw: "list_all2 (\<lambda>t s. \<exists>s'. tok_raw t = (index + fst s', index + snd s') \<and> span_rel ts s' s) toks ?spans"
    unfolding list_all2_conv_all_nth
  proof (intro conjI allI impI ltoks)
    fix k assume k: "k < length toks"
    then have "tok_raw (toks ! k) = (index + fst (spans' ! k), index + snd (spans' ! k))"
      using arg_cong [OF t(2), of "\<lambda>xs. xs ! k"] ltoks len by simp
    with list_all2_nthD2 [OF rel, of k] k ltoks
    show "\<exists>s'. tok_raw (toks ! k) = (index + fst s', index + snd s') \<and> span_rel ts s' (?spans ! k)" by auto
  qed
  have "map (\<lambda>t. strip (cb_c_str b' (tok_start t))) toks = map (\<lambda>s. cleanup (slice ts s) (cleanup_delim d)) ?spans"
  proof (rule nth_equalityI)
    fix k assume "k < length (map (\<lambda>t. strip (cb_c_str b' (tok_start t))) toks)"
    then have k: "k < length ?spans" using ltoks by simp
    then have "cb_c_str b' (tok_start (toks ! k)) = cleanup (expand (slice ts (?spans ! k))) (cleanup_delim d)"
      using arg_cong [OF t(3), of "\<lambda>xs. xs ! k"] ltoks len str [OF k] by simp
    moreover have "plain_text (slice ts (?spans ! k))"
      using ts unfolding slice_def by (metis append_take_drop_id plain_text_appendD)
    ultimately show "map (\<lambda>t. strip (cb_c_str b' (tok_start t))) toks ! k =
        map (\<lambda>s. cleanup (slice ts s) (cleanup_delim d)) ?spans ! k"
      using k ltoks cleanup_expand [of "slice ts (?spans ! k)" "cleanup_delim d"] d(1)
      by (simp add: cleanup_delim_def split: if_splits)
  qed (simp add: ltoks)
  then show ?thesis using split raw cut by simp
qed

section \<open>Reading the tokens back\<close>

text \<open>The split of a text without a buffer: spans moved by what precedes the text, tokens cleaned one by one.\<close>

definition direct_separated :: "nat \<Rightarrow> traced list \<Rightarrow> rchar \<Rightarrow> nat \<Rightarrow> separated" where
  "direct_separated off ts d limit =
     \<lparr>sd_tokens = map (\<lambda>s. \<lparr>token_raw = (off + fst s, off + snd s), token_text = cleanup (slice ts s) (cleanup_delim d)\<rparr>)
        (cut_spans (direct_cut ts d limit)),
      sd_delimiter = d, sd_held_delimiter = cut_held_delimiter (direct_cut ts d limit),
      sd_open_quote = cut_open_quote (direct_cut ts d limit)\<rparr>"

lemma with_origins_expand:
  assumes "ordered ts"
  shows "fst (with_origins ts) = expand ts @ [(NUL, snd (extent ts), snd (extent ts)), (NUL, snd (extent ts), snd (extent ts))]"
    and "length (snd (with_origins ts)) = length (expand ts) + 2"
  using origin_entries_expand [OF assms, of 0] by (simp_all add: with_origins_def Let_def) (metis length_map)

lemma within_pos:
  assumes "ordered ts"
  shows "n \<le> length ts \<Longrightarrow> k = pos_in ts n \<Longrightarrow>
      (if k < length (snd (with_origins ts)) then min (snd (with_origins ts) ! k) (length ts) else length ts) = n"
    and "length (expand ts) \<le> k \<Longrightarrow>
      (if k < length (snd (with_origins ts)) then min (snd (with_origins ts) ! k) (length ts) else length ts) = length ts"
proof -
  have len: "length (origin_entries 0 ts) = length (expand ts)"
    using origin_entries_expand [OF assms, of 0] by (metis length_map)
  show past: "(if k < length (snd (with_origins ts)) then min (snd (with_origins ts) ! k) (length ts) else length ts) = length ts"
    if "length (expand ts) \<le> k" for k
    using that by (auto simp: with_origins_def Let_def len nth_append nth_Cons' less_Suc_eq)
  show "(if k < length (snd (with_origins ts)) then min (snd (with_origins ts) ! k) (length ts) else length ts) = n"
    if n: "n \<le> length ts" and k: "k = pos_in ts n"
  proof (cases "n < length ts")
    case True
    with origins_at [OF assms True, of 0] show ?thesis
      by (simp add: k pos_in_def with_origins_def Let_def nth_append len)
  next
    case False
    with n have "n = length ts" by simp
    with past [of k] k show ?thesis by simp
  qed
qed

lemma read_back_tokens:
  assumes "plain_text ts" and "off \<le> length ts" and "length (expand (take off ts)) = off"
    and cut_in: "cut_in (fst (with_origins ts)) = (sp, b')"
    and "list_all2 (\<lambda>t s. \<exists>s'. tok_raw t = (off + fst s', off + snd s') \<and> span_rel (drop off ts) s' s) (sp_tokens sp) spans"
    and "spans_in (drop off ts) d spans"
    and "map (\<lambda>t. strip (cb_c_str b' (tok_start t))) (sp_tokens sp) = map g spans"
  shows "read_back ts cut_in =
    \<lparr>sd_tokens = map (\<lambda>s. \<lparr>token_raw = (off + fst s, off + snd s), token_text = g s\<rparr>) spans,
     sd_delimiter = sp_delimiter sp, sd_held_delimiter = sp_held_delimiter sp, sd_open_quote = sp_open_quote sp\<rparr>"
proof -
  have ord: "ordered ts" using assms(1) by (simp add: plain_text_def)
  let ?w = "\<lambda>at. if at < length (snd (with_origins ts)) then min (snd (with_origins ts) ! at) (length ts) else length ts"
  have ex: "length (expand ts) = off + length (expand (drop off ts))"
    by (metis append_take_drop_id assms(3) expand_simps(3) length_append)
  have pos: "off + pos_in (drop off ts) n = pos_in ts (off + n)" for n
    using assms(2,3) by (simp add: pos_in_def take_add)
  have len: "length (sp_tokens sp) = length spans" using list_all2_lengthD [OF assms(5)] .
  have raw: "(?w (fst (tok_raw (sp_tokens sp ! k))), ?w (snd (tok_raw (sp_tokens sp ! k)))) =
      (off + fst (spans ! k), off + snd (spans ! k))" if k: "k < length spans" for k
  proof -
    have s: "fst (spans ! k) < length (drop off ts)" "snd (spans ! k) \<le> length (drop off ts)"
      using bspec [OF conjunct2 [OF assms(6) [unfolded spans_in_def]] nth_mem [OF k]] by simp_all
    obtain s' where s': "tok_raw (sp_tokens sp ! k) = (off + fst s', off + snd s')" "span_rel (drop off ts) s' (spans ! k)"
      using list_all2_nthD2 [OF assms(5) k] by auto
    have "?w (off + fst s') = off + fst (spans ! k)"
      using s(1) s'(2) pos by (intro within_pos(1) [OF ord]) (simp_all add: span_rel_def)
    moreover have "?w (off + snd s') = off + snd (spans ! k)"
    proof (cases "snd s' = pos_in (drop off ts) (snd (spans ! k))")
      case True
      with s(2) pos assms(2) show ?thesis by (intro within_pos(1) [OF ord]) simp_all
    next
      case False
      with s'(2) have "snd (spans ! k) = length (drop off ts)" "length (expand (drop off ts)) \<le> snd s'"
        by (simp_all add: span_rel_def)
      then show ?thesis using within_pos(2) [OF ord, of "off + snd s'"] ex assms(2) by simp
    qed
    ultimately show ?thesis by (simp only: s'(1) fst_conv snd_conv)
  qed
  have "map (\<lambda>t. \<lparr>token_raw = (?w (fst (tok_raw t)), ?w (snd (tok_raw t))),
        token_text = filter (\<lambda>e. \<not> is_continuation e) (cb_c_str b' (tok_start t))\<rparr>) (sp_tokens sp) =
      map (\<lambda>s. \<lparr>token_raw = (off + fst s, off + snd s), token_text = g s\<rparr>) spans"
  proof (rule nth_equalityI)
    fix k assume "k < length (map (\<lambda>t. \<lparr>token_raw = (?w (fst (tok_raw t)), ?w (snd (tok_raw t))),
        token_text = filter (\<lambda>e. \<not> is_continuation e) (cb_c_str b' (tok_start t))\<rparr>) (sp_tokens sp))"
    then have k: "k < length spans" using len by simp
    then have "strip (cb_c_str b' (tok_start (sp_tokens sp ! k))) = g (spans ! k)"
      using arg_cong [OF assms(7), of "\<lambda>xs. xs ! k"] len by simp
    with raw [OF k] k len show "map (\<lambda>t. \<lparr>token_raw = (?w (fst (tok_raw t)), ?w (snd (tok_raw t))),
        token_text = filter (\<lambda>e. \<not> is_continuation e) (cb_c_str b' (tok_start t))\<rparr>) (sp_tokens sp) ! k =
      map (\<lambda>s. \<lparr>token_raw = (off + fst s, off + snd s), token_text = g s\<rparr>) spans ! k"
      by (simp add: strip_def)
  qed (simp add: len)
  then show ?thesis by (simp add: read_back_def case_prod_beta cut_in Let_def)
qed

lemma split_reads_back:
  assumes "plain_text ts" and "length d = 1" "d \<noteq> NUL" and "off \<le> length ts" and "length (expand (take off ts)) = off"
  shows "read_back ts (cb_split off d limit) = direct_separated off (drop off ts) d limit"
proof -
  have plain: "plain_text (drop off ts)" using assms(1) by (metis append_take_drop_id plain_text_appendD)
  let ?z = "(NUL, snd (extent ts), snd (extent ts))"
  have b: "fst (with_origins ts) = expand (take off ts) @ expand (drop off ts) @ [?z, ?z]"
    using assms(1) by (simp add: with_origins_expand(1) plain_text_def flip: append_assoc expand_simps(3))
  obtain sp b' where sp: "cb_split off d limit (fst (with_origins ts)) = (sp, b')" "sp_delimiter sp = d"
    "sp_held_delimiter sp = cut_held_delimiter (direct_cut (drop off ts) d limit)"
    "sp_open_quote sp = cut_open_quote (direct_cut (drop off ts) d limit)"
    "list_all2 (\<lambda>t s. \<exists>s'. tok_raw t = (off + fst s', off + snd s') \<and> span_rel (drop off ts) s' s) (sp_tokens sp)
        (cut_spans (direct_cut (drop off ts) d limit))"
    "map (\<lambda>t. strip (cb_c_str b' (tok_start t))) (sp_tokens sp) =
      map (\<lambda>s. cleanup (slice (drop off ts) s) (cleanup_delim d)) (cut_spans (direct_cut (drop off ts) d limit))"
    using cb_split_refines [OF plain assms(2,3) _ _ assms(5), of ?z ?z limit] unfolding b fst_conv by blast
  from read_back_tokens [where d = d and cut_in = "cb_split off d limit", OF assms(1,4,5) sp(1,5) direct_cut_spans_in [OF plain] sp(6)]
  show ?thesis by (simp add: direct_separated_def sp(2-4))
qed

lemma char_at_expand:
  assumes "\<forall>e \<in> set (take i ts). length (fst e) = 1"
  shows "char_at (expand ts) i = char_at ts i"
  using assms
proof (induction i arbitrary: ts)
  case 0
  then show ?case by (cases ts) (simp_all add: char_at_def expand1_def)
next
  case (Suc i)
  show ?case
  proof (cases ts)
    case Nil
    then show ?thesis by (simp add: char_at_def)
  next
    case (Cons e ts')
    with Suc have IH: "char_at (expand ts') i = char_at ts' i" and "length (fst e) = 1" by auto
    then have "expand ts = e # expand ts'" using Cons by (simp add: expand1_def)
    moreover have "char_at (e # us) (Suc i) = char_at us i" for us by (simp add: char_at_def)
    ultimately show ?thesis using Cons IH by simp
  qed
qed

lemma argument_head_expand:
  assumes "plain_text ts" shows "argument_head (expand ts) = argument_head ts"
proof -
  have single: "length (fst (ts ! i)) = 1" if "char_at ts i \<noteq> NUL" "char_is_ascii (char_at ts i)" for i
  proof -
    have i: "i < length ts" "char_at ts i = fst (ts ! i)" using that(1) by (auto simp: char_at_def split: if_splits)
    then have "char_ok (fst (ts ! i))" using assms by (simp add: plain_text_def)
    with that(2) i show ?thesis
      by (cases "fst (ts ! i)") (auto simp: char_ok_def char_is_ascii_def utf8_next_ascii)
  qed
  have pre: "\<forall>e \<in> set (take n ts). length (fst e) = 1" if "\<forall>i < n. length (fst (ts ! i)) = 1" for n
    using that by (force simp: in_set_conv_nth)
  have 0: "char_at (expand ts) 0 = char_at ts 0" by (rule char_at_expand) simp
  have caret: "length (fst (ts ! i)) = 1" if "char_at ts i = ''^''" for i
    using single [of i] that by (simp add: char_is_ascii_def is_ascii_def)
  have 1: "char_at (expand ts) 1 = char_at ts 1" if "char_at ts 0 = ''^''"
    using caret [OF that] by (intro char_at_expand pre) (simp add: less_Suc_eq)
  have 2: "char_at (expand ts) 2 = char_at ts 2" if "char_at ts 0 = ''^''" "char_at ts 1 = ''^''"
    using caret [OF that(1)] caret [OF that(2)] by (intro char_at_expand pre) (simp add: numeral_eq_Suc less_Suc_eq)
  have 3: "char_at (expand ts) 3 = char_at ts 3" if "char_at ts 0 = ''^''" "char_at ts 1 = ''^''"
    "char_at ts 2 \<noteq> NUL" "char_is_ascii (char_at ts 2)"
    using caret [OF that(1)] caret [OF that(2)] single [OF that(3,4)]
    by (intro char_at_expand pre) (simp add: numeral_eq_Suc less_Suc_eq)
  show ?thesis
  proof (cases "char_at ts 0 = ''^'' \<and> char_at ts 1 = ''^''")
    case True
    with 0 1 2 3 show ?thesis
      by (cases "char_at ts 2 \<noteq> NUL \<and> char_is_ascii (char_at ts 2)") (auto simp: argument_head_def)
  next
    case False
    with 0 1 show ?thesis by (auto simp: argument_head_def)
  qed
qed

lemma picked_head:
  assumes "plain_text ts" and "argument_head ts = Picked d"
  shows "length d = 1" "d \<noteq> NUL" "3 \<le> length ts" "length (expand (take 3 ts)) = 3"
proof -
  have h: "char_at ts 0 = ''^''" "char_at ts 1 = ''^''" "char_at ts 2 = d" "d \<noteq> NUL" "char_is_ascii d" "char_at ts 3 \<noteq> NUL"
    using assms(2) by (auto simp: argument_head_def split: if_splits)
  then have "Suc (Suc (Suc (Suc 0))) \<le> length ts" by (auto simp: char_at_def split: if_splits)
  then obtain e0 e1 e2 e3 rest where ts: "ts = e0 # e1 # e2 # e3 # rest"
    by (auto simp: Suc_le_length_iff)
  have "char_ok d" using assms(1) h(3) ts by (cases e0; cases e1; cases e2) (simp add: char_at_def numeral_2_eq_2)
  then show "length d = 1" using h(5) by (cases d) (auto simp: char_ok_def char_is_ascii_def utf8_next_ascii)
  with h ts show "d \<noteq> NUL" "3 \<le> length ts" "length (expand (take 3 ts)) = 3"
    by (auto simp: char_at_def numeral_eq_Suc expand1_def)
qed

lemma separate_refines:
  assumes "plain_text ts" and "length d = 1" and "d \<noteq> NUL"
  shows "separate ts d limit = (case argument_head ts of
      Picked picked \<Rightarrow> direct_separated 3 (drop 3 ts) picked limit | _ \<Rightarrow> direct_separated 0 ts d limit)"
proof -
  have b: "cb_c_str (fst (with_origins ts)) 0 = expand ts"
    using assms(1) expand_not_NUL [OF assms(1)]
    by (intro cb_c_strI [of _ _ _ "(NUL, snd (extent ts), snd (extent ts))" "[(NUL, snd (extent ts), snd (extent ts))]"])
      (simp_all add: with_origins_expand(1) plain_text_def)
  have head: "argument_head (cb_c_str (fst (with_origins ts)) 0) = argument_head ts"
    by (simp add: b argument_head_expand [OF assms(1)])
  have unread: "read_back ts (\<lambda>b. let (sp, b) = cb_split 0 d limit b in (sp\<lparr>sp_unreadable_head := True\<rparr>, b)) =
      read_back ts (cb_split 0 d limit)" by (simp add: read_back_def case_prod_beta Let_def)
  have cong: "read_back ts (cb_separate 0 d limit) = read_back ts f"
    if "cb_separate 0 d limit (fst (with_origins ts)) = f (fst (with_origins ts))" for f
    using that by (simp add: read_back_def case_prod_beta Let_def)
  have zero: "read_back ts (cb_split 0 d limit) = direct_separated 0 ts d limit"
    using split_reads_back [OF assms, of 0 limit] by simp
  show ?thesis
  proof (cases "argument_head ts")
    case (Picked p)
    have "read_back ts (cb_separate 0 d limit) = read_back ts (cb_split 3 p limit)"
      by (rule cong) (simp add: cb_separate_def head Picked)
    then show ?thesis
      using Picked picked_head [OF assms(1) Picked] split_reads_back [OF assms(1), of p 3 limit]
      by (simp add: separate_def)
  next
    case Unreadable
    have "read_back ts (cb_separate 0 d limit) =
        read_back ts (\<lambda>b. let (sp, b) = cb_split 0 d limit b in (sp\<lparr>sp_unreadable_head := True\<rparr>, b))"
      by (rule cong) (simp add: cb_separate_def head Unreadable)
    then show ?thesis using Unreadable unread zero by (simp add: separate_def)
  next
    case Absent
    have "read_back ts (cb_separate 0 d limit) = read_back ts (cb_split 0 d limit)"
      by (rule cong) (simp add: cb_separate_def head Absent)
    then show ?thesis using Absent zero by (simp add: separate_def)
  qed
qed

section \<open>Properties\<close>

text \<open>
  C3: the split in place refines the split of the text. For a text without NUL and an ASCII delimiter,
  \<open>separate\<close>, which copies the text byte by byte into a buffer, overwrites delimiters with terminators and
  cleans every token over its own bytes, returns exactly the spans that the scanner cuts in the
  text, each with the text that \<open>cleanup\<close> makes of it alone; after a \<open>^^\<close> head it does so on
  the delimiter that the head picks and the text behind it. No token's cleanup disturbs another
  and characters of several bytes stay whole.
\<close>

theorem in_place_split_refines:
  assumes "plain_text ts" and "length d = 1" and "d \<noteq> NUL"
  shows "separate ts d limit = (case argument_head ts of
      Picked picked \<Rightarrow> direct_separated 3 (drop 3 ts) picked limit | _ \<Rightarrow> direct_separated 0 ts d limit)"
  using assms by (rule separate_refines)

theorem in_place_split_refines_witness:
  "separate (trace (''a'' @ [CHR 0xC3, CHR 0xA9] @ '',b c'' @ BACKSLASH)) '','' USIZE_MAX =
     direct_separated 0 (trace (''a'' @ [CHR 0xC3, CHR 0xA9] @ '',b c'' @ BACKSLASH)) '','' USIZE_MAX
   \<and> map token_raw (sd_tokens (separate (trace (''a'' @ [CHR 0xC3, CHR 0xA9] @ '',b c'' @ BACKSLASH)) '','' USIZE_MAX)) =
     [(0, 2), (3, 7)]"
proof -
  let ?ts = "trace (''a'' @ [CHR 0xC3, CHR 0xA9] @ '',b c'' @ BACKSLASH)"
  have "list_all (\<lambda>e. char_ok (fst e) \<and> fst e \<noteq> NUL) ?ts" by code_simp
  then have p: "plain_text ?ts" by (simp add: plain_text_def list_all_iff)
  have h: "argument_head ?ts = Absent" by code_simp
  have eq: "separate ?ts '','' USIZE_MAX = direct_separated 0 ?ts '','' USIZE_MAX"
    using in_place_split_refines [OF p, of "'',''" USIZE_MAX] h by simp
  have "map token_raw (sd_tokens (direct_separated 0 ?ts '','' USIZE_MAX)) = [(0, 2), (3, 7)]" by code_simp
  then show ?thesis unfolding eq by (rule conjI [OF refl])
qed

lemma tiled_concat:
  assumes "tiled i spans j" and "\<forall>s \<in> set spans. snd s < length ts \<and> fst (ts ! snd s) = d" and "j \<le> length ts"
  shows "map fst (take (j - i) (drop i ts)) = concat (map (\<lambda>s. map fst (slice ts s) @ [d]) spans)"
  using assms
proof (induction i spans j rule: tiled.induct)
  case (2 i first fin spans j)
  then have fin: "first = i" "i \<le> fin" "fin < length ts" "fst (ts ! fin) = d" "tiled (fin + 1) spans j" by auto
  then have j: "fin + 1 \<le> j" using tiled_le by blast
  have "take (j - i) (drop i ts) = slice ts (i, fin) @ ts ! fin # take (j - (fin + 1)) (drop (fin + 1) ts)"
  proof -
    have "drop i ts = slice ts (i, fin) @ ts ! fin # drop (fin + 1) ts"
      using fin(2,3) by (simp add: slice_def Cons_nth_drop_Suc)
        (metis append_take_drop_id drop_drop le_add_diff_inverse2)
    moreover have "length (slice ts (i, fin)) = fin - i" using fin(2,3) by (simp add: slice_def)
    moreover have "j - i = (fin - i) + Suc (j - (fin + 1))" "j - fin = Suc (j - (fin + 1))" using j fin(2) by simp_all
    ultimately show ?thesis by simp
  qed
  with 2 fin show ?case by simp
qed simp

lemma join_with_snoc: "join_with d (ws @ [w]) = concat (map (\<lambda>w. w @ [d]) ws) @ w"
proof (induction ws)
  case (Cons v ws)
  have "join_with d (v # (ws @ [w])) = v @ d # join_with d (ws @ [w])" by (rule join_with_Cons) simp
  with Cons show ?case by simp
qed simp

text \<open>
  The split on a delimiter loses nothing. Joining the raw tokens with the delimiter gives the text
  back, up to one trailing delimiter, which yields no token of its own; so the tokens meet only at
  their delimiters, whatever quotes, escapes and limit the scan meets.
\<close>

lemma split_keeps_text:
  assumes "NUL \<notin> fst ` set ts"
  shows "\<exists>tail \<in> {[], [d]}. map fst ts =
    join_with d (map (\<lambda>s. map fst (slice ts s)) (cut_spans (char_delim ts d limit))) @ tail"
proof -
  let ?v = "\<lparr>cs_spans = [], cs_begin = None, cs_inside_quotes = False, cs_held_delimiter = False\<rparr>"
  obtain v stop where l: "char_delim_loop d limit 0 ts ?v = (v, stop)" by fastforce
  have "char_inv ts d 0 ?v" by (simp add: char_inv_def)
  from char_delim_loop_inv [OF l _ assms this] obtain j where
    inv: "stop = None" "char_inv ts d j v" "cs_begin v = None \<Longrightarrow> j = length ts" by auto
  let ?w = "\<lambda>s. map fst (slice ts s)"
  show ?thesis
  proof (cases "cs_begin v")
    case None
    then have "map fst (take (length ts - 0) (drop 0 ts)) = concat (map (\<lambda>s. ?w s @ [d]) (cs_spans v))"
      using inv by (intro tiled_concat) (simp_all add: char_inv_def)
    then have eq: "map fst ts = concat (map (\<lambda>w. w @ [d]) (map ?w (cs_spans v)))" by (simp add: comp_def)
    show ?thesis
    proof (cases "map ?w (cs_spans v)" rule: rev_cases)
      case Nil
      with eq None show ?thesis by (simp add: char_delim_def l)
    next
      case (snoc ws w)
      with eq None show ?thesis by (simp add: char_delim_def l join_with_snoc)
    qed
  next
    case (Some b)
    then have b: "b \<le> length ts" "map fst (take (b - 0) (drop 0 ts)) = concat (map (\<lambda>s. ?w s @ [d]) (cs_spans v))"
      using inv by (simp add: char_inv_def) (intro tiled_concat, use Some inv in \<open>simp_all add: char_inv_def\<close>)
    have "map fst ts = map fst (take b ts) @ ?w (b, length ts)" by (simp add: slice_def flip: map_append)
    with b(2) show ?thesis by (simp add: char_delim_def l Some inv(1) join_with_snoc comp_def)
  qed
qed

end
