(* ===== verification/Originate_Types.thy ===== *)
theory Originate_Types
  imports Switch_Text
begin

text \<open>
  The types of the originate command: \<open>types commands/originate/application.rs\<close>, its errors
  (\<open>commands/originate/error.rs\<close>), and where a dial string is headed (\<open>commands/variables/target.rs\<close>).
  An error that wraps the error of a number or enum parser keeps the rejected text only.
\<close>

section \<open>Targets\<close>

datatype dialplan_type = Inline | Xml

fun wire_name :: "dialplan_type \<Rightarrow> string" where
  "wire_name Inline = ''inline''"
| "wire_name Xml = ''XML''"

definition dialplan_type_from_str :: "string \<Rightarrow> dialplan_type option" where
  "dialplan_type_from_str s =
     (if eq_ignore_ascii_case s ''inline'' then Some Inline
      else if eq_ignore_ascii_case s ''xml'' then Some Xml
      else None)"

datatype dialplan = Typed dialplan_type | Named string

definition dialplan_from_name :: "string \<Rightarrow> dialplan" where
  "dialplan_from_name name =
     (case dialplan_type_from_str name of Some dp \<Rightarrow> Typed dp | None \<Rightarrow> Named name)"

fun dialplan_name :: "dialplan \<Rightarrow> string" where
  "dialplan_name (Typed dp) = wire_name dp"
| "dialplan_name (Named name) = name"

fun dialplan_typed :: "dialplan \<Rightarrow> dialplan_type option" where
  "dialplan_typed (Typed dp) = Some dp"
| "dialplan_typed (Named _) = None"

record application =
  app_name :: string
  app_args :: "string option"

fun to_string_with_dialplan :: "application \<Rightarrow> dialplan_type \<Rightarrow> string" where
  "to_string_with_dialplan app Inline =
     (case app_args app of Some args \<Rightarrow> app_name app @ '':'' @ args | None \<Rightarrow> app_name app)"
| "to_string_with_dialplan app Xml =
     ''&'' @ app_name app @ ''('' @ unwrap_or [] (app_args app) @ '')''"

datatype originate_target =
  Extension string
| Application application
| InlineApplications "application list"

section \<open>Where a dial string is headed\<close>

datatype carrier = EslApi | Dialplan
datatype block_parse = PairSplitCleans

datatype argument_pass = Blank | Char rchar | Consumed

record dial_target =
  dt_carrier :: carrier
  dt_block_parse :: block_parse
  dt_argument :: argument_pass

datatype invalid_argv_separator = WrongCarrier carrier | Unusable rchar

section \<open>Errors\<close>

datatype execute_on_fault = FaultEmpty | FaultCut | FaultLineBreak | FaultExpanded | FaultOpensScopeVariables

datatype endpoint_field_fault =
  EnterpriseSeparator | ModuleSeparator string | ReadsAsGateway | FollowsAnApplication | EmptyReadsAsDefault
| FunctionSeparator string | ReadBeforeTheFunction | EmptyDialsNothing

datatype originate_error =
  UnclosedQuote string
| OriginateParseError string
| EmptyInlineApplications
| ExtensionWithInlineDialplan
| VariablesNotSupported string
| InvalidTimeout string
| UnknownHangupCause string
| UnknownGroupCallOrder string
| UnknownEndpointType string
| InvalidInlineDelimiter rchar
| InvalidArgvSeparator invalid_argv_separator
| UndefPositional string
| ExtensionReadsAsApplication
| ParenthesisInApplication string
| InlineApplicationsWithDialplan
| UndeliverableEndpointField string string endpoint_field_fault
| BracketSpansLegs nat
| UnexpandedExpression string
| UndeliverableExecuteOn string execute_on_fault

section \<open>Lemmas\<close>

lemma dialplan_name_roundtrip:
  "dialplan_typed dp = None \<longrightarrow> dialplan_type_from_str (dialplan_name dp) = None \<Longrightarrow>
   dialplan_from_name (dialplan_name dp) = dp"
proof (cases dp)
  case (Typed t)
  then show ?thesis by (cases t) (simp_all add: dialplan_from_name_def, code_simp+)
qed (simp add: dialplan_from_name_def)

end
