(* ===== verification/Api_Argument.thy ===== *)
theory Api_Argument
  imports Separate_In_Place Originate_Types
begin

text \<open>
  The argument line of an API command: \<open>types switch_passes/api_argument.rs\<close> and the functions of
  \<open>commands/mod.rs\<close> over it. A text is escaped to stand as one argument of the switch's
  split, on blanks or on a separator that the line names with a \<open>^^\<close> head, and \<open>split_line\<close> is that
  split. The lemmas show the escapes as pieces; the properties say that whatever the arguments
  contain, the split delivers them as they were.
\<close>

section \<open>Separators\<close>

definition STRIPPED_WHITESPACE :: "rchar list" where
  "STRIPPED_WHITESPACE = [TAB, [NL], VTAB, [CR], SPACE]"

definition breaks_a_split :: "rchar \<Rightarrow> bool" where
  "breaks_a_split sep \<longleftrightarrow> \<not> is_ascii_graphic sep \<or> sep \<in> {BACKSLASH, QUOTE, ''n'', ''r'', ''t'', ''s''}"

definition usable_argv_separator :: "rchar \<Rightarrow> bool" where
  "usable_argv_separator sep \<longleftrightarrow> \<not> breaks_a_split sep \<and> \<not> is_ascii_alphanumeric sep \<and>
     sep \<notin> {''^'', ''\"'', '','', ''|'', ''['', '']'', ''{'', ''}'', ''<'', ''>'', ''='', '':''}"

section \<open>Escaping one argument\<close>

record argument_escape =
  esc_out :: string
  esc_started :: bool
  esc_spaces :: nat
  esc_vertical_tab_last :: bool

text \<open>One character of \<open>ArgumentEscape::write_str\<close>.\<close>

definition escape_char :: "rchar \<Rightarrow> argument_escape \<Rightarrow> rchar \<Rightarrow> argument_escape" where
  "escape_char sep v c =
     (if c = SPACE \<and> esc_started v \<and> sep \<noteq> SPACE then v\<lparr>esc_spaces := esc_spaces v + 1\<rparr>
      else let out = esc_out v @ replicate (esc_spaces v) SP;
               out = (if c = VTAB \<and> \<not> esc_started v then out @ QUOTE @ QUOTE else out);
               out = out @ (if c = SPACE then BACKSLASH @ ''s''
                            else if c = [NL] then BACKSLASH @ ''n''
                            else if c = [CR] then BACKSLASH @ ''r''
                            else if c = TAB then BACKSLASH @ ''t''
                            else if takes_a_backslash c (Some sep) then BACKSLASH @ c
                            else c)
           in \<lparr>esc_out = out, esc_started = True, esc_spaces = 0, esc_vertical_tab_last = (c = VTAB)\<rparr>)"

definition write_escaped :: "rchar \<Rightarrow> string \<Rightarrow> string" where
  "write_escaped sep inner =
     (let v = foldl (escape_char sep)
            \<lparr>esc_out = [], esc_started = False, esc_spaces = 0, esc_vertical_tab_last = False\<rparr> (chars inner)
      in if esc_spaces v = 0
         then if esc_vertical_tab_last v then esc_out v @ QUOTE @ QUOTE else esc_out v
         else esc_out v @ replicate (esc_spaces v - 1) SP @ BACKSLASH @ ''s'')"

definition escape_argument :: "string \<Rightarrow> rchar \<Rightarrow> string option" where
  "escape_argument s sep =
     (if s = [] then Some (QUOTE @ QUOTE)
      else let guarded = (sep = SPACE \<and> starts_with ''^^'' s);
               plain = (\<not> guarded \<and> hd (chars s) \<notin> set STRIPPED_WHITESPACE \<and> last (chars s) \<notin> set STRIPPED_WHITESPACE
                        \<and> \<not> list_ex (\<lambda>c. c \<in> {BACKSLASH, QUOTE, [NL], [CR], TAB, sep}) (chars s))
           in if plain then Some s
              else Some ((if guarded then QUOTE @ QUOTE else []) @ write_escaped sep s))"

definition quote_for_uuid_setvar :: "string \<Rightarrow> string" where
  "quote_for_uuid_setvar v = QUOTE @ escape_inside_token v None @ QUOTE"

definition originate_quote :: "string \<Rightarrow> string" where
  "originate_quote token =
     (if token = [] \<or> list_ex (\<lambda>c. c \<in> set STRIPPED_WHITESPACE) (chars token)
         \<or> list_ex (\<lambda>c. c \<in> {QUOTE, BACKSLASH}) (chars token)
      then quote_for_uuid_setvar token else token)"

section \<open>Reading the arguments\<close>

datatype argv_cut = ArgvCut

definition sole_argument :: "traced list \<Rightarrow> rchar \<Rightarrow> argv_cut + token option" where
  "sole_argument ts delim =
     (let (separated, quote_cuts) =
            (if delim = SPACE
             then (let s = separate ts SPACE USIZE_MAX in (s, sd_open_quote s))
             else (let s = separate_on ts delim USIZE_MAX in (s, sd_held_delimiter s)))
      in if quote_cuts \<or> length (sd_tokens separated) > 1 then Inl ArgvCut
         else Inr (case sd_tokens separated of [] \<Rightarrow> None | t # _ \<Rightarrow> Some t))"

definition clean_argument :: "string \<Rightarrow> rchar option \<Rightarrow> string" where
  "clean_argument token sep = untrace (cleanup (trace token) sep)"

definition originate_unquote :: "string \<Rightarrow> string" where
  "originate_unquote token = clean_argument token None"

record argument =
  arg_raw :: "nat \<times> nat"
  arg_text :: string

record argument_line =
  al_arguments :: "argument list"
  al_delimiter :: rchar

definition split_line :: "string \<Rightarrow> rchar \<Rightarrow> originate_error + argument_line" where
  "split_line line split_at =
     (let ts = trace line;
          separated = separate ts split_at USIZE_MAX;
          blank = (sd_delimiter separated = SPACE);
          arguments = map (\<lambda>t.
            let raw = byte_range ts (extent ts) (token_raw t);
                leading = (if blank then length (takeWhile (\<lambda>b. b = SP) (slice line raw)) else 0)
            in \<lparr>arg_raw = (fst raw + leading, snd raw), arg_text = untrace (token_text t)\<rparr>) (sd_tokens separated)
      in if blank \<and> sd_open_quote separated
         then Inl (UnclosedQuote (if arguments = [] then [] else slice line (arg_raw (last arguments))))
         else Inr \<lparr>al_arguments = arguments, al_delimiter = sd_delimiter separated\<rparr>)"

definition originate_split :: "string \<Rightarrow> rchar \<Rightarrow> originate_error + string list" where
  "originate_split line split_at =
     mapR (\<lambda>al. map (\<lambda>a. slice line (arg_raw a)) (al_arguments al)) (split_line line split_at)"

section \<open>The escapes as pieces\<close>

text \<open>A separator the escapes work for: a blank, or one that does not break a split.\<close>

definition sep_ok :: "rchar \<Rightarrow> bool" where
  "sep_ok sep \<longleftrightarrow> sep = SPACE \<or> \<not> breaks_a_split sep"

text \<open>A text that can be an argument: valid UTF-8 without NUL.\<close>

definition arg_ok :: "string \<Rightarrow> bool" where
  "arg_ok s \<longleftrightarrow> utf8_valid s \<and> NUL \<notin> set (chars s)"

definition char_piece :: "rchar \<Rightarrow> rchar \<Rightarrow> piece" where
  "char_piece sep c =
     (if c = SPACE then Escape ''s'' SPACE else if c = [NL] then Escape ''n'' [NL] else if c = [CR] then Escape ''r'' [CR]
      else if c = TAB then Escape ''t'' TAB else if takes_a_backslash c (Some sep) then Escape c c else Plain c)"

lemma graphicE:
  assumes "is_ascii_graphic c"
  obtains b where "c = [b]" "33 \<le> (of_char b :: nat)" "(of_char b :: nat) \<le> 126"
  using assms unfolding is_ascii_graphic_def by blast

lemma sep_okE:
  assumes "sep_ok sep" "sep \<noteq> SPACE"
  obtains b where "sep = [b]" "33 \<le> (of_char b :: nat)" "(of_char b :: nat) \<le> 126" "sep \<notin> {BACKSLASH, QUOTE, ''n'', ''r'', ''t'', ''s''}"
  using assms unfolding sep_ok_def breaks_a_split_def by (metis graphicE)
lemma sep_ok_single: assumes "sep_ok sep" shows "length sep = 1 \<and> sep \<noteq> NUL \<and> char_ok sep"
proof (cases "sep = SPACE")
  case True then show ?thesis by (simp add: is_ascii_def)
next
  case False
  obtain b where b: "sep = [b]" "33 \<le> (of_char b :: nat)" "(of_char b :: nat) \<le> 126" using sep_okE [OF assms False] by blast
  then have "b \<noteq> CHR 0x00" by force 
  with b show ?thesis by (simp add: is_ascii_def)
qed
lemma sep_ok_cases:
  assumes "sep_ok sep"
  shows "sep \<notin> {BACKSLASH, QUOTE, NUL, VTAB, TAB, [NL], [CR], ''n'', ''r'', ''t'', ''s''}"
proof (cases "sep = SPACE")
  case True then show ?thesis by simp
next
  case False
  obtain b where b: "sep = [b]" "33 \<le> (of_char b :: nat)" "sep \<notin> {BACKSLASH, QUOTE, ''n'', ''r'', ''t'', ''s''}" using sep_okE [OF assms False] by blast
  have "[b] \<noteq> [c]" if "(of_char c :: nat) < 33" for c using b(2) that by auto
  from this [of "CHR 0x00"] this [of "CHR 0x0B"] this [of "CHR 0x09"] this [of "CHR 0x0A"] this [of "CHR 0x0D"] b(1,3)
  show ?thesis by simp
qed

lemma char_piece_ok:
  assumes "sep_ok sep" and "c \<noteq> NUL"
  shows "piece_ok sep (cleanup_delim sep) (char_piece sep c)" "piece_reads (char_piece sep c) = [c]"
    "char_piece sep c \<noteq> Plain SPACE"
    "char_ok c \<Longrightarrow> list_all char_ok (piece_writes (char_piece sep c))"
  using assms(2) sep_ok_cases [OF assms(1)]
  by (auto simp: char_piece_def takes_a_backslash_def unescape_def cleanup_delim_def is_ascii_def)

text \<open>What the writer has written, as pieces, and the spaces it holds back.\<close>

definition escape_inv :: "rchar \<Rightarrow> rchar list \<Rightarrow> argument_escape \<Rightarrow> piece list \<Rightarrow> bool" where
  "escape_inv sep cs v ps \<longleftrightarrow> esc_out v = concat (writes ps) \<and> list_all char_ok (writes ps)
     \<and> reads ps @ replicate (esc_spaces v) SPACE = cs \<and> list_all (piece_ok sep (cleanup_delim sep)) ps
     \<and> (esc_started v \<longleftrightarrow> ps \<noteq> []) \<and> (ps \<noteq> [] \<longrightarrow> hd ps \<noteq> Plain SPACE \<and> last ps \<noteq> Plain SPACE)
     \<and> (esc_spaces v \<noteq> 0 \<longrightarrow> esc_started v \<and> sep \<noteq> SPACE) \<and> (cs = [] \<longleftrightarrow> ps = [])
     \<and> (esc_vertical_tab_last v \<longrightarrow> ps \<noteq> []) \<and> \<not> holds sep ps"

lemma holds_append [simp]: "holds sep (ps @ qs) \<longleftrightarrow> holds sep ps \<or> holds sep qs"
  by (simp add: holds_def)

lemma holds_spaces [simp]: "\<not> holds sep (replicate n (Plain SPACE))"
  by (induction n) simp_all

lemma holds_char_piece [simp]: "\<not> holds sep [char_piece sep' c]"
  by (simp add: char_piece_def)

lemma holds_plain [simp]: "\<not> holds sep (map Plain cs)"
  by (induction cs) simp_all

lemma writes_spaces: "concat (writes (replicate n (Plain SPACE))) = replicate n SP"
  and reads_spaces: "reads (replicate n (Plain SPACE)) = replicate n SPACE"
  by (induction n) simp_all

lemma spaces_ok: "sep \<noteq> SPACE \<Longrightarrow> list_all (piece_ok sep d) (replicate n (Plain SPACE))"
  "list_all char_ok (writes (replicate n (Plain SPACE)))"
  by (induction n) (simp_all add: is_ascii_def)

lemma escape_char_inv:
  assumes "sep_ok sep" and "escape_inv sep cs v ps" and "c \<noteq> NUL" and "char_ok c"
  shows "\<exists>ps'. escape_inv sep (cs @ [c]) (escape_char sep v c) ps'"
proof (cases "c = SPACE \<and> esc_started v \<and> sep \<noteq> SPACE")
  case True
  with assms(2) have "escape_inv sep (cs @ [c]) (escape_char sep v c) ps"
    by (auto simp: escape_inv_def escape_char_def replicate_append_same)
  then show ?thesis ..
next
  case False
  let ?ps = "ps @ replicate (esc_spaces v) (Plain SPACE) @ (if c = VTAB \<and> \<not> esc_started v then [Quoted []] else []) @ [char_piece sep c]"
  note inv = assms(2) [unfolded escape_inv_def]
  note ok = char_piece_ok [OF assms(1,3)]
  have out: "concat (piece_writes (char_piece sep c)) = (if c = SPACE then BACKSLASH @ ''s''
       else if c = [NL] then BACKSLASH @ ''n'' else if c = [CR] then BACKSLASH @ ''r''
       else if c = TAB then BACKSLASH @ ''t'' else if takes_a_backslash c (Some sep) then BACKSLASH @ c else c)"
    by (simp add: char_piece_def)
  have "list_all (piece_ok sep (cleanup_delim sep)) (replicate (esc_spaces v) (Plain SPACE))"
    using inv spaces_ok(1) [of sep "cleanup_delim sep" "esc_spaces v"] by (cases "esc_spaces v = 0") auto
  moreover have "hd ?ps \<noteq> Plain SPACE" and "ps = [] \<Longrightarrow> esc_spaces v = 0 \<and> cs = []"
    using inv ok(3) by (cases ps; cases "esc_spaces v"; auto)+
  moreover have "cs = reads ps @ replicate (esc_spaces v) SPACE" using inv by simp
  ultimately have "escape_inv sep (cs @ [c]) (escape_char sep v c) ?ps"
    using False inv ok(1,2,3) ok(4) [OF assms(4)] spaces_ok(2) [of "esc_spaces v"]
    by (simp add: escape_inv_def escape_char_def Let_def writes_spaces reads_spaces out is_ascii_def) auto
  then show ?thesis ..
qed

lemma escape_chars_inv:
  assumes "sep_ok sep" and "escape_inv sep cs v ps" and "list_all char_ok ds" and "NUL \<notin> set ds"
  shows "\<exists>ps'. escape_inv sep (cs @ ds) (foldl (escape_char sep) v ds) ps'"
  using assms
proof (induction ds arbitrary: cs v ps)
  case (Cons c ds)
  have "c \<noteq> NUL" "char_ok c" using Cons.prems(3,4) by auto
  from escape_char_inv [OF Cons.prems(1,2) this] obtain ps' where
    "escape_inv sep (cs @ [c]) (escape_char sep v c) ps'" by auto
  from Cons.IH [OF Cons.prems(1) this] Cons.prems(3,4) show ?case by auto
qed auto

lemma write_escaped_pieces:
  assumes "sep_ok sep" and "arg_ok s"
  shows "\<exists>ps. write_escaped sep s = concat (writes ps) \<and> list_all char_ok (writes ps) \<and> reads ps = chars s
    \<and> token_ok sep (cleanup_delim sep) ps \<and> (ps = [] \<longleftrightarrow> s = []) \<and> \<not> holds sep ps"
proof -
  define v where "v = foldl (escape_char sep)
    \<lparr>esc_out = [], esc_started = False, esc_spaces = 0, esc_vertical_tab_last = False\<rparr> (chars s)"
  have "escape_inv sep [] \<lparr>esc_out = [], esc_started = False, esc_spaces = 0, esc_vertical_tab_last = False\<rparr> []"
    by (simp add: escape_inv_def)
  from escape_chars_inv [OF assms(1) this chars_ok, of s] assms(2) obtain ps where
    inv: "escape_inv sep (chars s) v ps" by (auto simp: v_def arg_ok_def)
  note inv = inv [unfolded escape_inv_def]
  show ?thesis
  proof (cases "esc_spaces v = 0")
    case True
    let ?ps = "if esc_vertical_tab_last v then ps @ [Quoted []] else ps"
    show ?thesis
      using inv True by (intro exI [of _ ?ps]) (auto simp: write_escaped_def v_def [symmetric] token_ok_def is_ascii_def)
  next
    case False
    let ?ps = "ps @ replicate (esc_spaces v - 1) (Plain SPACE) @ [Escape ''s'' SPACE]"
    have "replicate (esc_spaces v) SPACE = replicate (esc_spaces v - 1) SPACE @ [SPACE]"
      using False by (cases "esc_spaces v") (simp_all add: replicate_append_same)
    then have "reads ?ps = chars s" using inv by (simp add: reads_spaces)
    moreover have "unescape ''s'' (cleanup_delim sep) = Some SPACE"
      using sep_ok_cases [OF assms(1)] by (auto simp: unescape_def cleanup_delim_def)
    then have "token_ok sep (cleanup_delim sep) ?ps"
      using inv False spaces_ok(1) [of sep "cleanup_delim sep" "esc_spaces v - 1"] by (auto simp: token_ok_def hd_append)
    moreover have "write_escaped sep s = concat (writes ?ps)"
      using inv False by (simp add: write_escaped_def v_def [symmetric] writes_spaces)
    moreover have "list_all char_ok (writes ?ps)"
      using inv spaces_ok(2) by (simp add: is_ascii_def)
    moreover have "s \<noteq> []" "\<not> holds sep ?ps" using inv False by auto
    ultimately show ?thesis by (intro exI [of _ ?ps]) simp
  qed
qed

text \<open>An argument as the split sees it: a text and the pieces that write it.\<close>

definition written_as :: "rchar \<Rightarrow> string \<Rightarrow> string \<Rightarrow> piece list \<Rightarrow> bool" where
  "written_as sep s w ps \<longleftrightarrow> w = concat (writes ps) \<and> list_all char_ok (writes ps) \<and> reads ps = chars s
     \<and> token_ok sep (cleanup_delim sep) ps \<and> ps \<noteq> []"

lemma plain_pieces:
  assumes "arg_ok s" and "s \<noteq> []" and "hd (chars s) \<noteq> SPACE" "last (chars s) \<noteq> SPACE"
    and "\<forall>c \<in> set (chars s). c \<notin> {BACKSLASH, QUOTE, sep}"
  shows "written_as sep s s (map Plain (chars s))"
proof -
  have w: "writes (map Plain cs) = cs" "reads (map Plain cs) = cs" for cs by (induction cs) simp_all
  have "list_all (piece_ok sep d) (map Plain (chars s))" for d
    using assms(1,5) by (auto simp: list_all_iff arg_ok_def)
  then show ?thesis
    using assms chars_ok [of s] by (simp add: written_as_def w token_ok_def arg_ok_def hd_map last_map)
qed

lemma escape_argument_pieces:
  assumes "sep_ok sep" and "arg_ok s"
  shows "\<exists>w ps. escape_argument s sep = Some w \<and> written_as sep s w ps \<and> \<not> holds sep ps
    \<and> (sep = SPACE \<longrightarrow> \<not> (\<exists>qs. ps = Plain ''^'' # Plain ''^'' # qs))"
proof (cases "s = []")
  case True
  then show ?thesis
    by (intro exI [of _ "QUOTE @ QUOTE"] exI [of _ "[Quoted []]"])
      (simp add: escape_argument_def written_as_def token_ok_def is_ascii_def)
next
  case False
  define guarded where "guarded \<longleftrightarrow> sep = SPACE \<and> starts_with ''^^'' s"
  define plain where "plain \<longleftrightarrow> \<not> guarded \<and> hd (chars s) \<notin> set STRIPPED_WHITESPACE \<and> last (chars s) \<notin> set STRIPPED_WHITESPACE
    \<and> \<not> list_ex (\<lambda>c. c \<in> {BACKSLASH, QUOTE, [NL], [CR], TAB, sep}) (chars s)"
  have esc: "escape_argument s sep =
      (if plain then Some s else Some ((if guarded then QUOTE @ QUOTE else []) @ write_escaped sep s))"
    using False unfolding escape_argument_def plain_def guarded_def by simp
  have carets: "starts_with ''^^'' s" if "reads ps = chars s" "ps = Plain ''^'' # Plain ''^'' # qs" for ps qs
  proof -
    have "s = concat (''^'' # ''^'' # reads qs)" using that concat_chars [of s] by simp
    then show ?thesis by (simp add: starts_with_prefix)
  qed
  show ?thesis
  proof (cases plain)
    case True
    then have w: "written_as sep s s (map Plain (chars s))"
      using assms(2) False by (intro plain_pieces) (auto simp: plain_def STRIPPED_WHITESPACE_def list_ex_iff)
    moreover have "\<not> (\<exists>qs. map Plain (chars s) = Plain ''^'' # Plain ''^'' # qs)" if sp: "sep = SPACE"
    proof
      assume "\<exists>qs. map Plain (chars s) = Plain ''^'' # Plain ''^'' # qs"
      then have "starts_with ''^^'' s" using carets w by (auto simp: written_as_def simp del: map_eq_Cons_conv)
      with True sp show False by (simp add: plain_def guarded_def)
    qed
    ultimately show ?thesis using esc True holds_plain by (intro exI [of _ s] exI [of _ "map Plain (chars s)"]) simp
  next
    case np: False
    obtain ps where ps: "write_escaped sep s = concat (writes ps)" "list_all char_ok (writes ps)" "reads ps = chars s"
      "token_ok sep (cleanup_delim sep) ps" "ps \<noteq> []" "\<not> holds sep ps"
      using write_escaped_pieces [OF assms] False by auto
    show ?thesis
    proof (cases guarded)
      case True
      with ps have "written_as sep s (QUOTE @ QUOTE @ write_escaped sep s) (Quoted [] # ps)"
        by (auto simp: written_as_def token_ok_def is_ascii_def)
      with esc np True show ?thesis by (intro exI [of _ "QUOTE @ QUOTE @ write_escaped sep s"] exI [of _ "Quoted [] # ps"]) (simp add: ps(6))
    next
      case ng: False
      have "sep = SPACE \<longrightarrow> \<not> (\<exists>qs. ps = Plain ''^'' # Plain ''^'' # qs)"
        using carets [OF ps(3)] ng unfolding guarded_def by blast
      with ps esc np ng show ?thesis
        by (intro exI [of _ "write_escaped sep s"] exI [of _ ps]) (simp add: written_as_def)
    qed
  qed
qed

lemma quoted_pieces:
  assumes "arg_ok s"
  shows "\<exists>as. written_as SPACE s (quote_for_uuid_setvar s) [Quoted as]"
proof -
  let ?as = "map (\<lambda>c. if takes_a_backslash c None then Esc c c else Chr c) (chars s)"
  have run: "concat (run_writes (map (\<lambda>c. if takes_a_backslash c None then Esc c c else Chr c) cs)) =
      concat (map (\<lambda>c. if takes_a_backslash c None then BACKSLASH @ c else c) cs)" for cs
    by (induction cs) simp_all
  note run = run [of "chars s", unfolded list.map_comp]
  have "list_all (atom_ok None) ?as"
    using assms by (auto simp: list_all_iff arg_ok_def takes_a_backslash_def unescape_def)
  moreover have "run_reads (map (\<lambda>c. if takes_a_backslash c None then Esc c c else Chr c) cs) = cs" for cs
    by (induction cs) simp_all
  moreover have "list_all char_ok (run_writes (map (\<lambda>c. if takes_a_backslash c None then Esc c c else Chr c) cs))"
    if "list_all char_ok cs" for cs
    using that by (induction cs) (auto simp: is_ascii_def)
  ultimately have "written_as SPACE s (QUOTE @ escape_inside_token s None @ QUOTE) [Quoted ?as]"
    using assms chars_ok [of s]
    by (simp add: written_as_def token_ok_def cleanup_delim_def escape_inside_token_def run is_ascii_def arg_ok_def)
  then show ?thesis by (auto simp: quote_for_uuid_setvar_def)
qed

lemma originate_quote_pieces:
  assumes "arg_ok s"
  shows "\<exists>ps. written_as SPACE s (originate_quote s) ps"
proof (cases "s = [] \<or> list_ex (\<lambda>c. c \<in> set STRIPPED_WHITESPACE) (chars s) \<or> list_ex (\<lambda>c. c \<in> {QUOTE, BACKSLASH}) (chars s)")
  case True
  then show ?thesis using quoted_pieces [OF assms] by (auto simp: originate_quote_def)
next
  case False
  then have "written_as SPACE s s (map Plain (chars s))"
    using assms by (intro plain_pieces) (auto simp: STRIPPED_WHITESPACE_def list_ex_iff)
  with False show ?thesis by (auto simp: originate_quote_def)
qed

section \<open>Byte positions\<close>

definition offset_of :: "rchar list \<Rightarrow> nat \<Rightarrow> nat" where
  "offset_of cs i = length (concat (take i cs))"

lemma trace_from_nth:
  "i < length (chars s) \<Longrightarrow> trace_from k s ! i = (chars s ! i, k + offset_of (chars s) i, k + offset_of (chars s) (Suc i))"
proof (induction k s arbitrary: i rule: trace_from.induct)
  case (1 k s)
  show ?case
  proof (cases "s = []")
    case False
    let ?n = "snd (utf8_next s)"
    have cs: "chars s = take ?n s # chars (drop ?n s)" using False by (subst chars.simps) simp
    have len: "length (take ?n s) = ?n" using utf8_next_le [OF False] by simp
    from 1 False cs len show ?thesis
      by (subst trace_from.simps) (cases i; simp add: offset_of_def)
  qed (use "1.prems" in simp)
qed

lemma trace_nth:
  "i < length (chars s) \<Longrightarrow> trace s ! i = (chars s ! i, offset_of (chars s) i, offset_of (chars s) (Suc i))"
  using trace_from_nth [of i s 0] by (simp add: trace_def)

lemma offset_of_ends [simp]: "offset_of cs 0 = 0" "offset_of (chars s) (length (chars s)) = length s"
  by (simp_all add: offset_of_def)

lemma extent_trace: "extent (trace s) = (0, length s)"
proof (cases "s = []")
  case True
  then show ?thesis by (simp add: extent_def trace_def)
next
  case False
  then have "trace s \<noteq> []" and n: "0 < length (chars s)" by (metis chars_Nil_iff length_0_conv length_trace, simp)
  then have "hd (trace s) = trace s ! 0" "last (trace s) = trace s ! (length (chars s) - 1)"
    by (simp_all add: hd_conv_nth last_conv_nth)
  with \<open>trace s \<noteq> []\<close> n show ?thesis
    by (simp add: extent_def trace_nth)
qed

lemma byte_range_trace:
  assumes "e \<le> length (chars s)" and "a \<le> e"
  shows "byte_range (trace s) (extent (trace s)) (a, e) = (offset_of (chars s) a, offset_of (chars s) e)"
proof (cases a)
  case 0
  with assms show ?thesis by (auto simp: byte_range_def extent_trace trace_nth not_less)
next
  case (Suc b)
  with assms show ?thesis by (auto simp: byte_range_def extent_trace trace_nth not_less)
qed

lemma slice_bytes:
  assumes "e \<le> length (chars s)" and "a \<le> e"
  shows "slice s (offset_of (chars s) a, offset_of (chars s) e) = concat (map fst (slice (trace s) (a, e)))"
proof -
  let ?cs = "chars s"
  have te: "take e ?cs = take a ?cs @ take (e - a) (drop a ?cs)" using assms by (metis le_add_diff_inverse take_add)
  have s: "s = concat (take a ?cs) @ concat (take (e - a) (drop a ?cs)) @ concat (drop e ?cs)"
    using arg_cong [OF append_take_drop_id [of e ?cs], of concat] by (simp add: te)
  have "slice (x @ y @ z) (length x, length x + length y) = y" for x y z :: string by (simp add: slice_def)
  from this [of "concat (take a ?cs)" "concat (take (e - a) (drop a ?cs))" "concat (drop e ?cs)", folded s]
  have "slice s (offset_of ?cs a, offset_of ?cs e) = concat (take (e - a) (drop a ?cs))"
    by (simp add: offset_of_def te)
  then show ?thesis by (simp add: slice_def take_map [symmetric] drop_map [symmetric])
qed

section \<open>Lines read back\<close>

text \<open>A line of arguments: on blanks as they are, on another separator behind its head.\<close>

definition line_of :: "rchar \<Rightarrow> string list \<Rightarrow> string" where
  "line_of sep ws = (if sep = SPACE then [] else ''^^'' @ sep) @ join sep ws"

definition head_len :: "rchar \<Rightarrow> nat" where
  "head_len sep = (if sep = SPACE then 0 else 3)"

definition line_ok :: "rchar \<Rightarrow> piece list list \<Rightarrow> bool" where
  "line_ok sep pss \<longleftrightarrow> sep_ok sep \<and> pss \<noteq> [] \<and> length pss < USIZE_MAX
     \<and> list_all (\<lambda>ps. token_ok sep (cleanup_delim sep) ps \<and> list_all char_ok (writes ps)) pss
     \<and> hd pss \<noteq> [] \<and> last pss \<noteq> []
     \<and> (sep = SPACE \<longrightarrow> [] \<notin> set pss \<and> \<not> (\<exists>qs. hd pss = Plain ''^'' # Plain ''^'' # qs))"

abbreviation line_text :: "rchar \<Rightarrow> piece list list \<Rightarrow> string" where
  "line_text sep pss \<equiv> line_of sep (map (concat \<circ> writes) pss)"

lemma char_ok_head: "char_ok c \<Longrightarrow> c \<noteq> [b] \<Longrightarrow> is_ascii b \<Longrightarrow> c \<noteq> [] \<and> hd c \<noteq> b"
  by (cases c) (auto simp: char_ok_def utf8_next_ascii)

lemma piece_writes_no_NUL: "piece_ok sep d p \<Longrightarrow> NUL \<notin> set (piece_writes p)"
  using run_no_NUL by (cases p) (auto dest: heldD)

lemma writes_no_NUL: "list_all (piece_ok sep d) ps \<Longrightarrow> NUL \<notin> set (writes ps)"
  by (induction ps) (use piece_writes_no_NUL in auto)

lemma set_join_with: "set (join_with d ws) \<subseteq> insert d (\<Union> (set ` set ws))"
  by (induction d ws rule: join_with.induct) auto

lemma join_with_no_NUL:
  assumes "list_all (token_ok sep d) pss" and "sep \<noteq> NUL"
  shows "NUL \<notin> set (join_with sep (map writes pss))"
proof -
  have "NUL \<notin> set (writes ps)" if "ps \<in> set pss" for ps
    using assms(1) that by (intro writes_no_NUL [of sep d]) (simp add: token_ok_def list_all_iff)
  then show ?thesis using set_join_with [of sep "map writes pss"] assms(2) by auto
qed

lemma line_chars:
  assumes "line_ok sep pss"
  shows "chars (line_text sep pss) = (if sep = SPACE then [] else [''^'', ''^'', sep]) @ join_with sep (map writes pss)"
proof -
  have ok: "char_ok sep" using assms sep_ok_single by (auto simp: line_ok_def)
  have "chars (join sep (map concat (map writes pss))) = join_with sep (map writes pss)"
    using assms ok by (intro chars_join_with) (auto simp: line_ok_def list_all_iff)
  with ok show ?thesis
    by (auto simp: line_of_def comp_def chars_Cons chars_ascii_Cons is_ascii_def)
qed

lemma line_plain:
  assumes "line_ok sep pss" shows "plain_text (trace (line_text sep pss))"
proof -
  let ?l = "line_text sep pss"
  have sep: "char_ok sep" "sep \<noteq> NUL" using assms sep_ok_single by (auto simp: line_ok_def)
  have "\<forall>ps \<in> set pss. \<forall>c \<in> set (writes ps). char_ok c" using assms by (simp add: line_ok_def list_all_iff)
  then have "\<forall>c \<in> set (join_with sep (map writes pss)). char_ok c"
    using sep(1) set_join_with [of sep "map writes pss"] by auto
  then have "list_all char_ok (chars ?l)"
    using assms sep(1) by (simp add: line_chars list_all_iff is_ascii_def)
  moreover have "NUL \<notin> set (chars ?l)"
    using join_with_no_NUL [of sep "cleanup_delim sep" pss] assms sep(2)
    by (simp add: line_chars) (auto simp: line_ok_def list_all_iff)
  ultimately have ok: "c \<in> set (map fst (trace ?l)) \<Longrightarrow> char_ok c \<and> c \<noteq> NUL" for c
    unfolding map_fst_trace list_all_iff by metis
  show ?thesis unfolding plain_text_def list_all_iff
    by (intro conjI ballI ok) (simp_all del: map_fst_trace)
qed

lemma line_head:
  assumes "line_ok sep pss"
  shows "argument_head (trace (line_text sep pss)) = (if sep = SPACE then Absent else Picked sep)"
proof -
  let ?ts = "trace (line_text sep pss)" let ?cs = "chars (line_text sep pss)"
  have at: "char_at ?ts i = (if i < length ?cs then ?cs ! i else NUL)" for i
    using nth_map [of i ?ts fst] by (simp add: char_at_def)
  obtain ps rest where pss: "pss = ps # rest" using assms by (cases pss) (auto simp: line_ok_def)
  obtain p ps' where ps: "ps = p # ps'" using assms pss by (cases ps) (auto simp: line_ok_def)
  obtain w where w: "join_with sep (map writes pss) = writes ps @ w" "w = [] \<or> (\<exists>w'. w = sep # w')"
    using pss by (cases "rest = []") (auto simp: join_with_Cons)
  have ok: "piece_ok sep (cleanup_delim sep) p" "list_all (piece_ok sep (cleanup_delim sep)) ps'"
    using assms pss ps by (simp_all add: line_ok_def token_ok_def)
  show ?thesis
  proof (cases "sep = SPACE")
    case True
    then have cs: "?cs = piece_writes p @ writes ps' @ w" using line_chars [OF assms] w(1) ps by simp
    have "\<not> (char_at ?ts 0 = ''^'' \<and> char_at ?ts 1 = ''^'')"
    proof
      assume a: "char_at ?ts 0 = ''^'' \<and> char_at ?ts 1 = ''^''"
      then have p: "p = Plain ''^''" using cs at [of 0] ok(1) by (cases p) auto
      then have cs1: "?cs = ''^'' # writes ps' @ w" using cs by simp
      have "char_at ?ts 1 = ''^''" using a ..
      then have one: "(writes ps' @ w) ! 0 = ''^''" "writes ps' @ w \<noteq> []" 
        unfolding at cs1 by (simp_all split: if_splits)
      show False
      proof (cases ps')
        case Nil
        then show False using one w(2) True by auto
      next
        case (Cons q qs)
        then have "q = Plain ''^''" using one ok(2) by (cases q) auto
        then show False using assms True pss ps p Cons by (simp add: line_ok_def)
      qed
    qed
    then show ?thesis using True by (auto simp: argument_head_def)
  next
    case False
    then have cs: "?cs = ''^'' # ''^'' # sep # piece_writes p @ writes ps' @ w" using line_chars [OF assms] w(1) ps by simp
    have sep_ok: "sep_ok sep" using assms by (simp add: line_ok_def)
    then obtain b where b: "sep = [b]" "33 \<le> (of_char b :: nat)" "(of_char b :: nat) \<le> 126" using sep_okE False by blast
    have sep: "sep \<noteq> NUL" "char_is_ascii sep"
      using sep_ok_cases [OF sep_ok] b by (simp_all add: char_is_ascii_def is_ascii_def)
    have "hd (piece_writes p) \<noteq> NUL" "piece_writes p \<noteq> []"
      using piece_writes_no_NUL [OF ok(1)] by (cases p; force)+
    then have "char_at ?ts 3 \<noteq> NUL" "char_at ?ts 0 = ''^''" "char_at ?ts 1 = ''^''" "char_at ?ts 2 = sep"
      unfolding at cs by (cases "piece_writes p"; simp add: numeral_3_eq_3 numeral_2_eq_2)+
    with False sep show ?thesis by (simp add: argument_head_def)
  qed
qed

lemma line_scanned:
  assumes "line_ok sep pss"
  shows "direct_cut (drop (head_len sep) (trace (line_text sep pss))) sep USIZE_MAX =
      \<lparr>cut_spans = token_spans 0 (map writes pss), cut_held_delimiter = list_ex (holds sep) pss, cut_open_quote = False\<rparr>"
    and "map (\<lambda>sp. untrace (cleanup (slice (drop (head_len sep) (trace (line_text sep pss))) sp) (cleanup_delim sep)))
      (token_spans 0 (map writes pss)) = map (concat \<circ> reads) pss"
proof -
  let ?ts = "drop (head_len sep) (trace (line_text sep pss))"
  have chars: "map fst ?ts = join_with sep (map writes pss)"
    using line_chars [OF assms] by (simp add: drop_map [symmetric] head_len_def)
  have ord: "ordered ?ts" by (metis append_take_drop_id ordered_append ordered_trace)
  have ok: "list_all (token_ok sep (cleanup_delim sep)) pss" "pss \<noteq> []" "length pss < USIZE_MAX" "sep = SPACE \<longrightarrow> [] \<notin> set pss" "last pss \<noteq> []"
    using assms by (auto simp: line_ok_def list_all_iff)
  have pos: "USIZE_MAX \<noteq> 0" by (simp add: USIZE_MAX_def)
  have scan: "token_scanner (\<lambda>ts. direct_cut ts sep USIZE_MAX) sep (cleanup_delim sep)
      (if sep = SPACE then blank_joinable USIZE_MAX else char_joinable USIZE_MAX)"
  proof (cases "sep = SPACE")
    case True
    then show ?thesis using blank.token_scanner_axioms [of USIZE_MAX] pos by (simp add: direct_cut_def cleanup_delim_def)
  next
    case False
    have "delim_ok sep"
      using False assms sep_ok_cases [of sep] sep_ok_single [of sep] by (auto simp: delim_ok_def line_ok_def)
    from char_scanner [OF this, of USIZE_MAX] False pos show ?thesis by (simp add: direct_cut_def cleanup_delim_def)
  qed
  have j: "(if sep = SPACE then blank_joinable USIZE_MAX else char_joinable USIZE_MAX) pss"
    using ok by (auto simp: blank_joinable_def char_joinable_def dest: last_in_set)
  show cut: "direct_cut ?ts sep USIZE_MAX =
      \<lparr>cut_spans = token_spans 0 (map writes pss), cut_held_delimiter = list_ex (holds sep) pss, cut_open_quote = False\<rparr>"
    by (rule token_scanner.scan_joined [OF scan ok(1) j chars])
  show "map (\<lambda>sp. untrace (cleanup (slice ?ts sp) (cleanup_delim sep))) (token_spans 0 (map writes pss)) = map (concat \<circ> reads) pss"
    using token_scanner.texts_read_back [OF scan ok(1) j chars ord] by (simp add: cut)
qed

lemma no_leading_space:
  assumes "token_ok SPACE d ps" and "ps \<noteq> []" and "list_all char_ok (writes ps)"
  shows "takeWhile (\<lambda>b. b = SP) (concat (writes ps)) = []"
proof -
  obtain p qs where ps: "ps = p # qs" using assms(2) by (cases ps) auto
  have "piece_writes p \<noteq> []" "hd (piece_writes p) \<noteq> SPACE" using assms(1) ps by (cases p; auto simp: token_ok_def)+
  then obtain c cs where c: "writes ps = c # cs" "c \<noteq> SPACE" using ps by (cases "piece_writes p") auto
  with assms(3) char_ok_head [of c SP] have "c \<noteq> []" "hd c \<noteq> SP" by (simp_all add: is_ascii_def)
  then show ?thesis using c(1) by (cases c) auto
qed

lemma split_line_map:
  "split_line l d = Inr \<lparr>al_arguments = map f xs, al_delimiter = sep\<rparr> \<Longrightarrow> map (\<lambda>x. arg_text (f x)) xs = ts
   \<Longrightarrow> map (\<lambda>x. slice l (arg_raw (f x))) xs = ws
   \<Longrightarrow> \<exists>al. split_line l d = Inr al \<and> al_delimiter al = sep \<and> map arg_text (al_arguments al) = ts
     \<and> map (\<lambda>a. slice l (arg_raw a)) (al_arguments al) = ws"
  by (simp add: comp_def)

lemma line_reads_back:
  assumes "line_ok sep pss"
  shows "\<exists>al. split_line (line_text sep pss) SPACE = Inr al \<and> al_delimiter al = sep
    \<and> map arg_text (al_arguments al) = map (concat \<circ> reads) pss
    \<and> map (\<lambda>a. slice (line_text sep pss) (arg_raw a)) (al_arguments al) = map (concat \<circ> writes) pss"
proof -
  let ?l = "line_text sep pss" let ?ts = "trace ?l" let ?n = "head_len sep" let ?spans = "token_spans 0 (map writes pss)"
  note cut = line_scanned [OF assms]
  have sep: "separate ?ts SPACE USIZE_MAX = direct_separated ?n (drop ?n ?ts) sep USIZE_MAX"
    using separate_refines [OF line_plain [OF assms], of SPACE USIZE_MAX] line_head [OF assms]
    by (auto simp: head_len_def)
  let ?tok = "\<lambda>s. \<lparr>token_raw = (?n + fst s, ?n + snd s), token_text = cleanup (slice (drop ?n ?ts) s) (cleanup_delim sep)\<rparr>"
  let ?arg = "\<lambda>t. let raw = byte_range ?ts (extent ?ts) (token_raw t);
                leading = (if sep = SPACE then length (takeWhile (\<lambda>b. b = SP) (slice ?l raw)) else 0)
            in \<lparr>arg_raw = (fst raw + leading, snd raw), arg_text = untrace (token_text t)\<rparr>"
  have split: "split_line ?l SPACE = Inr \<lparr>al_arguments = map (?arg \<circ> ?tok) ?spans, al_delimiter = sep\<rparr>"
    by (simp add: split_line_def Let_def sep direct_separated_def cut(1))
  have "spans_in (drop ?n ?ts) sep ?spans"
    using direct_cut_spans_in [of "drop ?n ?ts" sep USIZE_MAX] line_plain [OF assms] cut(1)
    by simp (metis append_take_drop_id plain_text_appendD)
  then have bounds: "fst s \<le> snd s \<and> ?n + snd s \<le> length (chars ?l)" if "s \<in> set ?spans" for s
    using that by (auto simp: spans_in_def) 
  have sl: "slice ?l (byte_range ?ts (extent ?ts) (?n + fst s, ?n + snd s)) = concat (map fst (slice (drop ?n ?ts) s))"
    if "s \<in> set ?spans" for s
  proof -
    have b: "?n + snd s \<le> length (chars ?l)" "?n + fst s \<le> ?n + snd s" using bounds [OF that] by simp_all
    have "slice ?ts (?n + fst s, ?n + snd s) = slice (drop ?n ?ts) s" by (simp add: slice_def add.commute)
    then show ?thesis by (simp add: byte_range_trace [OF b] slice_bytes [OF b])
  qed
  have sls: "map (\<lambda>s. map fst (slice (drop ?n ?ts) s)) ?spans = map writes pss"
  proof -
    have "map fst (drop ?n ?ts) = join_with sep (map writes pss)"
      using line_chars [OF assms] by (simp add: drop_map [symmetric] head_len_def)
    from slice_token_spans [OF this, of "[]" 0] show ?thesis by simp
  qed
  have raw: "arg_raw ((?arg \<circ> ?tok) s) = byte_range ?ts (extent ?ts) (?n + fst s, ?n + snd s)" if "s \<in> set ?spans" for s
  proof -
    from that sls obtain ps where ps: "ps \<in> set pss" "map fst (slice (drop ?n ?ts) s) = writes ps"
      by (metis (mono_tags, lifting) image_iff list.set_map)
    have "takeWhile (\<lambda>b. b = SP) (concat (writes ps)) = []" if "sep = SPACE"
      using no_leading_space [of "cleanup_delim sep" ps] assms ps(1) that by (auto simp: line_ok_def list_all_iff)
    with sl [OF that] ps(2) have "length (takeWhile (\<lambda>b. b = SP) (slice ?l (byte_range ?ts (extent ?ts) (?n + fst s, ?n + snd s)))) = 0"
      if "sep = SPACE" using that by simp
    then show ?thesis by (cases "sep = SPACE") (simp_all add: Let_def)
  qed
  have texts: "map (\<lambda>s. arg_text ((?arg \<circ> ?tok) s)) ?spans = map (concat \<circ> reads) pss"
    using cut(2) by (simp add: Let_def)
  have raws: "map (\<lambda>s. slice ?l (arg_raw ((?arg \<circ> ?tok) s))) ?spans = map (concat \<circ> writes) pss"
  proof -
    have "map (\<lambda>s. slice ?l (arg_raw ((?arg \<circ> ?tok) s))) ?spans
        = map (\<lambda>s. concat (map fst (slice (drop ?n ?ts) s))) ?spans"
      by (rule map_cong [OF refl]) (simp only: raw sl)
    also have "\<dots> = map concat (map (\<lambda>s. map fst (slice (drop ?n ?ts) s)) ?spans)" by simp
    finally show ?thesis unfolding sls by simp
  qed
  show ?thesis by (rule split_line_map [OF split texts raws])
qed

text \<open>The one argument of a text that was escaped for the split.\<close>

lemma sole_reads_back:
  assumes sep: "sep_ok sep" and w: "written_as sep s w ps" "sep \<noteq> SPACE \<longrightarrow> \<not> holds sep ps" "arg_ok s"
    and carets: "sep = SPACE \<longrightarrow> \<not> (\<exists>qs. ps = Plain ''^'' # Plain ''^'' # qs)"
  shows "\<exists>t. sole_argument (trace w) sep = Inr (Some t) \<and> untrace (token_text t) = s"
proof -
  have len: "length sep = 1" "sep \<noteq> NUL" using sep_ok_single [OF sep] by simp_all
  have ok: "line_ok sep [ps]"
    using assms by (auto simp: line_ok_def written_as_def USIZE_MAX_def)
  note wps = w(1) [unfolded written_as_def]
  have s: "concat (reads ps) = s" using wps by simp
  have chars: "map fst (trace w) = join_with sep [writes ps]" using wps by (simp add: chars_concat)
  show ?thesis
  proof (cases "sep = SPACE")
    case True
    have l: "line_text sep [ps] = w" using wps True by (simp add: line_of_def)
    note cut = line_scanned [OF ok, unfolded l]
    have "separate (trace w) SPACE USIZE_MAX = direct_separated 0 (trace w) SPACE USIZE_MAX"
      using separate_refines [OF line_plain [OF ok], of SPACE USIZE_MAX] line_head [OF ok] l True by simp
    with cut True s w(2) show ?thesis
      by (simp add: sole_argument_def Let_def direct_separated_def head_len_def)
  next
    case False
    have pt: "plain_text (trace w)"
    proof -
      have "\<forall>c \<in> set (writes ps). char_ok c \<and> c \<noteq> NUL"
        using wps writes_no_NUL [of sep "cleanup_delim sep" ps] by (simp add: list_all_iff token_ok_def) metis
      then have "c \<in> set (map fst (trace w)) \<Longrightarrow> char_ok c \<and> c \<noteq> NUL" for c unfolding chars by simp
      then show ?thesis unfolding plain_text_def by (intro conjI ballI) (simp_all del: map_fst_trace)
    qed
    have "delim_ok sep" using False len sep_ok_cases [OF sep] sep_ok_single [OF sep] by (auto simp: delim_ok_def)
    from char_scanner [OF this, of USIZE_MAX]
    have scan: "token_scanner (\<lambda>ts. direct_cut ts sep USIZE_MAX) sep (cleanup_delim sep) (char_joinable USIZE_MAX)"
      using False by (simp add: direct_cut_def cleanup_delim_def USIZE_MAX_def)
    have j: "char_joinable USIZE_MAX [ps]" "list_all (token_ok sep (cleanup_delim sep)) [ps]"
      using wps by (auto simp: char_joinable_def USIZE_MAX_def)
    have "separate_on (trace w) sep USIZE_MAX = direct_separated 0 (trace w) sep USIZE_MAX"
      using split_reads_back [OF pt len, of 0 USIZE_MAX] by (simp add: separate_on_def)
    moreover have "direct_cut (trace w) sep USIZE_MAX = \<lparr>cut_spans = token_spans 0 [writes ps],
        cut_held_delimiter = False, cut_open_quote = False\<rparr>"
      using token_scanner.scan_joined [OF scan j(2,1)] chars w(2) False by simp
    moreover have "untrace (cleanup (slice (trace w) (0, length (writes ps))) (cleanup_delim sep)) = s"
      using token_scanner.texts_read_back [OF scan j(2,1), of "trace w"] chars s calculation(2) by simp
    ultimately show ?thesis using False by (simp add: sole_argument_def Let_def direct_separated_def)
  qed
qed

section \<open>Properties\<close>

lemma usable_sep_ok: "sep = SPACE \<or> usable_argv_separator sep \<Longrightarrow> sep_ok sep"
  by (auto simp: sep_ok_def usable_argv_separator_def)

lemma escaped_line_ok:
  assumes "sep_ok sep" and "\<forall>a \<in> set args. arg_ok a" and "args \<noteq> []" and "length args < USIZE_MAX"
  shows "\<exists>ws pss. map (\<lambda>a. escape_argument a sep) args = map Some ws \<and> ws = map (concat \<circ> writes) pss
    \<and> args = map (concat \<circ> reads) pss \<and> line_ok sep pss"
proof -
  have "\<forall>a \<in> set args. \<exists>ps. escape_argument a sep = Some (concat (writes ps)) \<and> written_as sep a (concat (writes ps)) ps
      \<and> (sep = SPACE \<longrightarrow> \<not> (\<exists>qs. ps = Plain ''^'' # Plain ''^'' # qs))"
  proof
    fix a assume "a \<in> set args"
    with assms(2) have "arg_ok a" by simp
    from escape_argument_pieces [OF assms(1) this]
    show "\<exists>ps. escape_argument a sep = Some (concat (writes ps)) \<and> written_as sep a (concat (writes ps)) ps
      \<and> (sep = SPACE \<longrightarrow> \<not> (\<exists>qs. ps = Plain ''^'' # Plain ''^'' # qs))" by (auto simp: written_as_def)
  qed
  then obtain f where f: "\<And>a. a \<in> set args \<Longrightarrow> escape_argument a sep = Some (concat (writes (f a)))
      \<and> written_as sep a (concat (writes (f a))) (f a)
      \<and> (sep = SPACE \<longrightarrow> \<not> (\<exists>qs. f a = Plain ''^'' # Plain ''^'' # qs))" by metis
  have "a = concat (reads (f a))" if "a \<in> set args" for a using f [OF that] by (simp add: written_as_def)
  then have "args = map (concat \<circ> reads) (map f args)" by (simp add: map_idI)
  moreover have "line_ok sep (map f args)"
    using assms f by (auto simp: line_ok_def list_all_iff written_as_def hd_map last_map) (metis f)
  moreover have "map (\<lambda>a. escape_argument a sep) args = map Some (map (concat \<circ> writes) (map f args))" using f by simp
  ultimately show ?thesis by blast
qed

text \<open>
  C4: an argument line delivers its arguments. Whatever valid texts without NUL are escaped for a
  blank line or for a line that names a usable separator, the switch's split of the joined line yields
  exactly these texts, in order, on that separator, and its raw slices are the escaped
  arguments: spaces, quotes, backslashes, line breaks, empty texts and the separator itself
  survive.
\<close>

theorem argument_line_roundtrip:
  assumes "sep = SPACE \<or> usable_argv_separator sep"
    and "\<forall>a \<in> set args. arg_ok a" and "args \<noteq> []" and "length args < USIZE_MAX"
  shows "\<exists>ws al. map (\<lambda>a. escape_argument a sep) args = map Some ws
    \<and> split_line (line_of sep ws) SPACE = Inr al \<and> al_delimiter al = sep
    \<and> map arg_text (al_arguments al) = args \<and> originate_split (line_of sep ws) SPACE = Inr ws"
proof -
  obtain ws pss where ws: "map (\<lambda>a. escape_argument a sep) args = map Some ws" "ws = map (concat \<circ> writes) pss"
    "args = map (concat \<circ> reads) pss" "line_ok sep pss"
    using escaped_line_ok [OF usable_sep_ok [OF assms(1)] assms(2-4)] by blast
  from line_reads_back [OF ws(4)] obtain al where al: "split_line (line_of sep ws) SPACE = Inr al" "al_delimiter al = sep"
    "map arg_text (al_arguments al) = args" "map (\<lambda>a. slice (line_of sep ws) (arg_raw a)) (al_arguments al) = ws"
    unfolding ws(2,3) by blast
  then show ?thesis using ws(1) by (auto simp: originate_split_def)
qed

theorem argument_line_roundtrip_witness:
  "\<exists>ws al. map (\<lambda>a. escape_argument a ''~'') [''a~ b'', [], QUOTE @ '' '', ''x''] = map Some ws
    \<and> split_line (line_of ''~'' ws) SPACE = Inr al \<and> al_delimiter al = ''~''
    \<and> map arg_text (al_arguments al) = [''a~ b'', [], QUOTE @ '' '', ''x''] \<and> originate_split (line_of ''~'' ws) SPACE = Inr ws"
proof (rule argument_line_roundtrip)
  show "''~'' = SPACE \<or> usable_argv_separator ''~''"
    by (simp add: usable_argv_separator_def breaks_a_split_def is_ascii_graphic_def is_ascii_alphanumeric_def is_letter_def is_digit_def)
  show "\<forall>a \<in> set [''a~ b'', [], QUOTE @ '' '', ''x'']. arg_ok a" unfolding arg_ok_def by code_simp
qed (simp_all add: USIZE_MAX_def)

text \<open>
  \<open>originate_unquote\<close> inverts \<open>originate_quote\<close>. Every valid text without NUL, quoted when it must be,
  is what the cleanup of the blank split leaves of its quoted form.
\<close>

lemma originate_quote_inverse:
  assumes "arg_ok s"
  shows "originate_unquote (originate_quote s) = s"
proof -
  obtain ps where ps: "written_as SPACE s (originate_quote s) ps" using originate_quote_pieces [OF assms] ..
  note ps = ps [unfolded written_as_def]
  have "map fst (trace (originate_quote s)) = writes ps" using ps by (simp add: chars_concat)
  with ps have "map fst (cleanup (trace (originate_quote s)) None) = chars s"
    using cleanup_token [of SPACE None ps] by (simp add: cleanup_delim_def)
  then show ?thesis by (simp add: originate_unquote_def clean_argument_def untrace_cleanup)
qed

end
