(* ===== verification/Rust_Text.thy ===== *)
theory Rust_Text
  imports Switch_Text
begin

text \<open>
  More of Rust's string library, for the command builders of the types crate: splitting once or a bounded
  number of times at an ASCII character, replacing, and trimming given characters. Every
  pattern character is ASCII, so a search over bytes finds what a search over characters finds.
\<close>

section \<open>Splitting\<close>

definition split_once :: "char \<Rightarrow> string \<Rightarrow> (string \<times> string) option" where
  "split_once c s = map_option (\<lambda>i. (take i s, drop (Suc i) s)) (char_find c s)"

fun splitn :: "nat \<Rightarrow> char \<Rightarrow> string \<Rightarrow> string list" where
  "splitn 0 c s = []"
| "splitn (Suc 0) c s = [s]"
| "splitn (Suc (Suc n)) c s =
     (case split_once c s of None \<Rightarrow> [s] | Some (a, b) \<Rightarrow> a # splitn (Suc n) c b)"

definition rsplit_once :: "char \<Rightarrow> string \<Rightarrow> (string \<times> string) option" where
  "rsplit_once c s = map_option (\<lambda>i. (take i s, drop (Suc i) s)) (char_rfind c s)"

section \<open>Searching, replacing and trimming\<close>

definition contains_str :: "string \<Rightarrow> string \<Rightarrow> bool" where
  "contains_str p s \<longleftrightarrow> str_find p s \<noteq> None"

definition ends_with :: "string \<Rightarrow> string \<Rightarrow> bool" where
  "ends_with p s \<longleftrightarrow> strip_suffix p s \<noteq> None"

definition replace_char :: "char \<Rightarrow> string \<Rightarrow> string \<Rightarrow> string" where
  "replace_char c to s = concat (map (\<lambda>x. if x = c then to else [x]) s)"

definition replace_str :: "string \<Rightarrow> string \<Rightarrow> string \<Rightarrow> string" where
  "replace_str p to s = join to (split_str p s)"

definition trim_matches :: "(char \<Rightarrow> bool) \<Rightarrow> string \<Rightarrow> string" where
  "trim_matches P s = rev (dropWhile P (rev (dropWhile P s)))"

section \<open>Lemmas\<close>

lemma split_once_None [simp]: "split_once c s = None \<longleftrightarrow> c \<notin> set s"
  by (simp add: split_once_def)

lemma split_once_Some: "split_once c s = Some (a, b) \<longleftrightarrow> s = a @ c # b \<and> c \<notin> set a"
proof
  assume "split_once c s = Some (a, b)"
  then obtain i where "char_find c s = Some i" "a = take i s" "b = drop (Suc i) s" by (auto simp: split_once_def)
  then show "s = a @ c # b \<and> c \<notin> set a" by (auto simp: char_find_Some id_take_nth_drop)
next
  assume "s = a @ c # b \<and> c \<notin> set a"
  then have "char_find c s = Some (length a)" by (auto simp: char_find_Some nth_append)
  then show "split_once c s = Some (a, b)" using \<open>s = a @ c # b \<and> c \<notin> set a\<close> by (simp add: split_once_def)
qed

lemma split_once_append [simp]: "c \<notin> set a \<Longrightarrow> split_once c (a @ c # b) = Some (a, b)"
  by (simp add: split_once_Some)

lemma split_once_Cons [simp]: "split_once c (c # b) = Some ([], b)"
  using split_once_append [of c "[]" b] by simp

lemma ends_with_append [simp]: "ends_with p (s @ p)"
  by (simp add: ends_with_def)

lemma replace_char_append [simp]: "replace_char c r (a @ b) = replace_char c r a @ replace_char c r b"
  by (simp add: replace_char_def)

lemma replace_char_absent [simp]: "c \<notin> set s \<Longrightarrow> replace_char c r s = s"
  by (induction s) (auto simp: replace_char_def)

lemma contains_str_Nil [simp]: "p \<noteq> [] \<Longrightarrow> \<not> contains_str p []"
  by (simp add: contains_str_def)

lemma contains_str_set: "contains_str p s \<Longrightarrow> set p \<subseteq> set s"
  using set_mono_prefix set_drop_subset
  by (fastforce simp: contains_str_def str_find_iff first_at_def)

lemma contains_str_append: "contains_str p s \<Longrightarrow> contains_str p (a @ s @ b)"
proof -
  assume "contains_str p s"
  then obtain j where "j \<le> length s" "prefix p (drop j s)"
    by (metis contains_str_def occurs_in_def str_find_None_iff)
  then have "length a + j \<le> length (a @ s @ b)" "prefix p (drop (length a + j) (a @ s @ b))" by auto
  then show ?thesis by (metis contains_str_def occurs_in_def str_find_None_iff)
qed

lemma contains_str_single: "contains_str [c] s \<longleftrightarrow> c \<in> set s"
proof -
  have "str_find [c] s = char_find c s" by (induction s) (auto simp: starts_with_def)
  then show ?thesis by (simp add: contains_str_def)
qed

lemma contains_str_middle:
  assumes "c \<notin> set p" and "contains_str p (a @ c # b)" and "p \<noteq> []"
  shows "contains_str p a \<or> contains_str p b"
proof -
  obtain j where j: "j \<le> length (a @ c # b)" "prefix p (drop j (a @ c # b))"
    using assms(2) by (metis contains_str_def occurs_in_def str_find_None_iff)
  have occ: "contains_str p s" if "prefix p (drop k s)" "k \<le> length s" for s k
    using that by (metis contains_str_def occurs_in_def str_find_None_iff)
  consider "j + length p \<le> length a" | "j > length a" | "j \<le> length a" "length a < j + length p" by linarith
  then show ?thesis
  proof cases
    case 1
    then have "prefix p (drop j a)" using j(2) prefix_length_prefix [of p "drop j (a @ c # b)" "drop j a"] by simp
    with occ 1 show ?thesis by force
  next
    case 2
    then obtain n where "j - length a = Suc n" "n \<le> length b" using j(1) by (cases "j - length a") auto
    with j(2) have "prefix p (drop n b)" by simp
    with occ \<open>n \<le> length b\<close> show ?thesis by blast
  next
    case 3
    then have "c = p ! (length a - j)" using j(2) by (auto simp: prefix_def nth_append dest!: arg_cong [where f = "\<lambda>s. s ! (length a - j)"])
    with 3 assms(1) show ?thesis by auto
  qed
qed

lemma trim_matches_id: "s = [] \<or> \<not> P (hd s) \<and> \<not> P (last s) \<Longrightarrow> trim_matches P s = s"
  using dropWhile_eq_self_iff [of P s] dropWhile_eq_self_iff [of P "rev s"]
  by (cases "s = []") (simp_all add: trim_matches_def hd_rev)

end
