(* ===== verification/Brackets.thy ===== *)
theory Brackets
  imports Api_Argument Rust_Text
begin

text \<open>
  The variable blocks of a dial string as the switch reads them: \<open>types switch_passes/brackets.rs\<close>, the port of
  \<open>switch_event_create_brackets\<close>, with the scope of a block (\<open>commands/variables/mod.rs\<close>). A block is parsed
  in the buffer that holds it, which the parse rewrites; the pairs of consecutive blocks install into
  the headers of one event.
\<close>

section \<open>Scopes\<close>

datatype variables_type = Enterprise | Default | Channel

fun delimiters :: "variables_type \<Rightarrow> rchar \<times> rchar" where
  "delimiters Enterprise = (''<'', ''>'')"
| "delimiters Default = (''{'', ''}'')"
| "delimiters Channel = (''['', '']'')"

text \<open>The balance of a text's brackets: why they move the end that the switch counts its way to.\<close>

fun unbalanced_loop :: "rchar \<Rightarrow> rchar \<Rightarrow> int \<Rightarrow> rchar list \<Rightarrow> string option" where
  "unbalanced_loop opn cls depth [] =
     (if depth \<noteq> 0 then Some (''opens a '' @ QUOTE @ opn @ QUOTE @ '' it never closes, swallowing the block'' @ QUOTE @ ''s end'') else None)"
| "unbalanced_loop opn cls depth (ch # rest) =
     (if ch = opn then unbalanced_loop opn cls (depth + 1) rest
      else if ch = cls
      then if depth - 1 < 0 then Some (''closes a '' @ QUOTE @ opn @ QUOTE @ '' it never opened, ending the block early'')
           else unbalanced_loop opn cls (depth - 1) rest
      else unbalanced_loop opn cls depth rest)"

definition unbalanced :: "string \<Rightarrow> rchar \<times> rchar \<Rightarrow> string option" where
  "unbalanced s d = unbalanced_loop (fst d) (snd d) 0 (chars s)"

definition check_separator :: "rchar \<Rightarrow> variables_type \<Rightarrow> originate_error + unit" where
  "check_separator sep vars_type =
     (let (opn, cls) = delimiters vars_type
      in if breaks_a_split sep \<or> sep = opn \<or> sep = cls \<or> sep \<in> {''='', ''^'', ''$'', ''{''}
            \<or> (sep = ''|'' \<and> vars_type = Channel)
         then Inl (OriginateParseError (''invalid ^^ separator: '' @ QUOTE @ sep @ QUOTE))
         else Inr ())"

section \<open>Blocks\<close>

definition BLOCK_PAIRS :: nat where
  "BLOCK_PAIRS = 1024"

datatype pair_effect = PairSet string | PairIgnored | PairCleared | PairUnreadable | PairValueless

record pair =
  pair_key :: string
  pair_effect :: pair_effect

record block =
  block_open :: rchar
  block_separator :: rchar
  block_pairs :: "pair list"
  block_rewrites_following_text :: bool

definition of_block :: "block \<Rightarrow> variables_type" where
  "of_block b = (if block_open b = ''<'' then Enterprise else if block_open b = ''{'' then Default else Channel)"

definition separator_unreadable :: "block \<Rightarrow> bool" where
  "separator_unreadable b \<longleftrightarrow> \<not> char_is_ascii (block_separator b)"

datatype pipeline_error = PipelineEmpty | ArgvSplit | UnclosedBlock nat | SplitSeparatorUnreadable

record parsed =
  parsed_block :: block
  parsed_next :: nat
  parsed_splits_past_close_by_byte :: bool

definition parsed_read :: "parsed \<Rightarrow> pipeline_error + (block \<times> nat)" where
  "parsed_read p =
     (if parsed_splits_past_close_by_byte p then Inl SplitSeparatorUnreadable
      else Inr (parsed_block p, parsed_next p))"

definition escapes_its_end :: "traced list \<Rightarrow> bool" where
  "escapes_its_end ts \<longleftrightarrow> length (takeWhile (\<lambda>e. fst e = BACKSLASH) (rev ts)) mod 2 = 1"

definition following_block :: "cbuffer \<Rightarrow> nat \<Rightarrow> rchar \<Rightarrow> rchar \<Rightarrow> nat option" where
  "following_block b after opn cls =
     (let rest = cb_c_str b after;
          at = length (takeWhile (\<lambda>e. fst e = SPACE) rest)
      in if rest = [] \<or> (at < length rest \<and> fst (rest ! at) \<noteq> opn) then None
         else let opener = after + at
              in map_option (\<lambda>at. opener + 1 + at) (find_end_paren (cb_c_str b (opener + 1)) opn cls))"

fun block_split :: "nat \<Rightarrow> rchar \<Rightarrow> nat \<Rightarrow> block_parse \<Rightarrow> cbuffer \<Rightarrow> split \<times> cbuffer" where
  "block_split index delim limit PairSplitCleans b = cb_separate index delim limit b"

definition read_pair :: "nat \<Rightarrow> block_parse \<Rightarrow> cbuffer \<Rightarrow> pair \<times> cbuffer" where
  "read_pair index bp b =
     (let tok = untrace (cb_c_str b index);
          fin = index + length (cb_c_str b index);
          (sp, b) = block_split index ''='' 2 bp b
      in if sp_unreadable_head sp then (\<lparr>pair_key = tok, pair_effect = PairUnreadable\<rparr>, b)
         else let fields = map tok_start (sp_tokens sp);
                  key = (case fields of [] \<Rightarrow> [] | at # _ \<Rightarrow> untrace (cb_c_str b at));
                  effect = (case fields of
                      [_, value] \<Rightarrow> (let v = untrace (cb_c_str b value) in if v = [] then PairCleared else PairSet v)
                    | [_] \<Rightarrow> if snd (tok_raw (hd (sp_tokens sp))) < fin then PairValueless else PairIgnored
                    | _ \<Rightarrow> PairIgnored)
              in (\<lparr>pair_key = key, pair_effect = effect\<rparr>, b))"

text \<open>The pairs of one run of the block's split, with whether one reads past the end by byte.\<close>

fun read_pairs :: "block_parse \<Rightarrow> split_token list \<Rightarrow> cbuffer \<Rightarrow> pair list \<times> bool \<times> cbuffer" where
  "read_pairs bp [] b = ([], False, b)"
| "read_pairs bp (t # ts) b =
     (let escaped = escapes_its_end (cb_c_str b (tok_start t));
          (p, b) = read_pair (tok_start t) bp b;
          (ps, past, b) = read_pairs bp ts b
      in (p # ps, (escaped \<and> pair_effect p = PairUnreadable) \<or> past, b))"

text \<open>One pass of the loop of \<open>parse_block\<close>: the data at an index, split on the given or its own delimiter.\<close>

definition read_segment :: "block_parse \<Rightarrow> nat \<Rightarrow> rchar \<Rightarrow> cbuffer \<Rightarrow> pair list \<times> bool \<times> rchar \<times> cbuffer" where
  "read_segment bp data delim b =
     (let heads = (char_at b data = ''^'' \<and> char_at b (data + 1) = ''^'');
          delim = (if heads then char_at b (data + 2) else delim);
          data = (if heads then data + 3 else data);
          escaped = escapes_its_end (cb_c_str b data);
          (sp, b) = block_split data delim BLOCK_PAIRS bp b
      in if sp_unreadable_head sp
         then ([\<lparr>pair_key = untrace (cb_c_str b data), pair_effect = PairUnreadable\<rparr>], escaped, delim, b)
         else let (ps, past, b) = read_pairs bp (sp_tokens sp) b in (ps, past, delim, b))"

definition head_separator :: "traced list \<Rightarrow> rchar \<Rightarrow> rchar" where
  "head_separator inner comma =
     (if length inner \<ge> 2 \<and> fst (inner ! 0) = ''^'' \<and> fst (inner ! 1) = ''^''
      then if length inner \<ge> 3 then (if fst (inner ! 2) = comma then '','' else fst (inner ! 2)) else NUL
      else '','')"

definition parse_block :: "nat \<Rightarrow> rchar \<Rightarrow> rchar \<Rightarrow> rchar \<Rightarrow> block_parse \<Rightarrow> cbuffer \<Rightarrow> (parsed \<times> cbuffer) option" where
  "parse_block at opn cls comma bp b =
     (case find_end_paren (cb_c_str b at) opn cls of
        None \<Rightarrow> None
      | Some i \<Rightarrow>
          let fin = at + i;
              blk = \<lparr>block_open = opn, block_separator = head_separator (slice (cb_c_str b at) (1, fin - at)) comma,
                block_pairs = [], block_rewrites_following_text = False\<rparr>;
              next = fin + 1
          in if separator_unreadable blk
             then let escaped = escapes_its_end (slice (cb_c_str b at) (4, fin - at));
                      chains = (following_block b next opn cls \<noteq> None)
                  in Some (\<lparr>parsed_block = blk, parsed_next = next, parsed_splits_past_close_by_byte = escaped \<or> chains\<rparr>, b)
             else let following = map fst (cb_c_str b next);
                      b = cb_terminate fin b;
                      second = following_block b next opn cls;
                      (ps, past, delim, b) = read_segment bp (at + 1) comma b;
                      (ps, past, b) = (case second of
                          None \<Rightarrow> (ps, past, b)
                        | Some data \<Rightarrow> let (ps2, past2, _, b) = read_segment bp data delim b in (ps @ ps2, past \<or> past2, b))
                  in Some (\<lparr>parsed_block = blk\<lparr>block_pairs := ps,
                         block_rewrites_following_text := map fst (cb_c_str b next) \<noteq> following\<rparr>,
                       parsed_next = next, parsed_splits_past_close_by_byte = past\<rparr>, b))"

section \<open>Installation\<close>

definition same_header :: "string \<Rightarrow> string \<Rightarrow> bool" where
  "same_header name other \<longleftrightarrow> eq_ignore_ascii_case name other"

definition install_pair :: "(string \<times> string) list \<Rightarrow> pair \<Rightarrow> (string \<times> string) list" where
  "install_pair headers p =
     (case pair_effect p of
        PairSet v \<Rightarrow> filter (\<lambda>(name, _). \<not> same_header name (pair_key p)) headers @ [(pair_key p, v)]
      | PairCleared \<Rightarrow> filter (\<lambda>(name, _). \<not> same_header name (pair_key p)) headers
      | _ \<Rightarrow> headers)"

definition install :: "block list \<Rightarrow> (string \<times> string) list" where
  "install blocks = foldl install_pair [] (concat (map block_pairs blocks))"

end
