(* ===== verification/Expansion.thy ===== *)
theory Expansion
  imports Brackets
begin

text \<open>
  Dialplan expansion: \<open>types switch_passes/expansion.rs\<close>, the escape handling that the switch runs over an
  application's argument, and its test for a value that names a variable.
\<close>

section \<open>References\<close>

fun var_check_const_loop :: "bool \<Rightarrow> rchar list \<Rightarrow> bool" where
  "var_check_const_loop dollar [] = False"
| "var_check_const_loop dollar (c # rest) =
     (if c = ''$'' then var_check_const_loop True rest
      else if dollar \<and> c = ''{'' then True
      else var_check_const_loop (dollar \<and> c = BACKSLASH) rest)"

definition var_check_const :: "rchar list \<Rightarrow> bool" where
  "var_check_const cs = var_check_const_loop False cs"

definition names_a_variable :: "string \<Rightarrow> bool" where
  "names_a_variable value = var_check_const (chars value)"

text \<open>The index after the brace that closes a reference whose name starts at \<open>start\<close>.\<close>

fun reference_end_loop :: "nat \<Rightarrow> nat \<Rightarrow> nat \<Rightarrow> traced list \<Rightarrow> nat option" where
  "reference_end_loop start depth e [] = None"
| "reference_end_loop start depth e ((c, p) # rest) =
     (if depth = 1 \<and> c = ''}'' then Some (e + 1)
      else if c = ''{'' \<and> e \<noteq> start then reference_end_loop start (depth + 1) (e + 1) rest
      else if depth > 1 \<and> c = ''}'' then reference_end_loop start (depth - 1) (e + 1) rest
      else reference_end_loop start depth (e + 1) rest)"

definition reference_end :: "traced list \<Rightarrow> nat \<Rightarrow> nat" where
  "reference_end ts start = unwrap_or (length ts) (reference_end_loop start 1 start (drop start ts))"

lemma reference_end_loop_bounds: "reference_end_loop start depth e ts = Some r \<Longrightarrow> e < r \<and> r \<le> e + length ts"
  by (induction start depth e ts rule: reference_end_loop.induct) (fastforce split: if_splits)+

lemma reference_end_gt: "start \<le> length ts \<Longrightarrow> start \<le> reference_end ts start"
  using reference_end_loop_bounds [of start 1 start "drop start ts"]
  by (cases "reference_end_loop start 1 start (drop start ts)") (fastforce simp: reference_end_def)+

section \<open>Escapes\<close>

definition has_escaped_data :: "traced list \<Rightarrow> bool" where
  "has_escaped_data ts \<longleftrightarrow>
     list_ex (\<lambda>i. char_at ts i = BACKSLASH \<and> char_at ts (Suc i) \<in> {BACKSLASH, ''n'', ''s'', ''t'', QUOTE})
       [0..<length ts - 1]"

text \<open>
  The loop of \<open>expand_escapes\<close> at position \<open>p\<close>, which is inside the text: \<open>nth_char\<close> is \<open>None\<close> past the end.
\<close>

definition nth_char :: "traced list \<Rightarrow> nat \<Rightarrow> rchar option" where
  "nth_char ts i = (if i < length ts then Some (fst (ts ! i)) else None)"

function expand_loop ::
  "traced list \<Rightarrow> nat \<Rightarrow> traced list \<Rightarrow> (nat \<times> nat) list \<Rightarrow> traced list \<times> (nat \<times> nat) list" where
  "expand_loop ts p out refs =
     (if \<not> p < length ts then (out, refs)
      else let c = fst (ts ! p) in
        if c = BACKSLASH \<and> nth_char ts (p + 1) = Some ''$''
        then let q = (if nth_char ts (p + 2) = Some ''$'' then p + 2 else p + 1)
             in expand_loop ts (q + 1) (out @ [ts ! q]) refs
        else if c = BACKSLASH \<and> nth_char ts (p + 1) = Some QUOTE then expand_loop ts (p + 2) out refs
        else if c = BACKSLASH \<and> nth_char ts (p + 1) = Some BACKSLASH
        then expand_loop ts (p + 2) (out @ [(c, fst (snd (ts ! p)), snd (snd (ts ! (p + 1))))]) refs
        else if c = ''$''
        then let q = (if nth_char ts (p + 1) = Some ''$'' then p + 1 else p)
             in if nth_char ts (q + 1) = Some ''{''
                then let r = reference_end ts (q + 2);
                         written = length out;
                         out = out @ slice ts (p, r);
                         refs = refs @ [(written, length out)]
                     in if nth_char ts r \<noteq> None \<and> nth_char ts r \<noteq> Some ''$''
                        then expand_loop ts (r + 1) (out @ [ts ! r]) refs
                        else expand_loop ts r out refs
                else expand_loop ts (q + 1) (out @ [ts ! q]) refs
        else expand_loop ts (p + 1) (out @ [ts ! p]) refs)"
  by pat_completeness auto
termination
proof (relation "measure (\<lambda>(ts, p, _, _). length ts - p)", goal_cases)
  case (5 ts p out refs c q r written out' refs')
  then show ?case using reference_end_gt [of "q + 2" ts] by (auto simp: nth_char_def split: if_splits)
next
  case (6 ts p out refs c q r written out' refs')
  then show ?case using reference_end_gt [of "q + 2" ts] by (auto simp: nth_char_def split: if_splits)
qed (auto simp: nth_char_def split: if_splits)

declare expand_loop.simps [simp del]

definition expand_escapes :: "traced list \<Rightarrow> traced list \<times> (nat \<times> nat) list" where
  "expand_escapes ts =
     (if \<not> has_escaped_data ts \<and> \<not> var_check_const (map fst ts) then (ts, [])
      else expand_loop ts 0 [] [])"

section \<open>Protection\<close>

fun expands :: "carrier \<Rightarrow> bool" where
  "expands EslApi = False"
| "expands Dialplan = True"

definition quote_bare_after :: "dial_target \<Rightarrow> nat \<Rightarrow> string" where
  "quote_bare_after target passes =
     (let consumed_by_carrier = (if expands (dt_carrier target) then 2 else 1)
      in replicate (2 ^ passes - consumed_by_carrier) (CHR 0x5C) @ QUOTE)"

definition protects_dollars :: "string \<Rightarrow> dial_target \<Rightarrow> bool" where
  "protects_dollars value target \<longleftrightarrow>
     expands (dt_carrier target) \<and> contains_str ''$$'' value \<and> \<not> names_a_variable value"

definition enterprise_nests :: "block list \<Rightarrow> (string \<Rightarrow> bool) \<Rightarrow> bool" where
  "enterprise_nests blocks switch_true \<longleftrightarrow>
     (case find (\<lambda>(name, _). same_header name ''origination_nested_vars'') (install blocks) of
        None \<Rightarrow> False | Some (_, value) \<Rightarrow> switch_true value)"

end
