(* ===== verification/Originate_Legs.thy ===== *)
theory Originate_Legs
  imports Expansion
begin

text \<open>
  The passes of \<open>switch_ivr_originate\<close> over a dial string, up to the endpoint text of each leg:
  \<open>types switch_passes/originate_legs.rs\<close>, and \<open>pipeline.rs\<close> in front of them. A list splits into threads on
  \<open>:_:\<close>, a thread into groups on a bar and a group into legs on a comma, each with blocks ahead of it; the
  groups and legs of a thread are split in one buffer.
\<close>

definition MAX_PEERS :: nat where
  "MAX_PEERS = 128"

definition ENTERPRISE_DELIM :: string where
  "ENTERPRISE_DELIM = '':_:''"

definition QUOTED_ESC_COMMA :: rchar where
  "QUOTED_ESC_COMMA = [CHR 0x01]"

definition UNQUOTED_ESC_COMMA :: rchar where
  "UNQUOTED_ESC_COMMA = [CHR 0x02]"

record leg =
  leg_raw :: "nat \<times> nat"
  leg_blocks :: "block list"
  leg_endpoint :: string

record thread =
  thread_raw :: "nat \<times> nat"
  thread_blocks :: "block list"
  thread_groups :: "leg list list"
  thread_nested_vars :: bool

record dial_list =
  dl_blocks :: "block list"
  dl_threads :: "thread list"
  dl_quote_spans_legs :: bool
  dl_carrier_expands :: bool

definition splits_into_threads :: "string \<Rightarrow> bool" where
  "splits_into_threads s = contains_str ENTERPRISE_DELIM s"

definition opts_into_nested_vars :: "traced list \<Rightarrow> bool" where
  "opts_into_nested_vars ts =
     contains_str ''origination_nested_vars=true'' (to_ascii_lowercase (untrace ts))"

record reader =
  rd_block_parse :: block_parse
  rd_legs :: nat
  rd_quote_spans_legs :: bool

definition leading_spaces :: "traced list \<Rightarrow> nat" where
  "leading_spaces ts = length ts - length (skip_spaces ts)"

section \<open>Blocks ahead of a text\<close>

record head_blocks =
  hb_blocks :: "block list"
  hb_text :: "traced list"
  hb_end :: nat
  hb_data :: nat
  hb_data_end :: nat

definition hb_span :: "head_blocks \<Rightarrow> nat \<Rightarrow> nat \<times> nat \<Rightarrow> nat \<times> nat" where
  "hb_span h k span =
     ((if k = 0 \<and> fst span = 0 then hb_end h else fst span + hb_data h), snd span + hb_data h)"

text \<open>
  The blocks of one kind at a position: every block ends after it begins, so the length of the buffer
  bounds how many follow one another.
\<close>

lemma end_paren_loop_bounds:
  "end_paren_loop opn cls depth i ts = Some j \<Longrightarrow> i \<le> j \<and> j < i + length ts"
  by (induction opn cls depth i ts rule: end_paren_loop.induct) (fastforce split: if_splits)+

lemma find_end_paren_bounds: "find_end_paren ts opn cls = Some j \<Longrightarrow> 0 < j \<and> j < length ts"
  using end_paren_loop_bounds by (fastforce simp: find_end_paren_def Let_def split: if_splits)

lemma parse_block_next: "parse_block at opn cls comma bp b = Some (p, b') \<Longrightarrow> at < parsed_next p"
  by (auto simp: parse_block_def Let_def split: option.splits prod.splits if_splits)

fun kind_blocks :: "nat \<Rightarrow> rchar \<Rightarrow> rchar \<Rightarrow> nat \<Rightarrow> block_parse \<Rightarrow> block list \<times> nat \<times> nat \<Rightarrow> cbuffer
    \<Rightarrow> pipeline_error + (block list \<times> nat \<times> nat) \<times> cbuffer" where
  "kind_blocks 0 opn cls leg bp (blocks, pos, fin) b = Inr ((blocks, pos, fin), b)"
| "kind_blocks (Suc n) opn cls leg bp (blocks, pos, fin) b =
     (if char_at b pos \<noteq> opn then Inr ((blocks, pos, fin), b)
      else case parse_block pos opn cls '','' bp b of
             None \<Rightarrow> Inl (UnclosedBlock leg)
           | Some (p, b) \<Rightarrow> bindR (parsed_read p) (\<lambda>(blk, next).
               kind_blocks n opn cls leg bp (blocks @ [blk], next, next) b))"

fun kinds_blocks :: "(rchar \<times> rchar) list \<Rightarrow> nat \<Rightarrow> block_parse \<Rightarrow> block list \<times> nat \<times> nat \<Rightarrow> cbuffer
    \<Rightarrow> pipeline_error + (block list \<times> nat \<times> nat) \<times> cbuffer" where
  "kinds_blocks [] leg bp st b = Inr (st, b)"
| "kinds_blocks ((opn, cls) # kinds) leg bp st b =
     bindR (kind_blocks (length b) opn cls leg bp st b) (\<lambda>(st, b). kinds_blocks kinds leg bp st b)"

definition read_head_blocks :: "traced list \<Rightarrow> (rchar \<times> rchar) list \<Rightarrow> nat \<Rightarrow> block_parse \<Rightarrow> pipeline_error + head_blocks" where
  "read_head_blocks ts kinds leg bp =
     mapR (\<lambda>((blocks, pos, fin), b).
         let data = pos + leading_spaces (cb_c_str b pos)
         in \<lparr>hb_blocks = blocks, hb_text = b, hb_end = fin, hb_data = data,
             hb_data_end = data + length (cb_c_str b data)\<rparr>)
       (kinds_blocks kinds leg bp ([], leading_spaces ts, 0) (cb_new ts))"

section \<open>The comma pre-scan\<close>

text \<open>The state of \<open>escape_block_commas\<close>: the end of the block at hand, and its two flags.\<close>

fun escape_commas_loop :: "nat \<Rightarrow> nat option \<Rightarrow> bool \<Rightarrow> bool \<Rightarrow> nat \<Rightarrow> traced list \<Rightarrow> traced list" where
  "escape_commas_loop 0 fin quoted alt p g = g"
| "escape_commas_loop (Suc n) fin quoted alt p g =
     (let c = char_at g p;
          opens = (fin = None \<and> c = ''['');
          fin' = (if opens then map_option (\<lambda>e. p + e) (find_end_paren (drop p g) ''['' '']'') else fin);
          alt = (if opens then p + 2 < length g \<and> char_at g (p + 1) = ''^'' \<and> char_at g (p + 2) = ''^'' else alt);
          quoted = (if opens then False else quoted);
          quoted = (if c = QUOTE then \<not> quoted else quoted);
          escaped = (p > 0 \<and> char_at g (p - 1) = BACKSLASH);
          g = (if c = '','' \<and> \<not> escaped \<and> (case fin' of None \<Rightarrow> False | Some e \<Rightarrow> p < e)
               then g[p := (if quoted \<or> alt then QUOTED_ESC_COMMA else UNQUOTED_ESC_COMMA, snd (g ! p))] else g)
      in escape_commas_loop n (if fin' = Some p then None else fin') quoted alt (p + 1) g)"

definition escape_block_commas :: "traced list \<Rightarrow> traced list" where
  "escape_block_commas g = escape_commas_loop (length g) None False False 0 g"

definition scan_group :: "nat \<Rightarrow> cbuffer \<Rightarrow> cbuffer" where
  "scan_group start b =
     take start b @ escape_block_commas (cb_c_str b start) @ drop (start + length (cb_c_str b start)) b"

definition split_groups :: "cbuffer \<Rightarrow> split \<times> cbuffer" where
  "split_groups b = cb_separate 0 ''|'' MAX_PEERS b"

section \<open>Legs\<close>

text \<open>Before a leg's block is parsed, the quoted commas inside it are commas again.\<close>

definition restore_commas :: "nat \<Rightarrow> cbuffer \<Rightarrow> cbuffer" where
  "restore_commas pos b =
     (case find_end_paren (cb_c_str b pos) ''['' '']'' of
        None \<Rightarrow> b
      | Some bend \<Rightarrow> map (\<lambda>i. if pos + 1 \<le> i \<and> i < pos + bend \<and> fst (b ! i) = QUOTED_ESC_COMMA
                          then ('','', snd (b ! i)) else b ! i) [0..<length b])"

fun leg_blocks_loop :: "nat \<Rightarrow> block_parse \<Rightarrow> nat \<Rightarrow> block list \<Rightarrow> nat \<Rightarrow> cbuffer
    \<Rightarrow> pipeline_error + (block list \<times> nat) \<times> cbuffer" where
  "leg_blocks_loop 0 bp leg blocks pos b = Inr ((blocks, pos), b)"
| "leg_blocks_loop (Suc n) bp leg blocks pos b =
     (if char_at b pos \<noteq> ''['' then Inr ((blocks, pos), b)
      else case parse_block pos ''['' '']'' UNQUOTED_ESC_COMMA bp (restore_commas pos b) of
             None \<Rightarrow> Inl (UnclosedBlock leg)
           | Some (p, b) \<Rightarrow> bindR (parsed_read p) (\<lambda>(blk, next). leg_blocks_loop n bp leg (blocks @ [blk]) next b))"

definition read_one_leg :: "nat \<Rightarrow> nat \<times> nat \<Rightarrow> reader \<Rightarrow> cbuffer \<Rightarrow> pipeline_error + leg \<times> reader \<times> cbuffer" where
  "read_one_leg start raw r b =
     mapR (\<lambda>((blocks, pos), b). (\<lparr>leg_raw = raw, leg_blocks = blocks, leg_endpoint = untrace (skip_spaces (cb_c_str b pos))\<rparr>,
         r\<lparr>rd_legs := rd_legs r + 1\<rparr>, b))
       (leg_blocks_loop (length b) (rd_block_parse r) (rd_legs r) [] (start + leading_spaces (cb_c_str b start)) b)"

text \<open>The legs a group's split cut, read one after the other in the buffer.\<close>

fun read_legs :: "nat \<Rightarrow> traced list \<Rightarrow> nat \<times> nat \<Rightarrow> split_token list \<Rightarrow> reader \<Rightarrow> cbuffer
    \<Rightarrow> pipeline_error + leg list \<times> reader \<times> cbuffer" where
  "read_legs start scanned raw [] r b = Inr ([], r, b)"
| "read_legs start scanned raw (t # ts) r b =
     (let within = (\<lambda>at. min (at - start) (length scanned));
          span = (within (fst (tok_raw t)), within (snd (tok_raw t)))
      in bindR (read_one_leg (tok_start t) (byte_range scanned raw span) r b) (\<lambda>(l, r, b).
           mapR (\<lambda>(ls, r, b). (l # ls, r, b)) (read_legs start scanned raw ts r b)))"

definition read_group :: "nat \<Rightarrow> nat \<times> nat \<Rightarrow> reader \<Rightarrow> cbuffer \<Rightarrow> pipeline_error + leg list \<times> reader \<times> cbuffer" where
  "read_group start raw r b =
     (let b = scan_group start b;
          scanned = cb_c_str b start;
          (sp, b) = cb_separate start '','' MAX_PEERS b
      in if sp_unreadable_head sp then Inl SplitSeparatorUnreadable
         else read_legs start scanned raw (sp_tokens sp)
                (r\<lparr>rd_quote_spans_legs := rd_quote_spans_legs r \<or> sp_held_delimiter sp\<rparr>) b)"

fun read_groups :: "head_blocks \<Rightarrow> nat \<times> nat \<Rightarrow> nat \<Rightarrow> split_token list \<Rightarrow> reader \<Rightarrow> cbuffer
    \<Rightarrow> pipeline_error + leg list list \<times> reader \<times> cbuffer" where
  "read_groups h raw k [] r b = Inr ([], r, b)"
| "read_groups h raw k (t # ts) r b =
     (let scanned = take (hb_data_end h) (hb_text h)
      in bindR (read_group (tok_start t) (byte_range scanned raw (hb_span h k (tok_raw t))) r b) (\<lambda>(g, r, b).
           mapR (\<lambda>(gs, r, b). (g # gs, r, b)) (read_groups h raw (k + 1) ts r b)))"

definition read_thread :: "traced list \<Rightarrow> nat \<times> nat \<Rightarrow> reader \<Rightarrow> pipeline_error + thread \<times> reader" where
  "read_thread ts raw r =
     bindR (read_head_blocks ts [(''<'', ''>''), (''{'', ''}'')] (rd_legs r) (rd_block_parse r)) (\<lambda>h.
       let data = slice (hb_text h) (hb_data h, hb_data_end h)
       in if data = [] then Inl PipelineEmpty
          else let (sp, b) = split_groups (cb_new data)
               in if sp_unreadable_head sp then Inl SplitSeparatorUnreadable
                  else mapR (\<lambda>(groups, r, b). (\<lparr>thread_raw = raw, thread_blocks = hb_blocks h, thread_groups = groups,
                           thread_nested_vars = opts_into_nested_vars ts\<rparr>, r))
                         (read_groups h raw 0 (sp_tokens sp)
                            (r\<lparr>rd_quote_spans_legs := rd_quote_spans_legs r \<or> sp_held_delimiter sp\<rparr>) b))"

section \<open>Lists\<close>

definition switch_true :: "string \<Rightarrow> bool" where
  "switch_true value \<longleftrightarrow>
     (let unsigned = (case value of c # rest \<Rightarrow> if c \<in> {CHR ''-'', CHR ''+''} then rest else value | [] \<Rightarrow> value);
          number = list_all (\<lambda>c. c = CHR ''.'' \<or> is_digit c) unsigned;
          nonzero = list_ex (\<lambda>c. c \<noteq> CHR ''0'') (takeWhile is_digit unsigned)
      in list_ex (eq_ignore_ascii_case value) [''yes'', ''on'', ''true'', ''t'', ''enabled'', ''active'', ''allow'']
         \<or> (number \<and> nonzero))"

fun read_threads :: "head_blocks \<Rightarrow> nat \<times> nat \<Rightarrow> nat \<Rightarrow> (nat \<times> nat) list \<Rightarrow> reader \<Rightarrow> pipeline_error + thread list \<times> reader" where
  "read_threads h raw k [] r = Inr ([], r)"
| "read_threads h raw k (span # spans) r =
     (let scanned = take (hb_data_end h) (hb_text h); span = hb_span h k span
      in bindR (read_thread (slice scanned span) (byte_range scanned raw span) r) (\<lambda>(t, r).
           mapR (\<lambda>(ts, r). (t # ts, r)) (read_threads h raw (k + 1) spans r)))"

definition read_dial_list :: "traced list \<Rightarrow> nat \<times> nat \<Rightarrow> bool \<Rightarrow> block_parse \<Rightarrow> pipeline_error + dial_list" where
  "read_dial_list ts raw carrier_expands bp =
     (let r = \<lparr>rd_block_parse = bp, rd_legs = 0, rd_quote_spans_legs = False\<rparr>
      in if find_text ts ENTERPRISE_DELIM \<noteq> None
         then bindR (read_head_blocks ts [(''<'', ''>'')] 0 bp) (\<lambda>h.
                mapR (\<lambda>(threads, r).
                    \<lparr>dl_blocks = hb_blocks h,
                     dl_threads = map (\<lambda>t. t\<lparr>thread_nested_vars := thread_nested_vars t \<or> enterprise_nests (hb_blocks h) switch_true\<rparr>) threads,
                     dl_quote_spans_legs = rd_quote_spans_legs r, dl_carrier_expands = carrier_expands\<rparr>)
                  (read_threads h raw 0
                     (separate_string_string (slice (hb_text h) (hb_data h, hb_data_end h)) ENTERPRISE_DELIM MAX_PEERS) r))
         else mapR (\<lambda>(t, r). \<lparr>dl_blocks = [], dl_threads = [t], dl_quote_spans_legs = rd_quote_spans_legs r,
                     dl_carrier_expands = carrier_expands\<rparr>) (read_thread ts raw r))"

definition resolve :: "block list \<Rightarrow> leg \<Rightarrow> string \<Rightarrow> bool \<Rightarrow> string option" where
  "resolve inherited l key nested_vars =
     (let global = install inherited; local = install (leg_blocks l);
          clobber = (case find (\<lambda>(name, _). same_header name ''local_var_clobber'') global of
                       None \<Rightarrow> False | Some (_, value) \<Rightarrow> switch_true value);
          all_vars = (if clobber then global @ local else local @ global);
          kept = filter (\<lambda>(name, value). same_header name key \<and> (nested_vars \<or> \<not> names_a_variable value)) all_vars
      in if kept = [] then None else Some (snd (last kept)))"

end
