(* ===== verification/Dial_Target.thy ===== *)
theory Dial_Target
  imports Api_Argument Rust_Text "HOL-Library.Product_Lexorder"
begin

text \<open>
  Where a dial string is headed: \<open>types commands/variables/target.rs\<close>, with the version of the switch
  (\<open>types version.rs\<close>) that selects the revision of its block parser. A target carries the argument split still
  ahead of the dial string; rendering escapes for it once and parsing reads it once.
\<close>

section \<open>Versions\<close>

datatype freeswitch_version = FreeswitchVersion (fv_major: "32 word") (fv_minor: "32 word") (fv_micro: "32 word") (fv_dev: bool)

abbreviation release :: "nat \<Rightarrow> nat \<Rightarrow> nat \<Rightarrow> freeswitch_version" where
  "release major minor micro \<equiv> FreeswitchVersion (of_nat major) (of_nat minor) (of_nat micro) False"

definition version_rank :: "freeswitch_version \<Rightarrow> 32 word \<times> 32 word \<times> 32 word \<times> bool" where
  "version_rank v = (fv_major v, fv_minor v, fv_micro v, \<not> fv_dev v)"

lemma version_rank_inj: "version_rank v = version_rank w \<longleftrightarrow> v = w"
  by (cases v; cases w) (auto simp: version_rank_def)

instantiation freeswitch_version :: linorder
begin

definition less_eq_freeswitch_version :: "freeswitch_version \<Rightarrow> freeswitch_version \<Rightarrow> bool" where
  "v \<le> w \<longleftrightarrow> version_rank v \<le> version_rank w"

definition less_freeswitch_version :: "freeswitch_version \<Rightarrow> freeswitch_version \<Rightarrow> bool" where
  "v < w \<longleftrightarrow> version_rank v < version_rank w"

instance
  by standard (auto simp: less_eq_freeswitch_version_def less_freeswitch_version_def version_rank_inj order.strict_iff_order)

end

definition version_display :: "freeswitch_version \<Rightarrow> string" where
  "version_display v =
     dec (unat (fv_major v)) @ ''.'' @ dec (unat (fv_minor v)) @ ''.'' @ dec (unat (fv_micro v))
       @ (if fv_dev v then ''-dev'' else [])"

datatype version_error =
  MissingComponent string
| InvalidComponent string
| TrailingComponent
| UnknownSuffix

text \<open>\<open>str::parse::<u32>()\<close>: as for \<open>usize\<close>, within 32 bits.\<close>

definition parse_u32 :: "string \<Rightarrow> 32 word option" where
  "parse_u32 s = (case parse_usize s of Some n \<Rightarrow> if n < 2 ^ 32 then Some (of_nat n) else None | None \<Rightarrow> None)"

definition version_component :: "string list \<Rightarrow> string \<Rightarrow> version_error + 32 word \<times> string list" where
  "version_component parts name =
     (case parts of
        [] \<Rightarrow> Inl (MissingComponent name)
      | p # rest \<Rightarrow> mapR (\<lambda>n. (n, rest)) (ok_or (InvalidComponent name) (parse_u32 p)))"

definition version_from_str :: "string \<Rightarrow> version_error + freeswitch_version" where
  "version_from_str s =
     bindR (case split_once (CHR ''-'') s of
              None \<Rightarrow> Inr (s, False)
            | Some (numbers, suf) \<Rightarrow>
                if suf = ''dev'' then Inr (numbers, True)
                else if suf = ''release'' then Inr (numbers, False)
                else Inl UnknownSuffix) (\<lambda>(numbers, dev).
     bindR (version_component (split_str ''.'' numbers) ''major'') (\<lambda>(major, parts).
     bindR (version_component parts ''minor'') (\<lambda>(minor, parts).
     bindR (version_component parts ''micro'') (\<lambda>(micro, parts).
       if parts \<noteq> [] then Inl TrailingComponent else Inr (FreeswitchVersion major minor micro dev)))))"

section \<open>Revisions of the block parser\<close>

datatype unvouched_version =
  DevVersion freeswitch_version
| NewerThanVouched freeswitch_version
| OlderThanVouched freeswitch_version

definition VOUCHED_PAIR_SPLIT_CLEANS :: "freeswitch_version \<times> freeswitch_version" where
  "VOUCHED_PAIR_SPLIT_CLEANS = (release 1 10 0, release 1 11 3)"

definition for_version :: "freeswitch_version \<Rightarrow> unvouched_version + block_parse" where
  "for_version v =
     (let (first, last) = VOUCHED_PAIR_SPLIT_CLEANS
      in if fv_dev v then Inl (DevVersion v)
         else if v < first then Inl (OlderThanVouched v)
         else if v > last then Inl (NewerThanVouched v)
         else Inr PairSplitCleans)"

fun unvouched_of :: "unvouched_version \<Rightarrow> freeswitch_version" where
  "unvouched_of (DevVersion v) = v"
| "unvouched_of (NewerThanVouched v) = v"
| "unvouched_of (OlderThanVouched v) = v"

fun block_parse_name :: "block_parse \<Rightarrow> string" where
  "block_parse_name PairSplitCleans = ''pair_split_cleans''"

definition block_parse_from_str :: "string \<Rightarrow> string + block_parse" where
  "block_parse_from_str s =
     ok_or s (find (\<lambda>revision. eq_ignore_ascii_case (block_parse_name revision) s) [PairSplitCleans])"

fun cleanup_passes :: "block_parse \<Rightarrow> nat" where
  "cleanup_passes PairSplitCleans = 2"

section \<open>Targets\<close>

definition target_new :: "carrier \<Rightarrow> dial_target" where
  "target_new c = \<lparr>dt_carrier = c, dt_block_parse = PairSplitCleans, dt_argument = Blank\<rparr>"

definition with_argv_separator :: "rchar \<Rightarrow> dial_target \<Rightarrow> invalid_argv_separator + dial_target" where
  "with_argv_separator sep t =
     (if dt_carrier t = Dialplan then Inl (WrongCarrier (dt_carrier t))
      else if \<not> usable_argv_separator sep then Inl (Unusable sep)
      else Inr (t\<lparr>dt_argument := Char sep\<rparr>))"

definition argv_separator :: "dial_target \<Rightarrow> rchar option" where
  "argv_separator t = (case dt_argument t of Char sep \<Rightarrow> Some sep | _ \<Rightarrow> None)"

definition split_delimiter :: "dial_target \<Rightarrow> rchar option" where
  "split_delimiter t =
     (case (dt_carrier t, dt_argument t) of
        (EslApi, Blank) \<Rightarrow> Some SPACE
      | (_, Char sep) \<Rightarrow> Some sep
      | _ \<Rightarrow> None)"

definition target_escape_argument :: "dial_target \<Rightarrow> string \<Rightarrow> string option" where
  "target_escape_argument t s = Option.bind (split_delimiter t) (escape_argument s)"

definition split_argument :: "dial_target \<Rightarrow> traced list \<Rightarrow> (argv_cut + token option) option" where
  "split_argument t ts = map_option (sole_argument ts) (split_delimiter t)"

definition inner :: "dial_target \<Rightarrow> dial_target" where
  "inner t = (if split_delimiter t \<noteq> None then t\<lparr>dt_argument := Consumed\<rparr> else t)"

definition write_argument :: "dial_target \<Rightarrow> (dial_target \<Rightarrow> string) \<Rightarrow> string" where
  "write_argument t render =
     (case argv_separator t of Some sep \<Rightarrow> write_escaped sep (render (inner t)) | None \<Rightarrow> render t)"

definition read_argument :: "dial_target \<Rightarrow> string \<Rightarrow> originate_error + string \<times> dial_target" where
  "read_argument t s =
     (case split_argument t (trace s) of
        None \<Rightarrow> Inr (s, t)
      | Some (Inl ArgvCut) \<Rightarrow> Inl (OriginateParseError (''originate'' @ QUOTE @ ''s argument split cuts the dial string''))
      | Some (Inr tok) \<Rightarrow> Inr ((case tok of None \<Rightarrow> [] | Some k \<Rightarrow> untrace (token_text k)), inner t))"

definition with_block_parse :: "block_parse \<Rightarrow> dial_target \<Rightarrow> dial_target" where
  "with_block_parse bp t = t\<lparr>dt_block_parse := bp\<rparr>"

definition argument_passes :: "dial_target \<Rightarrow> nat" where
  "argument_passes t = (case dt_argument t of Consumed \<Rightarrow> 0 | _ \<Rightarrow> 1)"

section \<open>Lemmas\<close>

text \<open>The targets the code can build: the argument pass of a separator only at the API carrier.\<close>

definition target_wf :: "dial_target \<Rightarrow> bool" where
  "target_wf t \<longleftrightarrow> (case dt_argument t of Char sep \<Rightarrow> dt_carrier t = EslApi \<and> usable_argv_separator sep | _ \<Rightarrow> True)"

lemma target_wf_ops:
  "target_wf (target_new c)"
  "target_wf t \<Longrightarrow> with_argv_separator sep t = Inr t' \<Longrightarrow> target_wf t'"
  "target_wf t \<Longrightarrow> target_wf (inner t)"
  "target_wf t \<Longrightarrow> target_wf (with_block_parse bp t)"
  by (auto simp: target_wf_def target_new_def with_argv_separator_def inner_def with_block_parse_def
      split: if_splits argument_pass.splits; cases "dt_carrier t"; auto)+

lemma split_delimiter_ok: "target_wf t \<Longrightarrow> split_delimiter t = Some sep \<Longrightarrow> sep_ok sep"
  by (auto simp: target_wf_def split_delimiter_def sep_ok_def usable_argv_separator_def
      split: argument_pass.splits carrier.splits)

lemma usable_not_space [simp]: "\<not> usable_argv_separator SPACE"
  by (simp add: usable_argv_separator_def breaks_a_split_def is_ascii_graphic_def)

lemma split_str_dec:
  "split_str ''.'' (dec n @ ''.'' @ s) = dec n # split_str ''.'' s" "split_str ''.'' (dec n) = [dec n]"
proof -
  have no: "CHR ''.'' \<notin> set (dec n)" using dec_digits [of n] by (auto simp: list_all_iff is_digit_def)
  have find: "str_find ''.'' (xs @ ''.'' @ s) = Some (length xs)" if "CHR ''.'' \<notin> set xs" for xs
    using that by (induction xs) (auto simp: starts_with_def)
  show "split_str ''.'' (dec n @ ''.'' @ s) = dec n # split_str ''.'' s"
    by (subst split_str.simps) (simp add: find [OF no, simplified])
  have "str_find ''.'' xs = None" if "CHR ''.'' \<notin> set xs" for xs
    using that by (induction xs) (auto simp: starts_with_def)
  with no show "split_str ''.'' (dec n) = [dec n]" by (subst split_str.simps) simp
qed

lemma parse_u32_dec: "parse_u32 (dec (unat w)) = Some w"
proof -
  have "unat w < 2 ^ 32" using unsigned_less [of w] by simp
  moreover then have "unat w < 2 ^ 64" by simp
  ultimately show ?thesis by (simp add: parse_u32_def parse_usize_dec)
qed

lemma written_argument_read:
  assumes "target_wf t" and "split_delimiter t = Some sep" and "arg_ok s" and "written_as sep s w ps"
    and "sep \<noteq> SPACE \<longrightarrow> \<not> holds sep ps" and "sep = SPACE \<longrightarrow> \<not> (\<exists>qs. ps = Plain ''^'' # Plain ''^'' # qs)"
  shows "read_argument t w = Inr (s, t\<lparr>dt_argument := Consumed\<rparr>)"
  using sole_reads_back [OF split_delimiter_ok [OF assms(1,2)] assms(4,5,3,6)] assms(2)
  by (auto simp: read_argument_def split_argument_def inner_def)

lemma write_escaped_read:
  assumes "target_wf t" and "argv_separator t = Some sep" and "arg_ok s" and "s \<noteq> []"
  shows "read_argument t (write_escaped sep s) = Inr (s, t\<lparr>dt_argument := Consumed\<rparr>)"
proof -
  have sep: "split_delimiter t = Some sep" "sep \<noteq> SPACE"
    using assms(1,2) by (auto simp: argv_separator_def split_delimiter_def target_wf_def usable_not_space
        split: argument_pass.splits carrier.splits)
  obtain ps where "write_escaped sep s = concat (writes ps)" "list_all char_ok (writes ps)" "reads ps = chars s"
    "token_ok sep (cleanup_delim sep) ps" "ps \<noteq> []" "\<not> holds sep ps"
    using write_escaped_pieces [OF split_delimiter_ok [OF assms(1) sep(1)] assms(3)] assms(4) by auto
  then show ?thesis
    using sep(2) by (intro written_argument_read [OF assms(1) sep(1) assms(3), of _ ps]) (auto simp: written_as_def)
qed

section \<open>Properties\<close>

text \<open>
  A version that is printed parses back, and \<open>for_version\<close> vouches for a version exactly when
  it is a release from 1.10.0 to 1.11.3; a development build is refused whatever its number, and the
  refusal names the version.
\<close>

lemma version_vouched:
  "version_from_str (version_display v) = Inr v
   \<and> (for_version v = Inr PairSplitCleans \<longleftrightarrow>
        (\<not> fv_dev v \<and> fv_major v = 1 \<and> (fv_minor v = 10 \<or> fv_minor v = 11 \<and> fv_micro v \<le> 3)))
   \<and> (case for_version v of Inl e \<Rightarrow> unvouched_of e = v | Inr _ \<Rightarrow> \<not> fv_dev v)"
proof (intro conjI)
  have no_dash: "CHR ''-'' \<notin> set (dec n)" for n using dec_digits [of n] by (auto simp: list_all_iff is_digit_def)
  let ?n = "dec (unat (fv_major v)) @ ''.'' @ dec (unat (fv_minor v)) @ ''.'' @ dec (unat (fv_micro v))"
  have n: "CHR ''-'' \<notin> set ?n" using no_dash by auto
  have "split_once (CHR ''-'') (?n @ ''-dev'') = Some (?n, ''dev'')" using split_once_append [OF n, of "''dev''"] by simp
  moreover have "split_once (CHR ''-'') ?n = None" using n by simp
  ultimately show "version_from_str (version_display v) = Inr v"
    using split_str_dec [of "unat (fv_major v)"] split_str_dec [of "unat (fv_minor v)"] split_str_dec [of "unat (fv_micro v)"]
    by (cases v) (auto simp: version_from_str_def version_display_def version_component_def parse_u32_dec simp del: split_once_None)
  show "for_version v = Inr PairSplitCleans \<longleftrightarrow>
        (\<not> fv_dev v \<and> fv_major v = 1 \<and> (fv_minor v = 10 \<or> fv_minor v = 11 \<and> fv_micro v \<le> 3))"
  proof (cases v)
    case (FreeswitchVersion a b c d)
    have w: "\<not> (x < 10) \<and> \<not> (11 < x) \<longleftrightarrow> x = 10 \<or> x = 11" for x :: "32 word"
      by unat_arith
    have a: "a \<le> 1 \<longleftrightarrow> a = 0 \<or> a = 1" by unat_arith
    show ?thesis
      using w [of b] a FreeswitchVersion
      by (auto simp: for_version_def VOUCHED_PAIR_SPLIT_CLEANS_def less_freeswitch_version_def version_rank_def less_prod_def not_less)
  qed
  show "case for_version v of Inl e \<Rightarrow> unvouched_of e = v | Inr _ \<Rightarrow> \<not> fv_dev v"
    by (auto simp: for_version_def VOUCHED_PAIR_SPLIT_CLEANS_def)
qed

text \<open>
  An argument is read as it was. At every target that splits its arguments, whatever valid text
  without NUL \<open>escape_argument\<close> escapes is what \<open>read_argument\<close> reads of the result, at the target whose split is
  consumed; at the other targets no text is escaped and \<open>read_argument\<close> leaves every text alone. Rendering
  through \<open>write_argument\<close> is undone by \<open>read_argument\<close> in the same way.
\<close>

lemma target_argument_roundtrip:
  assumes "target_wf t" and "arg_ok s"
  shows "(case target_escape_argument t s of
      Some w \<Rightarrow> read_argument t w = Inr (s, t\<lparr>dt_argument := Consumed\<rparr>)
    | None \<Rightarrow> split_delimiter t = None \<and> read_argument t s = Inr (s, t))
    \<and> (s \<noteq> [] \<longrightarrow> argv_separator t \<noteq> None \<longrightarrow>
        read_argument t (write_argument t (\<lambda>_. s)) = Inr (s, t\<lparr>dt_argument := Consumed\<rparr>))"
proof (cases "split_delimiter t")
  case None
  then show ?thesis
    by (auto simp: target_escape_argument_def read_argument_def split_argument_def argv_separator_def split_delimiter_def
        split: argument_pass.splits carrier.splits)
next
  case (Some sep)
  obtain w ps where w: "escape_argument s sep = Some w" "written_as sep s w ps" "\<not> holds sep ps"
    "sep = SPACE \<longrightarrow> \<not> (\<exists>qs. ps = Plain ''^'' # Plain ''^'' # qs)"
    using escape_argument_pieces [OF split_delimiter_ok [OF assms(1) Some] assms(2)] by blast
  have read: "read_argument t w = Inr (s, t\<lparr>dt_argument := Consumed\<rparr>)"
    using written_argument_read [OF assms(1) Some assms(2) w(2) _ w(4)] w(3) by simp
  have "read_argument t (write_argument t (\<lambda>_. s)) = Inr (s, t\<lparr>dt_argument := Consumed\<rparr>)"
    if "s \<noteq> []" "argv_separator t \<noteq> None"
    using that write_escaped_read [OF assms(1) _ assms(2)] by (auto simp: write_argument_def)
  with Some w read show ?thesis by (simp add: target_escape_argument_def)
qed

end
