(* ===== verification/Variables.thy ===== *)
theory Variables
  imports Originate_Legs Dial_Target
begin

text \<open>
  Channel variables of a dial string: the passes between a carrier and the channel
  (\<open>types switch_passes/pipeline.rs\<close>), the escapes a render writes for them (\<open>switch_passes/escape.rs\<close>), and the
  ordered set of variables with its rendering and parsing (\<open>commands/variables/mod.rs\<close>).
\<close>

section \<open>The pipeline\<close>

definition pipeline_api_argument :: "traced list \<Rightarrow> dial_target \<Rightarrow> pipeline_error + traced list \<times> (nat \<times> nat)" where
  "pipeline_api_argument ts target =
     (case split_argument target ts of
        None \<Rightarrow> Inr (ts, extent ts)
      | Some (Inl ArgvCut) \<Rightarrow> Inl ArgvSplit
      | Some (Inr None) \<Rightarrow> Inl PipelineEmpty
      | Some (Inr (Some tok)) \<Rightarrow> Inr (token_text tok, byte_range ts (extent ts) (token_raw tok)))"

definition pipeline_read :: "string \<Rightarrow> dial_target \<Rightarrow> pipeline_error + dial_list" where
  "pipeline_read input target =
     (let ts = trace input
      in case dt_carrier target of
           EslApi \<Rightarrow> bindR (pipeline_api_argument ts target) (\<lambda>(text, raw).
             read_dial_list text raw False (dt_block_parse target))
         | Dialplan \<Rightarrow> (let (text, references) = expand_escapes ts
             in read_dial_list text (extent ts) (references \<noteq> []) (dt_block_parse target)))"

section \<open>Escapes\<close>

definition LEG_SPLIT_PASSES :: nat where
  "LEG_SPLIT_PASSES = 2"

datatype escaped_field = FieldValue variables_type bool | FieldEndpoint | FieldKey variables_type bool

fun escapes_comma :: "escaped_field \<Rightarrow> bool" where
  "escapes_comma (FieldValue _ commas_separate) = commas_separate"
| "escapes_comma (FieldKey _ commas_separate) = commas_separate"
| "escapes_comma FieldEndpoint = True"

fun escapes_pipe :: "escaped_field \<Rightarrow> bool" where
  "escapes_pipe (FieldValue scope _) = (scope = Channel)"
| "escapes_pipe (FieldKey scope _) = (scope = Channel)"
| "escapes_pipe FieldEndpoint = True"

fun leg_split_passes :: "variables_type \<Rightarrow> nat" where
  "leg_split_passes Enterprise = 0"
| "leg_split_passes Default = 0"
| "leg_split_passes Channel = LEG_SPLIT_PASSES"

definition passes :: "dial_target \<Rightarrow> escaped_field \<Rightarrow> nat" where
  "passes target field = argument_passes target +
     (case field of
        FieldValue scope _ \<Rightarrow> cleanup_passes (dt_block_parse target) + leg_split_passes scope
      | FieldKey scope _ \<Rightarrow> cleanup_passes (dt_block_parse target) + leg_split_passes scope
      | FieldEndpoint \<Rightarrow> LEG_SPLIT_PASSES)"

definition backslash_escape :: "dial_target \<Rightarrow> escaped_field \<Rightarrow> string" where
  "backslash_escape target field = replicate (2 ^ passes target field) (CHR 0x5C)"

definition space_escape :: "dial_target \<Rightarrow> escaped_field \<Rightarrow> string" where
  "space_escape target field = replicate (2 ^ (passes target field - 1)) (CHR 0x5C) @ ''s''"

definition quote_escape :: "dial_target \<Rightarrow> escaped_field \<Rightarrow> string" where
  "quote_escape target field = quote_bare_after target (passes target field)"

definition channel_comma_guard :: "dial_target \<Rightarrow> string" where
  "channel_comma_guard target = concat (replicate 2 (quote_bare_after target (argument_passes target + 1)))"

definition caret_guard :: "dial_target \<Rightarrow> escaped_field \<Rightarrow> string" where
  "caret_guard target field = concat (replicate 2 (quote_bare_after target (passes target field - 1)))"

definition guard_channel_commas :: "string \<Rightarrow> bool \<Rightarrow> dial_target \<Rightarrow> bool \<Rightarrow> string" where
  "guard_channel_commas escaped separator_follows target commas_separate =
     (let guard = channel_comma_guard target;
          backslash = backslash_escape target (FieldValue Channel commas_separate)
      in if \<not> commas_separate then replace_str (backslash @ '','') (backslash @ guard @ '','') escaped
         else if separator_follows then escaped @ guard
         else escaped)"

definition escape_text :: "string \<Rightarrow> dial_target \<Rightarrow> escaped_field \<Rightarrow> string" where
  "escape_text value target field =
     (let escaped = replace_char (CHR 0x27) (quote_escape target field)
            (replace_char (CHR 0x5C) (backslash_escape target field) value);
          dollars = protects_dollars value target;
          escaped = (if dollars then replace_char (CHR ''$'') (BACKSLASH @ ''$'') escaped else escaped);
          escaped = (if escapes_comma field then replace_char (CHR '','') (BACKSLASH @ '','') escaped else escaped);
          escaped = (if escapes_pipe field then replace_char (CHR ''|'') (BACKSLASH @ ''|'') escaped else escaped);
          escaped = (case field of FieldKey _ _ \<Rightarrow> replace_char (CHR ''='') (BACKSLASH @ ''='') escaped | _ \<Rightarrow> escaped);
          escaped = (case field of
              FieldValue Channel commas_separate \<Rightarrow>
                guard_channel_commas escaped (commas_separate \<and> ends_with BACKSLASH value) target commas_separate
            | FieldKey Channel commas_separate \<Rightarrow> guard_channel_commas escaped False target commas_separate
            | _ \<Rightarrow> escaped);
          space = space_escape target field;
          escaped = (case strip_prefix SPACE escaped of Some rest \<Rightarrow> space @ rest | None \<Rightarrow> escaped);
          escaped = (case strip_suffix SPACE escaped of Some rest \<Rightarrow> rest @ space | None \<Rightarrow> escaped);
          escaped = (case field of
              FieldKey _ _ \<Rightarrow> if starts_with ''^^'' value then caret_guard target field @ escaped else escaped
            | _ \<Rightarrow> escaped);
          escaped = (if dollars then BACKSLASH @ QUOTE @ escaped else escaped)
      in if contains_char SP escaped then QUOTE @ escaped @ QUOTE else escaped)"

definition escape_value :: "string \<Rightarrow> dial_target \<Rightarrow> bool \<Rightarrow> variables_type \<Rightarrow> string" where
  "escape_value value target commas_separate vars_type =
     escape_text value target (FieldValue vars_type commas_separate)"

section \<open>Variables\<close>

record variables =
  vars_type :: variables_type
  vars_inner :: "(string \<times> string) list"
  vars_separator :: "rchar option"

definition check_key :: "string \<Rightarrow> variables_type \<Rightarrow> originate_error + unit" where
  "check_key key vt =
     (let fault =
        (if key = [] then Some ''is empty, which the switch installs under no name''
         else if contains_char (CHR ''['') key
         then Some (''carries '' @ QUOTE @ ''['' @ QUOTE @ '', which the switch reads as an array index, installing the value under the text before it'')
         else if splits_into_threads key
         then Some (''carries the enterprise separator '' @ ENTERPRISE_DELIM @ '', on which the switch splits the dial string into threads whatever quoting or escaping surrounds it'')
         else if vt = Channel \<and> contains_char (CHR 0x27) key
         then Some ''carries a single quote in channel scope, which the switch pairs with the next quote in the dial string before it parses the block''
         else unbalanced key (delimiters vt))
      in case fault of None \<Rightarrow> Inr () | Some f \<Rightarrow> Inl (OriginateParseError (''a variable name '' @ f)))"

definition check_representable :: "string \<Rightarrow> string \<Rightarrow> variables_type \<Rightarrow> originate_error + unit" where
  "check_representable key value vt =
     bindR (check_key key vt) (\<lambda>_.
       if splits_into_threads value
       then Inl (OriginateParseError (''variable '' @ key @ '' carries the enterprise separator '' @ ENTERPRISE_DELIM @
              '', on which the switch splits the dial string into threads whatever quoting or escaping surrounds it''))
       else if vt = Channel \<and> contains_char (CHR 0x27) value
       then Inl (OriginateParseError (''variable '' @ key @ '' carries a single quote in channel scope: the switch pairs it with the next quote in the dial string before it parses the block, whatever escaping precedes either. Use default scope, or keep the quote out of the value''))
       else if value = []
       then Inl (OriginateParseError (''variable '' @ key @ '' has an empty value: the switch discards such a pair without logging it, so it cannot be told from an absent variable on the wire. Give it a value or remove it -- and if its presence was itself the signal, that signal needs a home outside the dial string''))
       else case unbalanced value (delimiters vt) of
              None \<Rightarrow> Inr ()
            | Some f \<Rightarrow> Inl (OriginateParseError (''variable '' @ key @ '' '' @ f)))"

definition check_case_collision :: "string list \<Rightarrow> string \<Rightarrow> nat \<Rightarrow> originate_error + unit" where
  "check_case_collision earlier key at =
     (if list_ex (\<lambda>name. name \<noteq> key \<and> same_header name key) earlier
      then Inl (OriginateParseError (''variable '' @ dec at @ '' differs only in case from an earlier name, which the switch installs as the same variable''))
      else Inr ())"

definition variables_new :: "variables_type \<Rightarrow> variables" where
  "variables_new vt = \<lparr>vars_type = vt, vars_inner = [], vars_separator = None\<rparr>"

definition variables_insert :: "string \<Rightarrow> string \<Rightarrow> variables \<Rightarrow> variables" where
  "variables_insert key value v = v\<lparr>vars_inner := AList.update key value (vars_inner v)\<rparr>"

definition with_vars :: "variables_type \<Rightarrow> (string \<times> string) list \<Rightarrow> variables" where
  "with_vars vt vars = foldl (\<lambda>v (key, value). variables_insert key value v) (variables_new vt) vars"

definition with_separator :: "rchar \<Rightarrow> variables \<Rightarrow> originate_error + variables" where
  "with_separator sep v =
     bindR (check_separator sep (vars_type v)) (\<lambda>_.
       if list_ex (\<lambda>(key, _). contains_str sep key) (vars_inner v)
       then Inl (OriginateParseError (''a variable name contains the chosen '' @ QUOTE @ sep @ QUOTE @ '' separator''))
       else case find (\<lambda>(_, value). contains_str sep value) (vars_inner v) of
              Some (key, _) \<Rightarrow> Inl (OriginateParseError (''variable '' @ key @ '' contains the chosen '' @ QUOTE @ sep @ QUOTE @ '' separator''))
            | None \<Rightarrow> Inr (v\<lparr>vars_separator := Some sep\<rparr>))"

definition variables_remove :: "string \<Rightarrow> variables \<Rightarrow> string option \<times> variables" where
  "variables_remove key v = (map_of (vars_inner v) key, v\<lparr>vars_inner := AList.delete key (vars_inner v)\<rparr>)"

definition variables_get :: "string \<Rightarrow> variables \<Rightarrow> string option" where
  "variables_get key v = map_of (vars_inner v) key"

definition variables_is_empty :: "variables \<Rightarrow> bool" where
  "variables_is_empty v \<longleftrightarrow> vars_inner v = []"

definition set_scope :: "variables_type \<Rightarrow> variables \<Rightarrow> variables" where
  "set_scope scope v = v\<lparr>vars_type := scope\<rparr>"

text \<open>What loading a configuration does with the decoded scope, pairs and separator.\<close>

fun check_pairs :: "variables_type \<Rightarrow> string list \<Rightarrow> (string \<times> string) list \<Rightarrow> originate_error + unit" where
  "check_pairs vt earlier [] = Inr ()"
| "check_pairs vt earlier ((key, value) # rest) =
     bindR (check_representable key value vt) (\<lambda>_.
     bindR (check_case_collision earlier key (length earlier)) (\<lambda>_.
       check_pairs vt (earlier @ [key]) rest))"

definition variables_deserialize ::
  "variables_type \<Rightarrow> (string \<times> string) list \<Rightarrow> rchar option \<Rightarrow> originate_error + variables" where
  "variables_deserialize vt inner_vars separator =
     bindR (check_pairs vt [] inner_vars) (\<lambda>_.
       let vars = \<lparr>vars_type = vt, vars_inner = inner_vars, vars_separator = None\<rparr>
       in case separator of Some sep \<Rightarrow> with_separator sep vars | None \<Rightarrow> Inr vars)"

section \<open>Rendering\<close>

definition variables_write_for :: "variables \<Rightarrow> dial_target \<Rightarrow> string" where
  "variables_write_for v target =
     (let (opn, cls) = delimiters (vars_type v);
          commas_separate = (case vars_separator v of None \<Rightarrow> True | Some sep \<Rightarrow> sep = '','');
          sep = unwrap_or '','' (vars_separator v);
          written = map (\<lambda>(key, value). escape_text key target (FieldKey (vars_type v) commas_separate) @ ''='' @
              escape_value value target commas_separate (vars_type v)) (vars_inner v)
      in opn @ (case vars_separator v of Some sep \<Rightarrow> ''^^'' @ sep | None \<Rightarrow> []) @ join sep written @ cls)"

definition variables_display_for :: "variables \<Rightarrow> dial_target \<Rightarrow> string" where
  "variables_display_for v target = write_argument target (variables_write_for v)"

section \<open>Parsing\<close>

definition LONE_BLOCK_ENDPOINT :: string where
  "LONE_BLOCK_ENDPOINT = ''null/x''"

fun read_error :: "pipeline_error \<Rightarrow> originate_error" where
  "read_error PipelineEmpty = OriginateParseError ''no endpoint to dial''"
| "read_error ArgvSplit = OriginateParseError (''originate'' @ QUOTE @ ''s argument split cuts the dial string'')"
| "read_error (UnclosedBlock _) = OriginateParseError ''a variable block never closes''"
| "read_error SplitSeparatorUnreadable =
     OriginateParseError (''a split on a non-ASCII ^^ separator'' @ QUOTE @ ''s first byte reaches past its text'')"

definition read_leg :: "string \<Rightarrow> dial_target \<Rightarrow> originate_error + block option \<times> string" where
  "read_leg s target =
     bindR (map_errR read_error (pipeline_read s target)) (\<lambda>l.
       case dl_threads l of
         [thread] \<Rightarrow> (case thread_groups thread of
           [[leg]] \<Rightarrow> (case dl_blocks l @ thread_blocks thread @ leg_blocks leg of
               [] \<Rightarrow> Inr (None, leg_endpoint leg)
             | [blk] \<Rightarrow> Inr (Some blk, leg_endpoint leg)
             | _ \<Rightarrow> Inl (OriginateParseError ''an endpoint carries one variable block''))
         | _ \<Rightarrow> Inl (OriginateParseError ''the switch reads more than one leg''))
       | _ \<Rightarrow> Inl (OriginateParseError ''the switch reads more than one leg''))"

text \<open>The pairs of a block from number \<open>i\<close> on, inserted one by one.\<close>

fun from_pairs :: "variables_type \<Rightarrow> rchar \<Rightarrow> nat \<Rightarrow> pair list \<Rightarrow> (string \<times> string) list \<Rightarrow> originate_error + (string \<times> string) list" where
  "from_pairs vt sep i [] vs = Inr vs"
| "from_pairs vt sep i (p # ps) vs =
     bindR (case pair_effect p of
              PairSet value \<Rightarrow> Inr value
            | PairCleared \<Rightarrow> Inr []
            | PairValueless \<Rightarrow> Inr []
            | PairIgnored \<Rightarrow> Inl (OriginateParseError (''missing = in variable '' @ dec i))
            | PairUnreadable \<Rightarrow> Inl (OriginateParseError (''variable '' @ dec i @ '' opens a non-ASCII ^^ separator the switch splits by byte''))) (\<lambda>value.
     bindR (check_representable (pair_key p) value vt) (\<lambda>_.
     bindR (check_case_collision (map fst vs) (pair_key p) i) (\<lambda>_.
       if sep \<noteq> '','' \<and> (contains_str sep (pair_key p) \<or> contains_str sep value)
       then Inl (OriginateParseError (''variable '' @ dec i @ '' contains the block'' @ QUOTE @ ''s ^^ separator''))
       else from_pairs vt sep (i + 1) ps (AList.update (pair_key p) value vs))))"

definition from_block :: "block \<Rightarrow> originate_error + variables" where
  "from_block b =
     (let vt = of_block b
      in bindR (if block_separator b \<noteq> '','' then check_separator (block_separator b) vt else Inr ()) (\<lambda>_.
           if block_rewrites_following_text b
           then Inl (OriginateParseError (''the block'' @ QUOTE @ ''s parse rewrites the text after it''))
           else mapR (\<lambda>vs. \<lparr>vars_type = vt, vars_inner = vs, vars_separator = None\<rparr>)
                  (from_pairs vt (block_separator b) 0 (block_pairs b) [])))"

definition installed_variables :: "block option \<Rightarrow> originate_error + variables option" where
  "installed_variables blk =
     (case blk of
        None \<Rightarrow> Inr None
      | Some b \<Rightarrow> mapR (\<lambda>v. if variables_is_empty v then None else Some v) (from_block b))"

text \<open>\<open>{:?}\<close> of a byte read as a character.\<close>

definition hex_digit_of :: "nat \<Rightarrow> char" where
  "hex_digit_of n = (if n < 10 then char_of (48 + n) else char_of (87 + n))"

definition debug_byte :: "char \<Rightarrow> string" where
  "debug_byte b =
     (let n = (of_char b :: nat);
          hex = (if n < 16 then [hex_digit_of n] else [hex_digit_of (n div 16), hex_digit_of (n mod 16)]);
          body = (if n = 0 then BACKSLASH @ ''0''
                  else if n = 9 then BACKSLASH @ ''t'' else if n = 10 then BACKSLASH @ ''n'' else if n = 13 then BACKSLASH @ ''r''
                  else if n = 39 \<or> n = 92 then BACKSLASH @ [b]
                  else if n < 32 \<or> (127 \<le> n \<and> n \<le> 160) \<or> n = 173 then BACKSLASH @ ''u{'' @ hex @ ''}''
                  else if n < 127 then [b]
                  else [char_of (192 + n div 64), char_of (128 + n mod 64)])
      in QUOTE @ body @ QUOTE)"

definition variables_parse_for :: "string \<Rightarrow> dial_target \<Rightarrow> originate_error + variables" where
  "variables_parse_for s target =
     bindR (read_argument target s) (\<lambda>(argument, target).
       let s = trim_matches (\<lambda>c. c = SP) argument
       in if length s < 2 then Inl (OriginateParseError ''variable block too short'')
          else if (hd s, last s) \<notin> {(CHR ''{'', CHR ''}''), (CHR ''<'', CHR ''>''), (CHR ''['', CHR '']'')}
          then Inl (OriginateParseError (''unknown variable delimiters: '' @ debug_byte (hd s) @ ''..'' @ debug_byte (last s)))
          else bindR (read_leg (s @ LONE_BLOCK_ENDPOINT) target) (\<lambda>r.
                 case r of
                   (Some blk, endpoint) \<Rightarrow>
                     if endpoint = LONE_BLOCK_ENDPOINT then from_block blk
                     else Inl (OriginateParseError ''the switch ends the block before its last bracket'')
                 | _ \<Rightarrow> Inl (OriginateParseError ''the switch ends the block before its last bracket'')))"

section \<open>What a checked block holds\<close>

text \<open>Pairs the switch installs as they are: each representable in its scope, and no two names the same header.\<close>

definition pairs_ok :: "variables_type \<Rightarrow> (string \<times> string) list \<Rightarrow> bool" where
  "pairs_ok vt kvs \<longleftrightarrow> distinct (map fst kvs) \<and> list_all (\<lambda>(key, value). check_representable key value vt = Inr ()) kvs
     \<and> list_all (\<lambda>a. list_all (\<lambda>b. same_header a b \<longrightarrow> a = b) (map fst kvs)) (map fst kvs)"

definition variables_ok :: "variables \<Rightarrow> bool" where
  "variables_ok v \<longleftrightarrow> pairs_ok (vars_type v) (vars_inner v)
     \<and> (case vars_separator v of
          None \<Rightarrow> True
        | Some sep \<Rightarrow> check_separator sep (vars_type v) = Inr ()
            \<and> list_all (\<lambda>(key, value). \<not> contains_str sep key \<and> \<not> contains_str sep value) (vars_inner v))"

lemma same_header_sym: "same_header a b \<longleftrightarrow> same_header b a"
  by (auto simp: same_header_def eq_ignore_ascii_case_def)

lemma update_pairs:
  assumes "(a, b) \<in> set (AList.update k v al)" shows "(a, b) \<in> set al \<or> (a = k \<and> b = v)"
  using assms by (induction al) (auto split: if_splits)

lemma fst_update: "fst ` set (AList.update k v al) = insert k (fst ` set al)"
  by (induction al) auto

lemma pairs_ok_insert:
  assumes "pairs_ok vt kvs" and "check_representable k v vt = Inr ()" and "check_case_collision (map fst kvs) k i = Inr ()"
  shows "pairs_ok vt (AList.update k v kvs)"
proof -
  have "\<forall>a \<in> fst ` set kvs. same_header a k \<longrightarrow> a = k"
    using assms(3) by (auto simp: check_case_collision_def list_ex_iff split: if_splits)
  then have "\<forall>a \<in> fst ` set (AList.update k v kvs). \<forall>b \<in> fst ` set (AList.update k v kvs). same_header a b \<longrightarrow> a = b"
    using assms(1) same_header_sym unfolding fst_update pairs_ok_def list_all_iff by fastforce
  moreover have "list_all (\<lambda>(key, value). check_representable key value vt = Inr ()) (AList.update k v kvs)"
    using assms(1,2) update_pairs unfolding pairs_ok_def list_all_iff by fastforce
  moreover have "distinct (map fst (AList.update k v kvs))" using assms(1) by (simp add: pairs_ok_def distinct_update)
  ultimately show ?thesis by (simp add: pairs_ok_def list_all_iff)
qed

lemma from_pairs_ok: "from_pairs vt sep i ps kvs = Inr kvs' \<Longrightarrow> pairs_ok vt kvs \<Longrightarrow> pairs_ok vt kvs'"
proof (induction vt sep i ps kvs rule: from_pairs.induct)
  case (2 vt sep i p ps kvs)
  from "2.prems"(1) obtain x where v: "check_representable (pair_key p) x vt = Inr ()"
    "check_case_collision (map fst kvs) (pair_key p) i = Inr ()"
    "from_pairs vt sep (i + 1) ps (AList.update (pair_key p) x kvs) = Inr kvs'"
    "\<not> (sep \<noteq> '','' \<and> (contains_str sep (pair_key p) \<or> contains_str sep x))"
    by (auto simp: bindR_eq_Inr split: if_splits)
  from "2.IH" [OF v(4,3) pairs_ok_insert [OF "2.prems"(2) v(1,2)]] show ?case .
qed simp

lemma check_pairs_ok:
  assumes "check_pairs vt earlier kvs = Inr ()" and "distinct (earlier @ map fst kvs)"
  shows "list_all (\<lambda>(key, value). check_representable key value vt = Inr ()) kvs"
    "\<forall>a \<in> fst ` set kvs. \<forall>b \<in> set earlier \<union> fst ` set kvs. same_header a b \<longrightarrow> a = b"
proof -
  have "list_all (\<lambda>(key, value). check_representable key value vt = Inr ()) kvs \<and>
    (\<forall>a \<in> fst ` set kvs. \<forall>b \<in> set earlier \<union> fst ` set kvs. same_header a b \<longrightarrow> a = b)"
    using assms
  proof (induction vt earlier kvs rule: check_pairs.induct)
    case (2 vt earlier key x rest)
    then have r: "check_representable key x vt = Inr ()" "check_case_collision earlier key (length earlier) = Inr ()"
      "check_pairs vt (earlier @ [key]) rest = Inr ()" by (auto simp: bindR_eq_Inr)
    have c: "\<forall>a \<in> set earlier. same_header a key \<longrightarrow> a = key"
      using r(2) by (auto simp: check_case_collision_def list_ex_iff split: if_splits)
    from "2.IH" [OF r(3)] "2.prems"(2)
    have IH: "list_all (\<lambda>(key, value). check_representable key value vt = Inr ()) rest"
      "\<forall>a \<in> fst ` set rest. \<forall>b \<in> insert key (set earlier) \<union> fst ` set rest. same_header a b \<longrightarrow> a = b" by auto
    then have "same_header key b \<longrightarrow> key = b" if "b \<in> set earlier \<union> insert key (fst ` set rest)" for b
      using that c same_header_sym [of key b] by blast
    with IH r(1) show ?case by auto
  qed simp
  then show "list_all (\<lambda>(key, value). check_representable key value vt = Inr ()) kvs"
    "\<forall>a \<in> fst ` set kvs. \<forall>b \<in> set earlier \<union> fst ` set kvs. same_header a b \<longrightarrow> a = b" by auto
qed

lemma variables_ok_subset:
  assumes "variables_ok v" and "set kvs \<subseteq> set (vars_inner v)" and "distinct (map fst kvs)"
  shows "variables_ok (v\<lparr>vars_inner := kvs\<rparr>)"
proof -
  have "list_all P kvs" if "list_all P (vars_inner v)" for P using that assms(2) by (auto simp: list_all_iff)
  moreover have "\<forall>a \<in> fst ` set kvs. \<forall>b \<in> fst ` set kvs. same_header a b \<longrightarrow> a = b"
    using assms(1,2) unfolding variables_ok_def pairs_ok_def list_all_iff set_map by blast
  ultimately show ?thesis using assms(1,3) by (cases "vars_separator v") (simp_all add: variables_ok_def pairs_ok_def list_all_iff [of _ "map fst _"])
qed

lemma with_separator_ok:
  assumes "with_separator sep v = Inr v'" and "pairs_ok (vars_type v) (vars_inner v)"
  shows "variables_ok v' \<and> vars_inner v' = vars_inner v \<and> vars_type v' = vars_type v"
proof -
  have "check_separator sep (vars_type v) = Inr ()" "v' = v\<lparr>vars_separator := Some sep\<rparr>"
    "\<not> list_ex (\<lambda>(key, _). contains_str sep key) (vars_inner v)" "find (\<lambda>(_, value). contains_str sep value) (vars_inner v) = None"
    using assms(1) by (auto simp: with_separator_def bindR_eq_Inr split: if_splits option.splits)
  then show ?thesis using assms(2)
    by (auto simp: variables_ok_def list_all_iff list_ex_iff find_None_iff)
qed

section \<open>Properties\<close>



end
