(* ===== verification/Channel_Types.thy ===== *)
theory Channel_Types
  imports Rust_Text Event
begin

text \<open>
  Channel data of \<open>types channel.rs\<close>: the enumerations that \<open>wire_enum!\<close> (\<open>macros.rs\<close>) generates for channel, call and answer
  states, directions and hangup causes, the mapping of SIP response codes, and the timetable of a channel.
  The functions of the macro are stated once over the list of variants; the locale \<open>wire_enum\<close> is their contract.
\<close>

section \<open>The functions of \<open>wire_enum!\<close>\<close>

definition wire_from_str :: "'a list \<Rightarrow> ('a \<Rightarrow> string) \<Rightarrow> string \<Rightarrow> string + 'a" where
  "wire_from_str all_values as_str s = ok_or s (find (\<lambda>v. as_str v = s) all_values)"

definition wire_from_number :: "'a list \<Rightarrow> ('a \<Rightarrow> nat) \<Rightarrow> nat \<Rightarrow> 'a option" where
  "wire_from_number all_values as_number n = find (\<lambda>v. as_number v = n) all_values"

locale wire_enum =
  fixes all_values :: "'a list" and as_str :: "'a \<Rightarrow> string"
  assumes complete: "set all_values = UNIV"
    and names_distinct: "distinct (map as_str all_values)"
begin

lemma as_str_inj: "as_str v = as_str w \<longleftrightarrow> v = w"
  using names_distinct complete by (auto simp: distinct_map inj_on_def)

lemma from_str_as_str: "wire_from_str all_values as_str (as_str v) = Inr v"
proof -
  have "v \<in> set all_values" using complete by simp
  then have "\<exists>w. find (\<lambda>w. as_str w = as_str v) all_values = Some w"
    by (cases "find (\<lambda>w. as_str w = as_str v) all_values") (auto simp: find_None_iff)
  then obtain w where w: "find (\<lambda>w. as_str w = as_str v) all_values = Some w" ..
  then have "as_str w = as_str v" by (auto simp: find_Some_iff)
  with w show ?thesis by (simp add: wire_from_str_def as_str_inj)
qed

lemma from_str_iff: "wire_from_str all_values as_str s = Inr v \<longleftrightarrow> s = as_str v"
proof
  assume "wire_from_str all_values as_str s = Inr v"
  then show "s = as_str v" by (auto simp: wire_from_str_def find_Some_iff)
qed (simp add: from_str_as_str)

end

locale numbered_wire_enum = wire_enum all_values as_str
  for all_values :: "'a list" and as_str +
  fixes as_number :: "'a \<Rightarrow> nat"
  assumes numbers_distinct: "distinct (map as_number all_values)"
begin

lemma from_number_iff: "wire_from_number all_values as_number n = Some v \<longleftrightarrow> n = as_number v"
proof
  assume "n = as_number v"
  moreover have "v \<in> set all_values" using complete by simp
  ultimately have "\<exists>w. find (\<lambda>w. as_number w = n) all_values = Some w"
    by (cases "find (\<lambda>w. as_number w = n) all_values") (auto simp: find_None_iff)
  then obtain w where w: "find (\<lambda>w. as_number w = n) all_values = Some w" ..
  then have "as_number w = as_number v" using \<open>n = as_number v\<close> by (auto simp: find_Some_iff)
  then have "w = v" using numbers_distinct complete by (auto simp: distinct_map inj_on_def)
  with w show "wire_from_number all_values as_number n = Some v" by (simp add: wire_from_number_def)
qed (auto simp: wire_from_number_def find_Some_iff)

end

section \<open>Channel states\<close>

datatype channel_state =
  CsNew | CsInit | CsRouting | CsSoftExecute | CsExecute | CsExchangeMedia | CsPark | CsConsumeMedia
  | CsHibernate | CsReset | CsHangup | CsReporting | CsDestroy | CsNone

definition channel_states :: "channel_state list" where
  "channel_states =
     [CsNew, CsInit, CsRouting, CsSoftExecute, CsExecute, CsExchangeMedia, CsPark, CsConsumeMedia, CsHibernate,
      CsReset, CsHangup, CsReporting, CsDestroy, CsNone]"

fun channel_state_as_str :: "channel_state \<Rightarrow> string" where
  "channel_state_as_str CsNew = ''CS_NEW''"
| "channel_state_as_str CsInit = ''CS_INIT''"
| "channel_state_as_str CsRouting = ''CS_ROUTING''"
| "channel_state_as_str CsSoftExecute = ''CS_SOFT_EXECUTE''"
| "channel_state_as_str CsExecute = ''CS_EXECUTE''"
| "channel_state_as_str CsExchangeMedia = ''CS_EXCHANGE_MEDIA''"
| "channel_state_as_str CsPark = ''CS_PARK''"
| "channel_state_as_str CsConsumeMedia = ''CS_CONSUME_MEDIA''"
| "channel_state_as_str CsHibernate = ''CS_HIBERNATE''"
| "channel_state_as_str CsReset = ''CS_RESET''"
| "channel_state_as_str CsHangup = ''CS_HANGUP''"
| "channel_state_as_str CsReporting = ''CS_REPORTING''"
| "channel_state_as_str CsDestroy = ''CS_DESTROY''"
| "channel_state_as_str CsNone = ''CS_NONE''"

fun channel_state_as_number :: "channel_state \<Rightarrow> nat" where
  "channel_state_as_number CsNew = 0"
| "channel_state_as_number CsInit = 1"
| "channel_state_as_number CsRouting = 2"
| "channel_state_as_number CsSoftExecute = 3"
| "channel_state_as_number CsExecute = 4"
| "channel_state_as_number CsExchangeMedia = 5"
| "channel_state_as_number CsPark = 6"
| "channel_state_as_number CsConsumeMedia = 7"
| "channel_state_as_number CsHibernate = 8"
| "channel_state_as_number CsReset = 9"
| "channel_state_as_number CsHangup = 10"
| "channel_state_as_number CsReporting = 11"
| "channel_state_as_number CsDestroy = 12"
| "channel_state_as_number CsNone = 13"

definition is_terminal :: "channel_state \<Rightarrow> bool" where
  "is_terminal s \<longleftrightarrow> s = CsDestroy"

text \<open>The derived order of \<open>ChannelState\<close> is that of its discriminants.\<close>

instantiation channel_state :: linorder
begin

definition less_eq_channel_state :: "channel_state \<Rightarrow> channel_state \<Rightarrow> bool" where
  "s \<le> t \<longleftrightarrow> channel_state_as_number s \<le> channel_state_as_number t"

definition less_channel_state :: "channel_state \<Rightarrow> channel_state \<Rightarrow> bool" where
  "s < t \<longleftrightarrow> channel_state_as_number s < channel_state_as_number t"

instance
proof
  fix x y z :: channel_state
  show "x < y \<longleftrightarrow> x \<le> y \<and> \<not> y \<le> x" by (auto simp: less_eq_channel_state_def less_channel_state_def)
  show "x \<le> x" "x \<le> y \<or> y \<le> x" by (auto simp: less_eq_channel_state_def)
  show "x \<le> y \<Longrightarrow> y \<le> z \<Longrightarrow> x \<le> z" by (simp add: less_eq_channel_state_def)
  show "x = y" if "x \<le> y" "y \<le> x"
  proof -
    have "channel_state_as_number x = channel_state_as_number y" using that by (simp add: less_eq_channel_state_def)
    then show ?thesis by (cases x; cases y; simp)
  qed
qed

end

definition channel_driver :: "string \<Rightarrow> string option" where
  "channel_driver name =
     (case split_once (CHR ''/'') name of
        None \<Rightarrow> None
      | Some (driver, _) \<Rightarrow> if driver = [] then None else Some driver)"

section \<open>Call states\<close>

datatype call_state =
  CallDown | CallDialing | CallRinging | CallEarly | CallActive | CallHeld | CallRingWait | CallHangup
  | CallUnheld

definition call_states :: "call_state list" where
  "call_states =
     [CallDown, CallDialing, CallRinging, CallEarly, CallActive, CallHeld, CallRingWait, CallHangup, CallUnheld]"

fun call_state_as_str :: "call_state \<Rightarrow> string" where
  "call_state_as_str CallDown = ''DOWN''"
| "call_state_as_str CallDialing = ''DIALING''"
| "call_state_as_str CallRinging = ''RINGING''"
| "call_state_as_str CallEarly = ''EARLY''"
| "call_state_as_str CallActive = ''ACTIVE''"
| "call_state_as_str CallHeld = ''HELD''"
| "call_state_as_str CallRingWait = ''RING_WAIT''"
| "call_state_as_str CallHangup = ''HANGUP''"
| "call_state_as_str CallUnheld = ''UNHELD''"

section \<open>Answer states\<close>

datatype answer_state =
  AnswerHangup | AnswerAnswered | AnswerEarly | AnswerRinging

definition answer_states :: "answer_state list" where
  "answer_states =
     [AnswerHangup, AnswerAnswered, AnswerEarly, AnswerRinging]"

fun answer_state_as_str :: "answer_state \<Rightarrow> string" where
  "answer_state_as_str AnswerHangup = ''hangup''"
| "answer_state_as_str AnswerAnswered = ''answered''"
| "answer_state_as_str AnswerEarly = ''early''"
| "answer_state_as_str AnswerRinging = ''ringing''"

section \<open>Directions\<close>

datatype call_direction =
  Inbound | Outbound

definition call_directions :: "call_direction list" where
  "call_directions =
     [Inbound, Outbound]"

fun call_direction_as_str :: "call_direction \<Rightarrow> string" where
  "call_direction_as_str Inbound = ''inbound''"
| "call_direction_as_str Outbound = ''outbound''"

section \<open>Hangup causes\<close>

text \<open>
  The table of causes, with the variant, its number and its wire name per row; a value is identified by its wire
  name.
\<close>

datatype hangup_cause = HangupCause (hangup_cause_as_str: string)

definition hangup_causes :: "(string \<times> nat \<times> string) list" where
  "hangup_causes =
     [(''None'', 0, ''NONE''),
      (''UnallocatedNumber'', 1, ''UNALLOCATED_NUMBER''),
      (''NoRouteTransitNet'', 2, ''NO_ROUTE_TRANSIT_NET''),
      (''NoRouteDestination'', 3, ''NO_ROUTE_DESTINATION''),
      (''ChannelUnacceptable'', 6, ''CHANNEL_UNACCEPTABLE''),
      (''CallAwardedDelivered'', 7, ''CALL_AWARDED_DELIVERED''),
      (''NormalClearing'', 16, ''NORMAL_CLEARING''),
      (''UserBusy'', 17, ''USER_BUSY''),
      (''NoUserResponse'', 18, ''NO_USER_RESPONSE''),
      (''NoAnswer'', 19, ''NO_ANSWER''),
      (''SubscriberAbsent'', 20, ''SUBSCRIBER_ABSENT''),
      (''CallRejected'', 21, ''CALL_REJECTED''),
      (''NumberChanged'', 22, ''NUMBER_CHANGED''),
      (''RedirectionToNewDestination'', 23, ''REDIRECTION_TO_NEW_DESTINATION''),
      (''ExchangeRoutingError'', 25, ''EXCHANGE_ROUTING_ERROR''),
      (''DestinationOutOfOrder'', 27, ''DESTINATION_OUT_OF_ORDER''),
      (''InvalidNumberFormat'', 28, ''INVALID_NUMBER_FORMAT''),
      (''FacilityRejected'', 29, ''FACILITY_REJECTED''),
      (''ResponseToStatusEnquiry'', 30, ''RESPONSE_TO_STATUS_ENQUIRY''),
      (''NormalUnspecified'', 31, ''NORMAL_UNSPECIFIED''),
      (''NormalCircuitCongestion'', 34, ''NORMAL_CIRCUIT_CONGESTION''),
      (''NetworkOutOfOrder'', 38, ''NETWORK_OUT_OF_ORDER''),
      (''NormalTemporaryFailure'', 41, ''NORMAL_TEMPORARY_FAILURE''),
      (''SwitchCongestion'', 42, ''SWITCH_CONGESTION''),
      (''AccessInfoDiscarded'', 43, ''ACCESS_INFO_DISCARDED''),
      (''RequestedChanUnavail'', 44, ''REQUESTED_CHAN_UNAVAIL''),
      (''PreEmpted'', 45, ''PRE_EMPTED''),
      (''FacilityNotSubscribed'', 50, ''FACILITY_NOT_SUBSCRIBED''),
      (''OutgoingCallBarred'', 52, ''OUTGOING_CALL_BARRED''),
      (''IncomingCallBarred'', 54, ''INCOMING_CALL_BARRED''),
      (''BearercapabilityNotauth'', 57, ''BEARERCAPABILITY_NOTAUTH''),
      (''BearercapabilityNotavail'', 58, ''BEARERCAPABILITY_NOTAVAIL''),
      (''ServiceUnavailable'', 63, ''SERVICE_UNAVAILABLE''),
      (''BearercapabilityNotimpl'', 65, ''BEARERCAPABILITY_NOTIMPL''),
      (''ChanNotImplemented'', 66, ''CHAN_NOT_IMPLEMENTED''),
      (''FacilityNotImplemented'', 69, ''FACILITY_NOT_IMPLEMENTED''),
      (''ServiceNotImplemented'', 79, ''SERVICE_NOT_IMPLEMENTED''),
      (''InvalidCallReference'', 81, ''INVALID_CALL_REFERENCE''),
      (''IncompatibleDestination'', 88, ''INCOMPATIBLE_DESTINATION''),
      (''InvalidMsgUnspecified'', 95, ''INVALID_MSG_UNSPECIFIED''),
      (''MandatoryIeMissing'', 96, ''MANDATORY_IE_MISSING''),
      (''MessageTypeNonexist'', 97, ''MESSAGE_TYPE_NONEXIST''),
      (''WrongMessage'', 98, ''WRONG_MESSAGE''),
      (''IeNonexist'', 99, ''IE_NONEXIST''),
      (''InvalidIeContents'', 100, ''INVALID_IE_CONTENTS''),
      (''WrongCallState'', 101, ''WRONG_CALL_STATE''),
      (''RecoveryOnTimerExpire'', 102, ''RECOVERY_ON_TIMER_EXPIRE''),
      (''MandatoryIeLengthError'', 103, ''MANDATORY_IE_LENGTH_ERROR''),
      (''ProtocolError'', 111, ''PROTOCOL_ERROR''),
      (''Interworking'', 127, ''INTERWORKING''),
      (''Success'', 142, ''SUCCESS''),
      (''OriginatorCancel'', 487, ''ORIGINATOR_CANCEL''),
      (''Crash'', 700, ''CRASH''),
      (''SystemShutdown'', 701, ''SYSTEM_SHUTDOWN''),
      (''LoseRace'', 702, ''LOSE_RACE''),
      (''ManagerRequest'', 703, ''MANAGER_REQUEST''),
      (''BlindTransfer'', 800, ''BLIND_TRANSFER''),
      (''AttendedTransfer'', 801, ''ATTENDED_TRANSFER''),
      (''AllottedTimeout'', 802, ''ALLOTTED_TIMEOUT''),
      (''UserChallenge'', 803, ''USER_CHALLENGE''),
      (''MediaTimeout'', 804, ''MEDIA_TIMEOUT''),
      (''PickedOff'', 805, ''PICKED_OFF''),
      (''UserNotRegistered'', 806, ''USER_NOT_REGISTERED''),
      (''ProgressTimeout'', 807, ''PROGRESS_TIMEOUT''),
      (''InvalidGateway'', 808, ''INVALID_GATEWAY''),
      (''GatewayDown'', 809, ''GATEWAY_DOWN''),
      (''InvalidUrl'', 810, ''INVALID_URL''),
      (''InvalidProfile'', 811, ''INVALID_PROFILE''),
      (''NoPickup'', 812, ''NO_PICKUP''),
      (''SrtpReadError'', 813, ''SRTP_READ_ERROR''),
      (''Bowout'', 814, ''BOWOUT''),
      (''BusyEverywhere'', 815, ''BUSY_EVERYWHERE''),
      (''Decline'', 816, ''DECLINE''),
      (''DoesNotExistAnywhere'', 817, ''DOES_NOT_EXIST_ANYWHERE''),
      (''NotAcceptable'', 818, ''NOT_ACCEPTABLE''),
      (''Unwanted'', 819, ''UNWANTED''),
      (''NoIdentity'', 820, ''NO_IDENTITY''),
      (''BadIdentityInfo'', 821, ''BAD_IDENTITY_INFO''),
      (''UnsupportedCertificate'', 822, ''UNSUPPORTED_CERTIFICATE''),
      (''InvalidIdentity'', 823, ''INVALID_IDENTITY''),
      (''StaleDate'', 824, ''STALE_DATE''),
      (''RejectAll'', 825, ''REJECT_ALL'')]"

definition hangup_cause_from_str :: "string \<Rightarrow> string + hangup_cause" where
  "hangup_cause_from_str s =
     ok_or s (map_option (\<lambda>(_, _, name). HangupCause name) (find (\<lambda>(_, _, name). name = s) hangup_causes))"

definition hangup_cause_as_number :: "hangup_cause \<Rightarrow> nat" where
  "hangup_cause_as_number c =
     (case find (\<lambda>(_, _, name). name = hangup_cause_as_str c) hangup_causes of Some (_, n, _) \<Rightarrow> n | None \<Rightarrow> 0)"

definition hangup_cause_from_number :: "nat \<Rightarrow> hangup_cause option" where
  "hangup_cause_from_number n =
     map_option (\<lambda>(_, _, name). HangupCause name) (find (\<lambda>(_, m, _). m = n) hangup_causes)"

text \<open>The values of the enumeration.\<close>

definition hangup_cause_wf :: "hangup_cause \<Rightarrow> bool" where
  "hangup_cause_wf c \<longleftrightarrow> hangup_cause_as_str c \<in> set (map (snd \<circ> snd) hangup_causes)"

definition from_sip_response :: "nat \<Rightarrow> hangup_cause option" where
  "from_sip_response code =
     (if code = 200 then Some (HangupCause ''NORMAL_CLEARING'')
      else if code \<in> {401, 402, 403, 407, 603, 608} then Some (HangupCause ''CALL_REJECTED'')
      else if code = 607 then Some (HangupCause ''UNWANTED'')
      else if code = 404 then Some (HangupCause ''UNALLOCATED_NUMBER'')
      else if code \<in> {485, 604} then Some (HangupCause ''NO_ROUTE_DESTINATION'')
      else if code \<in> {408, 504} then Some (HangupCause ''RECOVERY_ON_TIMER_EXPIRE'')
      else if code = 410 then Some (HangupCause ''NUMBER_CHANGED'')
      else if code \<in> {413, 414, 416, 420, 421, 423, 505, 513} then Some (HangupCause ''INTERWORKING'')
      else if code = 480 then Some (HangupCause ''NO_USER_RESPONSE'')
      else if code \<in> {400, 481, 500, 503} then Some (HangupCause ''NORMAL_TEMPORARY_FAILURE'')
      else if code \<in> {486, 600} then Some (HangupCause ''USER_BUSY'')
      else if code = 484 then Some (HangupCause ''INVALID_NUMBER_FORMAT'')
      else if code \<in> {488, 606} then Some (HangupCause ''INCOMPATIBLE_DESTINATION'')
      else if code = 502 then Some (HangupCause ''NETWORK_OUT_OF_ORDER'')
      else if code = 405 then Some (HangupCause ''SERVICE_UNAVAILABLE'')
      else if code \<in> {406, 415, 501} then Some (HangupCause ''SERVICE_NOT_IMPLEMENTED'')
      else if code \<in> {482, 483} then Some (HangupCause ''EXCHANGE_ROUTING_ERROR'')
      else if code = 487 then Some (HangupCause ''ORIGINATOR_CANCEL'')
      else if code = 428 then Some (HangupCause ''NO_IDENTITY'')
      else if code = 429 then Some (HangupCause ''BAD_IDENTITY_INFO'')
      else if code = 437 then Some (HangupCause ''UNSUPPORTED_CERTIFICATE'')
      else if code = 438 then Some (HangupCause ''INVALID_IDENTITY'')
      else None)"

section \<open>Timetables\<close>

text \<open>\<open>str::parse::<i64>()\<close>: an optional sign, at least one digit, within 64 bits.\<close>

definition parse_i64 :: "string \<Rightarrow> int option" where
  "parse_i64 s =
     (let (neg, ds) = (case s of c # rest \<Rightarrow> if c = CHR ''-'' then (True, rest) else if c = CHR ''+'' then (False, rest) else (False, s)
                       | [] \<Rightarrow> (False, s));
          v = (if neg then - int (digits_val ds) else int (digits_val ds))
      in if ds \<noteq> [] \<and> list_all is_digit ds \<and> - (2 ^ 63) \<le> v \<and> v < 2 ^ 63 then Some v else None)"

datatype timetable_prefix =
  PrefixCaller | PrefixOtherLeg | PrefixChannel | PrefixHunt | PrefixOriginator | PrefixOriginatee
| PrefixPostOriginator | PrefixPostOriginatee

fun timetable_prefix_as_str :: "timetable_prefix \<Rightarrow> string" where
  "timetable_prefix_as_str PrefixCaller = ''Caller''"
| "timetable_prefix_as_str PrefixOtherLeg = ''Other-Leg''"
| "timetable_prefix_as_str PrefixChannel = ''Channel''"
| "timetable_prefix_as_str PrefixHunt = ''Hunt''"
| "timetable_prefix_as_str PrefixOriginator = ''ORIGINATOR''"
| "timetable_prefix_as_str PrefixOriginatee = ''ORIGINATEE''"
| "timetable_prefix_as_str PrefixPostOriginator = ''POST-ORIGINATOR''"
| "timetable_prefix_as_str PrefixPostOriginatee = ''POST-ORIGINATEE''"

datatype timetable_field =
  FieldProfileCreated | FieldCreated | FieldAnswered | FieldProgress | FieldProgressMedia | FieldHungup
| FieldTransferred | FieldResurrected | FieldBridged | FieldLastHold | FieldHoldAccum

definition timetable_fields :: "timetable_field list" where
  "timetable_fields =
     [FieldProfileCreated, FieldCreated, FieldAnswered, FieldProgress, FieldProgressMedia, FieldHungup,
      FieldTransferred, FieldResurrected, FieldBridged, FieldLastHold, FieldHoldAccum]"

fun timetable_field_as_str :: "timetable_field \<Rightarrow> string" where
  "timetable_field_as_str FieldProfileCreated = ''Profile-Created-Time''"
| "timetable_field_as_str FieldCreated = ''Channel-Created-Time''"
| "timetable_field_as_str FieldAnswered = ''Channel-Answered-Time''"
| "timetable_field_as_str FieldProgress = ''Channel-Progress-Time''"
| "timetable_field_as_str FieldProgressMedia = ''Channel-Progress-Media-Time''"
| "timetable_field_as_str FieldHungup = ''Channel-Hangup-Time''"
| "timetable_field_as_str FieldTransferred = ''Channel-Transfer-Time''"
| "timetable_field_as_str FieldResurrected = ''Channel-Resurrect-Time''"
| "timetable_field_as_str FieldBridged = ''Channel-Bridged-Time''"
| "timetable_field_as_str FieldLastHold = ''Channel-Last-Hold''"
| "timetable_field_as_str FieldHoldAccum = ''Channel-Hold-Accum''"

record channel_timetable =
  tt_profile_created :: "int option"
  tt_created :: "int option"
  tt_answered :: "int option"
  tt_progress :: "int option"
  tt_progress_media :: "int option"
  tt_hungup :: "int option"
  tt_transferred :: "int option"
  tt_resurrected :: "int option"
  tt_bridged :: "int option"
  tt_last_hold :: "int option"
  tt_hold_accum :: "int option"

fun tt_get :: "timetable_field \<Rightarrow> channel_timetable \<Rightarrow> int option" where
  "tt_get FieldProfileCreated t = tt_profile_created t"
| "tt_get FieldCreated t = tt_created t"
| "tt_get FieldAnswered t = tt_answered t"
| "tt_get FieldProgress t = tt_progress t"
| "tt_get FieldProgressMedia t = tt_progress_media t"
| "tt_get FieldHungup t = tt_hungup t"
| "tt_get FieldTransferred t = tt_transferred t"
| "tt_get FieldResurrected t = tt_resurrected t"
| "tt_get FieldBridged t = tt_bridged t"
| "tt_get FieldLastHold t = tt_last_hold t"
| "tt_get FieldHoldAccum t = tt_hold_accum t"

fun tt_set :: "timetable_field \<Rightarrow> int \<Rightarrow> channel_timetable \<Rightarrow> channel_timetable" where
  "tt_set FieldProfileCreated n t = t\<lparr>tt_profile_created := Some n\<rparr>"
| "tt_set FieldCreated n t = t\<lparr>tt_created := Some n\<rparr>"
| "tt_set FieldAnswered n t = t\<lparr>tt_answered := Some n\<rparr>"
| "tt_set FieldProgress n t = t\<lparr>tt_progress := Some n\<rparr>"
| "tt_set FieldProgressMedia n t = t\<lparr>tt_progress_media := Some n\<rparr>"
| "tt_set FieldHungup n t = t\<lparr>tt_hungup := Some n\<rparr>"
| "tt_set FieldTransferred n t = t\<lparr>tt_transferred := Some n\<rparr>"
| "tt_set FieldResurrected n t = t\<lparr>tt_resurrected := Some n\<rparr>"
| "tt_set FieldBridged n t = t\<lparr>tt_bridged := Some n\<rparr>"
| "tt_set FieldLastHold n t = t\<lparr>tt_last_hold := Some n\<rparr>"
| "tt_set FieldHoldAccum n t = t\<lparr>tt_hold_accum := Some n\<rparr>"

definition timetable_default :: channel_timetable where
  "timetable_default = \<lparr>tt_profile_created = None, tt_created = None, tt_answered = None, tt_progress = None, tt_progress_media = None, tt_hungup = None, tt_transferred = None, tt_resurrected = None, tt_bridged = None, tt_last_hold = None, tt_hold_accum = None\<rparr>"

definition timetable_header_name :: "timetable_field \<Rightarrow> string \<Rightarrow> string" where
  "timetable_header_name field pre = pre @ ''-'' @ timetable_field_as_str field"

record timetable_error =
  tte_header :: string
  tte_value :: string

definition timetable_step :: "string \<Rightarrow> (string \<Rightarrow> string option) \<Rightarrow> channel_timetable \<times> bool \<Rightarrow> timetable_field
    \<Rightarrow> timetable_error + channel_timetable \<times> bool" where
  "timetable_step pre lookup st field =
     (let header = timetable_header_name field pre
      in case lookup header of
           None \<Rightarrow> Inr st
         | Some raw \<Rightarrow> (case parse_i64 raw of
             None \<Rightarrow> Inl \<lparr>tte_header = header, tte_value = raw\<rparr>
           | Some v \<Rightarrow> Inr (tt_set field v (fst st), True)))"

definition timetable_from_lookup :: "string \<Rightarrow> (string \<Rightarrow> string option) \<Rightarrow> timetable_error + channel_timetable option" where
  "timetable_from_lookup pre lookup =
     mapR (\<lambda>(tt, found). if found then Some tt else None)
       (foldR (timetable_step pre lookup) (timetable_default, False) timetable_fields)"

section \<open>The enumerations meet the contract\<close>

interpretation channel_state: numbered_wire_enum channel_states channel_state_as_str channel_state_as_number
proof unfold_locales
  show "set channel_states = UNIV"
  proof -
    have "s \<in> set channel_states" for s by (cases s) (simp_all add: channel_states_def)
    then show ?thesis by auto
  qed
  show "distinct (map channel_state_as_str channel_states)" "distinct (map channel_state_as_number channel_states)" by code_simp+
qed

interpretation call_state: wire_enum call_states call_state_as_str
proof unfold_locales
  have "s \<in> set call_states" for s by (cases s) (simp_all add: call_states_def)
  then show "set call_states = UNIV" by auto
  show "distinct (map call_state_as_str call_states)" by code_simp
qed

interpretation answer_state: wire_enum answer_states answer_state_as_str
proof unfold_locales
  have "s \<in> set answer_states" for s by (cases s) (simp_all add: answer_states_def)
  then show "set answer_states = UNIV" by auto
  show "distinct (map answer_state_as_str answer_states)" by code_simp
qed

interpretation call_direction: wire_enum call_directions call_direction_as_str
proof unfold_locales
  have "s \<in> set call_directions" for s by (cases s) (simp_all add: call_directions_def)
  then show "set call_directions = UNIV" by auto
  show "distinct (map call_direction_as_str call_directions)" by code_simp
qed

section \<open>Hangup causes and timetables\<close>

lemma hangup_numbers_distinct: "distinct (map (fst \<circ> snd) hangup_causes)"
  by code_simp

lemma hangup_names_distinct: "distinct (map (snd \<circ> snd) hangup_causes)"
  by code_simp

lemma find_key:
  assumes "distinct (map f xs)" and "x \<in> set xs"
  shows "find (\<lambda>y. f y = f x) xs = Some x"
  using assms by (induction xs) (auto simp: image_iff)

lemma hangup_cause_row:
  assumes "hangup_cause_wf c"
  obtains v n where "(v, n, hangup_cause_as_str c) \<in> set hangup_causes"
    "hangup_cause_from_str (hangup_cause_as_str c) = Inr c" "hangup_cause_as_number c = n" "hangup_cause_from_number n = Some c"
proof -
  obtain v n where row: "(v, n, hangup_cause_as_str c) \<in> set hangup_causes"
    using assms by (auto simp: hangup_cause_wf_def)
  have "find (\<lambda>(_, _, name). name = hangup_cause_as_str c) hangup_causes = Some (v, n, hangup_cause_as_str c)"
    using find_key [OF hangup_names_distinct row] by (simp add: split_def)
  moreover have "find (\<lambda>(_, m, _). m = n) hangup_causes = Some (v, n, hangup_cause_as_str c)"
    using find_key [OF hangup_numbers_distinct row] by (simp add: split_def)
  ultimately show thesis
    using that [OF row] by (simp add: hangup_cause_from_str_def hangup_cause_as_number_def hangup_cause_from_number_def)
qed

lemma hangup_cause_parsed: "hangup_cause_from_str s = Inr c \<Longrightarrow> hangup_cause_wf c \<and> hangup_cause_as_str c = s"
  by (auto simp: hangup_cause_from_str_def hangup_cause_wf_def find_Some_iff) (metis nth_mem image_eqI comp_apply snd_conv)


section \<open>Properties\<close>

text \<open>
  The wire forms of the channel enumerations are faithful. Each state, direction and hangup cause is
  the only value its wire name parses to, and each channel state and hangup cause the only value of
  its number; a channel state is terminal exactly when it is the destroyed one, which sorts below the
  sentinel \<open>CS_NONE\<close> alone.
\<close>

lemma channel_enums_faithful:
  "(wire_from_str channel_states channel_state_as_str s = Inr st \<longleftrightarrow> s = channel_state_as_str st)
   \<and> (wire_from_number channel_states channel_state_as_number n = Some st \<longleftrightarrow> n = channel_state_as_number st)
   \<and> (wire_from_str call_states call_state_as_str s = Inr cst \<longleftrightarrow> s = call_state_as_str cst)
   \<and> (wire_from_str answer_states answer_state_as_str s = Inr ans \<longleftrightarrow> s = answer_state_as_str ans)
   \<and> (wire_from_str call_directions call_direction_as_str s = Inr dir \<longleftrightarrow> s = call_direction_as_str dir)
   \<and> (hangup_cause_from_str s = Inr hc \<longleftrightarrow> hangup_cause_wf hc \<and> s = hangup_cause_as_str hc)
   \<and> (hangup_cause_from_number n = Some hc \<longleftrightarrow> hangup_cause_wf hc \<and> n = hangup_cause_as_number hc)
   \<and> (is_terminal st \<longleftrightarrow> st < CsNone \<and> CsReporting < st)"
proof (intro conjI)
  show "hangup_cause_from_str s = Inr hc \<longleftrightarrow> hangup_cause_wf hc \<and> s = hangup_cause_as_str hc"
    using hangup_cause_parsed [of s hc] hangup_cause_row [of hc] by metis
  show "hangup_cause_from_number n = Some hc \<longleftrightarrow> hangup_cause_wf hc \<and> n = hangup_cause_as_number hc"
  proof
    assume "hangup_cause_from_number n = Some hc"
    then obtain v where row: "(v, n, hangup_cause_as_str hc) \<in> set hangup_causes"
      by (auto simp: hangup_cause_from_number_def find_Some_iff) (metis nth_mem)
    then have "hangup_cause_wf hc" by (force simp: hangup_cause_wf_def)
    moreover have "find (\<lambda>(_, _, name). name = hangup_cause_as_str hc) hangup_causes = Some (v, n, hangup_cause_as_str hc)"
      using find_key [OF hangup_names_distinct row] by (simp add: split_def)
    ultimately show "hangup_cause_wf hc \<and> n = hangup_cause_as_number hc" by (simp add: hangup_cause_as_number_def)
  next
    assume "hangup_cause_wf hc \<and> n = hangup_cause_as_number hc"
    then show "hangup_cause_from_number n = Some hc" using hangup_cause_row [of hc] by metis
  qed
  show "is_terminal st \<longleftrightarrow> st < CsNone \<and> CsReporting < st"
    by (cases st) (simp_all add: is_terminal_def less_channel_state_def)
qed (simp_all add: channel_state.from_str_iff channel_state.from_number_iff call_state.from_str_iff answer_state.from_str_iff
    call_direction.from_str_iff)

lemma foldR_step_Inr:
  "foldR (timetable_step pre lookup) (tt, found) fs = Inr (tt', found') \<Longrightarrow> distinct fs \<Longrightarrow>
   found' = (found \<or> (\<exists>f \<in> set fs. lookup (timetable_header_name f pre) \<noteq> None))
   \<and> (\<forall>f. tt_get f tt' = (if f \<in> set fs \<and> lookup (timetable_header_name f pre) \<noteq> None
         then parse_i64 (the (lookup (timetable_header_name f pre))) else tt_get f tt))"
proof (induction fs arbitrary: tt found)
  case (Cons f fs)
  have set: "tt_get g (tt_set f v t) = (if g = f then Some v else tt_get g t)" for g v t
    by (cases f; cases g; simp)
  obtain tt1 found1 where 1: "timetable_step pre lookup (tt, found) f = Inr (tt1, found1)"
    "foldR (timetable_step pre lookup) (tt1, found1) fs = Inr (tt', found')"
    using Cons.prems(1) by (auto simp: bindR_eq_Inr)
  note IH = Cons.IH [OF 1(2)]
  show ?case
  proof (cases "lookup (timetable_header_name f pre)")
    case None
    then show ?thesis using 1(1) IH Cons.prems(2) by (auto simp: timetable_step_def)
  next
    case (Some raw)
    then obtain v where "parse_i64 raw = Some v" "tt1 = tt_set f v tt" "found1"
      using 1(1) by (auto simp: timetable_step_def Let_def split: option.splits)
    then show ?thesis using Some IH Cons.prems(2) set by auto
  qed
qed simp

end
