(* ===== verification/Endpoint.thy ===== *)
theory Endpoint
  imports Variables Channel_Types
begin

text \<open>
  The endpoints of a dial string: \<open>types commands/endpoint/\<close>. Each kind has its module text, the check that
  the switch delivers every field as written, and the parse of the module text; the enumeration dispatches on the
  module prefix and adds the variable block, through the passes of a target.
\<close>

section \<open>Checks\<close>

definition undeliverable :: "string \<Rightarrow> string \<Rightarrow> endpoint_field_fault \<Rightarrow> originate_error + unit" where
  "undeliverable endpoint field fault = Inl (UndeliverableEndpointField endpoint field fault)"

definition check_expression_field :: "string \<Rightarrow> string \<Rightarrow> string \<Rightarrow> string list \<Rightarrow> originate_error + unit" where
  "check_expression_field endpoint field s separators =
     (if splits_into_threads s then undeliverable endpoint field EnterpriseSeparator
      else case find (\<lambda>sep. contains_str sep s) separators of
        Some sep \<Rightarrow> undeliverable endpoint field (FunctionSeparator sep)
      | None \<Rightarrow>
          if list_ex (\<lambda>c. c \<in> {SP, CHR '','', CHR ''|'', CHR 0x27, CHR 0x5C}) s
             \<or> unbalanced s (''{'', ''}'') \<noteq> None \<or> unbalanced s (''('', '')'') \<noteq> None
          then undeliverable endpoint field ReadBeforeTheFunction
          else Inr ())"

definition check_field :: "string \<Rightarrow> string \<Rightarrow> string \<Rightarrow> string list \<Rightarrow> originate_error + unit" where
  "check_field endpoint field s separators =
     (if splits_into_threads s then undeliverable endpoint field EnterpriseSeparator
      else case find (\<lambda>sep. contains_str sep s) separators of
        Some sep \<Rightarrow> undeliverable endpoint field (ModuleSeparator sep)
      | None \<Rightarrow> Inr ())"

definition after_prefix :: "string \<Rightarrow> string \<Rightarrow> string \<Rightarrow> originate_error + string" where
  "after_prefix s pre kind =
     (case strip_prefix pre s of
        Some rest \<Rightarrow> if ends_with ''/'' pre \<or> rest = [] \<or> starts_with ''/'' rest then Inr rest
                     else Inl (OriginateParseError (''not a '' @ kind @ '' endpoint''))
      | None \<Rightarrow> Inl (OriginateParseError (''not a '' @ kind @ '' endpoint'')))"

section \<open>Sofia\<close>

record sofia_endpoint =
  se_profile :: string
  se_destination :: string
  se_variables :: "variables option"

definition sofia_module_text :: "sofia_endpoint \<Rightarrow> string" where
  "sofia_module_text e = ''sofia/'' @ se_profile e @ ''/'' @ se_destination e"

definition sofia_check_deliverable :: "sofia_endpoint \<Rightarrow> originate_error + unit" where
  "sofia_check_deliverable e =
     bindR (check_field ''sofia'' ''profile'' (se_profile e) [''/'', ''^'', ''@'']) (\<lambda>_.
       if eq_ignore_ascii_case (se_profile e) ''gateway'' then undeliverable ''sofia'' ''profile'' ReadsAsGateway
       else check_field ''sofia'' ''destination'' (se_destination e) [])"

definition sofia_parse_bare :: "string \<Rightarrow> originate_error + sofia_endpoint" where
  "sofia_parse_bare s =
     bindR (after_prefix s ''sofia/'' ''sofia'') (\<lambda>rest.
     bindR (ok_or (OriginateParseError ''sofia endpoint needs profile/destination'') (split_once (CHR ''/'') rest)) (\<lambda>(p, d).
       let e = \<lparr>se_profile = p, se_destination = d, se_variables = None\<rparr>
       in mapR (\<lambda>_. e) (sofia_check_deliverable e)))"

record sofia_gateway =
  sg_gateway :: string
  sg_destination :: string
  sg_profile :: "string option"
  sg_variables :: "variables option"

definition gateway_module_text :: "sofia_gateway \<Rightarrow> string" where
  "gateway_module_text e =
     (case sg_profile e of
        Some p \<Rightarrow> ''sofia/gateway/'' @ p @ ''::'' @ sg_gateway e @ ''/'' @ sg_destination e
      | None \<Rightarrow> ''sofia/gateway/'' @ sg_gateway e @ ''/'' @ sg_destination e)"

definition gateway_check_deliverable :: "sofia_gateway \<Rightarrow> originate_error + unit" where
  "gateway_check_deliverable e =
     (let kind = ''sofia gateway'';
          gateway_splits = (case sg_profile e of Some _ \<Rightarrow> [''/'', ''^'', ''@''] | None \<Rightarrow> [''/'', ''^'', ''@'', ''::''])
      in bindR (check_field kind ''gateway'' (sg_gateway e) gateway_splits) (\<lambda>_.
         bindR (case sg_profile e of
             None \<Rightarrow> Inr ()
           | Some p \<Rightarrow> bindR (check_field kind ''profile'' p [''/'', ''^'', ''@'', ''::'']) (\<lambda>_.
               if ends_with '':'' p then undeliverable kind ''profile'' (ModuleSeparator ''::'')
               else if splits_into_threads (p @ ''::'' @ sg_gateway e)
               then undeliverable kind (if ends_with '':_'' p then ''profile'' else ''gateway'') EnterpriseSeparator
               else Inr ())) (\<lambda>_.
           check_field kind ''destination'' (sg_destination e) [])))"

definition gateway_parse_bare :: "string \<Rightarrow> originate_error + sofia_gateway" where
  "gateway_parse_bare s =
     bindR (after_prefix s ''sofia/gateway/'' ''sofia gateway'') (\<lambda>rest.
     bindR (ok_or (OriginateParseError ''sofia gateway needs gateway/destination'') (split_once (CHR ''/'') rest)) (\<lambda>(g, d).
       let e = (case str_find ''::'' g of
             Some i \<Rightarrow> \<lparr>sg_gateway = drop (i + 2) g, sg_destination = d, sg_profile = Some (take i g), sg_variables = None\<rparr>
           | None \<Rightarrow> \<lparr>sg_gateway = g, sg_destination = d, sg_profile = None, sg_variables = None\<rparr>)
       in mapR (\<lambda>_. e) (gateway_check_deliverable e)))"

record sofia_contact =
  sc_user :: string
  sc_domain :: string
  sc_profile :: "string option"
  sc_variables :: "variables option"

definition contact_module_text :: "sofia_contact \<Rightarrow> string" where
  "contact_module_text e =
     (case sc_profile e of
        Some p \<Rightarrow> ''${sofia_contact('' @ p @ ''/'' @ sc_user e @ ''@'' @ sc_domain e @ '')}''
      | None \<Rightarrow> ''${sofia_contact('' @ sc_user e @ ''@'' @ sc_domain e @ '')}'')"

definition contact_field :: "string \<Rightarrow> string \<Rightarrow> originate_error + unit" where
  "contact_field field value =
     bindR (check_expression_field ''sofia_contact'' field value [''~'', ''/'']) (\<lambda>_.
       if value = [] then undeliverable ''sofia_contact'' field EmptyReadsAsDefault else Inr ())"

definition contact_check_deliverable :: "sofia_contact \<Rightarrow> originate_error + unit" where
  "contact_check_deliverable e =
     bindR (check_expression_field ''sofia_contact'' ''user'' (sc_user e)
         (case sc_profile e of Some _ \<Rightarrow> [''~'', ''@''] | None \<Rightarrow> [''~'', ''@'', ''/''])) (\<lambda>_.
     bindR (contact_field ''domain'' (sc_domain e)) (\<lambda>_.
       case sc_profile e of None \<Rightarrow> Inr () | Some p \<Rightarrow> contact_field ''profile'' p))"

definition expression_body :: "string \<Rightarrow> string \<Rightarrow> string option" where
  "expression_body pre s = Option.bind (strip_prefix pre s) (strip_suffix '')}'')"

definition contact_parse_bare :: "string \<Rightarrow> originate_error + sofia_contact" where
  "contact_parse_bare s =
     bindR (ok_or (OriginateParseError ''not a sofia_contact expression'') (expression_body ''${sofia_contact('' s)) (\<lambda>body.
       let (p, rest) = (case split_once (CHR ''/'') body of Some (p, rest) \<Rightarrow> (Some p, rest) | None \<Rightarrow> (None, body))
       in bindR (ok_or (OriginateParseError ''sofia_contact needs user@domain'') (split_once (CHR ''@'') rest)) (\<lambda>(u, d).
            let e = \<lparr>sc_user = u, sc_domain = d, sc_profile = p, sc_variables = None\<rparr>
            in mapR (\<lambda>_. e) (contact_check_deliverable e)))"

section \<open>Loopback, user and audio\<close>

definition DEFAULT_CONTEXT :: string where
  "DEFAULT_CONTEXT = ''default''"

record loopback_endpoint =
  lb_extension :: string
  lb_context :: "string option"
  lb_dialplan :: "string option"
  lb_variables :: "variables option"

definition loopback_module_text :: "loopback_endpoint \<Rightarrow> string" where
  "loopback_module_text e =
     (case (lb_context e, lb_dialplan e) of
        (None, None) \<Rightarrow> ''loopback/'' @ lb_extension e
      | (Some ctx, None) \<Rightarrow> ''loopback/'' @ lb_extension e @ ''/'' @ ctx
      | (ctx, Some dp) \<Rightarrow> ''loopback/'' @ lb_extension e @ ''/'' @ unwrap_or DEFAULT_CONTEXT ctx @ ''/'' @ dp)"

text \<open>\<open>str::get\<close> is \<open>None\<close> inside a character, where the first four bytes would not be ASCII either.\<close>

definition is_application :: "string \<Rightarrow> bool" where
  "is_application extension \<longleftrightarrow> 4 \<le> length extension \<and> eq_ignore_ascii_case (take 4 extension) ''app=''"

definition loopback_segment :: "string \<Rightarrow> string option \<Rightarrow> string list \<Rightarrow> originate_error + unit" where
  "loopback_segment field value separators =
     (case value of
        None \<Rightarrow> Inr ()
      | Some v \<Rightarrow> bindR (check_field ''loopback'' field v separators) (\<lambda>_.
          if v = [] then undeliverable ''loopback'' field EmptyReadsAsDefault else Inr ()))"

definition loopback_check_deliverable :: "loopback_endpoint \<Rightarrow> originate_error + unit" where
  "loopback_check_deliverable e =
     (if is_application (lb_extension e)
      then let name = (case split_once (CHR '':'') (lb_extension e) of None \<Rightarrow> lb_extension e | Some (name, _) \<Rightarrow> name)
           in bindR (check_field ''loopback'' ''extension'' name [''/'']) (\<lambda>_.
              bindR (check_field ''loopback'' ''extension'' (lb_extension e) []) (\<lambda>_.
                if lb_context e \<noteq> None then undeliverable ''loopback'' ''context'' FollowsAnApplication
                else if lb_dialplan e \<noteq> None then undeliverable ''loopback'' ''dialplan'' FollowsAnApplication
                else Inr ()))
      else bindR (check_field ''loopback'' ''extension'' (lb_extension e) [''/'']) (\<lambda>_.
           bindR (loopback_segment ''context'' (lb_context e) [''/'']) (\<lambda>_.
             loopback_segment ''dialplan'' (lb_dialplan e) [])))"

definition loopback_parse_bare :: "string \<Rightarrow> originate_error + loopback_endpoint" where
  "loopback_parse_bare s =
     bindR (after_prefix s ''loopback/'' ''loopback'') (\<lambda>rest.
       let segments = (if is_application rest then [rest] else splitn 3 (CHR ''/'') rest);
           seg = (\<lambda>i. if i < length segments then Some (segments ! i) else None);
           e = \<lparr>lb_extension = unwrap_or rest (seg 0), lb_context = seg 1, lb_dialplan = seg 2, lb_variables = None\<rparr>
       in mapR (\<lambda>_. e) (loopback_check_deliverable e))"

record user_endpoint =
  ue_name :: string
  ue_domain :: "string option"
  ue_variables :: "variables option"

definition user_module_text :: "user_endpoint \<Rightarrow> string" where
  "user_module_text e =
     (case ue_domain e of Some d \<Rightarrow> ''user/'' @ ue_name e @ ''@'' @ d | None \<Rightarrow> ''user/'' @ ue_name e)"

definition user_check_deliverable :: "user_endpoint \<Rightarrow> originate_error + unit" where
  "user_check_deliverable e =
     bindR (check_field ''user'' ''name'' (ue_name e) [''@'']) (\<lambda>_.
       if ue_name e = [] \<and> ue_domain e = None then undeliverable ''user'' ''name'' EmptyDialsNothing
       else case ue_domain e of Some d \<Rightarrow> check_field ''user'' ''domain'' d [] | None \<Rightarrow> Inr ())"

definition user_parse_bare :: "string \<Rightarrow> originate_error + user_endpoint" where
  "user_parse_bare s =
     bindR (after_prefix s ''user/'' ''user'') (\<lambda>rest.
       let e = (case split_once (CHR ''@'') rest of
             Some (name, domain) \<Rightarrow> \<lparr>ue_name = name, ue_domain = Some domain, ue_variables = None\<rparr>
           | None \<Rightarrow> \<lparr>ue_name = rest, ue_domain = None, ue_variables = None\<rparr>)
       in mapR (\<lambda>_. e) (user_check_deliverable e))"

record audio_endpoint =
  ae_destination :: "string option"
  ae_variables :: "variables option"

definition audio_module_text :: "audio_endpoint \<Rightarrow> string \<Rightarrow> string" where
  "audio_module_text e pre = (case ae_destination e of Some d \<Rightarrow> pre @ ''/'' @ d | None \<Rightarrow> pre)"

definition audio_check_deliverable :: "audio_endpoint \<Rightarrow> originate_error + unit" where
  "audio_check_deliverable e =
     (case ae_destination e of
        None \<Rightarrow> Inr ()
      | Some d \<Rightarrow> if d = [] then undeliverable ''audio'' ''destination'' EmptyReadsAsDefault
                 else check_field ''audio'' ''destination'' d [])"

definition audio_parse_bare :: "string \<Rightarrow> string \<Rightarrow> originate_error + audio_endpoint" where
  "audio_parse_bare s pre =
     bindR (after_prefix s pre pre) (\<lambda>rest.
       let e = \<lparr>ae_destination = (case strip_prefix ''/'' rest of Some d \<Rightarrow> if d = [] then None else Some d | None \<Rightarrow> None),
                ae_variables = None\<rparr>
       in mapR (\<lambda>_. e) (audio_check_deliverable e))"

section \<open>Group calls and errors\<close>

datatype group_call_order = OrderAll | OrderEnterprise | OrderFirst

definition group_call_orders :: "group_call_order list" where
  "group_call_orders = [OrderAll, OrderEnterprise, OrderFirst]"

fun group_call_order_as_str :: "group_call_order \<Rightarrow> string" where
  "group_call_order_as_str OrderAll = ''A''"
| "group_call_order_as_str OrderEnterprise = ''E''"
| "group_call_order_as_str OrderFirst = ''F''"

interpretation group_call_order: wire_enum group_call_orders group_call_order_as_str
proof unfold_locales
  have "s \<in> set group_call_orders" for s by (cases s) (simp_all add: group_call_orders_def)
  then show "set group_call_orders = UNIV" by auto
  show "distinct (map group_call_order_as_str group_call_orders)" by code_simp
qed

record group_call =
  gc_group :: string
  gc_domain :: string
  gc_order :: "group_call_order option"
  gc_variables :: "variables option"

definition group_call_module_text :: "group_call \<Rightarrow> string" where
  "group_call_module_text e =
     (case gc_order e of
        Some r \<Rightarrow> ''${group_call('' @ gc_group e @ ''@'' @ gc_domain e @ ''+'' @ group_call_order_as_str r @ '')}''
      | None \<Rightarrow> ''${group_call('' @ gc_group e @ ''@'' @ gc_domain e @ '')}'')"

definition group_call_check_deliverable :: "group_call \<Rightarrow> originate_error + unit" where
  "group_call_check_deliverable e =
     bindR (check_expression_field ''group_call'' ''group'' (gc_group e) [''+'', ''@'']) (\<lambda>_.
       check_expression_field ''group_call'' ''domain'' (gc_domain e) [''+''])"

definition group_call_parse_bare :: "string \<Rightarrow> originate_error + group_call" where
  "group_call_parse_bare s =
     bindR (ok_or (OriginateParseError ''not a group_call expression'') (expression_body ''${group_call('' s)) (\<lambda>body.
     bindR (case split_once (CHR ''+'') body of
         Some (gd, r) \<Rightarrow> mapR (\<lambda>r. (gd, Some r)) (map_errR UnknownGroupCallOrder (wire_from_str group_call_orders group_call_order_as_str r))
       | None \<Rightarrow> Inr (body, None)) (\<lambda>(gd, r).
     bindR (ok_or (OriginateParseError ''group_call needs group@domain'') (split_once (CHR ''@'') gd)) (\<lambda>(g, d).
       let e = \<lparr>gc_group = g, gc_domain = d, gc_order = r, gc_variables = None\<rparr>
       in mapR (\<lambda>_. e) (group_call_check_deliverable e))))"

record error_endpoint =
  ee_cause :: hangup_cause

definition error_display :: "error_endpoint \<Rightarrow> string" where
  "error_display e = ''error/'' @ hangup_cause_as_str (ee_cause e)"

definition error_from_str :: "string \<Rightarrow> originate_error + error_endpoint" where
  "error_from_str s =
     bindR (ok_or (OriginateParseError ''not an error endpoint'') (strip_prefix ''error/'' s)) (\<lambda>cause_str.
       mapR (\<lambda>c. \<lparr>ee_cause = c\<rparr>) (map_errR UnknownHangupCause (hangup_cause_from_str cause_str)))"

section \<open>The enumeration\<close>

datatype endpoint =
  Sofia sofia_endpoint
| SofiaGateway sofia_gateway
| Loopback loopback_endpoint
| User user_endpoint
| SofiaContact sofia_contact
| GroupCall group_call
| Error error_endpoint
| PortAudio audio_endpoint
| PulseAudio audio_endpoint
| Alsa audio_endpoint

fun endpoint_variables :: "endpoint \<Rightarrow> variables option" where
  "endpoint_variables (Sofia e) = se_variables e"
| "endpoint_variables (SofiaGateway e) = sg_variables e"
| "endpoint_variables (Loopback e) = lb_variables e"
| "endpoint_variables (User e) = ue_variables e"
| "endpoint_variables (SofiaContact e) = sc_variables e"
| "endpoint_variables (GroupCall e) = gc_variables e"
| "endpoint_variables (Error e) = None"
| "endpoint_variables (PortAudio e) = ae_variables e"
| "endpoint_variables (PulseAudio e) = ae_variables e"
| "endpoint_variables (Alsa e) = ae_variables e"

fun set_variables :: "variables option \<Rightarrow> endpoint \<Rightarrow> endpoint" where
  "set_variables v (Sofia e) = Sofia (e\<lparr>se_variables := v\<rparr>)"
| "set_variables v (SofiaGateway e) = SofiaGateway (e\<lparr>sg_variables := v\<rparr>)"
| "set_variables v (Loopback e) = Loopback (e\<lparr>lb_variables := v\<rparr>)"
| "set_variables v (User e) = User (e\<lparr>ue_variables := v\<rparr>)"
| "set_variables v (SofiaContact e) = SofiaContact (e\<lparr>sc_variables := v\<rparr>)"
| "set_variables v (GroupCall e) = GroupCall (e\<lparr>gc_variables := v\<rparr>)"
| "set_variables v (Error e) = Error e"
| "set_variables v (PortAudio e) = PortAudio (e\<lparr>ae_variables := v\<rparr>)"
| "set_variables v (PulseAudio e) = PulseAudio (e\<lparr>ae_variables := v\<rparr>)"
| "set_variables v (Alsa e) = Alsa (e\<lparr>ae_variables := v\<rparr>)"

fun module_text :: "endpoint \<Rightarrow> string" where
  "module_text (Sofia e) = sofia_module_text e"
| "module_text (SofiaGateway e) = gateway_module_text e"
| "module_text (Loopback e) = loopback_module_text e"
| "module_text (User e) = user_module_text e"
| "module_text (SofiaContact e) = contact_module_text e"
| "module_text (GroupCall e) = group_call_module_text e"
| "module_text (Error e) = error_display e"
| "module_text (PortAudio e) = audio_module_text e ''portaudio''"
| "module_text (PulseAudio e) = audio_module_text e ''pulseaudio''"
| "module_text (Alsa e) = audio_module_text e ''alsa''"

definition write_variables :: "variables option \<Rightarrow> dial_target \<Rightarrow> string" where
  "write_variables vars target =
     (case vars of
        Some v \<Rightarrow> if variables_is_empty v then [] else variables_display_for v target
      | None \<Rightarrow> [])"

definition write_module_text :: "string \<Rightarrow> dial_target \<Rightarrow> string" where
  "write_module_text s target = escape_text s target FieldEndpoint"

text \<open>An expression is written as it stands, an error without variables or escapes, the rest escaped.\<close>

fun endpoint_write_for :: "endpoint \<Rightarrow> dial_target \<Rightarrow> string" where
  "endpoint_write_for (SofiaContact e) target = write_variables (sc_variables e) target @ contact_module_text e"
| "endpoint_write_for (GroupCall e) target = write_variables (gc_variables e) target @ group_call_module_text e"
| "endpoint_write_for (Error e) target = error_display e"
| "endpoint_write_for e target = write_variables (endpoint_variables e) target @ write_module_text (module_text e) target"

definition endpoint_display_for :: "endpoint \<Rightarrow> dial_target \<Rightarrow> string" where
  "endpoint_display_for e target = write_argument target (endpoint_write_for e)"

fun endpoint_kind :: "endpoint \<Rightarrow> string" where
  "endpoint_kind (Sofia _) = ''sofia''"
| "endpoint_kind (SofiaGateway _) = ''sofia gateway''"
| "endpoint_kind (Loopback _) = ''loopback''"
| "endpoint_kind (User _) = ''user''"
| "endpoint_kind (SofiaContact _) = ''sofia_contact''"
| "endpoint_kind (GroupCall _) = ''group_call''"
| "endpoint_kind (Error _) = ''error''"
| "endpoint_kind (PortAudio _) = ''portaudio''"
| "endpoint_kind (PulseAudio _) = ''pulseaudio''"
| "endpoint_kind (Alsa _) = ''alsa''"

definition check_expanded :: "carrier \<Rightarrow> endpoint \<Rightarrow> originate_error + unit" where
  "check_expanded c e =
     (case e of
        SofiaContact _ \<Rightarrow> if c = EslApi then Inl (UnexpandedExpression (endpoint_kind e)) else Inr ()
      | GroupCall _ \<Rightarrow> if c = EslApi then Inl (UnexpandedExpression (endpoint_kind e)) else Inr ()
      | _ \<Rightarrow> Inr ())"

definition endpoint_parse_bare :: "string \<Rightarrow> originate_error + endpoint" where
  "endpoint_parse_bare uri =
     (if starts_with ''${sofia_contact('' uri then mapR SofiaContact (contact_parse_bare uri)
      else if starts_with ''${group_call('' uri then mapR GroupCall (group_call_parse_bare uri)
      else if starts_with ''error/'' uri then mapR Error (error_from_str uri)
      else if starts_with ''loopback/'' uri then mapR Loopback (loopback_parse_bare uri)
      else if starts_with ''sofia/gateway/'' uri then mapR SofiaGateway (gateway_parse_bare uri)
      else if starts_with ''sofia/'' uri then mapR Sofia (sofia_parse_bare uri)
      else if starts_with ''user/'' uri then mapR User (user_parse_bare uri)
      else if starts_with ''portaudio'' uri then mapR PortAudio (audio_parse_bare uri ''portaudio'')
      else if starts_with ''pulseaudio'' uri then mapR PulseAudio (audio_parse_bare uri ''pulseaudio'')
      else if starts_with ''alsa'' uri then mapR Alsa (audio_parse_bare uri ''alsa'')
      else Inl (UnknownEndpointType uri))"

definition parse_leg :: "string \<Rightarrow> dial_target \<Rightarrow> (string \<Rightarrow> originate_error + 'a) \<Rightarrow> originate_error + variables option \<times> 'a" where
  "parse_leg s target bare =
     bindR (read_argument target s) (\<lambda>(argument, target).
     bindR (read_leg argument target) (\<lambda>(blk, txt).
     bindR (installed_variables blk) (\<lambda>vars.
       mapR (\<lambda>e. (vars, e)) (bare txt))))"

definition endpoint_parse_for :: "string \<Rightarrow> dial_target \<Rightarrow> originate_error + endpoint" where
  "endpoint_parse_for s target =
     bindR (parse_leg s target endpoint_parse_bare) (\<lambda>(vars, e).
     bindR (check_expanded (dt_carrier target) e) (\<lambda>_.
       if vars = None then Inr e
       else let e = set_variables vars e
            in if endpoint_variables e = None then Inl (VariablesNotSupported (endpoint_kind e)) else Inr e))"

fun endpoint_check_deliverable :: "endpoint \<Rightarrow> originate_error + unit" where
  "endpoint_check_deliverable (Sofia e) = sofia_check_deliverable e"
| "endpoint_check_deliverable (SofiaGateway e) = gateway_check_deliverable e"
| "endpoint_check_deliverable (Loopback e) = loopback_check_deliverable e"
| "endpoint_check_deliverable (User e) = user_check_deliverable e"
| "endpoint_check_deliverable (SofiaContact e) = contact_check_deliverable e"
| "endpoint_check_deliverable (GroupCall e) = group_call_check_deliverable e"
| "endpoint_check_deliverable (Error e) = Inr ()"
| "endpoint_check_deliverable (PortAudio e) = audio_check_deliverable e"
| "endpoint_check_deliverable (PulseAudio e) = audio_check_deliverable e"
| "endpoint_check_deliverable (Alsa e) = audio_check_deliverable e"

section \<open>Module texts read back\<close>

lemma split_once_absent [simp]: "c \<notin> set s \<Longrightarrow> split_once c s = None"
  by simp

text \<open>No check reads the variables.\<close>

lemma check_without_variables [simp]:
  "sofia_check_deliverable (e1\<lparr>se_variables := v\<rparr>) = sofia_check_deliverable e1"
  "gateway_check_deliverable (e2\<lparr>sg_variables := v\<rparr>) = gateway_check_deliverable e2"
  "contact_check_deliverable (e3\<lparr>sc_variables := v\<rparr>) = contact_check_deliverable e3"
  "loopback_check_deliverable (e4\<lparr>lb_variables := v\<rparr>) = loopback_check_deliverable e4"
  "user_check_deliverable (e5\<lparr>ue_variables := v\<rparr>) = user_check_deliverable e5"
  "audio_check_deliverable (e6\<lparr>ae_variables := v\<rparr>) = audio_check_deliverable e6"
  "group_call_check_deliverable (e7\<lparr>gc_variables := v\<rparr>) = group_call_check_deliverable e7"
  subgoal by (simp add: sofia_check_deliverable_def Let_def cong: option.case_cong if_cong)
  subgoal by (simp add: gateway_check_deliverable_def Let_def cong: option.case_cong if_cong)
  subgoal by (simp add: contact_check_deliverable_def Let_def cong: option.case_cong if_cong)
  subgoal by (simp add: loopback_check_deliverable_def Let_def cong: option.case_cong if_cong)
  subgoal by (simp add: user_check_deliverable_def Let_def cong: option.case_cong if_cong)
  subgoal by (simp add: audio_check_deliverable_def Let_def cong: option.case_cong if_cong)
  subgoal by (simp add: group_call_check_deliverable_def Let_def cong: option.case_cong if_cong)
  done

lemma threads_middle:
  assumes "c \<notin> {CHR '':'', CHR ''_''}" and "\<not> splits_into_threads a" and "\<not> splits_into_threads b"
  shows "\<not> splits_into_threads (a @ c # b)"
  using contains_str_middle [of c ENTERPRISE_DELIM a b] assms by (auto simp: splits_into_threads_def ENTERPRISE_DELIM_def)

lemma check_field_Inr [simp]:
  "check_field k f s seps = Inr () \<longleftrightarrow> \<not> splits_into_threads s \<and> (\<forall>sep \<in> set seps. \<not> contains_str sep s)"
  by (auto simp: check_field_def undeliverable_def find_None_iff split: option.splits)
    (metis find_Some_iff nth_mem)

lemma check_expression_field_Inr:
  "check_expression_field k f s seps = Inr () \<Longrightarrow> \<not> splits_into_threads s \<and> (\<forall>sep \<in> set seps. \<not> contains_str sep s)"
  by (auto simp: check_expression_field_def undeliverable_def find_None_iff split: option.splits if_splits)

lemma check_expression_field_unit: "check_expression_field k f s seps = Inr u \<longleftrightarrow> check_expression_field k f s seps = Inr ()"
  by simp

text \<open>A text in front of a separator and a text behind it.\<close>

lemmas threads_simps = splits_into_threads_def ENTERPRISE_DELIM_def contains_str_def starts_with_def

lemma threads_short [simp]: "length s < 3 \<Longrightarrow> \<not> splits_into_threads s"
  using prefix_length_le by (fastforce simp: splits_into_threads_def contains_str_def str_find_iff ENTERPRISE_DELIM_def first_at_def)

lemma threads_segment:
  assumes "c \<notin> {CHR '':'', CHR ''_''}" and "\<not> splits_into_threads a" and "\<not> splits_into_threads b"
  shows "\<not> splits_into_threads (a @ [c] @ b)"
  using threads_middle [OF assms] by simp

lemma sofia_reads_back:
  assumes "sofia_check_deliverable e = Inr ()"
  shows "endpoint_parse_bare (sofia_module_text e) = Inr (Sofia (e\<lparr>se_variables := None\<rparr>))
    \<and> \<not> splits_into_threads (sofia_module_text e)"
proof -
  have p: "CHR ''/'' \<notin> set (se_profile e)" "\<not> eq_ignore_ascii_case (se_profile e) ''gateway''"
    and t: "\<not> splits_into_threads (se_profile e)" "\<not> splits_into_threads (se_destination e)"
    using assms by (auto simp: sofia_check_deliverable_def bindR_eq_Inr contains_str_single undeliverable_def split: if_splits)
  have ng: "\<not> starts_with ''sofia/gateway/'' (sofia_module_text e)"
  proof
    assume "starts_with ''sofia/gateway/'' (sofia_module_text e)"
    then obtain r where "se_profile e @ ''/'' @ se_destination e = ''gateway'' @ ''/'' @ r"
      by (auto simp: starts_with_def sofia_module_text_def)
    then have "split_once (CHR ''/'') (se_profile e @ CHR ''/'' # se_destination e) = split_once (CHR ''/'') (''gateway'' @ CHR ''/'' # r)"
      by simp
    then have "se_profile e = ''gateway''" using p(1) split_once_append [of "CHR ''/''" "''gateway''" r] by simp
    with p(2) show False by (simp add: eq_ignore_ascii_case_def)
  qed
  have s: "sofia_parse_bare (sofia_module_text e) = Inr (e\<lparr>se_variables := None\<rparr>)"
    using assms p by (simp add: sofia_parse_bare_def sofia_module_text_def after_prefix_def ends_with_def sofia_check_deliverable_def)
  have "\<not> splits_into_threads (''sofia'' @ ''/'' @ se_profile e @ ''/'' @ se_destination e)"
    by (intro threads_segment t) (simp_all add: threads_simps)
  then show ?thesis using ng s by (simp add: endpoint_parse_bare_def sofia_module_text_def starts_with_def)
qed

lemma str_find_first:
  assumes "\<not> contains_str ''::'' p" and "\<not> ends_with '':'' p"
  shows "str_find ''::'' (p @ ''::'' @ g) = Some (length p)"
  using assms
proof (induction p)
  case (Cons c p)
  have "\<not> contains_str ''::'' p" using Cons.prems(1) by (auto simp: contains_str_def split: if_splits)
  moreover have "\<not> ends_with '':'' p" using Cons.prems(2) by (auto simp: ends_with_def)
  moreover have "\<not> starts_with ''::'' (c # p @ ''::'' @ g)"
  proof (cases p)
    case Nil
    then show ?thesis using Cons.prems(2) by (auto simp: starts_with_def ends_with_def)
  next
    case (Cons d q)
    with Cons.prems(1) show ?thesis by (auto simp: contains_str_def starts_with_def split: if_splits)
  qed
  ultimately show ?case using Cons.IH by simp
qed (simp add: starts_with_def)

lemma gateway_reads_back:
  assumes "gateway_check_deliverable e = Inr ()"
  shows "endpoint_parse_bare (gateway_module_text e) = Inr (SofiaGateway (e\<lparr>sg_variables := None\<rparr>))
    \<and> \<not> splits_into_threads (gateway_module_text e)"
proof -
  let ?lookup = "case sg_profile e of Some p \<Rightarrow> p @ ''::'' @ sg_gateway e | None \<Rightarrow> sg_gateway e"
  have text_eq: "gateway_module_text e = ''sofia/gateway/'' @ ?lookup @ ''/'' @ sg_destination e"
    by (simp add: gateway_module_text_def split: option.splits)
  have g: "\<not> splits_into_threads (sg_gateway e)" "CHR ''/'' \<notin> set (sg_gateway e)" "\<not> splits_into_threads (sg_destination e)"
    using assms by (auto simp: gateway_check_deliverable_def Let_def bindR_eq_Inr contains_str_single split: option.splits)
  have "CHR ''/'' \<notin> set ?lookup \<and> \<not> splits_into_threads ?lookup
    \<and> str_find ''::'' ?lookup = map_option length (sg_profile e)"
  proof (cases "sg_profile e")
    case None
    then show ?thesis
      using assms g by (simp add: gateway_check_deliverable_def Let_def bindR_eq_Inr contains_str_def)
  next
    case (Some p)
    have "CHR ''/'' \<notin> set p" "\<not> ends_with '':'' p" "\<not> contains_str ''::'' p" "\<not> splits_into_threads (p @ ''::'' @ sg_gateway e)"
      using assms Some by (auto simp: gateway_check_deliverable_def Let_def bindR_eq_Inr contains_str_single undeliverable_def split: if_splits)
    then show ?thesis using Some g str_find_first [of p "sg_gateway e"] by simp
  qed
  then have l: "CHR ''/'' \<notin> set ?lookup" "\<not> splits_into_threads ?lookup" "str_find ''::'' ?lookup = map_option length (sg_profile e)" by auto
  have sp: "split_once (CHR ''/'') (?lookup @ ''/'' @ sg_destination e) = Some (?lookup, sg_destination e)"
    using split_once_append [OF l(1), of "sg_destination e"] by simp
  have e: "(case str_find ''::'' ?lookup of
      Some i \<Rightarrow> \<lparr>sg_gateway = drop (i + 2) ?lookup, sg_destination = sg_destination e, sg_profile = Some (take i ?lookup), sg_variables = None\<rparr>
    | None \<Rightarrow> \<lparr>sg_gateway = ?lookup, sg_destination = sg_destination e, sg_profile = None, sg_variables = None\<rparr>) = e\<lparr>sg_variables := None\<rparr>"
    unfolding l(3) by (cases "sg_profile e") auto
  have "gateway_parse_bare (gateway_module_text e) = mapR (\<lambda>_. e\<lparr>sg_variables := None\<rparr>) (gateway_check_deliverable (e\<lparr>sg_variables := None\<rparr>))"
    unfolding gateway_parse_bare_def text_eq after_prefix_def strip_prefix_append
    by (simp only: ends_with_append [of "''/''" "''sofia/gateway''", simplified] option.case simp_thms if_True bindR_simps sp ok_or_simps split e Let_def)
  then have "gateway_parse_bare (gateway_module_text e) = Inr (e\<lparr>sg_variables := None\<rparr>)" using assms by simp
  moreover have "\<not> splits_into_threads (''sofia'' @ ''/'' @ ''gateway'' @ ''/'' @ ?lookup @ ''/'' @ sg_destination e)"
    by (intro threads_segment l(2) g(3)) (simp_all add: threads_simps)
  ultimately show ?thesis by (simp add: endpoint_parse_bare_def text_eq starts_with_def)
qed

lemma user_reads_back:
  assumes "user_check_deliverable e = Inr ()"
  shows "endpoint_parse_bare (user_module_text e) = Inr (User (e\<lparr>ue_variables := None\<rparr>))
    \<and> \<not> splits_into_threads (user_module_text e)"
proof -
  have n: "CHR ''@'' \<notin> set (ue_name e)" "\<not> splits_into_threads (ue_name e)"
    using assms by (auto simp: user_check_deliverable_def bindR_eq_Inr contains_str_single)
  have p: "user_parse_bare (user_module_text e) = Inr (e\<lparr>ue_variables := None\<rparr>)"
  proof -
    have "user_parse_bare (user_module_text e) = mapR (\<lambda>_. e\<lparr>ue_variables := None\<rparr>) (user_check_deliverable (e\<lparr>ue_variables := None\<rparr>))"
      using n(1) by (cases e; cases "ue_domain e")
        (simp_all add: user_parse_bare_def user_module_text_def after_prefix_def ends_with_def del: check_without_variables)
    with assms show ?thesis by simp
  qed
  have "\<not> splits_into_threads (user_module_text e)"
  proof (cases "ue_domain e")
    case None
    have "\<not> splits_into_threads (''user'' @ ''/'' @ ue_name e)" by (intro threads_segment n) (simp_all add: threads_simps)
    then show ?thesis using None by (simp add: user_module_text_def)
  next
    case (Some d)
    then have "\<not> splits_into_threads d" using assms by (auto simp: user_check_deliverable_def bindR_eq_Inr undeliverable_def split: if_splits)
    then have "\<not> splits_into_threads (''user'' @ ''/'' @ ue_name e @ ''@'' @ d)" by (intro threads_segment n) (simp_all add: threads_simps)
    then show ?thesis using Some by (simp add: user_module_text_def)
  qed
  with p show ?thesis
    by (cases "ue_domain e") (simp_all add: endpoint_parse_bare_def user_module_text_def starts_with_def)
qed

lemma audio_reads_back:
  assumes "audio_check_deliverable e = Inr ()" and "\<not> ends_with ''/'' pre" and "\<not> splits_into_threads pre"
  shows "audio_parse_bare (audio_module_text e pre) pre = Inr (e\<lparr>ae_variables := None\<rparr>)
    \<and> \<not> splits_into_threads (audio_module_text e pre)"
proof (cases "ae_destination e")
  case None
  moreover have "strip_prefix pre pre = Some []" "strip_prefix ''/'' [] = None" by simp_all
  ultimately show ?thesis
    using assms by (simp add: audio_parse_bare_def audio_module_text_def after_prefix_def audio_check_deliverable_def del: strip_prefix_Some)
next
  case (Some d)
  then have d: "d \<noteq> []" "\<not> splits_into_threads d"
    using assms(1) by (auto simp: audio_check_deliverable_def undeliverable_def split: if_splits)
  have "audio_parse_bare (audio_module_text e pre) pre = mapR (\<lambda>_. e\<lparr>ae_variables := None\<rparr>) (audio_check_deliverable (e\<lparr>ae_variables := None\<rparr>))"
    using Some d(1) by (cases e)
      (simp add: audio_parse_bare_def audio_module_text_def after_prefix_def starts_with_def del: check_without_variables)
  moreover have "\<not> splits_into_threads (pre @ ''/'' @ d)" using d(2) by (intro threads_segment assms(3)) simp_all
  ultimately show ?thesis using Some assms(1) by (simp add: audio_module_text_def)
qed

lemma expression_body_append [simp]: "expression_body pre (pre @ body @ '')}'') = Some body"
  using strip_suffix_append [of "'')}''" body] by (simp only: expression_body_def strip_prefix_append Option.bind.bind_lunit)

lemma contact_fields:
  assumes "contact_check_deliverable e = Inr ()"
  shows "CHR ''@'' \<notin> set (sc_user e)" "sc_profile e = None \<Longrightarrow> CHR ''/'' \<notin> set (sc_user e)"
    "CHR ''/'' \<notin> set (sc_domain e)" "sc_profile e = Some p \<Longrightarrow> CHR ''/'' \<notin> set p"
    "\<not> splits_into_threads (sc_user e)" "\<not> splits_into_threads (sc_domain e)" "sc_profile e = Some p \<Longrightarrow> \<not> splits_into_threads p"
  using assms
  by (auto simp: contact_check_deliverable_def contact_field_def bindR_eq_Inr undeliverable_def contains_str_single
      dest!: check_expression_field_Inr split: if_splits option.splits)

lemma contact_reads_back:
  assumes "contact_check_deliverable e = Inr ()"
  shows "endpoint_parse_bare (contact_module_text e) = Inr (SofiaContact (e\<lparr>sc_variables := None\<rparr>))
    \<and> \<not> splits_into_threads (contact_module_text e)"
proof -
  note f = contact_fields [OF assms]
  let ?body = "(case sc_profile e of Some p \<Rightarrow> p @ ''/'' | None \<Rightarrow> []) @ sc_user e @ ''@'' @ sc_domain e"
  have t: "contact_module_text e = ''${sofia_contact('' @ ?body @ '')}''"
    by (simp add: contact_module_text_def split: option.splits)
  have slash: "(case split_once (CHR ''/'') ?body of Some (p, rest) \<Rightarrow> (Some p, rest) | None \<Rightarrow> (None, ?body)) =
      (sc_profile e, sc_user e @ ''@'' @ sc_domain e)"
  proof (cases "sc_profile e")
    case None
    then show ?thesis using f(2,3) by simp
  next
    case (Some p)
    then show ?thesis using split_once_append [OF f(4) [OF Some], of "sc_user e @ ''@'' @ sc_domain e"] by simp
  qed
  have user: "split_once (CHR ''@'') (sc_user e @ ''@'' @ sc_domain e) = Some (sc_user e, sc_domain e)"
    using split_once_append [OF f(1), of "sc_domain e"] by simp
  have "contact_parse_bare (contact_module_text e) = mapR (\<lambda>_. e\<lparr>sc_variables := None\<rparr>) (contact_check_deliverable (e\<lparr>sc_variables := None\<rparr>))"
    unfolding contact_parse_bare_def t expression_body_append ok_or_simps bindR_simps Let_def slash split user
    by (cases e) (simp del: check_without_variables)
  then have "contact_parse_bare (contact_module_text e) = Inr (e\<lparr>sc_variables := None\<rparr>)" using assms by simp
  moreover have "\<not> splits_into_threads (contact_module_text e)"
  proof (cases "sc_profile e")
    case None
    have "\<not> splits_into_threads (''${sofia_contact'' @ ''('' @ sc_user e @ ''@'' @ sc_domain e @ '')'' @ ''}'')"
      by (intro threads_segment f(5,6)) (simp_all add: threads_simps)
    then show ?thesis using None by (simp add: contact_module_text_def)
  next
    case (Some p)
    have "\<not> splits_into_threads (''${sofia_contact'' @ ''('' @ p @ ''/'' @ sc_user e @ ''@'' @ sc_domain e @ '')'' @ ''}'')"
      by (intro threads_segment f(5,6) f(7) [OF Some]) (simp_all add: threads_simps)
    then show ?thesis using Some by (simp add: contact_module_text_def)
  qed
  ultimately show ?thesis by (simp add: endpoint_parse_bare_def t starts_with_def)
qed

lemma group_call_reads_back:
  assumes "group_call_check_deliverable e = Inr ()"
  shows "endpoint_parse_bare (group_call_module_text e) = Inr (GroupCall (e\<lparr>gc_variables := None\<rparr>))
    \<and> \<not> splits_into_threads (group_call_module_text e)"
proof -
  have f: "CHR ''+'' \<notin> set (gc_group e)" "CHR ''@'' \<notin> set (gc_group e)" "CHR ''+'' \<notin> set (gc_domain e)"
    "\<not> splits_into_threads (gc_group e)" "\<not> splits_into_threads (gc_domain e)"
    using assms by (auto simp: group_call_check_deliverable_def bindR_eq_Inr contains_str_single dest!: check_expression_field_Inr)
  let ?gd = "gc_group e @ ''@'' @ gc_domain e"
  let ?body = "?gd @ (case gc_order e of Some r \<Rightarrow> ''+'' @ group_call_order_as_str r | None \<Rightarrow> [])"
  have t: "group_call_module_text e = ''${group_call('' @ ?body @ '')}''"
    by (simp add: group_call_module_text_def split: option.splits)
  have "(case split_once (CHR ''+'') ?body of
         Some (gd, r) \<Rightarrow> mapR (\<lambda>r. (gd, Some r)) (map_errR UnknownGroupCallOrder (wire_from_str group_call_orders group_call_order_as_str r))
       | None \<Rightarrow> Inr (?body, None)) = Inr (?gd, gc_order e)"
  proof (cases "gc_order e")
    case None
    then show ?thesis using f by simp
  next
    case (Some r)
    have "CHR ''+'' \<notin> set ?gd" using f by simp
    from split_once_append [OF this, of "group_call_order_as_str r"] Some show ?thesis
      by (simp add: group_call_order.from_str_as_str)
  qed
  moreover have "split_once (CHR ''@'') ?gd = Some (gc_group e, gc_domain e)"
    using split_once_append [OF f(2), of "gc_domain e"] by simp
  ultimately have "group_call_parse_bare (group_call_module_text e) =
      mapR (\<lambda>_. e\<lparr>gc_variables := None\<rparr>) (group_call_check_deliverable (e\<lparr>gc_variables := None\<rparr>))"
    unfolding group_call_parse_bare_def t expression_body_append ok_or_simps bindR_simps
    by (simp only: bindR_simps split ok_or_simps Let_def) (cases e, simp del: check_without_variables)
  then have "group_call_parse_bare (group_call_module_text e) = Inr (e\<lparr>gc_variables := None\<rparr>)" using assms by simp
  moreover have "\<not> splits_into_threads (group_call_module_text e)"
  proof (cases "gc_order e")
    case None
    have "\<not> splits_into_threads (''${group_call'' @ ''('' @ gc_group e @ ''@'' @ gc_domain e @ '')'' @ ''}'')"
      by (intro threads_segment f(4,5)) (simp_all add: threads_simps)
    then show ?thesis using None by (simp add: group_call_module_text_def)
  next
    case (Some r)
    have "\<not> splits_into_threads (''${group_call'' @ ''('' @ gc_group e @ ''@'' @ gc_domain e @ ''+'' @ group_call_order_as_str r @ '')'' @ ''}'')"
      by (intro threads_segment f(4,5)) (cases r; simp_all add: threads_simps)+
    then show ?thesis using Some by (simp add: group_call_module_text_def)
  qed
  ultimately show ?thesis by (simp add: endpoint_parse_bare_def t starts_with_def)
qed

text \<open>
  The loopback endpoints whose text is their own: a dialplan comes with a context. A dialplan alone is
  written behind the default context.
\<close>

definition loopback_explicit :: "loopback_endpoint \<Rightarrow> bool" where
  "loopback_explicit e \<longleftrightarrow> lb_context e \<noteq> None \<or> lb_dialplan e = None"

lemma is_application_segment:
  assumes "\<not> is_application ext" and "CHR ''/'' \<notin> set ext"
  shows "\<not> is_application (ext @ CHR ''/'' # s)"
proof
  assume a: "is_application (ext @ CHR ''/'' # s)"
  show False
  proof (cases "4 \<le> length ext")
    case True
    then show False using a assms(1) by (simp add: is_application_def)
  next
    case False
    then have "CHR ''/'' \<in> set (take 4 (ext @ CHR ''/'' # s))" by (simp add: take_Cons' not_le)
    moreover have "to_ascii_lowercase (take 4 (ext @ CHR ''/'' # s)) = ''app=''"
      using a by (auto simp: is_application_def eq_ignore_ascii_case_def to_ascii_lowercase_def to_ascii_lower_def)
    ultimately have "to_ascii_lower (CHR ''/'') \<in> set ''app=''" by (metis image_eqI list.set_map to_ascii_lowercase_def)
    then show False by (simp add: to_ascii_lower_def)
  qed
qed

lemma loopback_reads_back:
  assumes "loopback_check_deliverable e = Inr ()" and "loopback_explicit e"
  shows "endpoint_parse_bare (loopback_module_text e) = Inr (Loopback (e\<lparr>lb_variables := None\<rparr>))
    \<and> \<not> splits_into_threads (loopback_module_text e)"
proof -
  let ?tail = "(case lb_context e of None \<Rightarrow> [] | Some c \<Rightarrow> ''/'' @ c @ (case lb_dialplan e of None \<Rightarrow> [] | Some d \<Rightarrow> ''/'' @ d))"
  have t: "loopback_module_text e = ''loopback/'' @ lb_extension e @ ?tail"
    using assms(2) by (auto simp: loopback_module_text_def loopback_explicit_def split: option.splits)
  let ?rest = "lb_extension e @ ?tail"
  let ?segs = "if is_application ?rest then [?rest] else splitn 3 (CHR ''/'') ?rest"
  have "(?segs = lb_extension e # (case lb_context e of None \<Rightarrow> [] | Some c \<Rightarrow> c # (case lb_dialplan e of None \<Rightarrow> [] | Some d \<Rightarrow> [d])))
    \<and> \<not> splits_into_threads (''loopback'' @ ''/'' @ ?rest)"
  proof (cases "is_application (lb_extension e)")
    case True
    then have n: "lb_context e = None" "lb_dialplan e = None" "\<not> splits_into_threads (lb_extension e)"
      using assms(1) by (auto simp: loopback_check_deliverable_def Let_def bindR_eq_Inr undeliverable_def split: if_splits option.splits)
    have "\<not> splits_into_threads (''loopback'' @ ''/'' @ lb_extension e)" by (intro threads_segment n) (simp_all add: threads_simps)
    with True n show ?thesis by simp
  next
    case False
    then have x: "CHR ''/'' \<notin> set (lb_extension e)" "\<not> splits_into_threads (lb_extension e)"
      using assms(1) by (auto simp: loopback_check_deliverable_def bindR_eq_Inr contains_str_single)
    have c: "CHR ''/'' \<notin> set c \<and> \<not> splits_into_threads c" if "lb_context e = Some c" for c
      using assms(1) that False by (auto simp: loopback_check_deliverable_def loopback_segment_def bindR_eq_Inr contains_str_single)
    have d: "\<not> splits_into_threads d" if "lb_dialplan e = Some d" for d
      using assms(1) that False by (auto simp: loopback_check_deliverable_def loopback_segment_def bindR_eq_Inr)
    have na: "\<not> is_application ?rest"
      using False is_application_segment [OF False x(1)] by (auto split: option.splits)
    show ?thesis
    proof (cases "lb_context e")
      case None
      have "\<not> splits_into_threads (''loopback'' @ ''/'' @ lb_extension e)" by (intro threads_segment x) (simp_all add: threads_simps)
      with None x na show ?thesis by (simp add: numeral_3_eq_3)
    next
      case (Some c')
      have "\<not> splits_into_threads (c' @ (case lb_dialplan e of None \<Rightarrow> [] | Some d \<Rightarrow> ''/'' @ d))"
        using c [OF Some] d threads_segment [of "CHR ''/''" c'] by (auto split: option.splits)
      then have "\<not> splits_into_threads (''loopback'' @ ''/'' @ lb_extension e @ ''/'' @ c' @ (case lb_dialplan e of None \<Rightarrow> [] | Some d \<Rightarrow> ''/'' @ d))"
        by (intro threads_segment x) (simp_all add: threads_simps)
      with Some x c [OF Some] na show ?thesis by (auto simp: numeral_3_eq_3 split: option.splits)
    qed
  qed
  then have segs: "?segs = lb_extension e # (case lb_context e of None \<Rightarrow> [] | Some c \<Rightarrow> c # (case lb_dialplan e of None \<Rightarrow> [] | Some d \<Rightarrow> [d]))"
    and nt: "\<not> splits_into_threads (''loopback'' @ ''/'' @ ?rest)" by auto
  have "loopback_parse_bare (loopback_module_text e) = mapR (\<lambda>_. e\<lparr>lb_variables := None\<rparr>) (loopback_check_deliverable (e\<lparr>lb_variables := None\<rparr>))"
    using assms(2) unfolding loopback_parse_bare_def t after_prefix_def strip_prefix_append option.case
    by (simp only: ends_with_append [of "''/''" "''loopback''", simplified] simp_thms if_True bindR_simps segs Let_def)
      (cases e, auto simp: loopback_explicit_def simp del: check_without_variables split: option.splits)
  then have "loopback_parse_bare (loopback_module_text e) = Inr (e\<lparr>lb_variables := None\<rparr>)" using assms(1) by simp
  then show ?thesis using nt by (simp add: endpoint_parse_bare_def t starts_with_def)
qed

lemma hangup_names_whole: "list_all (\<lambda>s. \<not> splits_into_threads s) (map (snd \<circ> snd) hangup_causes)"
  by code_simp

definition endpoint_wf :: "endpoint \<Rightarrow> bool" where
  "endpoint_wf e \<longleftrightarrow> (case e of Loopback l \<Rightarrow> loopback_explicit l | Error x \<Rightarrow> hangup_cause_wf (ee_cause x) | _ \<Rightarrow> True)"

text \<open>
  A deliverable endpoint reads back from its module text. Whatever its fields hold, an endpoint that passes its check
  is what the parse of its module text returns, without the variables, which are not part of that text; and
  the text never holds the separator on which the switch cuts a dial string into threads, although it is put
  together from several fields. Only a loopback dialplan without a context comes back with the default context.
\<close>

lemma module_text_reads_back:
  assumes "endpoint_check_deliverable e = Inr ()" and "endpoint_wf e"
  shows "endpoint_parse_bare (module_text e) = Inr (set_variables None e) \<and> \<not> splits_into_threads (module_text e)"
proof (cases e)
  case (Error x)
  have wf: "hangup_cause_wf (ee_cause x)" using assms(2) Error by (simp add: endpoint_wf_def)
  then have "hangup_cause_from_str (hangup_cause_as_str (ee_cause x)) = Inr (ee_cause x)" using hangup_cause_row by blast
  moreover have "\<not> splits_into_threads (hangup_cause_as_str (ee_cause x))"
    using wf hangup_names_whole by (auto simp: hangup_cause_wf_def list_all_iff)
  then have "\<not> splits_into_threads (''error'' @ ''/'' @ hangup_cause_as_str (ee_cause x))"
    by (intro threads_segment) (simp_all add: threads_simps)
  ultimately show ?thesis using Error by (simp add: endpoint_parse_bare_def error_from_str_def error_display_def starts_with_def)
next
  case (PortAudio a)
  then show ?thesis using assms(1) audio_reads_back [of a "''portaudio''"]
    by (cases "ae_destination a") (simp_all add: endpoint_parse_bare_def audio_module_text_def starts_with_def threads_simps ends_with_def)
next
  case (PulseAudio a)
  then show ?thesis using assms(1) audio_reads_back [of a "''pulseaudio''"]
    by (cases "ae_destination a") (simp_all add: endpoint_parse_bare_def audio_module_text_def starts_with_def threads_simps ends_with_def)
next
  case (Alsa a)
  then show ?thesis using assms(1) audio_reads_back [of a "''alsa''"]
    by (cases "ae_destination a") (simp_all add: endpoint_parse_bare_def audio_module_text_def starts_with_def threads_simps ends_with_def)
qed (use assms sofia_reads_back gateway_reads_back loopback_reads_back user_reads_back contact_reads_back group_call_reads_back
    in \<open>simp_all add: endpoint_wf_def\<close>)

end
