(* ===== verification/Originate_Function.thy ===== *)
theory Originate_Function
  imports Api_Argument Rust_Text
begin

text \<open>
  How the switch reads the target of an originate: the inline dialplan hunt
  (\<open>types switch_passes/inline_hunt.rs\<close>), with the rendering of an action list for it, and the positional arguments
  (\<open>switch_passes/originate_function.rs\<close>).
\<close>

section \<open>The inline hunt\<close>

definition DEFAULT_INLINE_DELIMITER :: rchar where
  "DEFAULT_INLINE_DELIMITER = '',''"

definition check_inline_delimiter :: "rchar \<Rightarrow> originate_error + unit" where
  "check_inline_delimiter delimiter =
     (if delimiter = '':'' \<or> breaks_a_split delimiter then Inl (InvalidInlineDelimiter delimiter) else Inr ())"

definition split_inline_prefix :: "string \<Rightarrow> rchar option \<times> string" where
  "split_inline_prefix s =
     (case s of
        m # c1 # delimiter # c2 # rest \<Rightarrow>
          if m = CHR ''m'' \<and> c1 = CHR '':'' \<and> c2 = CHR '':'' \<and> is_ascii delimiter
          then (Some [delimiter], rest) else (None, s)
      | _ \<Rightarrow> (None, s))"

definition INLINE_ACTIONS :: nat where
  "INLINE_ACTIONS = 128"

definition split_inline_actions :: "string \<Rightarrow> rchar \<Rightarrow> string list" where
  "split_inline_actions s delimiter =
     map (\<lambda>t. untrace (token_text t)) (sd_tokens (separate (trace s) delimiter INLINE_ACTIONS))"

definition render_inline :: "application list \<Rightarrow> rchar \<Rightarrow> string" where
  "render_inline apps delimiter =
     join delimiter (map (\<lambda>app. write_escaped delimiter (to_string_with_dialplan app Inline)) apps)"

section \<open>Positional arguments\<close>

definition UNDEF :: string where
  "UNDEF = ''undef''"

definition reads_as_application :: "string \<Rightarrow> bool" where
  "reads_as_application target = (case strip_prefix ''&'' target of None \<Rightarrow> False | Some rest \<Rightarrow> rest \<noteq> [])"

fun check_target_readable :: "originate_target \<Rightarrow> originate_error + unit" where
  "check_target_readable (Extension extension) =
     (if reads_as_application extension then Inl ExtensionReadsAsApplication else Inr ())"
| "check_target_readable (Application app) =
     (if contains_char (CHR ''('') (app_name app) \<or> contains_char (CHR '')'') (app_name app)
         \<or> (case app_args app of None \<Rightarrow> False | Some args \<Rightarrow> contains_char (CHR '')'') args)
      then Inl (ParenthesisInApplication (app_name app)) else Inr ())"
| "check_target_readable (InlineApplications _) = Inr ()"

definition undef_to_none :: "string \<Rightarrow> string option" where
  "undef_to_none value = (if eq_ignore_ascii_case value UNDEF then None else Some value)"

record slots =
  slot_target :: string
  slot_dialplan :: "dialplan option"
  slot_context :: "string option"
  slot_cid_name :: "string option"
  slot_cid_num :: "string option"
  slot_timeout :: "string option"

definition slots_read :: "string list \<Rightarrow> originate_error + slots" where
  "slots_read args =
     (let slot = (\<lambda>i. if i < length args then undef_to_none (args ! i) else None)
      in if args = [] then Inl (OriginateParseError ''missing target in originate'')
         else case slot 0 of
           None \<Rightarrow> Inl (UndefPositional ''target'')
         | Some target \<Rightarrow>
             if length args > 6 then Inl (OriginateParseError ''originate takes at most seven arguments'')
             else Inr \<lparr>slot_target = target, slot_dialplan = map_option dialplan_from_name (slot 1),
                    slot_context = slot 2, slot_cid_name = slot 3, slot_cid_num = slot 4, slot_timeout = slot 5\<rparr>)"

text \<open>One action of a hunt, as an application.\<close>

definition action_application :: "string \<Rightarrow> application" where
  "action_application action =
     (let part = dropWhile (\<lambda>c. c = SP) action
      in case split_once (CHR '':'') part of
           Some (n, a) \<Rightarrow> \<lparr>app_name = n, app_args = (if a = [] then None else Some a)\<rparr>
         | None \<Rightarrow> \<lparr>app_name = part, app_args = None\<rparr>)"

definition parse_originate_target :: "string \<Rightarrow> dialplan_type option \<Rightarrow> originate_error + originate_target" where
  "parse_originate_target s dialplan =
     (if reads_as_application s
      then bindR (ok_or (OriginateParseError ''missing closing paren'') (strip_suffix '')'' (tl s))) (\<lambda>rest.
           bindR (ok_or (OriginateParseError ''missing opening paren'') (split_once (CHR ''('') rest)) (\<lambda>(name, args).
             let target = Application \<lparr>app_name = name, app_args = (if args = [] then None else Some args)\<rparr>
             in mapR (\<lambda>_. target) (check_target_readable target)))
      else if dialplan = Some Inline
      then let (delimiter, s) = split_inline_prefix s;
               delimiter = unwrap_or DEFAULT_INLINE_DELIMITER delimiter
           in bindR (check_inline_delimiter delimiter) (\<lambda>_.
                case strip_prefix ''^^'' s of
                  Some rest \<Rightarrow>
                    if rest \<noteq> [] \<and> \<not> char_is_ascii (hd (chars rest)) then Inl (InvalidInlineDelimiter (hd (chars rest)))
                    else Inr (InlineApplications (map action_application (split_inline_actions s delimiter)))
                | None \<Rightarrow> Inr (InlineApplications (map action_application (split_inline_actions s delimiter))))
      else Inr (Extension s))"

section \<open>Action lists read back\<close>

lemma join_pieces_plain:
  assumes "sep_ok sep" and "list_all (\<lambda>ps. token_ok sep (cleanup_delim sep) ps \<and> list_all char_ok (writes ps)) pss"
  shows "map fst (trace (join sep (map (concat \<circ> writes) pss))) = join_with sep (map writes pss)"
    "plain_text (trace (join sep (map (concat \<circ> writes) pss)))"
proof -
  let ?w = "join sep (map (concat \<circ> writes) pss)"
  have sep: "char_ok sep" "sep \<noteq> NUL" using sep_ok_single [OF assms(1)] by simp_all
  have "chars (join sep (map concat (map writes pss))) = join_with sep (map writes pss)"
    using assms sep by (intro chars_join_with) (auto simp: list_all_iff)
  then show c: "map fst (trace ?w) = join_with sep (map writes pss)" by (simp add: comp_def)
  have "NUL \<notin> set (join_with sep (map writes pss))"
    using assms(2) sep by (intro join_with_no_NUL [of _ "cleanup_delim sep"]) (auto simp: list_all_iff)
  moreover have "\<forall>ps \<in> set pss. \<forall>c \<in> set (writes ps). char_ok c" using assms(2) by (simp add: list_all_iff)
  then have "\<forall>c \<in> set (join_with sep (map writes pss)). char_ok c"
    using sep(1) set_join_with [of sep "map writes pss"] by auto
  ultimately have "c \<in> set (map fst (trace ?w)) \<Longrightarrow> char_ok c \<and> c \<noteq> NUL" for c unfolding c by metis
  then show "plain_text (trace ?w)" unfolding plain_text_def by (intro conjI ballI) (simp_all del: map_fst_trace)
qed

lemma no_head:
  assumes "\<not> starts_with ''^^'' w"
  shows "argument_head (trace w) = Absent"
proof -
  have at: "char_at (trace w) i = (if i < length (chars w) then chars w ! i else NUL)" for i
    using nth_map [of i "trace w" fst] by (simp add: char_at_def)
  have "\<not> (char_at (trace w) 0 = ''^'' \<and> char_at (trace w) 1 = ''^'')"
  proof
    assume "char_at (trace w) 0 = ''^'' \<and> char_at (trace w) 1 = ''^''"
    then obtain cs where "chars w = ''^'' # ''^'' # cs"
      unfolding at by (cases "chars w"; cases "tl (chars w)"; simp split: if_splits)
    then have "w = ''^^'' @ concat cs" by (metis append_Cons append_Nil concat.simps(2) concat_chars)
    with assms show False by (simp add: starts_with_def)
  qed
  then show ?thesis by (auto simp: argument_head_def)
qed

lemma separate_pieces:
  assumes "sep_ok sep" and "sep \<noteq> SPACE" and "limit \<noteq> 0"
    and pss: "list_all (\<lambda>ps. token_ok sep (cleanup_delim sep) ps \<and> list_all char_ok (writes ps)) pss"
      "char_joinable limit pss"
    and head: "\<not> starts_with ''^^'' (join sep (map (concat \<circ> writes) pss))"
  shows "map (\<lambda>t. untrace (token_text t)) (sd_tokens (separate (trace (join sep (map (concat \<circ> writes) pss))) sep limit)) =
    map (concat \<circ> reads) pss"
proof -
  let ?ts = "trace (join sep (map (concat \<circ> writes) pss))"
  note j = join_pieces_plain [OF assms(1) pss(1)]
  have "delim_ok sep"
    using assms(1,2) sep_ok_cases [of sep] sep_ok_single [of sep] by (auto simp: delim_ok_def)
  from char_scanner [OF this, of limit]
  have scan: "token_scanner (\<lambda>ts. direct_cut ts sep limit) sep (cleanup_delim sep) (char_joinable limit)"
    using assms(2,3) by (simp add: direct_cut_def cleanup_delim_def)
  have ok: "list_all (token_ok sep (cleanup_delim sep)) pss" using pss(1) by (simp add: list_all_iff)
  have "separate ?ts sep limit = direct_separated 0 ?ts sep limit"
    using separate_refines [OF j(2), of sep limit] no_head [OF head] sep_ok_single [OF assms(1)] by simp
  then show ?thesis
    using token_scanner.texts_read_back [OF scan ok pss(2) j(1)] by (simp add: direct_separated_def comp_def)
qed

text \<open>An application an action can carry: a name without a colon, no empty arguments, text that can be an argument.\<close>

definition inline_app_ok :: "application \<Rightarrow> bool" where
  "inline_app_ok app \<longleftrightarrow> (let s = to_string_with_dialplan app Inline in
     arg_ok s \<and> s \<noteq> [] \<and> hd s \<noteq> SP \<and> CHR '':'' \<notin> set (app_name app) \<and> app_args app \<noteq> Some [])"

lemma action_application_of:
  assumes "inline_app_ok app"
  shows "action_application (to_string_with_dialplan app Inline) = app"
proof -
  let ?s = "to_string_with_dialplan app Inline"
  have d: "dropWhile (\<lambda>c. c = SP) ?s = ?s" using assms by (simp add: inline_app_ok_def Let_def dropWhile_eq_self_iff)
  have n: "CHR '':'' \<notin> set (app_name app)" "app_args app \<noteq> Some []" using assms by (simp_all add: inline_app_ok_def Let_def)
  show ?thesis
  proof (cases "app_args app")
    case None
    then have "split_once (CHR '':'') ?s = None" using n by simp
    then have "action_application ?s = \<lparr>app_name = ?s, app_args = None\<rparr>"
      unfolding action_application_def Let_def d by (simp del: split_once_None to_string_with_dialplan.simps)
    then show ?thesis using None by (cases app) simp
  next
    case (Some a)
    then have "split_once (CHR '':'') ?s = Some (app_name app, a)" using split_once_append [OF n(1), of a] by simp
    then have "action_application ?s = \<lparr>app_name = app_name app, app_args = Some a\<rparr>"
      using n(2) Some unfolding action_application_def Let_def d by (simp del: to_string_with_dialplan.simps)
    then show ?thesis using Some by (cases app) simp
  qed
qed

lemma space_breaks: "breaks_a_split SPACE"
  by (simp add: breaks_a_split_def is_ascii_graphic_def)

lemma inline_actions_read_back:
  assumes "check_inline_delimiter d = Inr ()" and "list_all inline_app_ok apps" and "length apps < INLINE_ACTIONS"
    and "\<not> starts_with ''^^'' (render_inline apps d)"
  shows "map action_application (split_inline_actions (render_inline apps d) d) = apps"
proof -
  have d: "sep_ok d" "d \<noteq> SPACE"
    using assms(1) space_breaks by (auto simp: check_inline_delimiter_def sep_ok_def split: if_splits)
  let ?s = "\<lambda>app. to_string_with_dialplan app Inline"
  have "\<exists>ps. write_escaped d (?s app) = concat (writes ps) \<and> list_all char_ok (writes ps) \<and> reads ps = chars (?s app)
      \<and> token_ok d (cleanup_delim d) ps \<and> ps \<noteq> []" if "app \<in> set apps" for app
    using that assms(2) write_escaped_pieces [OF d(1), of "?s app"] by (auto simp: list_all_iff inline_app_ok_def Let_def)
  then obtain f where f: "\<And>app. app \<in> set apps \<Longrightarrow> write_escaped d (?s app) = concat (writes (f app))
      \<and> list_all char_ok (writes (f app)) \<and> reads (f app) = chars (?s app) \<and> token_ok d (cleanup_delim d) (f app) \<and> f app \<noteq> []" by metis
  let ?pss = "map f apps"
  have r: "render_inline apps d = join d (map (concat \<circ> writes) ?pss)" using f by (simp add: render_inline_def cong: map_cong)
  have "map (\<lambda>t. untrace (token_text t)) (sd_tokens (separate (trace (render_inline apps d)) d INLINE_ACTIONS)) = map (concat \<circ> reads) ?pss"
    unfolding r
  proof (rule separate_pieces [OF d])
    show "char_joinable INLINE_ACTIONS ?pss"
      using assms(3) f by (auto simp: char_joinable_def last_map)
    show "\<not> starts_with ''^^'' (join d (map (concat \<circ> writes) ?pss))" using assms(4) r by simp
  qed (use f in \<open>auto simp: INLINE_ACTIONS_def list_all_iff\<close>)
  also have "\<dots> = map ?s apps" using f by simp
  finally have "split_inline_actions (render_inline apps d) d = map ?s apps" by (simp add: split_inline_actions_def)
  then show ?thesis using assms(2) by (simp add: action_application_of list_all_iff map_idI del: to_string_with_dialplan.simps)
qed

text \<open>The text of an inline target: the list, behind a prefix unless the comma separates it.\<close>

definition inline_target_text :: "application list \<Rightarrow> rchar \<Rightarrow> string" where
  "inline_target_text apps d =
     (if d = DEFAULT_INLINE_DELIMITER then render_inline apps d else ''m:'' @ d @ '':'' @ render_inline apps d)"

text \<open>What the head of a list would have the hunt read as something else.\<close>

definition inline_head_ok :: "application list \<Rightarrow> rchar \<Rightarrow> bool" where
  "inline_head_ok apps d \<longleftrightarrow> (let s = render_inline apps d in
     \<not> starts_with ''^^'' s
     \<and> (d = DEFAULT_INLINE_DELIMITER \<longrightarrow> \<not> reads_as_application s \<and> fst (split_inline_prefix s) = None))"

lemma split_inline_prefix_None: "fst (split_inline_prefix s) = None \<Longrightarrow> split_inline_prefix s = (None, s)"
  by (auto simp: split_inline_prefix_def split: list.splits if_splits)

lemma inline_target_reads_back:
  assumes "check_inline_delimiter d = Inr ()" and "list_all inline_app_ok apps" and "length apps < INLINE_ACTIONS"
    and "inline_head_ok apps d"
  shows "parse_originate_target (inline_target_text apps d) (Some Inline) = Inr (InlineApplications apps)"
    "fst (split_inline_prefix (inline_target_text apps d)) = (if d = DEFAULT_INLINE_DELIMITER then None else Some d)"
proof -
  let ?r = "render_inline apps d"
  have h: "\<not> starts_with ''^^'' ?r" using assms(4) by (simp add: inline_head_ok_def Let_def)
  have acts: "map action_application (split_inline_actions ?r d) = apps" by (rule inline_actions_read_back [OF assms(1-3) h])
  have pre: "split_inline_prefix (inline_target_text apps d) = (if d = DEFAULT_INLINE_DELIMITER then None else Some d, ?r)
    \<and> \<not> reads_as_application (inline_target_text apps d)"
  proof (cases "d = DEFAULT_INLINE_DELIMITER")
    case True
    then show ?thesis using assms(4) split_inline_prefix_None by (simp add: inline_target_text_def inline_head_ok_def Let_def)
  next
    case False
    have "sep_ok d" "d \<noteq> SPACE" using assms(1) space_breaks by (auto simp: check_inline_delimiter_def sep_ok_def split: if_splits)
    then obtain b where b: "d = [b]" "33 \<le> (of_char b :: nat)" "(of_char b :: nat) \<le> 126" using sep_okE by blast
    then show ?thesis using False
      by (simp add: inline_target_text_def split_inline_prefix_def is_ascii_def reads_as_application_def)
  qed
  then show "fst (split_inline_prefix (inline_target_text apps d)) = (if d = DEFAULT_INLINE_DELIMITER then None else Some d)" by simp
  have "strip_prefix ''^^'' ?r = None" using h by (simp only: starts_with_def simp_thms)
  with pre assms(1) acts show "parse_originate_target (inline_target_text apps d) (Some Inline) = Inr (InlineApplications apps)"
    by (cases "d = DEFAULT_INLINE_DELIMITER") (simp_all add: parse_originate_target_def)
qed

lemma application_reads_back:
  assumes "check_target_readable (Application app) = Inr ()" and "app_args app \<noteq> Some []"
  shows "parse_originate_target (to_string_with_dialplan app Xml) dp = Inr (Application app)"
proof -
  let ?args = "unwrap_or [] (app_args app)"
  have n: "CHR ''('' \<notin> set (app_name app)" using assms(1) by (auto simp: contains_char_def split: if_splits)
  have s: "to_string_with_dialplan app Xml = CHR ''&'' # (app_name app @ CHR ''('' # ?args) @ '')''" by simp
  have "reads_as_application (to_string_with_dialplan app Xml)" unfolding s by (simp add: reads_as_application_def)
  moreover have "strip_suffix '')'' ((app_name app @ CHR ''('' # ?args) @ '')'') = Some (app_name app @ CHR ''('' # ?args)"
    by (rule strip_suffix_append)
  moreover have "\<lparr>app_name = app_name app, app_args = (if ?args = [] then None else Some ?args)\<rparr> = app"
    using assms(2) by (cases app; cases "app_args app") auto
  ultimately show ?thesis
    unfolding parse_originate_target_def s list.sel using split_once_append [OF n, of ?args] assms(1)
    by (simp only: if_True ok_or_simps bindR_simps split Let_def mapR_simps)
qed

section \<open>Properties\<close>



end
