(* ===== verification/Originate.thy ===== *)
theory Originate
  imports Endpoint Originate_Function
begin

text \<open>
  The originate command: \<open>types commands/originate/mod.rs\<close>. A command is an endpoint, a target and positional
  arguments; it is rendered on blanks or on a separator that the line names, and parsed back from the line through
  the switch's own split.
\<close>

section \<open>The command\<close>

text \<open>A duration: whole seconds and nanoseconds.\<close>

type_synonym timeout = "nat \<times> nat"

record originate =
  or_endpoint :: endpoint
  or_target :: originate_target
  or_dialplan :: "dialplan option"
  or_context :: "string option"
  or_cid_name :: "string option"
  or_cid_num :: "string option"
  or_timeout :: "timeout option"
  or_inline_delimiter :: "rchar option"
  or_argv_separator :: "rchar option"

definition check_dialplan_fits :: "originate_target \<Rightarrow> dialplan option \<Rightarrow> originate_error + unit" where
  "check_dialplan_fits target dp =
     (let inline = (dp = Some (Typed Inline))
      in case target of
           Extension _ \<Rightarrow> if inline then Inl ExtensionWithInlineDialplan else Inr ()
         | InlineApplications _ \<Rightarrow> if dp \<noteq> None \<and> \<not> inline then Inl InlineApplicationsWithDialplan else Inr ()
         | Application _ \<Rightarrow> Inr ())"

definition originate_of :: "endpoint \<Rightarrow> originate_target \<Rightarrow> originate" where
  "originate_of e target = \<lparr>or_endpoint = e, or_target = target, or_dialplan = None, or_context = None, or_cid_name = None,
     or_cid_num = None, or_timeout = None, or_inline_delimiter = None, or_argv_separator = None\<rparr>"

definition originate_extension :: "endpoint \<Rightarrow> string \<Rightarrow> originate" where
  "originate_extension e extension = originate_of e (Extension extension)"

definition originate_application :: "endpoint \<Rightarrow> application \<Rightarrow> originate" where
  "originate_application e app = originate_of e (Application app)"

definition originate_inline :: "endpoint \<Rightarrow> application list \<Rightarrow> originate_error + originate" where
  "originate_inline e apps =
     (if apps = [] then Inl EmptyInlineApplications else Inr (originate_of e (InlineApplications apps)))"

definition inline_with_delimiter :: "endpoint \<Rightarrow> application list \<Rightarrow> rchar \<Rightarrow> originate_error + originate" where
  "inline_with_delimiter e apps delimiter =
     (if apps = [] then Inl EmptyInlineApplications
      else mapR (\<lambda>_. (originate_of e (InlineApplications apps))\<lparr>or_inline_delimiter := (if delimiter \<noteq> '','' then Some delimiter else None)\<rparr>)
             (check_inline_delimiter delimiter))"

definition originate_dial_target :: "block_parse \<Rightarrow> dial_target" where
  "originate_dial_target bp = with_block_parse bp (target_new EslApi)"

definition argv_target :: "block_parse \<Rightarrow> rchar \<Rightarrow> originate_error + dial_target" where
  "argv_target bp sep = map_errR InvalidArgvSeparator (with_argv_separator sep (originate_dial_target bp))"

definition originate_with_argv_separator :: "rchar \<Rightarrow> originate \<Rightarrow> originate_error + originate" where
  "originate_with_argv_separator sep r =
     mapR (\<lambda>_. r\<lparr>or_argv_separator := Some sep\<rparr>) (argv_target PairSplitCleans sep)"

definition with_dialplan :: "dialplan \<Rightarrow> originate \<Rightarrow> originate_error + originate" where
  "with_dialplan dp r = mapR (\<lambda>_. r\<lparr>or_dialplan := Some dp\<rparr>) (check_dialplan_fits (or_target r) (Some dp))"

definition originate_dialplan :: "dialplan_type \<Rightarrow> originate \<Rightarrow> originate_error + originate" where
  "originate_dialplan dp r = with_dialplan (Typed dp) r"

definition dialplan_raw :: "string \<Rightarrow> originate \<Rightarrow> originate_error + originate" where
  "dialplan_raw name r = with_dialplan (dialplan_from_name name) r"

definition originate_context :: "string \<Rightarrow> originate \<Rightarrow> originate" where
  "originate_context ctx r = r\<lparr>or_context := Some ctx\<rparr>"

definition cid_name :: "string \<Rightarrow> originate \<Rightarrow> originate" where
  "cid_name name r = r\<lparr>or_cid_name := Some name\<rparr>"

definition cid_num :: "string \<Rightarrow> originate \<Rightarrow> originate" where
  "cid_num num r = r\<lparr>or_cid_num := Some num\<rparr>"

definition originate_timeout :: "timeout \<Rightarrow> originate \<Rightarrow> originate" where
  "originate_timeout d r = r\<lparr>or_timeout := Some d\<rparr>"

definition set_dialplan :: "dialplan_type option \<Rightarrow> originate \<Rightarrow> originate" where
  "set_dialplan dp r = r\<lparr>or_dialplan := map_option Typed dp\<rparr>"

section \<open>Rendering\<close>

definition positional_slots :: "originate \<Rightarrow> string option list" where
  "positional_slots r =
     [(case (or_target r, or_dialplan r) of
         (InlineApplications _, None) \<Rightarrow> Some (wire_name Inline)
       | (_, dp) \<Rightarrow> map_option dialplan_name dp),
      or_context r, or_cid_name r, or_cid_num r, map_option (dec \<circ> fst) (or_timeout r)]"

text \<open>The slots through the last one that is set.\<close>

definition positional_tail :: "originate \<Rightarrow> string option list" where
  "positional_tail r = rev (dropWhile (\<lambda>s. s = None) (rev (positional_slots r)))"

definition write_arguments :: "originate \<Rightarrow> string \<Rightarrow> string" where
  "write_arguments r target =
     (let args = Some target # positional_tail r
      in concat (map (\<lambda>i. let s = unwrap_or UNDEF (args ! i) in
           case or_argv_separator r of
             None \<Rightarrow> SPACE @ originate_quote s
           | Some sep \<Rightarrow> if s = [] \<and> i = length args - 1 then sep @ QUOTE @ QUOTE else sep @ write_escaped sep s)
         [0..<length args]))"

definition target_text :: "originate \<Rightarrow> string" where
  "target_text r =
     (case or_target r of
        Extension ext \<Rightarrow> ext
      | Application app \<Rightarrow> to_string_with_dialplan app dialplan_type.Xml
      | InlineApplications apps \<Rightarrow> (case or_inline_delimiter r of
            Some delimiter \<Rightarrow> ''m:'' @ delimiter @ '':'' @ render_inline apps delimiter
          | None \<Rightarrow> render_inline apps DEFAULT_INLINE_DELIMITER))"

text \<open>\<open>None\<close> is a formatting error, when the separator is one that the target refuses.\<close>

definition originate_display_with :: "originate \<Rightarrow> block_parse \<Rightarrow> string option" where
  "originate_display_with r bp =
     (case or_argv_separator r of
        Some sep \<Rightarrow> (case argv_target bp sep of
            Inl _ \<Rightarrow> None
          | Inr t \<Rightarrow> Some (''originate ^^'' @ sep @ endpoint_display_for (or_endpoint r) t @ write_arguments r (target_text r)))
      | None \<Rightarrow> Some (''originate '' @ endpoint_display_for (or_endpoint r) (originate_dial_target bp) @ write_arguments r (target_text r)))"

section \<open>Parsing\<close>

definition originate_parse_with :: "string \<Rightarrow> block_parse \<Rightarrow> originate_error + originate" where
  "originate_parse_with s bp =
     (let s = trim_matches (\<lambda>c. [c] \<in> set STRIPPED_WHITESPACE) (unwrap_or s (strip_prefix ''originate'' s))
      in bindR (split_line s SPACE) (\<lambda>line.
           let sep = (if al_delimiter line \<noteq> SPACE then Some (al_delimiter line) else None)
           in bindR (case sep of Some sep \<Rightarrow> argv_target bp sep | None \<Rightarrow> Inr (originate_dial_target bp)) (\<lambda>t.
              case al_arguments line of
                [] \<Rightarrow> Inl (OriginateParseError ''empty originate'')
              | first # rest \<Rightarrow>
                  bindR (endpoint_parse_for (slice s (arg_raw first)) t) (\<lambda>e.
                  bindR (slots_read (map arg_text rest)) (\<lambda>sl.
                  bindR (parse_originate_target (slot_target sl) (Option.bind (slot_dialplan sl) dialplan_typed)) (\<lambda>target.
                  bindR (case slot_timeout sl of
                           None \<Rightarrow> Inr None
                         | Some value \<Rightarrow> (case parse_usize value of
                             Some secs \<Rightarrow> Inr (Some (secs, 0)) | None \<Rightarrow> Inl (InvalidTimeout value))) (\<lambda>timeout.
                  bindR (case target of
                           Extension ext \<Rightarrow> Inr (originate_extension e ext)
                         | Application app \<Rightarrow> Inr (originate_application e app)
                         | InlineApplications apps \<Rightarrow> originate_inline e apps) (\<lambda>r.
                    Inr (r\<lparr>or_inline_delimiter := (case target of
                             InlineApplications _ \<Rightarrow> fst (split_inline_prefix (slot_target sl)) | _ \<Rightarrow> or_inline_delimiter r),
                           or_dialplan := slot_dialplan sl, or_context := slot_context sl, or_cid_name := slot_cid_name sl,
                           or_cid_num := slot_cid_num sl, or_timeout := timeout, or_argv_separator := sep\<rparr>)))))))))"

end
