(* ===== verification/Dial_Leg.thy ===== *)
theory Dial_Leg
  imports Variables
begin

text \<open>
  How the passes of an originate read a dial string of one leg without blocks. The group and the leg
  split run in one buffer, the second over what the first left; a text that is a token for the split on
  the bar, and whose cleanup is a token for the split on the comma, arrives as one leg with the characters
  that the two cleanups read.
\<close>

section \<open>Cleanup keeps a text plain\<close>

lemma plain_text_append:
  "plain_text (a @ b) \<longleftrightarrow> plain_text a \<and> plain_text b \<and> (\<forall>x \<in> set a. \<forall>y \<in> set b. fst (snd x) < snd (snd y))"
  by (auto simp: plain_text_def ordered_def sorted_wrt_append)

lemma unescape_char_ok: "unescape c d = Some e \<Longrightarrow> char_ok c \<Longrightarrow> c \<noteq> NUL \<Longrightarrow> char_ok e \<and> e \<noteq> NUL"
  by (auto simp: unescape_def is_ascii_def split: if_splits)

lemma cleanup_loop_plain:
  "plain_text (out @ ts) \<Longrightarrow> plain_text (fst (cleanup_loop d q out stop ts))"
proof (induction d q out stop ts rule: cleanup_loop.induct)
  case (2 d q out stop c s e ts)
  show ?case
  proof (cases "if c = BACKSLASH \<and> ts \<noteq> []
      then map_option (\<lambda>e. (e, s, snd (snd (hd ts)))) (unescape (fst (hd ts)) d) else None")
    case None
    have "plain_text ((out @ [(c, s, e)]) @ ts)" "plain_text (out @ ts)" using "2.prems" by (auto simp: plain_text_append)
    with 2 None show ?thesis by (subst cleanup_loop.simps) auto
  next
    case (Some x)
    then obtain t ts' where t: "ts = t # ts'" by (cases ts) (auto split: if_splits)
    obtain c' s' e' where t': "t = (c', s', e')" by (cases t) auto
    have x: "x = (fst x, s, e')" "unescape c' d = Some (fst x)" using Some t t' by (auto split: if_splits)
    with unescape_char_ok [of c' d "fst x"] "2.prems" t t'
    have "plain_text ((out @ [x]) @ ts')" by (cases x) (auto simp: plain_text_append)
    with 2 Some t show ?thesis by (subst cleanup_loop.simps) auto
  qed
qed simp

lemma cleanup_plain:
  assumes "plain_text ts" shows "plain_text (cleanup ts d)"
proof -
  have "plain_text (skip_spaces ts)"
    using assms unfolding skip_spaces_def by (metis plain_text_appendD takeWhile_dropWhile_id)
  then have "plain_text (fst (cleanup_written ts d))" by (simp add: cleanup_written_def cleanup_loop_plain)
  then show ?thesis
    by (simp add: cleanup_def case_prod_beta) (metis append_take_drop_id plain_text_appendD)
qed

section \<open>Tokens in a buffer\<close>

text \<open>The pieces of a text as its buffer has them, one entry per byte.\<close>

fun buffer_atom :: "atom \<Rightarrow> atom list" where
  "buffer_atom (Chr c) = Chr c # replicate (length c - 1) (Chr CONTINUATION)"
| "buffer_atom (Hold c) = Hold c # replicate (length c - 1) (Chr CONTINUATION)"
| "buffer_atom (Esc e c) = [Esc e c]"

fun buffer_piece :: "piece \<Rightarrow> piece list" where
  "buffer_piece (Plain c) = Plain c # replicate (length c - 1) (Plain CONTINUATION)"
| "buffer_piece (Kept c) = Kept c # replicate (length c - 1) (Plain CONTINUATION)"
| "buffer_piece (Escape e c) = [Escape e c]"
| "buffer_piece (Quoted as) = [Quoted (concat (map buffer_atom as))]"

definition buffer_chars :: "rchar list \<Rightarrow> rchar list" where
  "buffer_chars cs = concat (map (\<lambda>c. c # replicate (length c - 1) CONTINUATION) cs)"

abbreviation buffer_pieces :: "piece list \<Rightarrow> piece list" where
  "buffer_pieces ps \<equiv> concat (map buffer_piece ps)"

lemma buffer_chars_simps [simp]:
  "buffer_chars [] = []" "buffer_chars (c # cs) = c # replicate (length c - 1) CONTINUATION @ buffer_chars cs"
  "buffer_chars (a @ b) = buffer_chars a @ buffer_chars b"
  by (simp_all add: buffer_chars_def)

lemma map_fst_expand: "map fst (expand ts) = buffer_chars (map fst ts)"
  by (induction ts) (simp_all add: expand1_def)

lemma run_writes_conts: "run_writes (replicate n (Chr CONTINUATION)) = replicate n CONTINUATION"
  and writes_conts: "writes (replicate n (Plain CONTINUATION)) = replicate n CONTINUATION"
  by (induction n) simp_all

lemma run_writes_buffer:
  assumes "list_all (atom_ok d) as" and "\<forall>x. d = Some x \<longrightarrow> length x = 1"
  shows "run_writes (concat (map buffer_atom as)) = buffer_chars (run_writes as)"
  using assms
proof (induction as)
  case (Cons a as)
  then show ?case
    using unescape_ascii [OF _ assms(2)] by (cases a) (simp_all add: run_writes_conts del: map_replicate)
qed simp

lemma writes_buffer:
  assumes "list_all (piece_ok sep d) ps" and "\<forall>x. d = Some x \<longrightarrow> length x = 1"
  shows "writes (buffer_pieces ps) = buffer_chars (writes ps)"
  using assms
proof (induction ps)
  case (Cons p ps)
  then show ?case
    using unescape_ascii [OF _ assms(2)] run_writes_buffer [OF _ assms(2)] by (cases p) (simp_all add: writes_conts)
qed simp

lemma buffer_ok:
  assumes "list_all (piece_ok sep d) ps" and "sep \<noteq> CONTINUATION"
  shows "list_all (piece_ok sep d) (buffer_pieces ps)"
proof -
  have a: "list_all (atom_ok d) (buffer_atom a)" if "atom_ok d a" for a using that by (cases a) (auto simp: list_all_iff)
  have "list_all (piece_ok sep d) (buffer_piece p)" if "piece_ok sep d p" for p
    using that a assms(2) by (cases p) (auto simp: list_all_iff)
  with assms(1) show ?thesis by (auto simp: list_all_iff)
qed

lemma buffer_holds: "sep \<noteq> CONTINUATION \<Longrightarrow> holds sep (buffer_pieces ps) = holds sep ps"
proof (induction ps)
  case (Cons p ps)
  have rep: "\<not> holds sep (replicate n (Plain CONTINUATION))" for n by (induction n) simp_all
  have "Chr sep \<in> set (buffer_atom a) \<longleftrightarrow> a = Chr sep" for a using Cons.prems by (cases a) auto
  then have "Chr sep \<in> set (concat (map buffer_atom as)) \<longleftrightarrow> Chr sep \<in> set as" for as by auto
  with Cons rep show ?case by (cases p) (simp_all del: set_concat)
qed simp

text \<open>A buffer that begins with a text and its terminator; what follows is left from earlier passes.\<close>

definition text_at :: "cbuffer \<Rightarrow> traced list \<Rightarrow> bool" where
  "text_at b ts \<longleftrightarrow> cb_c_str b 0 = expand ts \<and> length (expand ts) < length b"

lemma text_atD:
  assumes "text_at b ts" shows "\<exists>z rest. b = expand ts @ (NUL, z) # rest"
  using cb_c_str_split [of 0 b] assms by (auto simp: text_at_def)

lemma char_delim_buffer_token:
  assumes ps: "list_all (piece_ok d e) ps" "ps \<noteq> []" and w: "map fst w = writes ps"
    and d: "d \<notin> {BACKSLASH, QUOTE, NUL}" and "1 < limit"
  shows "char_delim (w @ (NUL, z) # rest) d limit =
    \<lparr>cut_spans = [(0, length w)], cut_held_delimiter = holds d ps, cut_open_quote = False\<rparr>"
proof -
  let ?v = "\<lparr>cs_spans = [], cs_begin = None, cs_inside_quotes = False, cs_held_delimiter = False\<rparr>"
  obtain c p w' where c: "w = (c, p) # w'" using ps(2) w by (cases w) auto
  then have "c \<in> set (map fst w)" by simp
  then have "c \<in> set (writes ps)" unfolding w .
  then have "c \<noteq> NUL" using writes_no_NUL [OF ps(1)] by metis
  with assms(5) have "char_delim_loop d limit 0 (w @ (NUL, z) # rest) ?v =
      char_delim_loop d limit 0 (w @ (NUL, z) # rest) (?v\<lparr>cs_begin := Some 0\<rparr>)"
    unfolding c by (simp add: char_delim_loop.simps(2))
  also have "\<dots> = (?v\<lparr>cs_begin := Some 0, cs_held_delimiter := holds d ps\<rparr>, Some (length w))"
    using char_delim_skip [OF ps(1) w, of "?v\<lparr>cs_begin := Some 0\<rparr>" 0 limit 0] d
    by (simp add: char_delim_loop.simps(2))
  finally show ?thesis by (simp add: char_delim_def)
qed

lemma split_one_token:
  assumes ts: "plain_text ts" "map fst ts = writes ps" and ps: "token_ok d (Some d) ps" "ps \<noteq> []"
    and d: "delim_ok d" "length d = 1" and "1 < limit" and b: "text_at b ts" and head: "fst (hd ts) \<noteq> ''^''"
  shows "\<exists>b'. cb_separate 0 d limit b =
      (\<lparr>sp_tokens = [\<lparr>tok_raw = (0, length (expand ts)), tok_start = 0\<rparr>], sp_delimiter = d, sp_held_delimiter = holds d ps,
        sp_open_quote = False, sp_unreadable_head = False\<rparr>, b')
    \<and> text_at b' (cleanup ts (Some d)) \<and> plain_text (cleanup ts (Some d)) \<and> map fst (cleanup ts (Some d)) = reads ps"
proof -
  obtain z rest where z: "b = expand ts @ (NUL, z) # rest" using text_atD [OF b] by auto
  have "length CONTINUATION = 2" by (simp add: CONTINUATION_def)
  then have ds: "d \<notin> {BACKSLASH, QUOTE, NUL, SPACE}" "d \<noteq> CONTINUATION" using d by (simp add: delim_ok_def, force)
  have ok: "list_all (piece_ok d (Some d)) ps" using ps(1) by (simp add: token_ok_def)
  have one: "\<forall>x. Some d = Some x \<longrightarrow> length x = 1" using d(2) by simp
  have bok: "list_all (piece_ok d (Some d)) (buffer_pieces ps)" "buffer_pieces ps \<noteq> []"
    "map fst (expand ts) = writes (buffer_pieces ps)" "holds d (buffer_pieces ps) = holds d ps"
  proof -
    show w: "map fst (expand ts) = writes (buffer_pieces ps)" unfolding map_fst_expand ts(2) by (rule writes_buffer [OF ok one, symmetric])
    show "buffer_pieces ps \<noteq> []"
    proof
      assume "buffer_pieces ps = []"
      with w have "expand ts = []" by simp
      then show False using ts(2) ps(2) by simp
    qed
  qed (rule buffer_ok [OF ok ds(2)], rule buffer_holds [OF ds(2)])
  have cut: "char_delim b d limit = \<lparr>cut_spans = [(0, length (expand ts))], cut_held_delimiter = holds d ps, cut_open_quote = False\<rparr>"
    unfolding z bok(4) [symmetric] using ds by (intro char_delim_buffer_token [OF bok(1,2,3)] assms(7)) auto
  have at: "char_at b (length (expand ts)) \<noteq> d" using ds(1) by (auto simp: z char_at_def)
  have str: "cb_c_str b 0 = expand ts" "0 + length (cb_c_str b 0) < length b" using b by (simp_all add: text_at_def)
  have tsn: "ts \<noteq> []" using ts(2) ps(2) by auto
  have ns: "skip_spaces (expand ts) = expand ts"
  proof -
    obtain c p w where "ts = (c, p) # w" "c \<noteq> SPACE" using token_first [OF ps ts(2)] by auto
    then show ?thesis by (cases p) (simp add: skip_spaces_def expand1_def)
  qed
  obtain start b' where b': "cb_cleanup 0 (Some d) b = (start, b')" "length b' = length b"
    "cb_c_str b' start = cleanup (cb_c_str b 0) (Some d)" "start + length (cb_c_str b' start) \<le> 0 + length (cb_c_str b 0)"
    using cb_cleanup_spec [OF str(2), of "Some d"] by auto
  have "fst (cb_cleanup 0 (Some d) b) = 0" by (simp add: cb_cleanup_def Let_def str(1) ns split_def)
  then have "start = 0" using b'(1) by simp
  then have t: "text_at b' (cleanup ts (Some d))"
    using b' str cleanup_buffer [OF ts(1) one] by (simp add: text_at_def)
  have "cb_split 0 d limit b = (\<lparr>sp_tokens = [\<lparr>tok_raw = (0, length (expand ts)), tok_start = 0\<rparr>], sp_delimiter = d,
      sp_held_delimiter = holds d ps, sp_open_quote = False, sp_unreadable_head = False\<rparr>, b')"
    using cut at b'(1) \<open>start = 0\<close> ds assms(7) by (simp add: cb_split_def Let_def)
  moreover have "argument_head (cb_c_str b 0) = Absent"
    using head tsn by (cases ts) (auto simp: str(1) argument_head_def char_at_def expand1_def)
  ultimately have "cb_separate 0 d limit b = (\<lparr>sp_tokens = [\<lparr>tok_raw = (0, length (expand ts)), tok_start = 0\<rparr>], sp_delimiter = d,
      sp_held_delimiter = holds d ps, sp_open_quote = False, sp_unreadable_head = False\<rparr>, b')"
    by (simp add: cb_separate_def)
  with t cleanup_plain [OF ts(1)] cleanup_token [OF ps(1) ts(2)] show ?thesis by blast
qed

section \<open>The comma scan\<close>

text \<open>The scan rewrites no comma that a backslash precedes.\<close>

definition commas_ok :: "rchar list \<Rightarrow> bool" where
  "commas_ok cs \<longleftrightarrow> (\<forall>p < length cs. cs ! p = '','' \<longrightarrow> 0 < p \<and> cs ! (p - 1) = BACKSLASH)"

lemma escape_commas_loop_id:
  assumes "commas_ok (map fst g)" shows "escape_commas_loop n fin quoted alt p g = g"
proof (induction n arbitrary: fin quoted alt p)
  case (Suc n)
  have "char_at g p = '','' \<Longrightarrow> p > 0 \<and> char_at g (p - 1) = BACKSLASH"
    using assms by (auto simp: commas_ok_def char_at_def split: if_splits)
  with Suc show ?case by (auto simp: Let_def)
qed simp

lemma commas_ok_append: "commas_ok a \<Longrightarrow> commas_ok b \<Longrightarrow> commas_ok (a @ b)"
  unfolding commas_ok_def
proof (intro allI impI)
  fix p assume ab: "\<forall>p < length a. a ! p = '','' \<longrightarrow> 0 < p \<and> a ! (p - 1) = BACKSLASH"
    "\<forall>p < length b. b ! p = '','' \<longrightarrow> 0 < p \<and> b ! (p - 1) = BACKSLASH" and p: "p < length (a @ b)" "(a @ b) ! p = '',''"
  show "0 < p \<and> (a @ b) ! (p - 1) = BACKSLASH"
  proof (cases "p < length a")
    case False
    then have "0 < p - length a \<and> b ! (p - length a - 1) = BACKSLASH"
      using ab(2) [rule_format, of "p - length a"] p by (simp add: nth_append)
    then show ?thesis using False by (auto simp: nth_append diff_diff_left add.commute)
  qed (use ab(1) p in \<open>auto simp: nth_append\<close>)
qed

lemma commas_ok_concat: "\<forall>c \<in> set css. commas_ok c \<Longrightarrow> commas_ok (concat css)"
  by (induction css) (auto simp: commas_ok_def [of "[]"] intro: commas_ok_append)

lemma commas_ok_simps [simp]: "commas_ok [c] \<longleftrightarrow> c \<noteq> '',''" "commas_ok [BACKSLASH, c]"
  by (auto simp: commas_ok_def less_Suc_eq)

lemma commas_escaped:
  assumes "list_all (piece_ok '','' d) ps" and "\<not> holds '','' ps"
  shows "commas_ok (writes ps)"
proof -
  have atom: "commas_ok (atom_writes a)" if "a \<noteq> Chr '',''" for a using that by (cases a) auto
  have "commas_ok (piece_writes p)" if p: "p \<in> set ps" for p
  proof (cases p)
    case (Quoted as)
    then have "Chr '','' \<notin> set as" using assms(2) p by (auto simp: holds_def list_ex_iff)
    then have "commas_ok (run_writes as)" using atom by (intro commas_ok_concat) (metis (mono_tags) imageE list.set_map)
    then show ?thesis using commas_ok_append [of "[QUOTE]" "run_writes as @ [QUOTE]"] commas_ok_append [of "run_writes as" "[QUOTE]"]
      by (simp add: Quoted)
  qed (use assms(1) p in \<open>auto simp: list_all_iff\<close>)
  then show ?thesis unfolding writes_def by (intro commas_ok_concat) auto
qed

lemma scan_group_id:
  assumes "plain_text ts" "map fst ts = writes ps" and "list_all (piece_ok '','' (Some '','')) ps" "\<not> holds '','' ps"
    and "text_at b ts"
  shows "scan_group 0 b = b"
proof -
  have "map fst (expand ts) = writes (buffer_pieces ps)"
    using assms(2) writes_buffer [OF assms(3)] by (simp add: map_fst_expand)
  moreover have "commas_ok (writes (buffer_pieces ps))"
    using buffer_ok [OF assms(3)] buffer_holds [of "'',''" ps] assms(4) by (intro commas_escaped) simp_all
  ultimately have "escape_block_commas (cb_c_str b 0) = cb_c_str b 0"
    using assms(5) by (simp add: escape_block_commas_def escape_commas_loop_id text_at_def)
  moreover obtain z rest where "b = expand ts @ (NUL, z) # rest" using text_atD [OF assms(5)] by auto
  ultimately show ?thesis using assms(5) by (simp add: scan_group_def text_at_def)
qed

section \<open>One leg\<close>

lemma hd_char_at:
  assumes "text_at b ts" and "ts \<noteq> []" shows "char_at b 0 = fst (hd ts)"
proof -
  obtain z rest where "b = expand ts @ (NUL, z) # rest" using text_atD [OF assms(1)] by auto
  with assms(2) show ?thesis by (cases ts) (simp_all add: char_at_def expand1_def)
qed

lemma leading_spaces_none: "ts \<noteq> [] \<Longrightarrow> fst (hd ts) \<noteq> SPACE \<Longrightarrow> leading_spaces (expand ts) = 0 \<and> skip_spaces (expand ts) = expand ts"
  by (cases ts) (simp_all add: leading_spaces_def skip_spaces_def expand1_def)

lemma untrace_expand: "plain_text ts \<Longrightarrow> untrace (expand ts) = concat (map fst ts)"
  using strip_expand [of ts] by (simp add: untrace_def strip_def plain_text_def)

lemma read_one_leg_plain:
  assumes "plain_text ts" "ts \<noteq> []" and "text_at b ts" and "fst (hd ts) \<notin> {''['', SPACE}"
  shows "read_one_leg 0 raw r b =
    Inr (\<lparr>leg_raw = raw, leg_blocks = [], leg_endpoint = concat (map fst ts)\<rparr>, r\<lparr>rd_legs := rd_legs r + 1\<rparr>, b)"
proof -
  have s: "cb_c_str b 0 = expand ts" "b \<noteq> []" using assms(3) by (auto simp: text_at_def)
  obtain n where n: "length b = Suc n" using s(2) by (cases b) auto
  note sp = leading_spaces_none [OF assms(2)]
  have "leg_blocks_loop (length b) (rd_block_parse r) (rd_legs r) [] 0 b = Inr (([], 0), b)"
    using hd_char_at [OF assms(3,2)] assms(4) n by simp
  then show ?thesis using sp assms(4) s untrace_expand [OF assms(1)] by (simp add: read_one_leg_def)
qed

lemma read_group_one:
  assumes ts: "plain_text ts" "map fst ts = writes ps" and ps: "token_ok '','' (Some '','') ps" "ps \<noteq> []" "\<not> holds '','' ps"
    and b: "text_at b ts" and head: "fst (hd ts) \<noteq> ''^''" "reads ps \<noteq> []" "hd (reads ps) \<notin> {''['', SPACE}"
  shows "\<exists>raw' r' b'. read_group 0 raw r b = Inr ([\<lparr>leg_raw = raw', leg_blocks = [], leg_endpoint = concat (reads ps)\<rparr>], r', b')"
proof -
  have ok: "list_all (piece_ok '','' (Some '','')) ps" using ps(1) by (simp add: token_ok_def)
  have id: "scan_group 0 b = b" by (rule scan_group_id [OF ts ok ps(3) b])
  let ?us = "cleanup ts (Some '','')"
  obtain b' where b': "cb_separate 0 '','' MAX_PEERS b =
      (\<lparr>sp_tokens = [\<lparr>tok_raw = (0, length (expand ts)), tok_start = 0\<rparr>], sp_delimiter = '','', sp_held_delimiter = holds '','' ps,
        sp_open_quote = False, sp_unreadable_head = False\<rparr>, b')"
    "text_at b' ?us" "plain_text ?us" "map fst ?us = reads ps"
    using split_one_token [OF ts ps(1,2) _ _ _ b head(1), of MAX_PEERS] by (auto simp: delim_ok_def is_ascii_def MAX_PEERS_def)
  have us: "?us \<noteq> []" "fst (hd ?us) \<notin> {''['', SPACE}" using b'(4) head(2,3) by (metis list.map_disc_iff hd_map)+
  show ?thesis
    using read_one_leg_plain [OF b'(3) us(1) b'(2) us(2)] b'(4)
    by (simp add: read_group_def id b'(1) Let_def)
qed

lemma new_buffer:
  assumes "plain_text ts" shows "text_at (cb_new ts) ts" and "text_at (cb_new (expand ts)) ts"
proof -
  have tx: "text_at (expand ts @ [(NUL, z), (NUL, z')]) ts" for z z'
    using expand_not_NUL [OF assms]
    by (auto simp: text_at_def intro!: cb_c_strI [of 0 _ _ "(NUL, z)" "[(NUL, z')]"])
  show "text_at (cb_new ts) ts" using with_origins_expand(1) [of ts] assms tx by (simp add: cb_new_def plain_text_def)
  have conts: "map fst (origin_entries k (replicate n (CONTINUATION, Suc e, e) @ us)) =
      replicate n (CONTINUATION, Suc e, e) @ map fst (origin_entries (k + n) us)" for k n e us
    by (induction n arbitrary: k) simp_all
  have again: "map fst (origin_entries k (expand us)) = expand us" if "plain_text us" for us k
    using that
  proof (induction us arbitrary: k)
    case (Cons e us)
    obtain c s f where e: "e = (c, s, f)" by (cases e) auto
    have us: "plain_text us" using Cons.prems e by simp
    have "\<not> is_continuation (hd (expand us))" if "us \<noteq> []"
      using that us ordered_not_continuation [of us "hd us"] hd_expand [of us] by (auto simp: plain_text_def)
    moreover have "is_continuation (CONTINUATION, Suc f, f)" by (simp add: is_continuation_def)
    ultimately show ?case
      using Cons.IH [OF us] conts [of "k + 1" "length c - 1" f "expand us"]
      by (cases "length c - 1 = 0") (auto simp: e expand1_def)
  qed simp
  have "fst (with_origins (expand ts)) = expand ts @ [(NUL, snd (extent (expand ts)), snd (extent (expand ts))),
      (NUL, snd (extent (expand ts)), snd (extent (expand ts)))]"
    using again [OF assms, of 0] by (simp add: with_origins_def Let_def)
  then show "text_at (cb_new (expand ts)) ts" using tx by (simp add: cb_new_def)
qed

text \<open>A text that stays one leg: a token of the group split whose cleanup is a token of the leg split.\<close>

definition one_leg :: "piece list \<Rightarrow> piece list \<Rightarrow> bool" where
  "one_leg ps qs \<longleftrightarrow> token_ok ''|'' (Some ''|'') ps \<and> ps \<noteq> [] \<and> reads ps = writes qs
     \<and> token_ok '','' (Some '','') qs \<and> qs \<noteq> [] \<and> \<not> holds '','' qs
     \<and> hd (writes ps) \<notin> {''^'', ''<'', ''{'', SPACE} \<and> hd (writes qs) \<noteq> ''^''
     \<and> reads qs \<noteq> [] \<and> hd (reads qs) \<notin> {''['', SPACE}"

lemma read_thread_one:
  assumes ts: "plain_text ts" "map fst ts = writes ps" and leg: "one_leg ps qs"
  shows "\<exists>t r' l. read_thread ts raw r = Inr (t, r') \<and> thread_blocks t = [] \<and> thread_groups t = [[l]]
    \<and> leg_blocks l = [] \<and> leg_endpoint l = concat (reads qs)"
proof -
  note leg = leg [unfolded one_leg_def]
  have tsn: "ts \<noteq> []" "fst (hd ts) = hd (writes ps)" using ts(2) leg by (metis list.map_disc_iff writes_Nil_iff, metis hd_map list.map_disc_iff writes_Nil_iff)
  let ?b = "cb_new ts"
  note b = new_buffer [OF ts(1)]
  have str: "cb_c_str ?b 0 = expand ts" "length (expand ts) < length ?b" using b(1) by (simp_all add: text_at_def)
  obtain n where n: "length ?b = Suc n" using str(2) by (cases "length ?b") auto
  have sp: "leading_spaces ts = 0" "leading_spaces (expand ts) = 0"
    using tsn leg leading_spaces_none [OF tsn(1)] by (cases ts; simp add: leading_spaces_def skip_spaces_def)+
  have "kinds_blocks [(''<'', ''>''), (''{'', ''}'')] leg bp ([], 0, 0) ?b = Inr (([], 0, 0), ?b)" for leg bp
    using hd_char_at [OF b(1) tsn(1)] tsn(2) leg n by simp
  then have h: "read_head_blocks ts [(''<'', ''>''), (''{'', ''}'')] leg bp =
      Inr \<lparr>hb_blocks = [], hb_text = ?b, hb_end = 0, hb_data = 0, hb_data_end = length (expand ts)\<rparr>" for leg bp
    by (simp add: read_head_blocks_def sp str)
  have data: "slice ?b (0, length (expand ts)) = expand ts"
    using text_atD [OF b(1)] by (auto simp: slice_def)
  let ?us = "cleanup ts (Some ''|'')"
  obtain b' where b': "split_groups (cb_new (expand ts)) =
      (\<lparr>sp_tokens = [\<lparr>tok_raw = (0, length (expand ts)), tok_start = 0\<rparr>], sp_delimiter = ''|'', sp_held_delimiter = holds ''|'' ps,
        sp_open_quote = False, sp_unreadable_head = False\<rparr>, b')"
    "text_at b' ?us" "plain_text ?us" "map fst ?us = writes qs"
    using split_one_token [OF ts, of "''|''" MAX_PEERS "cb_new (expand ts)"] leg b(2) tsn(2)
    by (auto simp: split_groups_def delim_ok_def is_ascii_def MAX_PEERS_def)
  have "?us \<noteq> []" "fst (hd ?us) \<noteq> ''^''" using b'(4) leg by (metis list.map_disc_iff writes_Nil_iff, metis hd_map list.map_disc_iff writes_Nil_iff)
  from read_group_one [OF b'(3,4) _ _ _ b'(2) this(2)] leg
  have g: "\<exists>raw' r' b''. read_group 0 raw0 r0 b' = Inr ([\<lparr>leg_raw = raw', leg_blocks = [], leg_endpoint = concat (reads qs)\<rparr>], r', b'')"
    for raw0 r0 by blast
  let ?r = "r\<lparr>rd_quote_spans_legs := rd_quote_spans_legs r \<or> holds ''|'' ps\<rparr>"
  let ?h = "\<lparr>hb_blocks = [], hb_text = ?b, hb_end = 0, hb_data = 0, hb_data_end = length (expand ts)\<rparr>"
  obtain raw' r' b'' where g: "read_group 0 (byte_range (take (length (expand ts)) ?b) raw (hb_span ?h 0 (0, length (expand ts)))) ?r b' =
      Inr ([\<lparr>leg_raw = raw', leg_blocks = [], leg_endpoint = concat (reads qs)\<rparr>], r', b'')" using g by blast
  show ?thesis
    using tsn(1) by (simp add: read_thread_def h data b'(1) Let_def g)
qed

text \<open>A text without the enterprise separator is one thread.\<close>

lemma read_dial_list_one:
  assumes "plain_text ts" "map fst ts = writes ps" and "one_leg ps qs" and "find_text ts ENTERPRISE_DELIM = None"
  shows "\<exists>l t leg. read_dial_list ts raw x bp = Inr l \<and> dl_blocks l = [] \<and> dl_threads l = [t] \<and> thread_blocks t = []
    \<and> thread_groups t = [[leg]] \<and> leg_blocks leg = [] \<and> leg_endpoint leg = concat (reads qs)"
proof -
  obtain t r' l where "read_thread ts raw \<lparr>rd_block_parse = bp, rd_legs = 0, rd_quote_spans_legs = False\<rparr> = Inr (t, r')"
    "thread_blocks t = []" "thread_groups t = [[l]]" "leg_blocks l = []" "leg_endpoint l = concat (reads qs)"
    using read_thread_one [OF assms(1-3)] by blast
  with assms(4) show ?thesis by (simp add: read_dial_list_def)
qed

end
