(* ===== verification/Dial_Layers.thy ===== *)
theory Dial_Layers
  imports Dial_Leg
begin

text \<open>
  The layers of a dial string. The render of a text doubles every backslash once per pass and escapes
  quotes, commas, bars and a space at the end so that each pass consumes one layer: the argument split, the split into
  groups and the split into legs. A layer is a list of atoms, and each reads as the text of the next.
\<close>

section \<open>Atoms as pieces\<close>

fun piece_of :: "atom \<Rightarrow> piece" where
  "piece_of (Chr c) = Plain c"
| "piece_of (Esc e c) = Escape e c"
| "piece_of (Hold c) = Kept c"

lemma piece_of_simps [simp]:
  "piece_writes (piece_of a) = atom_writes a" "piece_reads (piece_of a) = atom_reads a"
  "writes (map piece_of as) = run_writes as" "reads (map piece_of as) = run_reads as"
  by (cases a; simp)+ (induction as, simp, case_tac a, simp_all)+

lemma atoms_hold [simp]: "\<not> holds sep (map piece_of as)"
proof (induction as)
  case (Cons a as)
  then show ?case by (cases a) simp_all
qed simp

lemma atoms_token_ok:
  assumes "list_all (atom_ok d) as" and "Chr sep \<notin> set as" and "as \<noteq> [] \<Longrightarrow> hd as \<noteq> Chr SPACE \<and> last as \<noteq> Chr SPACE"
  shows "token_ok sep d (map piece_of as)" "token_ok sep d [Quoted as]"
proof -
  have "piece_ok sep d (piece_of a)" if "a \<in> set as" for a
    using that assms(1,2) by (cases a rule: atom.exhaust) (auto simp: list_all_iff)
  moreover have "piece_of a = Plain SPACE \<longleftrightarrow> a = Chr SPACE" for a by (cases a) auto
  ultimately show "token_ok sep d (map piece_of as)"
    using assms(3) by (auto simp: token_ok_def list_all_iff hd_map last_map)
  show "token_ok sep d [Quoted as]" using assms(1) by (simp add: token_ok_def)
qed

section \<open>The layers of a module text\<close>

text \<open>What one character is in the text in front of the last \<open>k\<close> passes: the argument split, the groups, the legs.\<close>

definition layer_delim :: "nat \<Rightarrow> rchar option" where
  "layer_delim k = (if k = 1 then Some '','' else if k = 2 then Some ''|'' else None)"

definition layer_char :: "nat \<Rightarrow> rchar \<Rightarrow> atom list" where
  "layer_char k c =
     (if c = BACKSLASH then replicate (2 ^ (k - 1)) (Esc BACKSLASH BACKSLASH)
      else if c = QUOTE then replicate (2 ^ (k - 1) - 1) (Esc BACKSLASH BACKSLASH) @ [Esc QUOTE QUOTE]
      else if c = '','' then (if k = 1 then [Esc c c] else [Hold c])
      else if c = ''|'' then (if k = 1 then [Chr c] else if k = 2 then [Esc c c] else [Hold c])
      else [Chr c])"

text \<open>A space at the end, which the splits would trim.\<close>

definition layer_space :: "nat \<Rightarrow> atom list" where
  "layer_space k = (if k = 1 then [Esc ''s'' SPACE] else replicate (2 ^ (k - 2)) (Esc BACKSLASH BACKSLASH) @ [Chr ''s''])"

definition layer :: "nat \<Rightarrow> rchar list \<Rightarrow> atom list" where
  "layer k cs = (if cs \<noteq> [] \<and> last cs = SPACE then concat (map (layer_char k) (butlast cs)) @ layer_space k
     else concat (map (layer_char k) cs))"

lemma run_append [simp]: "run_writes (as @ bs) = run_writes as @ run_writes bs" "run_reads (as @ bs) = run_reads as @ run_reads bs"
  by simp_all

lemma layer_char_steps:
  "run_reads (layer_char 1 c) = [c]" "run_reads (layer_char 2 c) = run_writes (layer_char 1 c)"
  "run_reads (layer_char 3 c) = run_writes (layer_char 2 c)"
  by (simp_all add: layer_char_def numeral_eq_Suc)

lemma layer_space_steps:
  "run_reads (layer_space 1) = [SPACE]" "run_reads (layer_space 2) = run_writes (layer_space 1)"
  "run_reads (layer_space 3) = run_writes (layer_space 2)"
  by (simp_all add: layer_space_def numeral_eq_Suc)

lemma layer_chars_steps:
  "run_reads (concat (map (layer_char 1) cs)) = cs"
  "run_reads (concat (map (layer_char 2) cs)) = run_writes (concat (map (layer_char 1) cs))"
  "run_reads (concat (map (layer_char 3) cs)) = run_writes (concat (map (layer_char 2) cs))"
  by (induction cs) (simp_all only: list.map concat.simps run_append layer_char_steps append_Nil append_Cons)

lemma layer_steps:
  "run_reads (layer 1 cs) = cs" "run_reads (layer 2 cs) = run_writes (layer 1 cs)"
  "run_reads (layer 3 cs) = run_writes (layer 2 cs)"
proof -
  have "butlast cs @ [SPACE] = cs" if "cs \<noteq> []" "last cs = SPACE" using that append_butlast_last_id by metis
  then show "run_reads (layer 1 cs) = cs" "run_reads (layer 2 cs) = run_writes (layer 1 cs)"
    "run_reads (layer 3 cs) = run_writes (layer 2 cs)"
    unfolding layer_def by (cases "cs \<noteq> [] \<and> last cs = SPACE";
      simp only: if_True if_False run_append layer_chars_steps layer_space_steps simp_thms)+
qed

lemma layer_ok:
  assumes "k \<in> {1, 2, 3}" and "NUL \<notin> set cs"
  shows "list_all (atom_ok (layer_delim k)) (layer k cs)" "layer_delim k = Some d \<Longrightarrow> Chr d \<notin> set (layer k cs)"
proof -
  have nul: "c \<noteq> NUL" if "c \<in> set cs" for c using that assms(2) by metis
  have "list_all (atom_ok (layer_delim k)) (layer_char k c)" if "c \<noteq> NUL" for c
    using that assms(1) by (auto simp: layer_char_def layer_delim_def unescape_def held_def list_all_iff)
  then have "list_all (atom_ok (layer_delim k)) (layer_char k c)" if "c \<in> set cs" for c using that nul by metis
  then have "list_all (atom_ok (layer_delim k)) (concat (map (layer_char k) ds))" if "set ds \<subseteq> set cs" for ds
    using that by (auto simp: list_all_iff)
  moreover have "list_all (atom_ok (layer_delim k)) (layer_space k)"
    using assms(1) by (auto simp: layer_space_def layer_delim_def unescape_def list_all_iff)
  moreover have "set (butlast cs) \<subseteq> set cs" by (auto dest: in_set_butlastD)
  ultimately show "list_all (atom_ok (layer_delim k)) (layer k cs)" unfolding layer_def by simp
  have "Chr d \<notin> set (layer_char k c)" "Chr d \<notin> set (layer_space k)" if "layer_delim k = Some d" for c
    using that assms(1) by (auto simp: layer_char_def layer_space_def layer_delim_def split: if_splits)
  then show "layer_delim k = Some d \<Longrightarrow> Chr d \<notin> set (layer k cs)" by (auto simp: layer_def)
qed

lemma layer_char_edge: "c \<noteq> SPACE \<Longrightarrow> layer_char k c \<noteq> [] \<and> hd (layer_char k c) \<noteq> Chr SPACE \<and> last (layer_char k c) \<noteq> Chr SPACE"
  by (auto simp: layer_char_def hd_append hd_replicate)


lemma layer_edges:
  assumes "cs \<noteq> []" and "hd cs \<noteq> SPACE" and "k \<in> {1, 2, 3}"
  shows "layer k cs \<noteq> []" "hd (layer k cs) \<noteq> Chr SPACE" "last (layer k cs) \<noteq> Chr SPACE"
    "hd (run_writes (layer k cs)) \<in> {BACKSLASH, hd cs}"
proof -
  obtain c ds where cs: "cs = c # ds" using assms(1) by (cases cs) auto
  have c: "c \<noteq> SPACE" using assms(2) cs by simp
  obtain es x where l: "layer k cs = concat (map (layer_char k) (c # es)) @ x"
    and x: "x = [] \<and> es = ds \<and> last (c # es) \<noteq> SPACE \<or> x = layer_space k"
  proof (cases "last cs = SPACE")
    case True
    then have "ds \<noteq> []" using cs c by auto
    with True cs show thesis by (intro that [of "butlast ds" "layer_space k"]) (simp_all add: layer_def)
  next
    case False
    with cs show thesis by (intro that [of ds "[]"]) (simp_all add: layer_def)
  qed
  note e = layer_char_edge [OF c, of k]
  show "layer k cs \<noteq> []" "hd (layer k cs) \<noteq> Chr SPACE" using l e by simp_all
  have w: "hd (run_writes (layer_char k c)) \<in> {BACKSLASH, c}" "run_writes (layer_char k c) \<noteq> []"
    by (auto simp: layer_char_def hd_append hd_concat hd_replicate)
  have "run_writes (layer k cs) = run_writes (layer_char k c) @ run_writes (concat (map (layer_char k) es) @ x)" using l by simp
  then have "hd (run_writes (layer k cs)) = hd (run_writes (layer_char k c))" using w(2) by (simp only: hd_append2 not_False_eq_True)
  then show "hd (run_writes (layer k cs)) \<in> {BACKSLASH, hd cs}" using w(1) cs by simp
  show "last (layer k cs) \<noteq> Chr SPACE"
  proof (cases "x = layer_space k")
    case True
    then show ?thesis using l by (simp add: layer_space_def)
  next
    case False
    then have "last (c # es) \<noteq> SPACE" "x = []" using x by auto
    moreover have "last (concat (map (layer_char k) (ys @ [y]))) = last (layer_char k y)" if "y \<noteq> SPACE" for ys y
      using layer_char_edge [OF that, of k] by simp
    ultimately show ?thesis using l layer_char_edge [of "last (c # es)" k] by (metis append_Nil2 append_butlast_last_id list.distinct(1))
  qed
qed

lemma layer_writes_ok:
  assumes "list_all char_ok cs" shows "list_all char_ok (run_writes (layer k cs))"
proof -
  have "list_all char_ok (run_writes (layer_char k c))" if "char_ok c" for c
    using that by (auto simp: layer_char_def list_all_iff is_ascii_def)
  moreover have "list_all char_ok (run_writes (layer_space k))" by (auto simp: layer_space_def list_all_iff is_ascii_def)
  moreover have "set (butlast cs) \<subseteq> set cs" by (auto dest: in_set_butlastD)
  ultimately show ?thesis using assms unfolding layer_def by (auto simp: list_all_iff)
qed

text \<open>The first characters that a pass would take for something else.\<close>

definition leg_start_ok :: "rchar list \<Rightarrow> bool" where
  "leg_start_ok cs \<longleftrightarrow> cs \<noteq> [] \<and> hd cs \<notin> {''^'', ''<'', ''{'', ''['', SPACE}"

lemma layers_one_leg:
  assumes "leg_start_ok cs" and "NUL \<notin> set cs"
  shows "one_leg (map piece_of (layer 2 cs)) (map piece_of (layer 1 cs))" "one_leg [Quoted (layer 2 cs)] (map piece_of (layer 1 cs))"
proof -
  have cs: "cs \<noteq> []" "hd cs \<notin> {''^'', ''<'', ''{'', ''['', SPACE}" "hd cs \<noteq> SPACE" using assms(1) by (auto simp: leg_start_ok_def)
  note e1 = layer_edges [OF cs(1,3), of 1, simplified] and e2 = layer_edges [OF cs(1,3), of 2, simplified]
  note ok1 = layer_ok [OF _ assms(2), of 1] and ok2 = layer_ok [OF _ assms(2), of 2]
  have d: "layer_delim 1 = Some '',''" "layer_delim 2 = Some ''|''" by (simp_all add: layer_delim_def)
  have t1: "token_ok '','' (Some '','') (map piece_of (layer 1 cs))" 
    using ok1 e1 d by (auto intro!: atoms_token_ok)
  have t2: "token_ok ''|'' (Some ''|'') (map piece_of (layer 2 cs))" "token_ok ''|'' (Some ''|'') [Quoted (layer 2 cs)]"
    using ok2 e2 d by (auto intro!: atoms_token_ok)
  show "one_leg (map piece_of (layer 2 cs)) (map piece_of (layer 1 cs))" "one_leg [Quoted (layer 2 cs)] (map piece_of (layer 1 cs))"
    unfolding one_leg_def using t1 t2 e1 e2 cs layer_steps(1,2) [of cs] by auto
qed

section \<open>What the render writes\<close>

text \<open>What the replacements of \<open>escape_text\<close> make of one byte of an endpoint, with \<open>k\<close> passes ahead.\<close>

definition leg_byte :: "nat \<Rightarrow> char \<Rightarrow> string" where
  "leg_byte k b =
     (if b = CHR 0x5C then replicate (2 ^ k) (CHR 0x5C)
      else if b = CHR 0x27 then replicate (2 ^ k - 1) (CHR 0x5C) @ QUOTE
      else if b = CHR '','' \<or> b = CHR ''|'' then BACKSLASH @ [b] else [b])"

lemma replace_char_Cons: "replace_char c r (x # xs) = (if x = c then r else [x]) @ replace_char c r xs"
  by (simp add: replace_char_def)

lemma replacements:
  "replace_char (CHR ''|'') (BACKSLASH @ ''|'') (replace_char (CHR '','') (BACKSLASH @ '','')
     (replace_char (CHR 0x27) (replicate n (CHR 0x5C) @ QUOTE) (replace_char (CHR 0x5C) (replicate j (CHR 0x5C)) m))) =
   concat (map (\<lambda>b. if b = CHR 0x5C then replicate j (CHR 0x5C)
      else if b = CHR 0x27 then replicate n (CHR 0x5C) @ QUOTE
      else if b = CHR '','' \<or> b = CHR ''|'' then BACKSLASH @ [b] else [b]) m)"
proof (induction m)
  case (Cons x xs)
  have absent: "replace_char c r (replicate i (CHR 0x5C)) = replicate i (CHR 0x5C)" if "c \<noteq> CHR 0x5C" for c r i
    using that by (intro replace_char_absent) auto
  have single: "replace_char c r [x] = (if x = c then r else [x])" for c r x by (simp add: replace_char_def)
  show ?case
    by (simp add: replace_char_Cons absent single Cons.IH [symmetric])
qed (simp add: replace_char_def)

lemma replicate_pairs: "concat (run_writes (replicate n (Esc BACKSLASH BACKSLASH))) = replicate (2 * n) (CHR 0x5C)"
  by (induction n) simp_all

lemma layer_char_text:
  assumes "char_ok c" and "1 < k"
  shows "concat (run_writes (layer_char k c)) = concat (map (leg_byte k) c)"
proof (cases "length c = 1")
  case True
  then obtain b where b: "c = [b]" by (cases c) auto
  have two: "2 * 2 ^ (k - 1) = (2 ^ k :: nat)" using assms(2) by (cases k) simp_all
  have "2 * (2 ^ (k - 1) - 1) = (2 ^ k - 2 :: nat)" using two by (simp add: diff_mult_distrib2)
  moreover have "replicate (2 ^ k - 2) x @ [x] = replicate (2 ^ k - 1) x" for x :: char
  proof -
    have "(2 ^ k - 1 :: nat) = Suc (2 ^ k - 2)" using two one_le_power [of "2 :: nat" "k - 1"] by linarith
    then show ?thesis by (simp add: replicate_append_same)
  qed
  ultimately have quote: "replicate (2 * (2 ^ (k - 1) - 1)) (CHR 0x5C) @ BACKSLASH @ QUOTE = replicate (2 ^ k - 1) (CHR 0x5C) @ QUOTE"
    by (metis append.assoc)
  consider "b = CHR 0x5C" | "b = CHR 0x27" | "b \<in> {CHR '','', CHR ''|''}" | "b \<notin> {CHR 0x5C, CHR 0x27, CHR '','', CHR ''|''}" by blast
  then show ?thesis
  proof cases
    case 1
    then have "layer_char k c = replicate (2 ^ (k - 1)) (Esc BACKSLASH BACKSLASH)" by (simp add: layer_char_def b)
    then show ?thesis using 1 by (simp only: replicate_pairs two) (simp add: b leg_byte_def)
  next
    case 2
    then have "layer_char k c = replicate (2 ^ (k - 1) - 1) (Esc BACKSLASH BACKSLASH) @ [Esc QUOTE QUOTE]" by (simp add: layer_char_def b)
    then have "concat (run_writes (layer_char k c)) = replicate (2 * (2 ^ (k - 1) - 1)) (CHR 0x5C) @ BACKSLASH @ QUOTE"
      by (simp only: run_append concat_append replicate_pairs) simp
    then show ?thesis using 2 unfolding quote by (simp add: b leg_byte_def)
  next
    case 3
    then show ?thesis using assms(2) by (auto simp: b layer_char_def leg_byte_def)
  next
    case 4
    then show ?thesis by (simp add: b layer_char_def leg_byte_def)
  qed
next
  case False
  have "leg_byte k b = [b]" if "b \<in> set c" for b
    using char_bytes_not_ascii [OF assms(1) False that] by (auto simp: leg_byte_def is_ascii_def)
  then have "concat (map (leg_byte k) c) = c" by (induction c) auto
  moreover have "layer_char k c = [Chr c]" using False by (auto simp: layer_char_def)
  ultimately show ?thesis by simp
qed

lemma layer_chars_text:
  assumes "list_all char_ok cs" and "1 < k"
  shows "concat (run_writes (concat (map (layer_char k) cs))) = concat (map (leg_byte k) (concat cs))"
  using assms(1) layer_char_text [OF _ assms(2)] by (induction cs) simp_all

lemma leg_byte_ends: "leg_byte k b \<noteq> []" "hd (leg_byte k b) = SP \<longleftrightarrow> b = SP" "last (leg_byte k b) = SP \<longleftrightarrow> b = SP"
  by (auto simp: leg_byte_def hd_append)

lemma last_char_space:
  assumes "utf8_valid m" and "m \<noteq> []" shows "last (chars m) = SPACE \<longleftrightarrow> last m = SP"
proof -
  have cs: "chars m \<noteq> []" "list_all char_ok (chars m)" using assms chars_ok by simp_all
  then have c: "char_ok (last (chars m))" by (simp add: list_all_iff)
  have "m = concat (butlast (chars m)) @ last (chars m)" using cs(1) by (metis append_butlast_last_id concat_append concat.simps concat_chars append_Nil2)
  moreover have "last (chars m) \<noteq> []" using c by (simp add: char_ok_def)
  ultimately have l: "last m = last (last (chars m))" by (metis last_appendR)
  show ?thesis
  proof (cases "length (last (chars m)) = 1")
    case True
    then show ?thesis unfolding l by (cases "last (chars m)") auto
  next
    case False
    then have "\<not> is_ascii (last (last (chars m)))" using char_bytes_not_ascii [OF c False] \<open>last (chars m) \<noteq> []\<close> by simp
    then show ?thesis unfolding l using False by (auto simp: is_ascii_def)
  qed
qed

lemma escape_endpoint_text:
  assumes m: "arg_ok m" "m \<noteq> []" "hd m \<noteq> SP" and t: "dt_carrier t = EslApi" and k: "passes t FieldEndpoint = k" "1 < k"
  shows "escape_text m t FieldEndpoint = (let s = concat (run_writes (layer k (chars m)))
    in if contains_char SP s then QUOTE @ s @ QUOTE else s)"
proof -
  let ?e = "\<lambda>s. concat (map (leg_byte k) s)"
  have v: "utf8_valid m" and cs: "list_all char_ok (chars m)" using m(1) chars_ok by (simp_all add: arg_ok_def)
  have ex: "expands (dt_carrier t) = False" using t by simp
  have esc: "escape_text m t FieldEndpoint = (let e = ?e m;
      e = (case strip_prefix SPACE e of Some rest \<Rightarrow> space_escape t FieldEndpoint @ rest | None \<Rightarrow> e);
      e = (case strip_suffix SPACE e of Some rest \<Rightarrow> rest @ space_escape t FieldEndpoint | None \<Rightarrow> e)
      in if contains_char SP e then QUOTE @ e @ QUOTE else e)"
    using replacements [of "2 ^ k - 1" "2 ^ k" m]
    by (simp add: escape_text_def quote_escape_def backslash_escape_def quote_bare_after_def protects_dollars_def ex k(1) Let_def
        leg_byte_def [abs_def] cong: option.case_cong)
  obtain b bs where mb: "m = b # bs" "b \<noteq> SP" using m(2,3) by (cases m) auto
  have "?e m \<noteq> []" "hd (?e m) \<noteq> SP" using mb leg_byte_ends [of k b] by simp_all
  then have pre: "strip_prefix SPACE (?e m) = None" by (cases "?e m") simp_all
  have space: "space_escape t FieldEndpoint = concat (run_writes (layer_space k))"
  proof -
    have "2 * 2 ^ (k - 2) = (2 ^ (k - 1) :: nat)" using k(2) by (cases k; cases "k - 1") simp_all
    then show ?thesis using k by (simp add: space_escape_def layer_space_def replicate_pairs del: map_replicate)
  qed
  have suf: "(case strip_suffix SPACE (?e m) of Some rest \<Rightarrow> rest @ space_escape t FieldEndpoint | None \<Rightarrow> ?e m) =
      concat (run_writes (layer k (chars m)))"
  proof (cases "last m = SP")
    case True
    then have sp: "last (chars m) = SPACE" using last_char_space [OF v m(2)] by simp
    have "butlast m @ [SP] = m" using True m(2) by (metis append_butlast_last_id)
    moreover have "?e (butlast m @ [SP]) = ?e (butlast m) @ SPACE" by (simp add: leg_byte_def)
    ultimately have "?e m = ?e (butlast m) @ SPACE" by simp
    moreover have "concat (butlast (chars m)) = butlast m"
      using sp m(2) by (metis append_butlast_last_id butlast_snoc chars_Nil_iff concat.simps concat_append concat_chars append_Nil2)
    moreover have "list_all char_ok (butlast (chars m))" using cs by (auto simp: list_all_iff dest: in_set_butlastD)
    ultimately show ?thesis
      using sp m(2) layer_chars_text [of "butlast (chars m)" k] k(2) space by (simp add: layer_def)
  next
    case False
    then have sp: "last (chars m) \<noteq> SPACE" using last_char_space [OF v m(2)] by simp
    have "last (?e (butlast m @ [last m])) = last (leg_byte k (last m))" using leg_byte_ends(1) by simp
    then have "last (?e m) = last (leg_byte k (last m))" using m(2) by simp
    then have "last (?e m) \<noteq> SP" "?e m \<noteq> []" using leg_byte_ends False \<open>?e m \<noteq> []\<close> by simp_all
    then have "strip_suffix SPACE (?e m) = None" by (cases "strip_suffix SPACE (?e m)") auto
    then show ?thesis using sp layer_chars_text [OF cs, of k] k(2) by (simp add: layer_def)
  qed
  show ?thesis unfolding esc Let_def pre option.case suf by (rule refl)
qed

section \<open>The enterprise separator\<close>

text \<open>A pattern of characters that the layers leave alone is in a layer only if it is in the text.\<close>

lemma pattern_in_concat:
  assumes "\<And>c. f c = [c] \<or> f c \<noteq> [] \<and> set (f c) \<inter> set p = {}" and "\<And>c. c \<in> set p \<Longrightarrow> f c = [c]" and "p \<noteq> []"
    and "concat (map f cs) = x @ p @ y"
  shows "\<exists>u v. cs = u @ p @ v"
  using assms(4)
proof (induction cs arbitrary: x)
  case (Cons c cs)
  show ?case
  proof (cases "length (f c) \<le> length x")
    case True
    then obtain x' where "x = f c @ x'" using Cons.prems by (metis append_eq_append_conv_if append_take_drop_id concat.simps(2) list.map(2))
    with Cons.prems have "concat (map f cs) = x' @ p @ y" by simp
    from Cons.IH [OF this] show ?thesis by (metis append_Cons)
  next
    case False
    let ?h = "hd p"
    have h: "p = ?h # tl p" "?h \<in> set p" using assms(3) by simp_all
    have "f c @ concat (map f cs) = x @ ?h # tl p @ y" using Cons.prems h(1) by (metis append_Cons concat.simps(2) list.map(2))
    then have "(f c @ concat (map f cs)) ! length x = ?h" by simp
    then have "f c ! length x = ?h" using False by (simp add: nth_append)
    then have "?h \<in> set (f c)" using False by (metis not_le_imp_less nth_mem)
    then have fc: "f c = [c]" using assms(1) [of c] h(2) by blast
    then have x: "x = []" using False by (cases x) simp_all
    have "p = take (length p) (c # cs)"
    proof -
      have pre: "q = take (length q) ds" if "set q \<subseteq> set p" "concat (map f ds) = q @ z" for q ds z
        using that
      proof (induction q arbitrary: ds)
        case (Cons a q)
        then obtain d es where ds: "ds = d # es" by (cases ds) auto
        have "hd (f d @ concat (map f es)) = a" using Cons.prems(2) ds by simp
        then have "a \<in> set (f d)" using assms(1) [of d] by (cases "f d") auto
        then have "f d = [d]" using assms(1) [of d] Cons.prems(1) by auto
        then show ?case using Cons ds by auto
      qed simp
      show ?thesis by (rule pre [of p _ y]) (use Cons.prems x in auto)
    qed
    then show ?thesis by (metis append_Nil append_take_drop_id)
  qed
qed (use assms(3) in simp)

lemma pattern_in_append:
  assumes "a @ b = x @ p @ y" and "set b \<inter> set p = {}" and "p \<noteq> []"
  shows "\<exists>z. a = x @ p @ z"
proof (cases "length x + length p \<le> length a")
  case True
  have "a = take (length a) (x @ p @ y)" using assms(1) by (metis append_eq_conv_conj)
  then show ?thesis using True by (simp add: take_append) (metis le_add1 le_trans take_all_iff)
next
  case False
  obtain q l where p: "p = q @ [l]" using assms(3) by (cases p rule: rev_cases) auto
  let ?i = "length x + length q"
  have i: "length a \<le> ?i" "?i < length (a @ b)" using False p unfolding assms(1) by simp_all
  have "(a @ b) ! ?i = l" unfolding assms(1) p by (simp add: nth_append)
  then have "b ! (?i - length a) = l" "?i - length a < length b" using i by (simp_all add: nth_append)
  then have "l \<in> set b" using nth_mem by metis
  then have "l \<in> set b \<inter> set p" using p by simp
  then show ?thesis using assms(2) by simp
qed

lemma find_text_None:
  assumes "\<And>x y. map fst ts \<noteq> x @ chars p @ y" shows "find_text ts p = None"
proof -
  have "map fst (take n (drop i ts)) \<noteq> chars p" for i n
  proof
    assume "map fst (take n (drop i ts)) = chars p"
    moreover have "ts = take i ts @ take n (drop i ts) @ drop n (drop i ts)" by (metis append_take_drop_id)
    ultimately have "map fst ts = map fst (take i ts) @ chars p @ map fst (drop n (drop i ts))" by (metis map_append)
    then show False using assms by blast
  qed
  then show ?thesis by (simp add: find_text_def Let_def find_None_iff)
qed

lemma ENTERPRISE_chars: "chars ENTERPRISE_DELIM = ['':'', ''_'', '':'']"
  by (simp add: ENTERPRISE_DELIM_def chars_ascii_Cons is_ascii_def)

lemma run_concat: "run_writes (concat (map g cs)) = concat (map (\<lambda>c. run_writes (g c)) cs)"
  by (induction cs) simp_all

lemma layer_one_thread:
  assumes "\<not> splits_into_threads (concat cs)" and "w = run_writes (layer k cs) \<or> w = QUOTE # run_writes (layer k cs) @ [QUOTE]"
    and "map fst ts = w"
  shows "find_text ts ENTERPRISE_DELIM = None"
proof (rule find_text_None, rule notI)
  fix x y
  let ?p = "['':'', ''_'', '':'']" let ?f = "\<lambda>c. run_writes (layer_char k c)"
  assume "map fst ts = x @ chars ENTERPRISE_DELIM @ y"
  then have w: "w = x @ ?p @ y" using assms(3) by (simp only: ENTERPRISE_chars)
  have "\<exists>x z. run_writes (layer k cs) = x @ ?p @ z"
  proof (cases "w = run_writes (layer k cs)")
    case False
    then have q: "QUOTE # (run_writes (layer k cs) @ [QUOTE]) = x @ ?p @ y" using assms(2) w by simp
    then obtain x' where "x = QUOTE # x'" by (cases x) auto
    with q have "run_writes (layer k cs) @ [QUOTE] = x' @ ?p @ y" by simp
    from pattern_in_append [OF this] show ?thesis by auto
  qed (use w in blast)
  then obtain x z where run: "run_writes (layer k cs) = x @ ?p @ z" by blast
  have "\<exists>ds es x z. cs = ds @ es \<and> concat (map ?f ds) = x @ ?p @ z"
  proof (cases "cs \<noteq> [] \<and> last cs = SPACE")
    case True
    have "concat (map ?f (butlast cs)) @ run_writes (layer_space k) = x @ ?p @ z"
      using run True by (simp add: layer_def run_concat)
    moreover have "set (run_writes (layer_space k)) \<inter> set ?p = {}" by (auto simp: layer_space_def)
    ultimately obtain z' where "concat (map ?f (butlast cs)) = x @ ?p @ z'" using pattern_in_append by blast
    then show ?thesis by (metis True append_butlast_last_id)
  next
    case False
    have "concat (map ?f cs) = x @ ?p @ z" using run unfolding layer_def if_not_P [OF False] run_concat .
    then show ?thesis by (metis append_Nil2)
  qed
  then obtain ds es x z where ds: "cs = ds @ es" "concat (map ?f ds) = x @ ?p @ z" by blast
  have "\<exists>u v. ds = u @ ?p @ v"
    by (rule pattern_in_concat [OF _ _ _ ds(2)]) (auto simp: layer_char_def)
  then obtain u v where "cs = u @ ?p @ v @ es" using ds(1) by auto
  then have "concat cs = concat u @ '':_:'' @ concat (v @ es)" by simp
  moreover have "contains_str '':_:'' '':_:''" by (simp add: contains_str_def starts_with_def)
  ultimately have "contains_str '':_:'' (concat cs)" using contains_str_append by metis
  then show False using assms(1) by (simp add: splits_into_threads_def ENTERPRISE_DELIM_def)
qed

section \<open>One leg read back\<close>

lemma plain_trace: "arg_ok s \<Longrightarrow> plain_text (trace s)"
proof -
  assume s: "arg_ok s"
  have "char_ok c \<and> c \<noteq> NUL" if "c \<in> set (map fst (trace s))" for c
    using that s chars_ok [of s] unfolding map_fst_trace arg_ok_def list_all_iff by metis
  then show ?thesis by (simp add: plain_text_def del: map_fst_trace)
qed

lemma leg_reads_back:
  assumes m: "arg_ok m" "leg_start_ok (chars m)" "\<not> splits_into_threads m"
    and t: "dt_carrier t = EslApi" "dt_argument t = Consumed"
    and w: "s = concat (run_writes (layer 2 (chars m)))" "w = s \<or> w = QUOTE @ s @ QUOTE"
  shows "read_leg w t = Inr (None, m)"
proof -
  let ?cs = "chars m"
  have cs: "list_all char_ok ?cs" "NUL \<notin> set ?cs" using m(1) chars_ok by (simp_all add: arg_ok_def)
  note ok = layers_one_leg [OF m(2) cs(2)]
  obtain ps where ps: "chars w = writes ps" "one_leg ps (map piece_of (layer 1 ?cs))"
    "writes ps = run_writes (layer 2 ?cs) \<or> writes ps = QUOTE # run_writes (layer 2 ?cs) @ [QUOTE]"
  proof (cases "w = s")
    case True
    then show thesis using ok(1) layer_writes_ok [OF cs(1), of 2] w(1)
      by (intro that [of "map piece_of (layer 2 ?cs)"]) (simp_all add: chars_concat)
  next
    case False
    then have "w = concat (writes [Quoted (layer 2 ?cs)])" using w by auto
    moreover have "list_all char_ok (writes [Quoted (layer 2 ?cs)])" using layer_writes_ok [OF cs(1), of 2] by (simp add: is_ascii_def)
    ultimately have "chars w = writes [Quoted (layer 2 ?cs)]" by (simp only: chars_concat)
    then show thesis using ok(2) by (intro that [of "[Quoted (layer 2 ?cs)]"]) simp_all
  qed
  have "arg_ok w"
    unfolding arg_ok_def
  proof
    have "list_all char_ok (writes ps)" using ps(3) layer_writes_ok [OF cs(1), of 2] by (auto simp: is_ascii_def)
    then show "utf8_valid w" using ps(1) valid_concat [of "writes ps"] concat_chars [of w] by simp
    show "NUL \<notin> set (chars w)" unfolding ps(1)
      by (rule writes_no_NUL [of "''|''" "Some ''|''"]) (use ps(2) in \<open>simp add: one_leg_def token_ok_def\<close>)
  qed
  then have ts: "plain_text (trace w)" "map fst (trace w) = writes ps" using plain_trace ps(1) by simp_all
  have one: "find_text (trace w) ENTERPRISE_DELIM = None"
    by (rule layer_one_thread [OF _ ps(3) ts(2)]) (use m(3) in simp)
  obtain l th leg where l: "read_dial_list (trace w) (extent (trace w)) False (dt_block_parse t) = Inr l" "dl_blocks l = []"
    "dl_threads l = [th]" "thread_blocks th = []" "thread_groups th = [[leg]]" "leg_blocks leg = []"
    "leg_endpoint leg = concat (reads (map piece_of (layer 1 ?cs)))"
    using read_dial_list_one [OF ts ps(2) one] by blast
  have "split_argument t (trace w) = None" using t by (simp add: split_argument_def split_delimiter_def)
  then have "pipeline_read w t = Inr l" using l(1) t by (simp add: pipeline_read_def pipeline_api_argument_def Let_def)
  then show ?thesis using l layer_steps(1) [of ?cs] by (simp add: read_leg_def)
qed

text \<open>The rendered layers are themselves texts a line can carry.\<close>

lemma leg_start_bytes:
  assumes "arg_ok m" and "leg_start_ok (chars m)" shows "m \<noteq> []" "hd m \<noteq> SP"
proof -
  obtain c ds where c: "chars m = c # ds" "char_ok c" "c \<noteq> SPACE"
    using assms chars_ok [of m] by (cases "chars m") (auto simp: leg_start_ok_def arg_ok_def)
  then have "m = c @ concat ds" using concat_chars [of m] by simp
  moreover have "c \<noteq> []" "hd c \<noteq> SP" using char_ok_head [OF c(2,3)] by (simp_all add: is_ascii_def)
  ultimately show "m \<noteq> []" "hd m \<noteq> SP" by auto
qed

lemma layer_arg_ok:
  assumes "arg_ok m" and "leg_start_ok (chars m)"
  defines "s \<equiv> concat (run_writes (layer 2 (chars m)))"
  shows "chars s = run_writes (layer 2 (chars m))" "arg_ok s" "arg_ok (QUOTE @ s @ QUOTE)" "s \<noteq> []"
proof -
  let ?cs = "chars m"
  have cs: "list_all char_ok ?cs" "NUL \<notin> set ?cs" "?cs \<noteq> []" "hd ?cs \<noteq> SPACE"
    using assms(1,2) chars_ok by (simp_all add: arg_ok_def leg_start_ok_def)
  have ws: "list_all char_ok (run_writes (layer 2 ?cs))" using layer_writes_ok [OF cs(1)] by simp
  show c: "chars s = run_writes (layer 2 ?cs)" unfolding s_def using ws by (rule chars_concat)
  have n: "NUL \<notin> set (run_writes (layer 2 ?cs))" using run_no_NUL [OF layer_ok(1) [OF _ cs(2), of 2]] by simp
  then show "arg_ok s" unfolding arg_ok_def c using valid_concat [OF ws] s_def by simp
  have q: "list_all char_ok (QUOTE # run_writes (layer 2 ?cs) @ [QUOTE])" using ws by (simp add: is_ascii_def)
  have w: "QUOTE @ s @ QUOTE = concat (QUOTE # run_writes (layer 2 ?cs) @ [QUOTE])" by (simp add: s_def)
  then have "chars (QUOTE @ s @ QUOTE) = QUOTE # run_writes (layer 2 ?cs) @ [QUOTE]" using chars_concat [OF q] by simp
  then show "arg_ok (QUOTE @ s @ QUOTE)" unfolding arg_ok_def using n valid_concat [OF q] w by simp
  show "s \<noteq> []"
  proof
    assume "s = []"
    then have "run_writes (layer 2 ?cs) = []" using c by simp
    then show False using layer_edges(1) [OF cs(3,4), of 2] by (cases "layer 2 ?cs"; cases "hd (layer 2 ?cs)" rule: atom.exhaust) simp_all
  qed
qed

text \<open>The argument split of a blank line consumes the outermost layer.\<close>

lemma blank_layer_read:
  assumes m: "arg_ok m" "leg_start_ok (chars m)" and t: "dt_carrier t = EslApi" "dt_argument t = Blank"
  shows "read_argument t (escape_text m t FieldEndpoint) =
    Inr (concat (run_writes (layer 2 (chars m))), t\<lparr>dt_argument := Consumed\<rparr>)"
proof -
  let ?cs = "chars m" let ?as = "layer 3 ?cs" let ?s = "concat (run_writes (layer 2 ?cs))" let ?w = "concat (run_writes ?as)"
  have cs: "list_all char_ok ?cs" "NUL \<notin> set ?cs" "?cs \<noteq> []" "hd ?cs \<noteq> SPACE" "hd ?cs \<noteq> ''^''"
    using m chars_ok by (simp_all add: arg_ok_def leg_start_ok_def)
  note mne = leg_start_bytes [OF m]
  have "passes t FieldEndpoint = 3" using t by (simp add: passes_def argument_passes_def LEG_SPLIT_PASSES_def)
  then have esc: "escape_text m t FieldEndpoint = (if contains_char SP ?w then QUOTE @ ?w @ QUOTE else ?w)"
    using escape_endpoint_text [OF m(1) mne t(1), of 3] by (simp add: Let_def)
  note e = layer_edges [OF cs(3,4), of 3, simplified] and ok = layer_ok [OF _ cs(2), of 3]
  have d: "layer_delim 3 = None" "cleanup_delim SPACE = None" by (simp_all add: layer_delim_def cleanup_delim_def)
  have ws: "list_all char_ok (run_writes ?as)" using layer_writes_ok [OF cs(1)] by simp
  note s = layer_arg_ok(1,2) [OF m]
  obtain ps where ps: "written_as SPACE ?s (escape_text m t FieldEndpoint) ps" "\<not> (\<exists>qs. ps = Plain ''^'' # Plain ''^'' # qs)"
  proof (cases "contains_char SP ?w")
    case True
    have "token_ok SPACE None [Quoted ?as]" using ok d by (simp add: token_ok_def)
    then have "written_as SPACE ?s (escape_text m t FieldEndpoint) [Quoted ?as]"
      using True esc ws s(1) layer_steps(3) [of ?cs] d(2) by (simp add: written_as_def is_ascii_def)
    then show thesis by (rule that) (metis list.inject piece.distinct(5) piece.distinct(6))
  next
    case False
    have "Chr SPACE \<notin> set ?as"
    proof
      assume "Chr SPACE \<in> set ?as"
      then have "SPACE \<in> set (run_writes ?as)" by (force intro: bexI [of _ "Chr SPACE"])
      then have "SP \<in> set ?w" by force
      with False show False by (simp add: contains_char_def)
    qed
    then have "token_ok SPACE None (map piece_of ?as)" using ok d e by (intro atoms_token_ok) auto
    then have "written_as SPACE ?s (escape_text m t FieldEndpoint) (map piece_of ?as)"
      using False esc ws s(1) layer_steps(3) [of ?cs] d(2) e(1) by (simp add: written_as_def)
    moreover have "\<not> (\<exists>qs. map piece_of ?as = Plain ''^'' # Plain ''^'' # qs)"
    proof (rule notI, elim exE)
      fix qs assume "map piece_of ?as = Plain ''^'' # Plain ''^'' # qs"
      from arg_cong [OF this, of "\<lambda>ps. hd (writes ps)"] have "hd (run_writes ?as) = ''^''" by simp
      then show False using e(4) cs(5) by auto
    qed
    ultimately show thesis by (rule that)
  qed
  have "target_wf t" "split_delimiter t = Some SPACE" using t by (simp_all add: target_wf_def split_delimiter_def)
  from written_argument_read [OF this s(2) ps(1)] ps(2) show ?thesis by simp
qed

text \<open>At every API target the rendering of a text is read as one leg with that text.\<close>

lemma endpoint_text_reads:
  assumes m: "arg_ok m" "leg_start_ok (chars m)" "\<not> splits_into_threads m" and t: "target_wf t" "dt_carrier t = EslApi"
  obtains a t' where "read_argument t (write_argument t (\<lambda>t. escape_text m t FieldEndpoint)) = Inr (a, t')"
    "dt_carrier t' = EslApi" "read_leg a t' = Inr (None, m)"
proof (cases "dt_argument t")
  let ?s = "concat (run_writes (layer 2 (chars m)))"
  have esc: "escape_text m t' FieldEndpoint \<in> {?s, QUOTE @ ?s @ QUOTE}"
    if "dt_carrier t' = EslApi" "dt_argument t' = Consumed" for t'
    using that escape_endpoint_text [OF m(1) leg_start_bytes [OF m(1,2)], of t' 2]
    by (simp add: passes_def argument_passes_def LEG_SPLIT_PASSES_def Let_def)
  have leg: "read_leg w t' = Inr (None, m)"
    if "dt_carrier t' = EslApi" "dt_argument t' = Consumed" "w \<in> {?s, QUOTE @ ?s @ QUOTE}" for t' w
    using that by (intro leg_reads_back [OF m _ _ refl]) auto
  let ?c = "t\<lparr>dt_argument := Consumed\<rparr>"
  have c: "dt_carrier ?c = EslApi" "dt_argument ?c = Consumed" using t(2) by simp_all
  {
    case Blank
    then have "argv_separator t = None" by (simp add: argv_separator_def)
    then show thesis using blank_layer_read [OF m(1,2) t(2) Blank] leg [OF c, of ?s] c(1)
      by (intro that [of ?s ?c]) (simp_all add: write_argument_def)
  next
    case (Char sep)
    then have sep: "argv_separator t = Some sep" "inner t = ?c"
      using t(2) by (simp_all add: argv_separator_def inner_def split_delimiter_def)
    let ?w = "escape_text m ?c FieldEndpoint"
    have "arg_ok ?w" "?w \<noteq> []" using esc [OF c] layer_arg_ok(2-4) [OF m(1,2)] by auto
    from write_escaped_read [OF t(1) sep(1) this] show thesis
      using leg [OF c esc [OF c]] c(1) sep by (intro that [of ?w ?c]) (simp_all add: write_argument_def)
  next
    case Consumed
    then have "argv_separator t = None" "split_argument t ts = None" for ts
      using t(2) by (simp_all add: argv_separator_def split_argument_def split_delimiter_def)
    then show thesis using leg [OF t(2) Consumed esc [OF t(2) Consumed]] t(2)
      by (intro that [of "escape_text m t FieldEndpoint" t]) (simp_all add: write_argument_def read_argument_def)
  }
qed

end
