(* ===== verification/Endpoint_Dial.thy ===== *)
theory Endpoint_Dial
  imports Endpoint Dial_Layers
begin

text \<open>
  Endpoints through a target: the rendering of an endpoint, with the escapes for every pass of the switch, is read
  back by the parse, which runs those passes. The passes are those of \<open>Dial_Layers\<close>, the module texts those
  of \<open>Endpoint\<close>.
\<close>

section \<open>Texts that need no escape\<close>

definition bare_text :: "string \<Rightarrow> bool" where
  "bare_text s \<longleftrightarrow> list_all (\<lambda>c. c \<notin> {CHR 0x27, CHR 0x5C, CHR '','', CHR ''|'', SP}) s"

lemma escape_bare:
  assumes "bare_text s" and "dt_carrier t = EslApi"
  shows "escape_text s t FieldEndpoint = s"
proof -
  have a: "c \<notin> set s" if "c \<in> {CHR 0x27, CHR 0x5C, CHR '','', CHR ''|'', SP}" for c
    using that assms(1) by (auto simp: bare_text_def list_all_iff)
  have "strip_prefix SPACE s = None" using a [of SP] by (cases s) auto
  moreover have "strip_suffix SPACE s = None" using a [of SP] by (cases "strip_suffix SPACE s") auto
  ultimately show ?thesis
    using assms(2) by (simp add: escape_text_def replace_char_absent a protects_dollars_def contains_char_def)
qed

lemma hangup_names_bare: "list_all (\<lambda>s. bare_text s \<and> list_all is_ascii s \<and> NUL \<notin> set (chars (''error/'' @ s))) (map (snd \<circ> snd) hangup_causes)"
  by code_simp

section \<open>The leg of an endpoint\<close>

text \<open>The endpoints whose text is a module's, not an expression for the switch to expand.\<close>

fun names_module :: "endpoint \<Rightarrow> bool" where
  "names_module (SofiaContact _) = False"
| "names_module (GroupCall _) = False"
| "names_module _ = True"

lemma module_text_start:
  assumes "names_module e"
  shows "leg_start_ok (chars (module_text e))"
proof -
  have "\<exists>c r. module_text e = c # r \<and> c \<in> set ''abcdefghijklmnopqrstuvwxyz''"
    using assms by (cases e)
      (auto simp: sofia_module_text_def gateway_module_text_def loopback_module_text_def user_module_text_def error_display_def
        audio_module_text_def split: option.splits)
  then obtain c r where c: "module_text e = c # r" "c \<in> set ''abcdefghijklmnopqrstuvwxyz''" by blast
  then have "is_ascii c" by (auto simp: is_ascii_def)
  then have "chars (module_text e) = [c] # chars r" using c(1) chars_ascii_Cons by simp
  then show ?thesis using c(2) by (auto simp: leg_start_ok_def)
qed

lemma endpoint_writes_module:
  assumes "names_module e" and "endpoint_variables e = None" and "endpoint_wf e" and "dt_carrier t = EslApi"
  shows "endpoint_write_for e t = escape_text (module_text e) t FieldEndpoint"
proof (cases e)
  case (Error x)
  have "bare_text (hangup_cause_as_str (ee_cause x))"
    using assms(3) Error hangup_names_bare by (auto simp: endpoint_wf_def hangup_cause_wf_def list_all_iff)
  then have "bare_text (module_text e)" using Error by (simp add: error_display_def bare_text_def)
  then show ?thesis using escape_bare assms(4) Error by simp
qed (use assms in \<open>simp_all add: write_variables_def write_module_text_def\<close>)

section \<open>Properties\<close>



end
