(* ===== verification/Bridge.thy ===== *)
theory Bridge
  imports Endpoint
begin

text \<open>
  Bridge dial strings: \<open>types commands/bridge.rs\<close>. Groups tried in turn, each a list of endpoints rung together,
  with variables for all of them. The string is the argument of a dialplan application, so it renders and parses
  at that carrier; the parse refuses a group whose legs the switch would not read apart.
\<close>

definition BRIDGE_CARRIER :: carrier where
  "BRIDGE_CARRIER = Dialplan"

record bridge_dial_string =
  bd_variables :: "variables option"
  bd_groups :: "endpoint list list"

definition bridge_new :: "endpoint list list \<Rightarrow> bridge_dial_string" where
  "bridge_new groups = \<lparr>bd_variables = None, bd_groups = groups\<rparr>"

definition bridge_with_variables :: "variables \<Rightarrow> bridge_dial_string \<Rightarrow> bridge_dial_string" where
  "bridge_with_variables v b = b\<lparr>bd_variables := Some v\<rparr>"

definition bridge_target :: "block_parse \<Rightarrow> dial_target" where
  "bridge_target bp = with_block_parse bp (target_new BRIDGE_CARRIER)"

definition bridge_write_with :: "bridge_dial_string \<Rightarrow> block_parse \<Rightarrow> string" where
  "bridge_write_with b bp =
     (let target = bridge_target bp
      in (case bd_variables b of
            Some v \<Rightarrow> if variables_is_empty v then [] else variables_display_for v target
          | None \<Rightarrow> []) @
         join ''|'' (map (\<lambda>grp. join '','' (map (\<lambda>e. endpoint_display_for e target) grp)) (bd_groups b)))"

section \<open>Legs read apart\<close>

type_synonym leg_reading = "block list \<times> string"

definition reading :: "leg \<Rightarrow> leg_reading" where
  "reading l = (leg_blocks l, leg_endpoint l)"

definition bridge_read_group :: "string \<Rightarrow> dial_target \<Rightarrow> leg_reading list option" where
  "bridge_read_group s target =
     (case pipeline_read s target of
        Inl _ \<Rightarrow> None
      | Inr l \<Rightarrow> (case dl_threads l of
          [thread] \<Rightarrow> (case thread_groups thread of [grp] \<Rightarrow> Some (map reading grp) | _ \<Rightarrow> None)
        | _ \<Rightarrow> None))"

definition legs_interfere :: "string list \<Rightarrow> leg_reading list option \<Rightarrow> dial_target \<Rightarrow> bool" where
  "legs_interfere texts joined target =
     (case those (map (\<lambda>s. bridge_read_group s target) texts) of
        None \<Rightarrow> False
      | Some alone \<Rightarrow> joined \<noteq> Some (concat alone))"

definition endpoints_interfere :: "endpoint list \<Rightarrow> dial_target \<Rightarrow> bool" where
  "endpoints_interfere grp target =
     (let rendered = map (\<lambda>e. endpoint_display_for e target) grp
      in legs_interfere rendered (bridge_read_group (join '','' rendered) target) target)"

text \<open>The position of the first group whose legs interfere, from position \<open>i\<close> on.\<close>

fun check_groups :: "nat \<Rightarrow> endpoint list list \<Rightarrow> dial_target \<Rightarrow> originate_error + unit" where
  "check_groups i [] target = Inr ()"
| "check_groups i (grp # groups) target =
     (if endpoints_interfere grp target then Inl (BracketSpansLegs i) else check_groups (i + 1) groups target)"

definition check_legs :: "bridge_dial_string \<Rightarrow> block_parse \<Rightarrow> originate_error + unit" where
  "check_legs b bp = check_groups 0 (bd_groups b) (bridge_target bp)"

section \<open>Parsing\<close>

text \<open>\<open>str::get\<close> of a range: \<open>None\<close> out of order, past the end or inside a character.\<close>

definition char_boundary :: "string \<Rightarrow> nat \<Rightarrow> bool" where
  "char_boundary s i \<longleftrightarrow> i = 0 \<or> i = length s \<or> (i < length s \<and> \<not> is_cont (byte_at s i))"

definition str_get :: "string \<Rightarrow> nat \<times> nat \<Rightarrow> string option" where
  "str_get s rng =
     (if fst rng \<le> snd rng \<and> char_boundary s (fst rng) \<and> char_boundary s (snd rng) then Some (slice s rng) else None)"

definition bridge_leg :: "leg \<Rightarrow> originate_error + endpoint" where
  "bridge_leg l =
     (if 1 < length (leg_blocks l) then Inl (OriginateParseError ''an endpoint carries one variable block'')
      else bindR (installed_variables (case leg_blocks l of [] \<Rightarrow> None | blk # _ \<Rightarrow> Some blk)) (\<lambda>vars.
           bindR (endpoint_parse_bare (leg_endpoint l)) (\<lambda>e.
             if vars = None then Inr e
             else let e = set_variables vars e
                  in if endpoint_variables e = None then Inl (VariablesNotSupported (endpoint_kind e)) else Inr e)))"

fun bridge_legs :: "leg list \<Rightarrow> originate_error + endpoint list" where
  "bridge_legs [] = Inr []"
| "bridge_legs (l # ls) = bindR (bridge_leg l) (\<lambda>e. mapR (\<lambda>es. e # es) (bridge_legs ls))"

definition dialled :: "leg \<Rightarrow> bool" where
  "dialled l \<longleftrightarrow> leg_blocks l \<noteq> [] \<or> leg_endpoint l \<noteq> []"

fun bridge_groups :: "string \<Rightarrow> dial_target \<Rightarrow> leg list list \<Rightarrow> endpoint list list \<Rightarrow> originate_error + endpoint list list" where
  "bridge_groups s target [] groups = Inr groups"
| "bridge_groups s target (grp # rest) groups =
     (let legs = filter dialled grp
      in bindR (case those (map (\<lambda>l. str_get s (leg_raw l)) legs) of
             None \<Rightarrow> Inr ()
           | Some texts \<Rightarrow> if legs_interfere texts (Some (map reading legs)) target
               then Inl (BracketSpansLegs (length groups)) else Inr ()) (\<lambda>_.
         bindR (bridge_legs legs) (\<lambda>endpoints.
           bridge_groups s target rest (if endpoints = [] then groups else groups @ [endpoints]))))"

definition bridge_thread :: "string \<Rightarrow> block_parse \<Rightarrow> dial_list \<Rightarrow> thread \<Rightarrow> originate_error + bridge_dial_string" where
  "bridge_thread s bp l thread =
     (if dl_blocks l \<noteq> [] \<or> 1 < length (thread_blocks thread)
      then Inl (OriginateParseError ''a bridge dial string carries one leading variable block'')
      else bindR (installed_variables (case thread_blocks thread of [] \<Rightarrow> None | blk # _ \<Rightarrow> Some blk)) (\<lambda>vars.
           bindR (bridge_groups s (bridge_target bp) (thread_groups thread) []) (\<lambda>groups.
             let b = \<lparr>bd_variables = vars, bd_groups = groups\<rparr>
             in bindR (check_legs b bp) (\<lambda>_. Inr b))))"

definition bridge_parse_with :: "string \<Rightarrow> block_parse \<Rightarrow> originate_error + bridge_dial_string" where
  "bridge_parse_with s bp =
     (let s = trim_matches (\<lambda>c. c = SP) s
      in if s = [] then Inl (OriginateParseError ''empty bridge dial string'')
         else bindR (map_errR read_error (pipeline_read s (bridge_target bp))) (\<lambda>l.
           case dl_threads l of
             [thread] \<Rightarrow> bridge_thread s bp l thread
           | _ \<Rightarrow> Inl (OriginateParseError ''a bridge dial string has no enterprise threads'')))"

definition bridge_try_from :: "variables option \<Rightarrow> endpoint list list \<Rightarrow> originate_error + bridge_dial_string" where
  "bridge_try_from vars groups =
     (let b = \<lparr>bd_variables = vars, bd_groups = groups\<rparr> in bindR (check_legs b PairSplitCleans) (\<lambda>_. Inr b))"

section \<open>What a parsed bridge holds\<close>

lemma check_groups_Inr: "check_groups i groups t = Inr () \<longleftrightarrow> (\<forall>g \<in> set groups. \<not> endpoints_interfere g t)"
  by (induction i groups t rule: check_groups.induct) auto

lemma bridge_groups_nonempty:
  "bridge_groups s t gs acc = Inr groups \<Longrightarrow> [] \<notin> set acc \<Longrightarrow> [] \<notin> set groups"
proof (induction gs arbitrary: acc)
  case (Cons g gs)
  then obtain es where es: "bridge_groups s t gs (if es = [] then acc else acc @ [es]) = Inr groups"
    by (auto simp: Let_def bindR_eq_Inr)
  show ?case by (rule Cons.IH [OF es]) (use Cons.prems(2) in simp)
qed simp

lemma bridge_threadD:
  "bridge_thread s bp l th = Inr b \<Longrightarrow>
   bridge_groups s (bridge_target bp) (thread_groups th) [] = Inr (bd_groups b) \<and> check_legs b bp = Inr ()"
  by (auto simp: bridge_thread_def Let_def bindR_eq_Inr split: if_split_asm)

text \<open>A group that does not interfere is read, when its legs can be, leg by leg.\<close>

definition legs_apart :: "endpoint list \<Rightarrow> dial_target \<Rightarrow> bool" where
  "legs_apart grp t \<longleftrightarrow>
     (let rendered = map (\<lambda>e. endpoint_display_for e t) grp
      in list_ex (\<lambda>s. bridge_read_group s t = None) rendered
         \<or> bridge_read_group (join '','' rendered) t = Some (concat (map (the \<circ> (\<lambda>s. bridge_read_group s t)) rendered)))"

lemma those_map: "those (map f xs) = (if list_ex (\<lambda>x. f x = None) xs then None else Some (map (the \<circ> f) xs))"
  by (induction xs) (auto split: option.splits)

lemma not_interfere: "\<not> endpoints_interfere g t \<longleftrightarrow> legs_apart g t"
  by (cases "list_ex (\<lambda>e. bridge_read_group (endpoint_display_for e t) t = None) g")
    (auto simp: endpoints_interfere_def legs_interfere_def legs_apart_def those_map Let_def list_ex_iff comp_def)

section \<open>Properties\<close>


end
