(* ===== verification/Flattened.thy ===== *)
theory Flattened
  imports Bridge "HOL-Library.Word"
begin

text \<open>
  Dial strings the switch produced: \<open>types commands/flattened/mod.rs\<close>. A list is read by the passes of a target into
  threads, groups and legs; every part keeps the text of the input it came from, so that the legs that are kept
  can be forwarded unchanged, and every leg tells what its channel receives and what it dials.
\<close>

section \<open>What a leg dials\<close>

datatype cause_reading = CauseName hangup_cause | CauseNumber "32 word" | CauseUnrecognized

record error_leg =
  el_as_written :: string
  el_reading :: cause_reading

record unparsed_leg =
  ul_endpoint :: string
  ul_error :: originate_error

datatype leg_target = LegError error_leg | LegEndpoint endpoint | LegUnparsed unparsed_leg

definition I64_MAX :: int where
  "I64_MAX = 2 ^ 63 - 1"

definition digit_value :: "char \<Rightarrow> int" where
  "digit_value c = int (of_char c) - 48"

text \<open>The digits are folded in an \<open>i128\<close>, which the clamp keeps far from its end.\<close>

definition str2cause :: "string \<Rightarrow> cause_reading" where
  "str2cause s =
     (if s \<noteq> [] \<and> is_digit (hd s)
      then CauseNumber (word_of_int (foldl (\<lambda>n d. min (n * 10 + digit_value d) I64_MAX) 0 (takeWhile is_digit s)))
      else case hangup_cause_from_str (map to_ascii_upper s) of
             Inl _ \<Rightarrow> CauseUnrecognized
           | Inr c \<Rightarrow> CauseName c)"

definition error_leg_cause :: "error_leg \<Rightarrow> hangup_cause option" where
  "error_leg_cause e =
     (case el_reading e of
        CauseName c \<Rightarrow> Some c
      | CauseNumber n \<Rightarrow> if unat n < 2 ^ 16 then hangup_cause_from_number (unat n) else None
      | CauseUnrecognized \<Rightarrow> None)"

definition leg_target_read :: "string \<Rightarrow> leg_target" where
  "leg_target_read endpoint =
     (case strip_prefix ''error/'' endpoint of
        Some cause \<Rightarrow> LegError \<lparr>el_as_written = cause, el_reading = str2cause cause\<rparr>
      | None \<Rightarrow> (case endpoint_parse_bare endpoint of
          Inr parsed \<Rightarrow> LegEndpoint parsed
        | Inl error \<Rightarrow> LegUnparsed \<lparr>ul_endpoint = endpoint, ul_error = error\<rparr>))"

definition unparsed_display :: "unparsed_leg \<Rightarrow> string" where
  "unparsed_display u =
     (if ul_endpoint u = [] then ''empty leg'' else ''unrecognized endpoint'') @ '' ('' @ dec (length (ul_endpoint u)) @ '' bytes)''"

section \<open>Warnings and errors\<close>

datatype leg_warning =
  WarnPairIgnored nat string
| WarnPairCleared nat string
| WarnNestedVarsRefused nat string
| WarnSeparatorUnreadable nat
| WarnRewritesFollowingText nat
| WarnPairUnreadable nat

datatype list_warning =
  QuoteSpansLegs
| CarrierExpands
| ListSeparatorUnreadable nat
| ListRewritesFollowingText nat

datatype flattened_error =
  FlatEmpty | FlatArgvSplit | FlatUnclosedBlock nat | FlatTrailingNewline | FlatSeparatorUnreadable

definition leg_warning_of :: "nat \<Rightarrow> pair \<Rightarrow> bool \<Rightarrow> leg_warning option" where
  "leg_warning_of blk p nested_vars =
     (case pair_effect p of
        PairIgnored \<Rightarrow> Some (WarnPairIgnored blk (pair_key p))
      | PairValueless \<Rightarrow> Some (WarnPairIgnored blk (pair_key p))
      | PairUnreadable \<Rightarrow> Some (WarnPairUnreadable blk)
      | PairCleared \<Rightarrow> Some (WarnPairCleared blk (pair_key p))
      | PairSet v \<Rightarrow> if \<not> nested_vars \<and> names_a_variable v then Some (WarnNestedVarsRefused blk (pair_key p)) else None)"

fun from_pipeline :: "pipeline_error \<Rightarrow> flattened_error" where
  "from_pipeline PipelineEmpty = FlatEmpty"
| "from_pipeline ArgvSplit = FlatArgvSplit"
| "from_pipeline (UnclosedBlock leg) = FlatUnclosedBlock leg"
| "from_pipeline SplitSeparatorUnreadable = FlatSeparatorUnreadable"

fun leg_warning_display :: "leg_warning \<Rightarrow> string" where
  "leg_warning_display (WarnPairIgnored b key) = ''pair '' @ key @ '' in block '' @ dec b @ '' has no value and is not installed''"
| "leg_warning_display (WarnPairCleared b key) = ''pair '' @ key @ '' in block '' @ dec b @ '' is empty and deletes earlier values''"
| "leg_warning_display (WarnNestedVarsRefused b key) =
     ''pair '' @ key @ '' in block '' @ dec b @ '' names a variable while origination_nested_vars is off''"
| "leg_warning_display (WarnSeparatorUnreadable b) = ''block '' @ dec b @ '' has a non-ASCII separator and contributes no pairs''"
| "leg_warning_display (WarnRewritesFollowingText b) = ''parsing block '' @ dec b @ '' rewrites the leg'' @ QUOTE @ ''s text after it''"
| "leg_warning_display (WarnPairUnreadable b) =
     ''a pair in block '' @ dec b @ '' opens a non-ASCII ^^ separator the switch splits by byte''"

fun list_warning_display :: "list_warning \<Rightarrow> string" where
  "list_warning_display QuoteSpansLegs = ''a quote holds a leg or group separator''"
| "list_warning_display CarrierExpands = ''the dialplan carrier expands a variable reference kept as written''"
| "list_warning_display (ListSeparatorUnreadable b) =
     ''list block '' @ dec b @ '' has a non-ASCII separator and contributes no pairs''"
| "list_warning_display (ListRewritesFollowingText b) = ''parsing list block '' @ dec b @ '' rewrites the text after it''"

fun flattened_error_display :: "flattened_error \<Rightarrow> string" where
  "flattened_error_display FlatEmpty = ''dial string has no leg to dial''"
| "flattened_error_display FlatArgvSplit = ''originate'' @ QUOTE @ ''s argument split cuts the dial string''"
| "flattened_error_display (FlatUnclosedBlock leg) = ''a block on leg '' @ dec leg @ '' never closes''"
| "flattened_error_display FlatTrailingNewline = ''dial string ends in a newline''"
| "flattened_error_display FlatSeparatorUnreadable =
     ''a split on a non-ASCII ^^ separator'' @ QUOTE @ ''s first byte reaches past its text''"

section \<open>Reading\<close>

record flattened_leg =
  fl_separator :: string
  fl_raw :: string
  fl_leg :: leg
  fl_inherited :: "block list"
  fl_nested_vars :: bool
  fl_target :: leg_target
  fl_warnings :: "leg_warning list"

record flattened_group =
  fg_separator :: string
  fg_legs :: "flattened_leg list"

record flattened_thread =
  ft_separator :: string
  ft_head :: string
  ft_blocks :: "block list"
  ft_groups :: "flattened_group list"
  ft_trailer :: string

record flattened_dial_string =
  fd_head :: string
  fd_blocks :: "block list"
  fd_threads :: "flattened_thread list"
  fd_tail :: string
  fd_warnings :: "list_warning list"

definition input_slice :: "string \<Rightarrow> nat \<times> nat \<Rightarrow> string" where
  "input_slice input rng = unwrap_or [] (str_get input rng)"

definition block_warnings :: "nat \<Rightarrow> block \<Rightarrow> bool \<Rightarrow> leg_warning list" where
  "block_warnings i b nested_vars =
     (if separator_unreadable b then [WarnSeparatorUnreadable i] else []) @
     (if block_rewrites_following_text b then [WarnRewritesFollowingText i] else []) @
     List.map_filter (\<lambda>p. leg_warning_of i p nested_vars) (block_pairs b)"

definition flattened_leg_read :: "string \<Rightarrow> leg \<Rightarrow> string \<Rightarrow> block list \<Rightarrow> bool \<Rightarrow> flattened_leg" where
  "flattened_leg_read input l separator inherited nested_vars =
     \<lparr>fl_separator = separator, fl_raw = input_slice input (leg_raw l), fl_leg = l, fl_inherited = inherited,
      fl_nested_vars = nested_vars, fl_target = leg_target_read (leg_endpoint l),
      fl_warnings = concat (map (\<lambda>(i, b). block_warnings i b nested_vars) (enumerate 0 (leg_blocks l)))\<rparr>"

text \<open>The legs of a group, each behind the separator since the leg before; \<open>leg_end\<close> is where that leg ended.\<close>

fun flattened_legs_read :: "string \<Rightarrow> block list \<Rightarrow> bool \<Rightarrow> nat option \<Rightarrow> leg list \<Rightarrow> flattened_leg list" where
  "flattened_legs_read input inherited nested_vars leg_end [] = []"
| "flattened_legs_read input inherited nested_vars leg_end (l # ls) =
     (let start = fst (leg_raw l)
      in flattened_leg_read input l (input_slice input (unwrap_or start leg_end, start)) inherited nested_vars #
         flattened_legs_read input inherited nested_vars (Some (snd (leg_raw l))) ls)"

text \<open>The groups that have a leg, with the start of the first leg and the end of the last one.\<close>

fun flattened_groups_read :: "string \<Rightarrow> block list \<Rightarrow> bool \<Rightarrow> nat option \<Rightarrow> nat option \<Rightarrow> leg list list
    \<Rightarrow> flattened_group list \<times> nat option \<times> nat option" where
  "flattened_groups_read input inherited nested_vars first_start last_end [] = ([], first_start, last_end)"
| "flattened_groups_read input inherited nested_vars first_start last_end (legs # groups) =
     (if legs = [] then flattened_groups_read input inherited nested_vars first_start last_end groups
      else let start = fst (leg_raw (hd legs));
               separator = input_slice input (unwrap_or start last_end, start);
               (gs, first, fin) = flattened_groups_read input inherited nested_vars
                 (Some (unwrap_or start first_start)) (Some (snd (leg_raw (last legs)))) groups
           in (\<lparr>fg_separator = separator, fg_legs = flattened_legs_read input inherited nested_vars None legs\<rparr> # gs, first, fin))"

definition flattened_thread_read :: "string \<Rightarrow> thread \<Rightarrow> block list \<Rightarrow> nat \<Rightarrow> flattened_thread option" where
  "flattened_thread_read input th list_blocks separator_start =
     (let (groups, first_start, last_end) = flattened_groups_read input (list_blocks @ thread_blocks th)
            (thread_nested_vars th) None None (thread_groups th)
      in case (first_start, last_end) of
           (Some start, Some fin) \<Rightarrow>
             Some \<lparr>ft_separator = input_slice input (separator_start, fst (thread_raw th)),
               ft_head = input_slice input (fst (thread_raw th), start), ft_blocks = thread_blocks th,
               ft_groups = groups, ft_trailer = input_slice input (fin, snd (thread_raw th))\<rparr>
         | _ \<Rightarrow> None)"

text \<open>The threads that have a leg, with their ranges.\<close>

fun flattened_threads_read :: "string \<Rightarrow> block list \<Rightarrow> nat option \<Rightarrow> thread list \<Rightarrow> ((nat \<times> nat) \<times> flattened_thread) list" where
  "flattened_threads_read input blocks before [] = []"
| "flattened_threads_read input blocks before (th # ths) =
     (case flattened_thread_read input th blocks (unwrap_or (fst (thread_raw th)) before) of
        None \<Rightarrow> flattened_threads_read input blocks before ths
      | Some t \<Rightarrow> (thread_raw th, t) # flattened_threads_read input blocks (Some (snd (thread_raw th))) ths)"

definition list_warning_of :: "nat \<Rightarrow> block \<Rightarrow> list_warning option" where
  "list_warning_of i b =
     (if separator_unreadable b then Some (ListSeparatorUnreadable i)
      else if block_rewrites_following_text b then Some (ListRewritesFollowingText i) else None)"

definition flattened_parse_for :: "string \<Rightarrow> dial_target \<Rightarrow> flattened_error + flattened_dial_string" where
  "flattened_parse_for input target =
     (if ends_with [CHR 0x0A] input then Inl FlatTrailingNewline
      else bindR (map_errR from_pipeline (pipeline_read input target)) (\<lambda>l.
        let unreadable = List.map_filter (\<lambda>(i, b). list_warning_of i b)
              (enumerate 0 (dl_blocks l @ concat (map thread_blocks (dl_threads l))));
            warnings = (if dl_quote_spans_legs l then [QuoteSpansLegs] else []) @
              (if dl_carrier_expands l then [CarrierExpands] else []) @ unreadable;
            kept = flattened_threads_read input (dl_blocks l) None (dl_threads l)
        in if kept = [] then Inl FlatEmpty
           else Inr \<lparr>fd_head = input_slice input (0, fst (fst (hd kept))), fd_blocks = dl_blocks l,
                  fd_threads = map snd kept, fd_tail = input_slice input (snd (fst (last kept)), length input),
                  fd_warnings = warnings\<rparr>))"

definition leg_variable :: "flattened_leg \<Rightarrow> string \<Rightarrow> string option" where
  "leg_variable l name = resolve (fl_inherited l) (fl_leg l) name (fl_nested_vars l)"

definition thread_legs :: "flattened_thread \<Rightarrow> flattened_leg list" where
  "thread_legs t = concat (map fg_legs (ft_groups t))"

definition flattened_legs :: "flattened_dial_string \<Rightarrow> flattened_leg list" where
  "flattened_legs d = concat (map thread_legs (fd_threads d))"

section \<open>Removing legs\<close>

definition flat_retain :: "(flattened_leg \<Rightarrow> bool) \<Rightarrow> flattened_dial_string \<Rightarrow> flattened_dial_string" where
  "flat_retain keep d = d\<lparr>fd_threads :=
     filter (\<lambda>t. ft_groups t \<noteq> [])
       (map (\<lambda>t. t\<lparr>ft_groups := filter (\<lambda>g. fg_legs g \<noteq> []) (map (\<lambda>g. g\<lparr>fg_legs := filter keep (fg_legs g)\<rparr>) (ft_groups t))\<rparr>)
         (fd_threads d))\<rparr>"

definition flattened_is_empty :: "flattened_dial_string \<Rightarrow> bool" where
  "flattened_is_empty d \<longleftrightarrow> fd_threads d = []"

section \<open>Rendering\<close>

text \<open>Every element but the first behind its separator.\<close>

fun behind_separators :: "('a \<Rightarrow> string) \<Rightarrow> ('a \<Rightarrow> string) \<Rightarrow> 'a list \<Rightarrow> string" where
  "behind_separators sep body [] = []"
| "behind_separators sep body (x # xs) = body x @ concat (map (\<lambda>y. sep y @ body y) xs)"

definition group_raw :: "flattened_group \<Rightarrow> string" where
  "group_raw g = behind_separators fl_separator fl_raw (fg_legs g)"

definition thread_raw_text :: "flattened_thread \<Rightarrow> string" where
  "thread_raw_text t = ft_head t @ behind_separators fg_separator group_raw (ft_groups t) @ ft_trailer t"

definition write_raw :: "flattened_dial_string \<Rightarrow> string" where
  "write_raw d =
     (if flattened_is_empty d then []
      else fd_head d @ behind_separators ft_separator thread_raw_text (fd_threads d) @ fd_tail d)"

definition write_block :: "block \<Rightarrow> dial_target \<Rightarrow> string" where
  "write_block b target =
     (let vars = foldl (\<lambda>v p. case pair_effect p of PairSet value \<Rightarrow> variables_insert (pair_key p) value v | _ \<Rightarrow> v)
            (variables_new (of_block b)) (block_pairs b)
      in if variables_is_empty vars then []
         else variables_display_for
           (if block_separator b = '','' then vars
            else case with_separator (block_separator b) vars of Inr v \<Rightarrow> v | Inl _ \<Rightarrow> vars) target)"

definition write_blocks :: "block list \<Rightarrow> dial_target \<Rightarrow> string" where
  "write_blocks blocks target = concat (map (\<lambda>b. write_block b target) blocks)"

definition flattened_write_for :: "flattened_dial_string \<Rightarrow> dial_target \<Rightarrow> string" where
  "flattened_write_for d target =
     (if flattened_is_empty d then []
      else write_blocks (fd_blocks d) target @
        join ENTERPRISE_DELIM (map (\<lambda>t. write_blocks (ft_blocks t) target @
          join ''|'' (map (\<lambda>g. join '','' (map (\<lambda>l. write_blocks (leg_blocks (fl_leg l)) target @
            escape_text (leg_endpoint (fl_leg l)) target FieldEndpoint) (fg_legs g))) (ft_groups t))) (fd_threads d)))"

definition flattened_display_for :: "flattened_dial_string \<Rightarrow> dial_target \<Rightarrow> string" where
  "flattened_display_for d target = write_argument target (flattened_write_for d)"

section \<open>The text of the input\<close>

text \<open>Where a list cuts its input: the ranges of its threads and legs, in the order in which they are read.\<close>

definition leg_cuts :: "leg list \<Rightarrow> nat list" where
  "leg_cuts ls = concat (map (\<lambda>l. [fst (leg_raw l), snd (leg_raw l)]) ls)"

definition thread_cuts :: "thread \<Rightarrow> nat list" where
  "thread_cuts th = fst (thread_raw th) # leg_cuts (concat (thread_groups th)) @ [snd (thread_raw th)]"

definition has_legs :: "thread \<Rightarrow> bool" where
  "has_legs th \<longleftrightarrow> concat (thread_groups th) \<noteq> []"

definition cuts_ok :: "string \<Rightarrow> nat list \<Rightarrow> bool" where
  "cuts_ok s cs \<longleftrightarrow> sorted cs \<and> list_all (char_boundary s) cs"

definition in_reading_order :: "string \<Rightarrow> dial_list \<Rightarrow> bool" where
  "in_reading_order input l =
     cuts_ok input (0 # concat (map thread_cuts (filter has_legs (dl_threads l))) @ [length input])"

lemma leg_cuts_simps [simp]:
  "leg_cuts [] = []" "leg_cuts (l # ls) = fst (leg_raw l) # snd (leg_raw l) # leg_cuts ls"
  "leg_cuts (ls @ ms) = leg_cuts ls @ leg_cuts ms"
  by (simp_all add: leg_cuts_def)

lemma cuts_ok_Cons:
  "cuts_ok s (a # b # cs) \<longleftrightarrow> input_slice s (a, b) = slice s (a, b) \<and> a \<le> b \<and> char_boundary s a \<and> cuts_ok s (b # cs)"
  by (auto simp: cuts_ok_def input_slice_def str_get_def intro: order_trans)

lemma cuts_ok_append: "cuts_ok s (xs @ b # ys) \<longleftrightarrow> cuts_ok s (xs @ [b]) \<and> cuts_ok s (b # ys)"
  by (auto simp: cuts_ok_def sorted_append) (meson order_trans)

lemma slice_join:
  assumes "a \<le> b" and "b \<le> c" shows "slice s (a, b) @ slice s (b, c) = slice s (a, c)"
proof -
  have "b - a + (c - b) = c - a" "b - a + a = b" using assms by simp_all
  then show ?thesis using take_add [of "b - a" "c - b" "drop a s"] by (simp add: slice_def)
qed

lemma cuts_le: "cuts_ok s (a # cs) \<Longrightarrow> x \<in> set cs \<Longrightarrow> a \<le> x"
  by (simp add: cuts_ok_def)

text \<open>The end of the last leg, after a position.\<close>

fun legs_end :: "nat \<Rightarrow> leg list \<Rightarrow> nat" where
  "legs_end e [] = e"
| "legs_end e (l # ls) = legs_end (snd (leg_raw l)) ls"

lemma legs_end_append [simp]: "legs_end e (ls @ ms) = legs_end (legs_end e ls) ms"
  by (induction ls arbitrary: e) simp_all

lemma legs_end_last: "ls \<noteq> [] \<Longrightarrow> legs_end e ls = snd (leg_raw (last ls))"
  by (induction ls arbitrary: e) auto

lemma legs_end_cuts: "cuts_ok s (e # leg_cuts ls @ [f]) \<Longrightarrow> e \<le> legs_end e ls \<and> legs_end e ls \<le> f \<and> cuts_ok s [legs_end e ls, f]"
proof (induction ls arbitrary: e)
  case Nil
  then show ?case by (simp add: cuts_ok_def)
next
  case (Cons l ls)
  then have c: "cuts_ok s (snd (leg_raw l) # leg_cuts ls @ [f])" "e \<le> snd (leg_raw l)" by (auto simp: cuts_ok_Cons)
  with Cons.IH [OF c(1)] show ?case by auto
qed

lemma group_le: "cuts_ok s (leg_cuts (l # ls) @ [f]) \<Longrightarrow> fst (leg_raw l) \<le> legs_end b (l # ls)"
  using legs_end_cuts [of s "snd (leg_raw l)" ls f] by (auto simp: cuts_ok_Cons)

lemma legs_cut_split:
  "cuts_ok s (e # leg_cuts ls @ cs) \<longleftrightarrow> cuts_ok s (e # leg_cuts ls @ [legs_end e ls]) \<and> cuts_ok s (legs_end e ls # cs)"
proof (induction ls arbitrary: e)
  case Nil
  then show ?case by (auto simp: cuts_ok_def)
qed (auto simp: cuts_ok_Cons)

lemma fl_read_simps [simp]:
  "fl_separator (flattened_leg_read i l sep inh nv) = sep" "fl_raw (flattened_leg_read i l sep inh nv) = input_slice i (leg_raw l)"
  by (simp_all add: flattened_leg_read_def)

lemma legs_text:
  "cuts_ok s (e # leg_cuts ls @ [f]) \<Longrightarrow>
   concat (map (\<lambda>y. fl_separator y @ fl_raw y) (flattened_legs_read s inh nv (Some e) ls)) = slice s (e, legs_end e ls)"
proof (induction ls arbitrary: e)
  case Nil
  then show ?case by (simp add: slice_def)
next
  case (Cons l ls)
  let ?a = "fst (leg_raw l)" let ?b = "snd (leg_raw l)"
  have c: "input_slice s (e, ?a) = slice s (e, ?a)" "input_slice s (leg_raw l) = slice s (?a, ?b)" "e \<le> ?a" "?a \<le> ?b"
    "cuts_ok s (?b # leg_cuts ls @ [f])"
    using Cons.prems by (cases "leg_raw l"; simp add: cuts_ok_Cons)+
  have "?b \<le> legs_end ?b ls" using legs_end_cuts [OF c(5)] by simp
  then show ?case using Cons.IH [OF c(5)] c slice_join [of e ?a ?b s] slice_join [of e ?b "legs_end ?b ls" s]
    by (simp add: Let_def)
qed

lemma group_text:
  assumes "cuts_ok s (leg_cuts (l # ls) @ [f])"
  shows "behind_separators fl_separator fl_raw (flattened_legs_read s inh nv e (l # ls)) = slice s (fst (leg_raw l), legs_end b (l # ls))"
proof -
  have c: "input_slice s (leg_raw l) = slice s (leg_raw l)" "fst (leg_raw l) \<le> snd (leg_raw l)"
    "cuts_ok s (snd (leg_raw l) # leg_cuts ls @ [f])"
    using assms by (cases "leg_raw l"; simp add: cuts_ok_Cons)+
  then show ?thesis
    using legs_text [OF c(3)] legs_end_cuts [OF c(3)] slice_join [of "fst (leg_raw l)" "snd (leg_raw l)" "legs_end (snd (leg_raw l)) ls" s]
    by (simp add: Let_def)
qed

text \<open>The groups behind a position, and the groups of a thread.\<close>

lemma groups_text:
  assumes "cuts_ok s (e # leg_cuts (concat groups) @ [f])"
  shows "\<exists>gs. flattened_groups_read s inh nv (Some x) (Some e) groups = (gs, Some x, Some (legs_end e (concat groups))) \<and>
    concat (map (\<lambda>g. fg_separator g @ group_raw g) gs) = slice s (e, legs_end e (concat groups))"
  using assms
proof (induction groups arbitrary: e)
  case Nil
  then show ?case by (simp add: slice_def)
next
  case (Cons g groups)
  show ?case
  proof (cases g)
    case Nil
    with Cons show ?thesis by simp
  next
    case g: (Cons l ls)
    let ?e = "legs_end e g" let ?a = "fst (leg_raw l)"
    have ce: "cuts_ok s (?a # snd (leg_raw l) # leg_cuts ls @ leg_cuts (concat groups) @ [f])" "input_slice s (e, ?a) = slice s (e, ?a)" "e \<le> ?a"
      using Cons.prems g by (auto simp: cuts_ok_Cons)
    have c: "cuts_ok s (e # leg_cuts g @ [?e])" "cuts_ok s (?e # leg_cuts (concat groups) @ [f])"
      using Cons.prems legs_cut_split [of s e g "leg_cuts (concat groups) @ [f]"] by simp_all
    obtain gs where gs: "flattened_groups_read s inh nv (Some x) (Some ?e) groups = (gs, Some x, Some (legs_end ?e (concat groups)))"
      "concat (map (\<lambda>g. fg_separator g @ group_raw g) gs) = slice s (?e, legs_end ?e (concat groups))"
      using Cons.IH [OF c(2)] by blast
    have cg: "cuts_ok s (leg_cuts g @ [?e])" using c(1) g by (simp add: cuts_ok_Cons)
    have "behind_separators fl_separator fl_raw (flattened_legs_read s inh nv None g) = slice s (?a, ?e)"
      unfolding g by (rule group_text) (use cg g in simp)
    moreover have "?a \<le> ?e" "?e \<le> legs_end ?e (concat groups)"
      using group_le [of s l ls ?e e] legs_end_cuts [OF c(2)] cg g by simp_all
    ultimately show ?thesis
      using gs g ce(2,3) legs_end_last [of g e] slice_join [of e ?a ?e s] slice_join [of e ?e "legs_end ?e (concat groups)" s]
      by (simp add: group_raw_def Let_def)
  qed
qed

lemma thread_groups_text:
  assumes "cuts_ok s (a # leg_cuts (concat groups) @ [f])" and "concat groups = l # ls"
  shows "\<exists>gs. flattened_groups_read s inh nv None None groups = (gs, Some (fst (leg_raw l)), Some (legs_end a (concat groups))) \<and>
    behind_separators fg_separator group_raw gs = slice s (fst (leg_raw l), legs_end a (concat groups))"
  using assms
proof (induction groups)
  case (Cons g groups)
  show ?case
  proof (cases g)
    case Nil
    with Cons show ?thesis by simp
  next
    case g: (Cons l' ms)
    then have l: "l' = l" "ls = ms @ concat groups" using Cons.prems(2) by simp_all
    let ?e = "legs_end a g" let ?a = "fst (leg_raw l)"
    have c: "cuts_ok s (a # leg_cuts g @ [?e])" "cuts_ok s (?e # leg_cuts (concat groups) @ [f])"
      using Cons.prems(1) legs_cut_split [of s a g "leg_cuts (concat groups) @ [f]"] by simp_all
    obtain gs where gs: "flattened_groups_read s inh nv (Some ?a) (Some ?e) groups = (gs, Some ?a, Some (legs_end ?e (concat groups)))"
      "concat (map (\<lambda>g. fg_separator g @ group_raw g) gs) = slice s (?e, legs_end ?e (concat groups))"
      using groups_text [OF c(2)] by blast
    have cg: "cuts_ok s (leg_cuts g @ [?e])" using c(1) g by (simp add: cuts_ok_Cons)
    have "behind_separators fl_separator fl_raw (flattened_legs_read s inh nv None g) = slice s (?a, ?e)"
      unfolding g l by (rule group_text) (use cg g l in simp)
    moreover have "?a \<le> ?e" "?e \<le> legs_end ?e (concat groups)"
      using group_le [of s l ms ?e a] legs_end_cuts [OF c(2)] cg g l by simp_all
    ultimately show ?thesis
      using gs g l legs_end_last [of g a] slice_join [of ?a ?e "legs_end ?e (concat groups)" s]
      by (simp add: group_raw_def Let_def)
  qed
qed simp

lemma thread_text:
  assumes "cuts_ok s (thread_cuts th)" and "has_legs th"
  shows "\<exists>t. flattened_thread_read s th blocks b = Some t \<and> ft_separator t = input_slice s (b, fst (thread_raw th)) \<and>
    thread_raw_text t = slice s (thread_raw th)"
proof -
  obtain a f where r: "thread_raw th = (a, f)" by fastforce
  obtain l ls where l: "concat (thread_groups th) = l # ls" using assms(2) unfolding has_legs_def by (meson neq_Nil_conv)
  have c: "cuts_ok s (a # leg_cuts (concat (thread_groups th)) @ [f])" using assms(1) r by (simp add: thread_cuts_def)
  let ?e = "legs_end a (concat (thread_groups th))" let ?a = "fst (leg_raw l)"
  obtain gs where gs: "flattened_groups_read s (blocks @ thread_blocks th) (thread_nested_vars th) None None (thread_groups th) = (gs, Some ?a, Some ?e)"
    "behind_separators fg_separator group_raw gs = slice s (?a, ?e)"
    using thread_groups_text [OF c l] by blast
  have h: "input_slice s (a, ?a) = slice s (a, ?a)" "a \<le> ?a" "cuts_ok s (?a # snd (leg_raw l) # leg_cuts ls @ [f])"
    using c l by (simp_all add: cuts_ok_Cons)
  have "?a \<le> ?e" using group_le [of s l ls f a] h(3) l by simp
  moreover have "input_slice s (?e, f) = slice s (?e, f)" "?e \<le> f" using legs_end_cuts [OF c] by (auto simp: cuts_ok_Cons)
  ultimately show ?thesis
    using gs h(1,2) r slice_join [of a ?a ?e s] slice_join [of a ?e f s]
    by (simp add: flattened_thread_read_def thread_raw_text_def flip: append_assoc)
qed

lemma thread_without_legs:
  assumes "\<not> has_legs th" shows "flattened_thread_read s th blocks b = None"
proof -
  have "\<forall>g \<in> set groups. g = [] \<Longrightarrow> flattened_groups_read s inh nv None None groups = ([], None, None)" for groups inh nv
    by (induction groups) simp_all
  then show ?thesis using assms by (simp add: flattened_thread_read_def has_legs_def)
qed

abbreviation kept_cuts :: "thread list \<Rightarrow> nat list" where
  "kept_cuts ths \<equiv> concat (map thread_cuts (filter has_legs ths))"

lemma thread_cuts_split:
  "cuts_ok s (e # thread_cuts th @ cs) \<Longrightarrow>
   input_slice s (e, fst (thread_raw th)) = slice s (e, fst (thread_raw th)) \<and> e \<le> fst (thread_raw th) \<and>
   cuts_ok s (thread_cuts th) \<and> fst (thread_raw th) \<le> snd (thread_raw th) \<and> cuts_ok s (snd (thread_raw th) # cs)"
proof -
  assume a: "cuts_ok s (e # thread_cuts th @ cs)"
  let ?xs = "e # fst (thread_raw th) # leg_cuts (concat (thread_groups th))"
  have "cuts_ok s (?xs @ snd (thread_raw th) # cs)" using a by (simp add: thread_cuts_def)
  from iffD1 [OF cuts_ok_append this]
  have "cuts_ok s (e # thread_cuts th)" "cuts_ok s (snd (thread_raw th) # cs)" by (simp_all add: thread_cuts_def)
  moreover from this(1) have "fst (thread_raw th) \<le> snd (thread_raw th)" by (simp add: thread_cuts_def cuts_ok_def)
  ultimately show ?thesis by (simp add: thread_cuts_def cuts_ok_Cons)
qed

lemma threads_text:
  fixes blocks :: "block list" and e :: nat
  assumes "cuts_ok s (e # kept_cuts ths @ [f])"
  defines "kept \<equiv> flattened_threads_read s blocks (Some e) ths"
  defines "fin \<equiv> (if kept = [] then e else snd (fst (last kept)))"
  shows "concat (map (\<lambda>(_, t). ft_separator t @ thread_raw_text t) kept) = slice s (e, fin) \<and> e \<le> fin \<and> cuts_ok s [fin, f]"
  using assms(1) unfolding fin_def kept_def
proof (induction ths arbitrary: e)
  case Nil
  then show ?case by (simp add: slice_def)
next
  case (Cons th ths)
  show ?case
  proof (cases "has_legs th")
    case False
    have "cuts_ok s (e # kept_cuts ths @ [f])" using Cons.prems False by simp
    moreover have "flattened_threads_read s blocks (Some e) (th # ths) = flattened_threads_read s blocks (Some e) ths"
      using thread_without_legs [OF False] by simp
    ultimately show ?thesis using Cons.IH [of e] by (simp only:)
  next
    case True
    let ?b = "snd (thread_raw th)" let ?k = "flattened_threads_read s blocks (Some ?b) ths"
    let ?f = "if ?k = [] then ?b else snd (fst (last ?k))"
    have c: "input_slice s (e, fst (thread_raw th)) = slice s (e, fst (thread_raw th))" "e \<le> fst (thread_raw th)"
      "cuts_ok s (thread_cuts th)" "fst (thread_raw th) \<le> ?b" "cuts_ok s (?b # kept_cuts ths @ [f])"
      using thread_cuts_split [of s e th "kept_cuts ths @ [f]"] Cons.prems True by simp_all
    obtain t where t: "flattened_thread_read s th blocks e = Some t" "ft_separator t = input_slice s (e, fst (thread_raw th))"
      "thread_raw_text t = slice s (fst (thread_raw th), ?b)" using thread_text [OF c(3) True] by auto
    note IH = Cons.IH [OF c(5)]
    have "slice s (e, fst (thread_raw th)) @ slice s (fst (thread_raw th), ?b) @ slice s (?b, ?f) = slice s (e, ?f)"
      using slice_join [OF c(2,4), of s] slice_join [of e ?b ?f s] c(2,4) IH by (simp flip: append_assoc)
    then show ?thesis using t c(1,2,4) IH by (auto split: if_splits)
  qed
qed

lemma first_thread:
  "flattened_threads_read s blocks None ths = (case dropWhile (\<lambda>th. \<not> has_legs th) ths of
     [] \<Rightarrow> []
   | th # rest \<Rightarrow> (case flattened_thread_read s th blocks (fst (thread_raw th)) of
       None \<Rightarrow> flattened_threads_read s blocks None rest
     | Some t \<Rightarrow> (thread_raw th, t) # flattened_threads_read s blocks (Some (snd (thread_raw th))) rest))"
  by (induction ths) (simp_all add: thread_without_legs)

lemma kept_cuts_dropWhile: "kept_cuts (dropWhile (\<lambda>th. \<not> has_legs th) ths) = kept_cuts ths"
  by (induction ths) simp_all

section \<open>What is left of a list\<close>

definition no_empty_parts :: "flattened_dial_string \<Rightarrow> bool" where
  "no_empty_parts d \<longleftrightarrow> list_all (\<lambda>t. ft_groups t \<noteq> [] \<and> list_all (\<lambda>g. fg_legs g \<noteq> []) (ft_groups t)) (fd_threads d)"

lemma retain_legs: "flattened_legs (flat_retain keep d) = filter keep (flattened_legs d)"
proof -
  have g: "concat (map fg_legs (filter (\<lambda>g. fg_legs g \<noteq> []) (map (\<lambda>g. g\<lparr>fg_legs := filter keep (fg_legs g)\<rparr>) gs)))
      = filter keep (concat (map fg_legs gs))" for gs by (induction gs) simp_all
  have "concat (map thread_legs (filter (\<lambda>t. ft_groups t \<noteq> []) (map (\<lambda>t. t\<lparr>ft_groups := f (ft_groups t)\<rparr>) ts)))
      = filter keep (concat (map thread_legs ts))"
    if "\<And>gs. concat (map fg_legs (f gs)) = filter keep (concat (map fg_legs gs))" for f :: "flattened_group list \<Rightarrow> flattened_group list" and ts
  proof (induction ts)
    case (Cons t ts)
    then show ?case using that [of "ft_groups t"] by (cases "f (ft_groups t) = []") (simp_all add: thread_legs_def)
  qed simp
  from this [OF g] show ?thesis by (simp add: flattened_legs_def flat_retain_def)
qed

lemma retain_parts: "no_empty_parts (flat_retain keep d)"
  by (auto simp: no_empty_parts_def flat_retain_def list_all_iff)

lemma empty_iff_no_legs: "no_empty_parts d \<Longrightarrow> flattened_is_empty d \<longleftrightarrow> flattened_legs d = []"
  by (cases "fd_threads d")
    (auto simp: flattened_is_empty_def flattened_legs_def no_empty_parts_def thread_legs_def neq_Nil_conv)

text \<open>The fold of the digits with its clamp is the clamp of their value.\<close>

definition digits_value :: "string \<Rightarrow> int" where
  "digits_value s = foldl (\<lambda>n d. n * 10 + digit_value d) 0 s"

lemma clamped_fold:
  assumes "list_all is_digit ds" and "0 \<le> n" and "0 \<le> M"
  shows "foldl (\<lambda>n d. min (n * 10 + digit_value d) M) (min n M) ds = min (foldl (\<lambda>n d. n * 10 + digit_value d) n ds) M"
  using assms
proof (induction ds arbitrary: n)
  case (Cons d ds)
  have d: "0 \<le> digit_value d" using Cons.prems(1) by (simp add: digit_value_def is_digit_def)
  have "min (min n M * 10 + digit_value d) M = min (n * 10 + digit_value d) M"
    using d Cons.prems(2,3) by (simp add: min_def)
  then show ?case using Cons.IH [of "n * 10 + digit_value d"] Cons.prems d by simp
qed simp

lemma digits_value_nonneg: "list_all is_digit ds \<Longrightarrow> 0 \<le> digits_value ds"
  by (induction ds rule: rev_induct) (simp_all add: digits_value_def digit_value_def is_digit_def)

section \<open>Properties\<close>

text \<open>
  C6: forwarding a list unchanged. For every input that the passes read, with its threads and legs at ranges in reading
  order (which is what every slice of the input asserts), the raw rendering of the list that was read is the
  input, byte for byte: the separators, blocks, blanks and empty groups between the legs are all kept.
\<close>

theorem flattened_raw_identity:
  assumes "flattened_parse_for input target = Inr d" and "pipeline_read input target = Inr l" and "in_reading_order input l"
  shows "write_raw d = input"
proof -
  let ?kept = "flattened_threads_read input (dl_blocks l) None (dl_threads l)"
  have d: "?kept \<noteq> []" "fd_threads d = map snd ?kept" "fd_head d = input_slice input (0, fst (fst (hd ?kept)))"
    "fd_tail d = input_slice input (snd (fst (last ?kept)), length input)"
    using assms(1,2) by (auto simp: flattened_parse_for_def Let_def bindR_eq_Inr split: if_splits)
  obtain th rest where th: "dropWhile (\<lambda>th. \<not> has_legs th) (dl_threads l) = th # rest"
    using d(1) by (cases "dropWhile (\<lambda>th. \<not> has_legs th) (dl_threads l)") (simp_all add: first_thread)
  have legs: "has_legs th" using th by (metis hd_dropWhile list.distinct(1) list.sel(1))
  let ?a = "fst (thread_raw th)" let ?b = "snd (thread_raw th)" let ?n = "length input"
  have "kept_cuts (dl_threads l) = thread_cuts th @ kept_cuts rest"
    using kept_cuts_dropWhile [of "dl_threads l"] th legs by simp
  then have c: "input_slice input (0, ?a) = slice input (0, ?a)" "cuts_ok input (thread_cuts th)" "?a \<le> ?b"
    "cuts_ok input (?b # kept_cuts rest @ [?n])"
    using thread_cuts_split [of input 0 th "kept_cuts rest @ [?n]"] assms(3) by (simp_all add: in_reading_order_def)
  obtain t where t: "flattened_thread_read input th (dl_blocks l) ?a = Some t" "thread_raw_text t = slice input (thread_raw th)"
    using thread_text [OF c(2) legs] by blast
  let ?k = "flattened_threads_read input (dl_blocks l) (Some ?b) rest"
  define f where "f = (if ?k = [] then ?b else snd (fst (last ?k)))"
  have kept: "?kept = (thread_raw th, t) # ?k" using th t(1) by (simp add: first_thread)
  have r: "concat (map (\<lambda>(_, t). ft_separator t @ thread_raw_text t) ?k) = slice input (?b, f)" "?b \<le> f" "cuts_ok input [f, ?n]"
    using threads_text [OF c(4), of "dl_blocks l"] unfolding f_def by blast+
  have "behind_separators ft_separator thread_raw_text (fd_threads d) = slice input (?a, ?b) @ slice input (?b, f)"
    using r(1) [symmetric] t(2) d(2) kept by (simp add: comp_def case_prod_unfold)
  also have "\<dots> = slice input (?a, f)" using slice_join [of ?a ?b f input] c(3) r by simp
  finally have body: "behind_separators ft_separator thread_raw_text (fd_threads d) = slice input (?a, f)" .
  have fin: "snd (fst (last ?kept)) = f" using kept by (simp add: f_def)
  have tail: "fd_tail d = slice input (f, ?n)" "f \<le> ?n" "?b \<le> f" using r d(4) fin by (simp_all add: cuts_ok_Cons)
  have "write_raw d = slice input (0, ?a) @ slice input (?a, f) @ slice input (f, ?n)"
    using d(1-3) kept c(1) body tail(1) by (simp add: write_raw_def flattened_is_empty_def)
  also have "\<dots> = slice input (0, ?n)"
    using slice_join [of 0 ?a f input] slice_join [of 0 f ?n input] tail(2,3) c(3) by (simp flip: append_assoc)
  finally show ?thesis by (simp add: slice_def)
qed

theorem flattened_raw_identity_witness:
  defines "s \<equiv> ''[c=3]user/2 ,alsa|''"
  shows "mapR write_raw (flattened_parse_for s (target_new Dialplan)) = Inr s"
proof -
  obtain d l where "flattened_parse_for s (target_new Dialplan) = Inr d" "pipeline_read s (target_new Dialplan) = Inr l"
    "in_reading_order s l"
  proof -
    have "(case (flattened_parse_for s (target_new Dialplan), pipeline_read s (target_new Dialplan)) of
        (Inr _, Inr l) \<Rightarrow> in_reading_order s l | _ \<Rightarrow> False)" unfolding s_def by code_simp
    then show thesis using that by (auto split: sum.splits)
  qed
  from this(1) flattened_raw_identity [OF this] show ?thesis by simp
qed

text \<open>
  Removing legs from a list. The legs left are those that were kept, in order; no group and no thread is left
  without a leg, so the list is empty exactly when no leg was kept and then renders as nothing, raw and for any
  target; and a list read from an input keeps all of its legs, none of its parts empty.
\<close>

lemma flattened_retain:
  "flattened_legs (flat_retain keep d) = filter keep (flattened_legs d)
   \<and> no_empty_parts (flat_retain keep d)
   \<and> (flattened_is_empty (flat_retain keep d) \<longleftrightarrow> list_all (\<lambda>l. \<not> keep l) (flattened_legs d))
   \<and> (write_raw (flat_retain (\<lambda>_. False) d) = [] \<and> flattened_write_for (flat_retain (\<lambda>_. False) d) t = [])"
  using retain_legs [of keep d] retain_parts [of keep d] empty_iff_no_legs [OF retain_parts, of keep d]
    empty_iff_no_legs [OF retain_parts, of "\<lambda>_. False" d] retain_legs [of "\<lambda>_. False" d]
  by (simp add: write_raw_def flattened_write_for_def filter_empty_conv list_all_iff)

text \<open>
  C22: the number of an error leg. A leading run of digits is read as a 32-bit number: its value, clamped to the largest
  64-bit long, modulo \<open>2 ^ 32\<close>; so every run of up to nine digits is read exactly, and one beyond the long reads
  as all ones, which names no cause.
\<close>

theorem error_number_wraps:
  assumes "s \<noteq> []" and "is_digit (hd s)"
  defines "v \<equiv> digits_value (takeWhile is_digit s)"
  shows "str2cause s = CauseNumber (word_of_int (min v (2 ^ 63 - 1)))
    \<and> (v < 2 ^ 32 \<longrightarrow> str2cause s = CauseNumber (of_nat (nat v)) \<and> unat (of_nat (nat v) :: 32 word) = nat v)
    \<and> (2 ^ 63 \<le> v \<longrightarrow> str2cause s = CauseNumber (- 1) \<and> error_leg_cause \<lparr>el_as_written = s, el_reading = str2cause s\<rparr> = None)"
proof (intro conjI impI)
  have ds: "list_all is_digit (takeWhile is_digit s)" by (auto simp: list_all_iff dest: set_takeWhileD)
  have v: "0 \<le> v" unfolding v_def using ds by (rule digits_value_nonneg)
  show eq: "str2cause s = CauseNumber (word_of_int (min v (2 ^ 63 - 1)))"
    using assms(1,2) clamped_fold [OF ds, of 0 I64_MAX] by (simp add: str2cause_def v_def digits_value_def I64_MAX_def)
  show "str2cause s = CauseNumber (of_nat (nat v))" if "v < 2 ^ 32"
  proof -
    have "min v (2 ^ 63 - 1) = int (nat v)" using that v by simp
    then show ?thesis using eq by (simp only: of_int_of_nat_eq)
  qed
  show "unat (of_nat (nat v) :: 32 word) = nat v" if "v < 2 ^ 32"
  proof -
    have "nat v < 2 ^ 32" using that v by (simp add: nat_less_iff)
    moreover have "unat (of_nat (nat v) :: 32 word) = nat v mod 2 ^ LENGTH(32)" by (rule unat_of_nat)
    ultimately show ?thesis by (simp del: of_nat_nat)
  qed
  have all_ones: "str2cause s = CauseNumber (- 1)" if "2 ^ 63 \<le> v"
  proof -
    have "min v (2 ^ 63 - 1) = 2 ^ 63 - 1" using that by simp
    then have "str2cause s = CauseNumber (word_of_int (2 ^ 63 - 1))" using eq by (simp only:)
    moreover have "word_of_int (2 ^ 63 - 1) = (- 1 :: 32 word)" by simp
    ultimately show ?thesis by simp
  qed
  then show "str2cause s = CauseNumber (- 1)" if "2 ^ 63 \<le> v" using that .
  have "\<not> unat (- 1 :: 32 word) < 2 ^ 16" by (simp add: unsigned_minus_1_eq_mask mask_eq_exp_minus_1)
  then show "error_leg_cause \<lparr>el_as_written = s, el_reading = str2cause s\<rparr> = None" if "2 ^ 63 \<le> v"
    using all_ones [OF that] by (simp add: error_leg_cause_def)
qed

theorem error_number_wraps_witness:
  "str2cause ''486x'' = CauseNumber 486 \<and> str2cause ''4294967313'' = CauseNumber 17
   \<and> str2cause ''99999999999999999999'' = CauseNumber (- 1)"
proof -
  have v: "digits_value (takeWhile is_digit ''486x'') = 486" "digits_value (takeWhile is_digit ''4294967313'') = 4294967313"
    "digits_value (takeWhile is_digit ''99999999999999999999'') = 99999999999999999999" by code_simp+
  have d: "is_digit (hd ''486x'')" "is_digit (hd ''4294967313'')" "is_digit (hd ''99999999999999999999'')" by code_simp+
  have "word_of_int 4294967313 = (17 :: 32 word)" by simp
  then show ?thesis
    using error_number_wraps [of "''486x''"] error_number_wraps [of "''4294967313''"] error_number_wraps [of "''99999999999999999999''"] v d
    by simp
qed

end
