(* ===== verification/Execute_On.thy ===== *)
theory Execute_On
  imports Expansion
begin

text \<open>
  The value of an \<open>execute_on_*\<close> hook: \<open>types switch_passes/execute_on.rs\<close>, the port of the switch's split of
  such a value, and \<open>commands/execute_on.rs\<close>, the builder that refuses what the split, the expansion or the
  scope variables would change. The property is the exact set of names and arguments the builder accepts.
\<close>

section \<open>The split\<close>

record hook =
  hook_app :: string
  hook_arg :: "string option"
  hook_queued :: bool

definition QUEUED_PREFIX :: string where
  "QUEUED_PREFIX = ''perl''"

definition QUEUE_MARKER :: string where
  "QUEUE_MARKER = ''::''"

text \<open>The scan for the end of the name: where it is cut, and whether a marker queues the value.\<close>

fun hook_scan :: "nat \<Rightarrow> string \<Rightarrow> nat option \<times> bool" where
  "hook_scan at [] = (None, False)"
| "hook_scan at (b # rest) =
     (let queues = (b = CHR '':'' \<and> rest \<noteq> [] \<and> hd rest = CHR '':'')
      in if b = SP \<or> (b = CHR '':'' \<and> \<not> queues) then (Some at, False)
         else if queues then (None, True)
         else hook_scan (at + 1) rest)"

definition hook_split :: "string \<Rightarrow> hook" where
  "hook_split value =
     (let value = takeWhile (\<lambda>c. c \<noteq> CHR 0x00) value;
          (cut_at, queued) = hook_scan 0 value;
          (app, arg) = (case cut_at of Some at \<Rightarrow> (take at value, Some (drop (at + 1) value)) | None \<Rightarrow> (value, None));
          queued = (queued \<or> length QUEUED_PREFIX \<le> length app \<and> eq_ignore_ascii_case (take (length QUEUED_PREFIX) app) QUEUED_PREFIX)
      in case (arg, str_find QUEUE_MARKER app) of
           (None, Some i) \<Rightarrow> \<lparr>hook_app = take i app, hook_arg = Some (drop (i + 2) app), hook_queued = True\<rparr>
         | _ \<Rightarrow> \<lparr>hook_app = app, hook_arg = arg, hook_queued = queued\<rparr>)"

definition hook_render :: "string \<Rightarrow> string option \<Rightarrow> string" where
  "hook_render app arg = (case arg of Some a \<Rightarrow> app @ SPACE @ a | None \<Rightarrow> app)"

definition expansion_rewrites :: "string \<Rightarrow> bool" where
  "expansion_rewrites arg \<longleftrightarrow>
     (let (expanded, references) = expand_escapes (trace arg) in references \<noteq> [] \<or> untrace expanded \<noteq> arg)"

definition opens_scope_variables :: "string \<Rightarrow> bool" where
  "opens_scope_variables arg \<longleftrightarrow>
     arg \<noteq> [] \<and> hd arg = CHR ''%'' \<and>
     (length arg = 1 \<or> (1 < length arg \<and> arg ! 1 = CHR ''['') \<or> (2 < length arg \<and> arg ! 2 = CHR ''[''))"

section \<open>The builder\<close>

record execute_on =
  eo_app :: string
  eo_arg :: "string option"

definition EO_APPLICATION :: string where
  "EO_APPLICATION = ''application name''"

definition EO_ARGUMENT :: string where
  "EO_ARGUMENT = ''argument''"

definition line_break :: "string \<Rightarrow> bool" where
  "line_break s \<longleftrightarrow> list_ex (\<lambda>c. c = CHR 0x0A \<or> c = CHR 0x0D) s"

definition eo_undeliverable :: "string \<Rightarrow> execute_on_fault \<Rightarrow> originate_error" where
  "eo_undeliverable part fault = UndeliverableExecuteOn part fault"

definition execute_on_new :: "string \<Rightarrow> string option \<Rightarrow> originate_error + execute_on" where
  "execute_on_new app arg =
     (if app = [] then Inl (eo_undeliverable EO_APPLICATION FaultEmpty)
      else if line_break app then Inl (eo_undeliverable EO_APPLICATION FaultLineBreak)
      else bindR (case arg of
             None \<Rightarrow> Inr ()
           | Some a \<Rightarrow> if line_break a then Inl (eo_undeliverable EO_ARGUMENT FaultLineBreak)
               else if opens_scope_variables a then Inl (eo_undeliverable EO_ARGUMENT FaultOpensScopeVariables)
               else if expansion_rewrites a then Inl (eo_undeliverable EO_ARGUMENT FaultExpanded)
               else Inr ()) (\<lambda>_.
         let h = hook_split (hook_render app arg)
         in if hook_app h \<noteq> app then Inl (eo_undeliverable EO_APPLICATION FaultCut)
            else if hook_arg h \<noteq> arg then Inl (eo_undeliverable EO_ARGUMENT FaultCut)
            else Inr \<lparr>eo_app = app, eo_arg = arg\<rparr>))"

definition execute_on_lua :: "string \<Rightarrow> string list \<Rightarrow> originate_error + execute_on" where
  "execute_on_lua script args =
     (let words = script # args
      in if list_ex (\<lambda>w. w = [] \<or> contains_char SP w) words
         then Inl (OriginateParseError ''a lua argument is empty or carries a space, on which mod_lua splits its argument list'')
         else execute_on_new ''lua'' (Some (join SPACE words)))"

definition execute_on_display :: "execute_on \<Rightarrow> string" where
  "execute_on_display e = hook_render (eo_app e) (eo_arg e)"

section \<open>Names the split keeps\<close>

definition name_byte :: "char \<Rightarrow> bool" where
  "name_byte c \<longleftrightarrow> c \<notin> {SP, CHR '':'', CHR 0x00}"

lemma hook_scan_name: "list_all name_byte s \<Longrightarrow> hook_scan at s = (None, False)"
  by (induction s arbitrary: at) (auto simp: name_byte_def)

lemma hook_scan_cut: "list_all name_byte s \<Longrightarrow> hook_scan at (s @ SP # r) = (Some (at + length s), False)"
  by (induction s arbitrary: at) (auto simp: name_byte_def)

lemma marker_absent: "list_all name_byte s \<Longrightarrow> str_find QUEUE_MARKER s = None"
  by (induction s) (auto simp: name_byte_def QUEUE_MARKER_def starts_with_def)

lemma split_kept:
  assumes "list_all name_byte app" and "\<forall>a. arg = Some a \<longrightarrow> CHR 0x00 \<notin> set a"
  shows "hook_split (hook_render app arg) = \<lparr>hook_app = app, hook_arg = arg,
    hook_queued = (4 \<le> length app \<and> eq_ignore_ascii_case (take 4 app) ''perl'')\<rparr>"
proof -
  have n: "CHR 0x00 \<notin> set app" using assms(1) by (auto simp: name_byte_def list_all_iff)
  have v: "takeWhile (\<lambda>c. c \<noteq> CHR 0x00) (hook_render app arg) = hook_render app arg"
    using n assms(2) by (intro takeWhile_eq_all_conv [THEN iffD2]) (auto simp: hook_render_def split: option.splits)
  show ?thesis
    unfolding hook_split_def v using assms(1) hook_scan_name [of app 0] hook_scan_cut [of app 0] marker_absent [of app]
    by (cases arg) (simp_all add: hook_render_def Let_def QUEUED_PREFIX_def eval_nat_numeral)
qed

text \<open>A name the split leaves whole holds none of the bytes it cuts at.\<close>

lemma hook_scan_step:
  "b \<noteq> SP \<Longrightarrow> b \<noteq> CHR '':'' \<Longrightarrow> hook_scan at (b # rest) = hook_scan (at + 1) rest"
  "hook_scan at (SP # rest) = (Some at, False)"
  "hook_scan at (CHR '':'' # rest) = (if starts_with QUEUE_MARKER (CHR '':'' # rest) then (None, True) else (Some at, False))"
  by (cases rest, simp_all add: QUEUE_MARKER_def starts_with_def Let_def)+

lemma hook_scan_stop:
  "\<exists>k \<le> length s. (\<forall>c \<in> set (take k s). c \<noteq> SP \<and> c \<noteq> CHR '':'') \<and>
     (hook_scan at s = (Some (at + k), False) \<and> k < length s
      \<or> hook_scan at s = (None, True) \<and> str_find QUEUE_MARKER s = Some k
      \<or> hook_scan at s = (None, False) \<and> k = length s \<and> str_find QUEUE_MARKER s = None)"
proof (induction s arbitrary: at)
  case Nil
  then show ?case by (simp add: QUEUE_MARKER_def)
next
  case (Cons b s)
  consider "b = SP" | "b = CHR '':''" "starts_with QUEUE_MARKER (b # s)" | "b = CHR '':''" "\<not> starts_with QUEUE_MARKER (b # s)"
    | "b \<noteq> SP" "b \<noteq> CHR '':''" by blast
  then show ?case
  proof cases
    case 4
    from Cons.IH [of "at + 1"] obtain k where k: "k \<le> length s" "\<forall>c \<in> set (take k s). c \<noteq> SP \<and> c \<noteq> CHR '':''"
      "hook_scan (at + 1) s = (Some (at + 1 + k), False) \<and> k < length s
       \<or> hook_scan (at + 1) s = (None, True) \<and> str_find QUEUE_MARKER s = Some k
       \<or> hook_scan (at + 1) s = (None, False) \<and> k = length s \<and> str_find QUEUE_MARKER s = None" by blast
    have m: "\<not> starts_with QUEUE_MARKER (b # s)" using 4(2) by (simp add: QUEUE_MARKER_def starts_with_def)
    show ?thesis
      using k 4 hook_scan_step(1) [OF 4] by (intro exI [of _ "Suc k"]) (simp add: m)
  qed (rule exI [of _ 0], simp add: hook_scan_step del: hook_scan.simps)+
qed

lemma hook_split_parts:
  assumes "v = takeWhile (\<lambda>c. c \<noteq> CHR 0x00) value" and "hook_scan 0 v = (c, q)"
  shows "hook_app (hook_split value) = (case c of Some i \<Rightarrow> take i v
      | None \<Rightarrow> (case str_find QUEUE_MARKER v of Some i \<Rightarrow> take i v | None \<Rightarrow> v))"
    "hook_arg (hook_split value) = (case c of Some i \<Rightarrow> Some (drop (i + 1) v)
      | None \<Rightarrow> map_option (\<lambda>i. drop (i + 2) v) (str_find QUEUE_MARKER v))"
  unfolding hook_split_def assms(1) [symmetric] assms(2) Let_def by (simp_all split: option.splits)

lemma split_app_bytes: "list_all name_byte (hook_app (hook_split value))"
proof -
  let ?v = "takeWhile (\<lambda>c. c \<noteq> CHR 0x00) value"
  obtain c q where s: "hook_scan 0 ?v = (c, q)" by fastforce
  note parts = hook_split_parts(1) [OF refl s]
  have "\<forall>x \<in> set (hook_app (hook_split value)). x \<noteq> SP \<and> x \<noteq> CHR '':''"
  proof -
    obtain k where k: "\<forall>x \<in> set (take k ?v). x \<noteq> SP \<and> x \<noteq> CHR '':''"
      "(c, q) = (Some k, False) \<or> (c, q) = (None, True) \<and> str_find QUEUE_MARKER ?v = Some k
       \<or> (c, q) = (None, False) \<and> k = length ?v \<and> str_find QUEUE_MARKER ?v = None"
      using hook_scan_stop [of ?v 0] unfolding s add_0 by blast
    have "hook_app (hook_split value) = take k ?v" using k(2) unfolding parts by (elim disjE) simp_all
    with k(1) show ?thesis by simp
  qed
  moreover have "set (hook_app (hook_split value)) \<subseteq> set ?v"
    unfolding parts using set_take_subset by (fastforce split: option.splits)
  moreover have "CHR 0x00 \<notin> set ?v" using set_takeWhileD by fastforce
  ultimately show ?thesis unfolding list_all_iff name_byte_def by blast
qed

lemma split_arg_bytes:
  assumes "hook_arg (hook_split value) = Some a" shows "CHR 0x00 \<notin> set a"
proof -
  let ?v = "takeWhile (\<lambda>c. c \<noteq> CHR 0x00) value"
  obtain c q where s: "hook_scan 0 ?v = (c, q)" by fastforce
  have "\<exists>n. a = drop n ?v" using assms unfolding hook_split_parts(2) [OF refl s] by (auto split: option.splits)
  then have "set a \<subseteq> set ?v" using set_drop_subset by fastforce
  moreover have "CHR 0x00 \<notin> set ?v" using set_takeWhileD by fastforce
  ultimately show ?thesis by blast
qed

section \<open>Properties\<close>

text \<open>
  C20: what an \<open>execute_on_*\<close> value may carry. A name and argument are accepted exactly when the name is not empty and
  holds no blank, colon, NUL or line break, and the argument holds no NUL and no line break, does not open scope
  variables and is left as it is by the expansion; and then the switch's own split of the rendered value
  gives that name and that argument, whole and not queued unless the name opens with perl.
\<close>

theorem execute_on_exact:
  "execute_on_new app arg = Inr e \<longleftrightarrow>
     e = \<lparr>eo_app = app, eo_arg = arg\<rparr> \<and> app \<noteq> [] \<and> list_all name_byte app \<and> \<not> line_break app \<and>
     (case arg of None \<Rightarrow> True
      | Some a \<Rightarrow> CHR 0x00 \<notin> set a \<and> \<not> line_break a \<and> \<not> opens_scope_variables a \<and> \<not> expansion_rewrites a) \<and>
     hook_split (execute_on_display e) = \<lparr>hook_app = app, hook_arg = arg,
       hook_queued = (4 \<le> length app \<and> eq_ignore_ascii_case (take 4 app) ''perl'')\<rparr>" (is "?new \<longleftrightarrow> ?exact")
proof
  assume ?new
  let ?h = "hook_split (hook_render app arg)"
  have h: "e = \<lparr>eo_app = app, eo_arg = arg\<rparr>" "app \<noteq> []" "\<not> line_break app" "hook_app ?h = app" "hook_arg ?h = arg"
    "case arg of None \<Rightarrow> True | Some a \<Rightarrow> \<not> line_break a \<and> \<not> opens_scope_variables a \<and> \<not> expansion_rewrites a"
    using \<open>?new\<close> by (auto simp: execute_on_new_def bindR_eq_Inr Let_def split: if_splits option.splits)
  have n: "list_all name_byte app" using split_app_bytes [of "hook_render app arg"] h(4) by simp
  have a: "\<forall>a. arg = Some a \<longrightarrow> CHR 0x00 \<notin> set a" using split_arg_bytes [of "hook_render app arg"] h(5) by simp
  have "case arg of None \<Rightarrow> True
      | Some a \<Rightarrow> CHR 0x00 \<notin> set a \<and> \<not> line_break a \<and> \<not> opens_scope_variables a \<and> \<not> expansion_rewrites a"
    using a h(6) by (cases arg) simp_all
  then show ?exact using h(1-3) n split_kept [OF n a] by (simp add: execute_on_display_def)
next
  assume ?exact
  moreover have "\<forall>a. arg = Some a \<longrightarrow> CHR 0x00 \<notin> set a" using \<open>?exact\<close> by auto
  ultimately show ?new using split_kept [of app arg] by (cases arg) (simp_all add: execute_on_new_def Let_def)
qed

end
