(* ===== verification/Api_Commands.thy ===== *)
theory Api_Commands
  imports Api_Argument Channel_Types Originate_Types
begin

text \<open>
  Builders of API commands: \<open>types commands/channel.rs\<close>, the \<open>uuid_*\<close> commands on a channel, and
  \<open>commands/conference.rs\<close>. Each command is a record with its constructors and the line it renders.
\<close>

section \<open>Commands on a channel\<close>

record uuid_answer =
  ua_uuid :: string

definition uuid_answer_new :: "string \<Rightarrow> uuid_answer" where
  "uuid_answer_new uuid = \<lparr>ua_uuid = uuid\<rparr>"

definition uuid_answer_display :: "uuid_answer \<Rightarrow> string" where
  "uuid_answer_display c = ''uuid_answer '' @ ua_uuid c"

record uuid_bridge =
  ub_uuid :: string
  ub_other :: string

definition uuid_bridge_new :: "string \<Rightarrow> string \<Rightarrow> uuid_bridge" where
  "uuid_bridge_new uuid other = \<lparr>ub_uuid = uuid, ub_other = other\<rparr>"

definition uuid_bridge_display :: "uuid_bridge \<Rightarrow> string" where
  "uuid_bridge_display c = ''uuid_bridge '' @ ub_uuid c @ SPACE @ ub_other c"

record uuid_deflect =
  ud_uuid :: string
  ud_uri :: string

definition uuid_deflect_new :: "string \<Rightarrow> string \<Rightarrow> uuid_deflect" where
  "uuid_deflect_new uuid uri = \<lparr>ud_uuid = uuid, ud_uri = uri\<rparr>"

definition uuid_deflect_display :: "uuid_deflect \<Rightarrow> string" where
  "uuid_deflect_display c = ''uuid_deflect '' @ ud_uuid c @ SPACE @ ud_uri c"

record uuid_hold =
  uh_uuid :: string
  uh_off :: bool

definition uuid_hold_hold :: "string \<Rightarrow> uuid_hold" where
  "uuid_hold_hold uuid = \<lparr>uh_uuid = uuid, uh_off = False\<rparr>"

definition uuid_hold_unhold :: "string \<Rightarrow> uuid_hold" where
  "uuid_hold_unhold uuid = \<lparr>uh_uuid = uuid, uh_off = True\<rparr>"

definition uuid_hold_display :: "uuid_hold \<Rightarrow> string" where
  "uuid_hold_display c = (if uh_off c then ''uuid_hold off '' @ uh_uuid c else ''uuid_hold '' @ uh_uuid c)"

record uuid_kill =
  uk_uuid :: string
  uk_cause :: "hangup_cause option"

definition uuid_kill_new :: "string \<Rightarrow> uuid_kill" where
  "uuid_kill_new uuid = \<lparr>uk_uuid = uuid, uk_cause = None\<rparr>"

definition uuid_kill_with_cause :: "string \<Rightarrow> hangup_cause \<Rightarrow> uuid_kill" where
  "uuid_kill_with_cause uuid cause = \<lparr>uk_uuid = uuid, uk_cause = Some cause\<rparr>"

definition uuid_kill_display :: "uuid_kill \<Rightarrow> string" where
  "uuid_kill_display c = ''uuid_kill '' @ uk_uuid c @
     (case uk_cause c of Some cause \<Rightarrow> SPACE @ hangup_cause_as_str cause | None \<Rightarrow> [])"

record uuid_getvar =
  ug_uuid :: string
  ug_key :: string

definition uuid_getvar_new :: "string \<Rightarrow> string \<Rightarrow> uuid_getvar" where
  "uuid_getvar_new uuid key = \<lparr>ug_uuid = uuid, ug_key = key\<rparr>"

definition uuid_getvar_display :: "uuid_getvar \<Rightarrow> string" where
  "uuid_getvar_display c = ''uuid_getvar '' @ ug_uuid c @ SPACE @ ug_key c"

record uuid_setvar =
  us_uuid :: string
  us_key :: string
  us_value :: string

definition uuid_setvar_new :: "string \<Rightarrow> string \<Rightarrow> string \<Rightarrow> uuid_setvar" where
  "uuid_setvar_new uuid key value = \<lparr>us_uuid = uuid, us_key = key, us_value = value\<rparr>"

definition uuid_setvar_display :: "uuid_setvar \<Rightarrow> string" where
  "uuid_setvar_display c = ''uuid_setvar '' @ us_uuid c @ SPACE @ us_key c @ SPACE @ us_value c"

record uuid_transfer =
  ut_uuid :: string
  ut_destination :: string
  ut_dialplan :: "dialplan_type option"

definition uuid_transfer_new :: "string \<Rightarrow> string \<Rightarrow> uuid_transfer" where
  "uuid_transfer_new uuid destination = \<lparr>ut_uuid = uuid, ut_destination = destination, ut_dialplan = None\<rparr>"

definition uuid_transfer_with_dialplan :: "dialplan_type \<Rightarrow> uuid_transfer \<Rightarrow> uuid_transfer" where
  "uuid_transfer_with_dialplan dp c = c\<lparr>ut_dialplan := Some dp\<rparr>"

definition uuid_transfer_display :: "uuid_transfer \<Rightarrow> string" where
  "uuid_transfer_display c = ''uuid_transfer '' @ ut_uuid c @ SPACE @ ut_destination c @
     (case ut_dialplan c of Some dp \<Rightarrow> SPACE @ wire_name dp | None \<Rightarrow> [])"

record uuid_send_dtmf =
  udt_uuid :: string
  udt_dtmf :: string

definition uuid_send_dtmf_new :: "string \<Rightarrow> string \<Rightarrow> uuid_send_dtmf" where
  "uuid_send_dtmf_new uuid dtmf = \<lparr>udt_uuid = uuid, udt_dtmf = dtmf\<rparr>"

definition uuid_send_dtmf_display :: "uuid_send_dtmf \<Rightarrow> string" where
  "uuid_send_dtmf_display c = ''uuid_send_dtmf '' @ udt_uuid c @ SPACE @ udt_dtmf c"

section \<open>Conferences\<close>

datatype mute_action = Mute | Unmute

definition mute_actions :: "mute_action list" where
  "mute_actions = [Mute, Unmute]"

fun mute_action_as_str :: "mute_action \<Rightarrow> string" where
  "mute_action_as_str Mute = ''mute''"
| "mute_action_as_str Unmute = ''unmute''"

interpretation mute_action: wire_enum mute_actions mute_action_as_str
proof unfold_locales
  have "s \<in> set mute_actions" for s by (cases s) (simp_all add: mute_actions_def)
  then show "set mute_actions = UNIV" by auto
  show "distinct (map mute_action_as_str mute_actions)" by code_simp
qed

datatype hold_action = HoldMember | UnholdMember

definition hold_actions :: "hold_action list" where
  "hold_actions = [HoldMember, UnholdMember]"

fun hold_action_as_str :: "hold_action \<Rightarrow> string" where
  "hold_action_as_str HoldMember = ''hold''"
| "hold_action_as_str UnholdMember = ''unhold''"

interpretation hold_action: wire_enum hold_actions hold_action_as_str
proof unfold_locales
  have "s \<in> set hold_actions" for s by (cases s) (simp_all add: hold_actions_def)
  then show "set hold_actions = UNIV" by auto
  show "distinct (map hold_action_as_str hold_actions)" by code_simp
qed

record conference_mute =
  cm_name :: string
  cm_action :: mute_action
  cm_member :: string

definition conference_mute_new :: "string \<Rightarrow> mute_action \<Rightarrow> string \<Rightarrow> conference_mute" where
  "conference_mute_new name action member = \<lparr>cm_name = name, cm_action = action, cm_member = member\<rparr>"

definition conference_mute_display :: "conference_mute \<Rightarrow> string" where
  "conference_mute_display c = ''conference '' @ cm_name c @ SPACE @ mute_action_as_str (cm_action c) @ SPACE @ cm_member c"

record conference_hold =
  ch_name :: string
  ch_action :: hold_action
  ch_member :: string
  ch_stream :: "string option"

definition conference_hold_new :: "string \<Rightarrow> hold_action \<Rightarrow> string \<Rightarrow> conference_hold" where
  "conference_hold_new name action member = \<lparr>ch_name = name, ch_action = action, ch_member = member, ch_stream = None\<rparr>"

definition conference_hold_with_stream :: "string \<Rightarrow> conference_hold \<Rightarrow> conference_hold" where
  "conference_hold_with_stream stream c = c\<lparr>ch_stream := Some stream\<rparr>"

definition conference_hold_display :: "conference_hold \<Rightarrow> string" where
  "conference_hold_display c =
     ''conference '' @ ch_name c @ SPACE @ hold_action_as_str (ch_action c) @ SPACE @ ch_member c @
     (case ch_stream c of Some s \<Rightarrow> SPACE @ s | None \<Rightarrow> [])"

record conference_dtmf =
  cd_name :: string
  cd_member :: string
  cd_dtmf :: string

definition conference_dtmf_new :: "string \<Rightarrow> string \<Rightarrow> string \<Rightarrow> conference_dtmf" where
  "conference_dtmf_new name member dtmf = \<lparr>cd_name = name, cd_member = member, cd_dtmf = dtmf\<rparr>"

definition conference_dtmf_display :: "conference_dtmf \<Rightarrow> string" where
  "conference_dtmf_display c = ''conference '' @ cd_name c @ '' dtmf '' @ cd_member c @ SPACE @ cd_dtmf c"

section \<open>Properties\<close>

text \<open>A word the blank split leaves as it is: not empty, valid, without the characters the split and its cleanup read.\<close>

definition plain_word :: "string \<Rightarrow> bool" where
  "plain_word s \<longleftrightarrow> arg_ok s \<and> s \<noteq> [] \<and> list_all (\<lambda>c. c \<notin> {SPACE, QUOTE, BACKSLASH, ''^''}) (chars s)"

lemma plain_word_pieces: "plain_word s \<Longrightarrow> written_as SPACE s s (map piece.Plain (chars s))"
  by (rule plain_pieces) (auto simp: plain_word_def list_all_iff)

text \<open>
  A channel variable that is set with a quoted value reaches the switch whole. The line of \<open>uuid_setvar\<close> for a value
  that went through \<open>quote_for_uuid_setvar\<close> is split by the blank tokenizer into the channel, the name and exactly
  the value, whatever blanks, quotes, backslashes and multi-byte characters it holds, and also when it is empty.
\<close>

lemma uuid_setvar_delivered:
  assumes "plain_word uuid" and "plain_word key" and "arg_ok value"
  shows "\<exists>line. uuid_setvar_display (uuid_setvar_new uuid key (quote_for_uuid_setvar value)) = ''uuid_setvar '' @ line \<and>
    (\<exists>al. split_line line SPACE = Inr al \<and> al_delimiter al = SPACE \<and> map arg_text (al_arguments al) = [uuid, key, value])"
proof -
  obtain as where q: "written_as SPACE value (quote_for_uuid_setvar value) [Quoted as]" using quoted_pieces [OF assms(3)] ..
  let ?pss = "[map piece.Plain (chars uuid), map piece.Plain (chars key), [Quoted as]]"
  note w = plain_word_pieces [OF assms(1), unfolded written_as_def] plain_word_pieces [OF assms(2), unfolded written_as_def] q [unfolded written_as_def]
  have "chars uuid \<noteq> []" "hd (chars uuid) \<noteq> ''^''" using assms(1) by (auto simp: plain_word_def list_all_iff)
  then have "\<not> (\<exists>qs. map piece.Plain (chars uuid) = piece.Plain ''^'' # piece.Plain ''^'' # qs)" by (cases "chars uuid") auto
  then have ok: "line_ok SPACE ?pss" using w by (simp add: line_ok_def sep_ok_def USIZE_MAX_def)
  have l: "line_text SPACE ?pss = uuid @ SPACE @ key @ SPACE @ quote_for_uuid_setvar value"
    using w by (simp add: line_of_def)
  have r: "map (concat \<circ> reads) ?pss = [uuid, key, value]" using w by simp
  from line_reads_back [OF ok] show ?thesis
    unfolding l r by (auto simp: uuid_setvar_display_def uuid_setvar_new_def)
qed

end
