(* ===== verification/Rust_Num.thy ===== *)
theory Rust_Num
  imports Rust_Text
begin

text \<open>
  Parsing of unsigned integers, \<open>str::parse\<close> of the Rust library for a type of a given width, with its errors, and
  what it accepts: an optional plus sign and digits whose value fits the width.
\<close>

section \<open>The parser\<close>

datatype int_error = IntEmpty | IntInvalidDigit | IntPosOverflow

text \<open>\<open>from_str_radix\<close> of an unsigned type: at each character the digit is checked before the overflow.\<close>

fun parse_digits :: "nat \<Rightarrow> nat \<Rightarrow> string \<Rightarrow> int_error + nat" where
  "parse_digits bits n [] = Inr n"
| "parse_digits bits n (c # cs) =
     (if \<not> is_digit c then Inl IntInvalidDigit
      else if 2 ^ bits \<le> n * 10 + (of_char c - 48) then Inl IntPosOverflow
      else parse_digits bits (n * 10 + (of_char c - 48)) cs)"

definition parse_unsigned :: "nat \<Rightarrow> string \<Rightarrow> int_error + nat" where
  "parse_unsigned bits s =
     (if s = [] then Inl IntEmpty
      else if s = ''+'' \<or> s = ''-'' then Inl IntInvalidDigit
      else parse_digits bits 0 (unwrap_or s (strip_prefix ''+'' s)))"

fun int_error_display :: "int_error \<Rightarrow> string" where
  "int_error_display IntEmpty = ''cannot parse integer from empty string''"
| "int_error_display IntInvalidDigit = ''invalid digit found in string''"
| "int_error_display IntPosOverflow = ''number too large to fit in target type''"

section \<open>What it accepts\<close>

text \<open>The text of an unsigned number of a width: an optional plus sign and digits whose value fits.\<close>

definition numeral_of :: "nat \<Rightarrow> string \<Rightarrow> nat \<Rightarrow> bool" where
  "numeral_of bits s n \<longleftrightarrow>
     (let ds = unwrap_or s (strip_prefix ''+'' s)
      in ds \<noteq> [] \<and> list_all is_digit ds \<and> digits_val ds = n \<and> n < 2 ^ bits)"

lemma digits_grow: "(n :: nat) \<le> foldl (\<lambda>a c. 10 * a + (of_char c - 48)) n (ds :: string)"
proof (induction ds arbitrary: n)
  case (Cons d ds)
  show ?case using Cons.IH [of "10 * n + (of_char d - 48)"] by simp
qed simp

lemma parse_digits_iff:
  "n < 2 ^ bits \<Longrightarrow> parse_digits bits n s = Inr v \<longleftrightarrow>
     list_all is_digit s \<and> foldl (\<lambda>a c. 10 * a + (of_char c - 48)) n s = v \<and> v < 2 ^ bits"
proof (induction s arbitrary: n)
  case (Cons c cs)
  have "parse_digits bits (n * 10 + (of_char c - 48)) cs = Inr v \<longleftrightarrow>
      list_all is_digit cs \<and> foldl (\<lambda>a c. 10 * a + (of_char c - 48)) (10 * n + (of_char c - 48)) cs = v \<and> v < 2 ^ bits"
    if "n * 10 + (of_char c - 48) < 2 ^ bits"
    using Cons.IH [OF that] by (simp add: mult.commute)
  moreover have "\<not> foldl (\<lambda>a c. 10 * a + (of_char c - 48)) (10 * n + (of_char c - 48)) cs < 2 ^ bits"
    if "2 ^ bits \<le> n * 10 + (of_char c - 48)"
    using digits_grow [of "10 * n + (of_char c - 48)" cs] that by simp
  ultimately show ?case by (auto simp: not_le)
qed auto

lemma parse_unsigned_iff: "parse_unsigned bits s = Inr n \<longleftrightarrow> numeral_of bits s n"
proof -
  have "parse_unsigned bits s = Inr n \<longleftrightarrow> s \<noteq> [] \<and> s \<noteq> ''+'' \<and> s \<noteq> ''-''
      \<and> (let ds = unwrap_or s (strip_prefix ''+'' s) in list_all is_digit ds \<and> digits_val ds = n \<and> n < 2 ^ bits)"
    by (simp add: parse_unsigned_def parse_digits_iff digits_val_def Let_def)
  moreover have "unwrap_or s (strip_prefix ''+'' s) = [] \<longleftrightarrow> s = [] \<or> s = ''+''"
    by (cases "strip_prefix ''+'' s") (auto simp: unwrap_or_def)
  moreover have "\<not> list_all is_digit (unwrap_or ''-'' (strip_prefix ''+'' ''-''))" by code_simp
  ultimately show ?thesis by (auto simp: numeral_of_def Let_def)
qed

lemma numeral_of_unique: "numeral_of bits s n \<Longrightarrow> numeral_of bits s m \<Longrightarrow> m = n"
  by (simp add: numeral_of_def Let_def)

lemma numeral_of_dec: "n < 2 ^ bits \<Longrightarrow> numeral_of bits (dec n) n"
proof -
  have "strip_prefix ''+'' (dec n) = None"
    using dec_digits [of n] by (cases "strip_prefix ''+'' (dec n)") (auto simp: is_digit_def)
  then show "n < 2 ^ bits \<Longrightarrow> numeral_of bits (dec n) n"
    by (simp add: numeral_of_def dec_digits digits_val_dec)
qed

end
