(* ===== verification/Sofia_Names.thy ===== *)
theory Sofia_Names
  imports Channel_Types
begin

text \<open>
  Names of Sofia and loopback channels: \<open>types sofia/\<close>, the typed subclasses of custom events, gateway and user states and
  the parser of channel names, \<open>types variables/loopback.rs\<close>, the halves of a loopback pair and the marker of a leg
  that resigned, and \<open>types log_level.rs\<close>.
\<close>

section \<open>Sofia\<close>

datatype gateway_reg_state =
  RegUnreged | RegTrying | RegRegister | RegReged | RegUnregister | RegFailed | RegFailWait | RegExpired
| RegNoreg | RegDown | RegTimeout

definition gateway_reg_states :: "gateway_reg_state list" where
  "gateway_reg_states =
     [RegUnreged, RegTrying, RegRegister, RegReged, RegUnregister, RegFailed, RegFailWait, RegExpired,
      RegNoreg, RegDown, RegTimeout]"

fun gateway_reg_state_as_str :: "gateway_reg_state \<Rightarrow> string" where
  "gateway_reg_state_as_str RegUnreged = ''UNREGED''"
| "gateway_reg_state_as_str RegTrying = ''TRYING''"
| "gateway_reg_state_as_str RegRegister = ''REGISTER''"
| "gateway_reg_state_as_str RegReged = ''REGED''"
| "gateway_reg_state_as_str RegUnregister = ''UNREGISTER''"
| "gateway_reg_state_as_str RegFailed = ''FAILED''"
| "gateway_reg_state_as_str RegFailWait = ''FAIL_WAIT''"
| "gateway_reg_state_as_str RegExpired = ''EXPIRED''"
| "gateway_reg_state_as_str RegNoreg = ''NOREG''"
| "gateway_reg_state_as_str RegDown = ''DOWN''"
| "gateway_reg_state_as_str RegTimeout = ''TIMEOUT''"

interpretation gateway_reg_state: wire_enum gateway_reg_states gateway_reg_state_as_str
proof unfold_locales
  have "s \<in> set gateway_reg_states" for s by (cases s) (simp_all add: gateway_reg_states_def)
  then show "set gateway_reg_states = UNIV" by auto
  show "distinct (map gateway_reg_state_as_str gateway_reg_states)" by code_simp
qed

datatype gateway_ping_status =
  GwPingDown | GwPingUp | GwPingInvalid

definition gateway_ping_statuses :: "gateway_ping_status list" where
  "gateway_ping_statuses =
     [GwPingDown, GwPingUp, GwPingInvalid]"

fun gateway_ping_status_as_str :: "gateway_ping_status \<Rightarrow> string" where
  "gateway_ping_status_as_str GwPingDown = ''DOWN''"
| "gateway_ping_status_as_str GwPingUp = ''UP''"
| "gateway_ping_status_as_str GwPingInvalid = ''INVALID''"

interpretation gateway_ping_status: wire_enum gateway_ping_statuses gateway_ping_status_as_str
proof unfold_locales
  have "s \<in> set gateway_ping_statuses" for s by (cases s) (simp_all add: gateway_ping_statuses_def)
  then show "set gateway_ping_statuses = UNIV" by auto
  show "distinct (map gateway_ping_status_as_str gateway_ping_statuses)" by code_simp
qed

datatype sip_user_ping_status =
  UserPingUnreachable | UserPingReachable | UserPingInvalid

definition sip_user_ping_statuses :: "sip_user_ping_status list" where
  "sip_user_ping_statuses =
     [UserPingUnreachable, UserPingReachable, UserPingInvalid]"

fun sip_user_ping_status_as_str :: "sip_user_ping_status \<Rightarrow> string" where
  "sip_user_ping_status_as_str UserPingUnreachable = ''UNREACHABLE''"
| "sip_user_ping_status_as_str UserPingReachable = ''REACHABLE''"
| "sip_user_ping_status_as_str UserPingInvalid = ''INVALID''"

interpretation sip_user_ping_status: wire_enum sip_user_ping_statuses sip_user_ping_status_as_str
proof unfold_locales
  have "s \<in> set sip_user_ping_statuses" for s by (cases s) (simp_all add: sip_user_ping_statuses_def)
  then show "set sip_user_ping_statuses = UNIV" by auto
  show "distinct (map sip_user_ping_status_as_str sip_user_ping_statuses)" by code_simp
qed

datatype sofia_event_subclass =
  SofiaRegister | SofiaPreRegister | SofiaRegisterAttempt | SofiaRegisterFailure | SofiaUnregister
| SofiaExpire | SofiaGatewayState | SofiaSipUserState | SofiaNotifyRefer | SofiaReinvite
| SofiaGatewayAdd | SofiaGatewayDelete | SofiaGatewayInvalidDigestReq | SofiaRecoveryRecv
| SofiaRecoverySend | SofiaRecoveryRecovered | SofiaError | SofiaProfileStart | SofiaNotifyWatchedHeader
| SofiaWrongCallState | SofiaTransferor | SofiaTransferee | SofiaReplaced | SofiaIntercepted
| SofiaByeResponse

definition sofia_event_subclasses :: "sofia_event_subclass list" where
  "sofia_event_subclasses =
     [SofiaRegister, SofiaPreRegister, SofiaRegisterAttempt, SofiaRegisterFailure, SofiaUnregister,
      SofiaExpire, SofiaGatewayState, SofiaSipUserState, SofiaNotifyRefer, SofiaReinvite,
      SofiaGatewayAdd, SofiaGatewayDelete, SofiaGatewayInvalidDigestReq, SofiaRecoveryRecv,
      SofiaRecoverySend, SofiaRecoveryRecovered, SofiaError, SofiaProfileStart,
      SofiaNotifyWatchedHeader, SofiaWrongCallState, SofiaTransferor, SofiaTransferee, SofiaReplaced,
      SofiaIntercepted, SofiaByeResponse]"

fun sofia_event_subclass_as_str :: "sofia_event_subclass \<Rightarrow> string" where
  "sofia_event_subclass_as_str SofiaRegister = ''sofia::register''"
| "sofia_event_subclass_as_str SofiaPreRegister = ''sofia::pre_register''"
| "sofia_event_subclass_as_str SofiaRegisterAttempt = ''sofia::register_attempt''"
| "sofia_event_subclass_as_str SofiaRegisterFailure = ''sofia::register_failure''"
| "sofia_event_subclass_as_str SofiaUnregister = ''sofia::unregister''"
| "sofia_event_subclass_as_str SofiaExpire = ''sofia::expire''"
| "sofia_event_subclass_as_str SofiaGatewayState = ''sofia::gateway_state''"
| "sofia_event_subclass_as_str SofiaSipUserState = ''sofia::sip_user_state''"
| "sofia_event_subclass_as_str SofiaNotifyRefer = ''sofia::notify_refer''"
| "sofia_event_subclass_as_str SofiaReinvite = ''sofia::reinvite''"
| "sofia_event_subclass_as_str SofiaGatewayAdd = ''sofia::gateway_add''"
| "sofia_event_subclass_as_str SofiaGatewayDelete = ''sofia::gateway_delete''"
| "sofia_event_subclass_as_str SofiaGatewayInvalidDigestReq = ''sofia::gateway_invalid_digest_req''"
| "sofia_event_subclass_as_str SofiaRecoveryRecv = ''sofia::recovery_recv''"
| "sofia_event_subclass_as_str SofiaRecoverySend = ''sofia::recovery_send''"
| "sofia_event_subclass_as_str SofiaRecoveryRecovered = ''sofia::recovery_recovered''"
| "sofia_event_subclass_as_str SofiaError = ''sofia::error''"
| "sofia_event_subclass_as_str SofiaProfileStart = ''sofia::profile_start''"
| "sofia_event_subclass_as_str SofiaNotifyWatchedHeader = ''sofia::notify_watched_header''"
| "sofia_event_subclass_as_str SofiaWrongCallState = ''sofia::wrong_call_state''"
| "sofia_event_subclass_as_str SofiaTransferor = ''sofia::transferor''"
| "sofia_event_subclass_as_str SofiaTransferee = ''sofia::transferee''"
| "sofia_event_subclass_as_str SofiaReplaced = ''sofia::replaced''"
| "sofia_event_subclass_as_str SofiaIntercepted = ''sofia::intercepted''"
| "sofia_event_subclass_as_str SofiaByeResponse = ''sofia::bye_response''"

interpretation sofia_event_subclass: wire_enum sofia_event_subclasses sofia_event_subclass_as_str
proof unfold_locales
  have "s \<in> set sofia_event_subclasses" for s by (cases s) (simp_all add: sofia_event_subclasses_def)
  then show "set sofia_event_subclasses = UNIV" by auto
  show "distinct (map sofia_event_subclass_as_str sofia_event_subclasses)" by code_simp
qed

definition REGISTRATION_EVENTS :: "sofia_event_subclass list" where
  "REGISTRATION_EVENTS =
     [SofiaRegister, SofiaPreRegister, SofiaRegisterAttempt, SofiaRegisterFailure, SofiaUnregister, SofiaExpire]"

definition GATEWAY_EVENTS :: "sofia_event_subclass list" where
  "GATEWAY_EVENTS = [SofiaGatewayState, SofiaGatewayAdd, SofiaGatewayDelete, SofiaGatewayInvalidDigestReq]"

record sofia_channel_name =
  scn_profile :: string
  scn_destination :: string

definition sofia_channel_name_parse :: "string \<Rightarrow> sofia_channel_name option" where
  "sofia_channel_name_parse name =
     Option.bind (strip_prefix ''sofia/'' name) (\<lambda>rest.
     Option.bind (split_once (CHR ''/'') rest) (\<lambda>(p, d).
       if p = [] then None else Some \<lparr>scn_profile = p, scn_destination = d\<rparr>))"

definition scn_user :: "sofia_channel_name \<Rightarrow> string option" where
  "scn_user n = map_option fst (rsplit_once (CHR ''@'') (scn_destination n))"

definition scn_host :: "sofia_channel_name \<Rightarrow> string option" where
  "scn_host n = map_option snd (rsplit_once (CHR ''@'') (scn_destination n))"

section \<open>Loopback\<close>

datatype loopback_hangup_cause =
  LoopbackBowout | LoopbackBridge

definition loopback_hangup_causes :: "loopback_hangup_cause list" where
  "loopback_hangup_causes =
     [LoopbackBowout, LoopbackBridge]"

fun loopback_hangup_cause_as_str :: "loopback_hangup_cause \<Rightarrow> string" where
  "loopback_hangup_cause_as_str LoopbackBowout = ''bowout''"
| "loopback_hangup_cause_as_str LoopbackBridge = ''bridge''"

interpretation loopback_hangup_cause: wire_enum loopback_hangup_causes loopback_hangup_cause_as_str
proof unfold_locales
  have "s \<in> set loopback_hangup_causes" for s by (cases s) (simp_all add: loopback_hangup_causes_def)
  then show "set loopback_hangup_causes = UNIV" by auto
  show "distinct (map loopback_hangup_cause_as_str loopback_hangup_causes)" by code_simp
qed

datatype loopback_leg =
  LegA | LegB

definition loopback_legs :: "loopback_leg list" where
  "loopback_legs =
     [LegA, LegB]"

fun loopback_leg_as_str :: "loopback_leg \<Rightarrow> string" where
  "loopback_leg_as_str LegA = ''A''"
| "loopback_leg_as_str LegB = ''B''"

interpretation loopback_leg: wire_enum loopback_legs loopback_leg_as_str
proof unfold_locales
  have "s \<in> set loopback_legs" for s by (cases s) (simp_all add: loopback_legs_def)
  then show "set loopback_legs = UNIV" by auto
  show "distinct (map loopback_leg_as_str loopback_legs)" by code_simp
qed

record loopback_channel_name =
  lcn_extension :: string
  lcn_leg :: loopback_leg

definition loopback_channel_name_parse :: "string \<Rightarrow> loopback_channel_name option" where
  "loopback_channel_name_parse name =
     Option.bind (strip_prefix ''loopback/'' name) (\<lambda>rest.
     Option.bind (case strip_suffix ''-a'' rest of
         Some extension \<Rightarrow> Some (extension, LegA)
       | None \<Rightarrow> map_option (\<lambda>extension. (extension, LegB)) (strip_suffix ''-b'' rest)) (\<lambda>(extension, leg).
       if extension = [] then None else Some \<lparr>lcn_extension = extension, lcn_leg = leg\<rparr>))"

record loopback_resignation =
  lr_cause_raw :: string
  lr_other_uuid :: "string option"

definition loopback_resignation_new :: "string \<Rightarrow> string option \<Rightarrow> loopback_resignation" where
  "loopback_resignation_new cause_raw other_uuid = \<lparr>lr_cause_raw = cause_raw, lr_other_uuid = other_uuid\<rparr>"

definition lr_cause :: "loopback_resignation \<Rightarrow> string + loopback_hangup_cause" where
  "lr_cause r = wire_from_str loopback_hangup_causes loopback_hangup_cause_as_str (lr_cause_raw r)"

section \<open>Log levels\<close>

datatype log_level =
  LogDisable | LogConsole | LogAlert | LogCrit | LogError | LogWarning | LogNotice | LogInfo | LogDebug

definition log_levels :: "log_level list" where
  "log_levels =
     [LogDisable, LogConsole, LogAlert, LogCrit, LogError, LogWarning, LogNotice, LogInfo, LogDebug]"

fun log_level_as_str :: "log_level \<Rightarrow> string" where
  "log_level_as_str LogDisable = ''disable''"
| "log_level_as_str LogConsole = ''console''"
| "log_level_as_str LogAlert = ''alert''"
| "log_level_as_str LogCrit = ''crit''"
| "log_level_as_str LogError = ''err''"
| "log_level_as_str LogWarning = ''warning''"
| "log_level_as_str LogNotice = ''notice''"
| "log_level_as_str LogInfo = ''info''"
| "log_level_as_str LogDebug = ''debug''"

interpretation log_level: wire_enum log_levels log_level_as_str
proof unfold_locales
  have "s \<in> set log_levels" for s by (cases s) (simp_all add: log_levels_def)
  then show "set log_levels = UNIV" by auto
  show "distinct (map log_level_as_str log_levels)" by code_simp
qed

fun log_level_as_number :: "log_level \<Rightarrow> int" where
  "log_level_as_number LogDisable = - 1"
| "log_level_as_number LogConsole = 0"
| "log_level_as_number LogAlert = 1"
| "log_level_as_number LogCrit = 2"
| "log_level_as_number LogError = 3"
| "log_level_as_number LogWarning = 4"
| "log_level_as_number LogNotice = 5"
| "log_level_as_number LogInfo = 6"
| "log_level_as_number LogDebug = 7"

definition log_level_from_number :: "int \<Rightarrow> log_level option" where
  "log_level_from_number n = find (\<lambda>v. log_level_as_number v = n) log_levels"

section \<open>Channel names read back\<close>

lemma rsplit_once_append: "c \<notin> set b \<Longrightarrow> rsplit_once c (a @ c # b) = Some (a, b)"
  by (simp add: rsplit_once_def char_rfind_append)

lemma rsplit_once_Some: "rsplit_once c s = Some (a, b) \<longleftrightarrow> s = a @ c # b \<and> c \<notin> set b"
proof
  assume r: "rsplit_once c s = Some (a, b)"
  then have "c \<in> set s" using char_rfind_None [of c s] by (cases "char_rfind c s") (auto simp: rsplit_once_def)
  from split_list_last [OF this] obtain x y where "s = x @ c # y" "c \<notin> set y" by blast
  with r rsplit_once_append [of c y x] show "s = a @ c # b \<and> c \<notin> set b" by simp
qed (simp add: rsplit_once_append)

lemma sofia_channel_name_iff:
  "sofia_channel_name_parse name = Some n \<longleftrightarrow>
     name = ''sofia/'' @ scn_profile n @ ''/'' @ scn_destination n \<and> scn_profile n \<noteq> [] \<and> CHR ''/'' \<notin> set (scn_profile n)"
  by (cases n) (auto simp: sofia_channel_name_parse_def bind_eq_Some_conv split_once_Some)

lemma loopback_channel_name_iff:
  "loopback_channel_name_parse name = Some n \<longleftrightarrow>
     lcn_extension n \<noteq> [] \<and> name = ''loopback/'' @ lcn_extension n @ (if lcn_leg n = LegA then ''-a'' else ''-b'')"
proof -
  have "strip_suffix ''-a'' (e @ ''-b'') = None" for e
    using strip_suffix_Some [of "''-a''" "e @ ''-b''"] by (cases "strip_suffix ''-a'' (e @ ''-b'')") auto
  then show ?thesis
    by (cases n; cases "lcn_leg n")
      (auto simp: loopback_channel_name_parse_def bind_eq_Some_conv split: option.splits)
qed

section \<open>Properties\<close>

text \<open>
  Channel names. A name is read as a Sofia name exactly when it is the prefix, a profile that is not empty and
  holds no slash, a slash and a destination, and as a loopback name exactly when it is the prefix, an extension
  that is not empty and the suffix of a half; so a parsed name can be written back, an extension that itself ends in
  a suffix keeps it, and the user and host of a destination are its two sides of the last at-sign.
\<close>

lemma channel_names_exact:
  "(sofia_channel_name_parse name = Some n \<longleftrightarrow>
      name = ''sofia/'' @ scn_profile n @ ''/'' @ scn_destination n \<and> scn_profile n \<noteq> [] \<and> CHR ''/'' \<notin> set (scn_profile n))
   \<and> (loopback_channel_name_parse name = Some m \<longleftrightarrow>
      lcn_extension m \<noteq> [] \<and> name = ''loopback/'' @ lcn_extension m @ (if lcn_leg m = LegA then ''-a'' else ''-b''))
   \<and> (scn_user n = Some u \<and> scn_host n = Some h \<longleftrightarrow> scn_destination n = u @ ''@'' @ h \<and> CHR ''@'' \<notin> set h)"
proof (intro conjI)
  show "scn_user n = Some u \<and> scn_host n = Some h \<longleftrightarrow> scn_destination n = u @ ''@'' @ h \<and> CHR ''@'' \<notin> set h"
    using rsplit_once_Some [of "CHR ''@''" "scn_destination n" u h] by (auto simp: scn_user_def scn_host_def)
qed (rule sofia_channel_name_iff loopback_channel_name_iff)+

end
