(* ===== verification/Lookup.thy ===== *)
theory Lookup
  imports Response Rust_Num Sofia_Names
begin

text \<open>
  Typed reads from any store of headers: \<open>types lookup.rs\<close>. The trait asks its stores for a header and for a
  variable by name and derives every accessor from these two; a store is the record of the two functions. The
  stores of the program (events, responses, header maps and plain maps) share the law that a variable is the header
  with the prefix, which is an interface here.
\<close>

section \<open>Parsing what a header holds\<close>

definition parse_opt :: "(string \<Rightarrow> 'e + 'a) \<Rightarrow> string option \<Rightarrow> 'e + 'a option" where
  "parse_opt from_str raw = (case raw of None \<Rightarrow> Inr None | Some s \<Rightarrow> mapR Some (from_str s))"

definition enum_from_str :: "string \<Rightarrow> 'a list \<Rightarrow> ('a \<Rightarrow> string) \<Rightarrow> string \<Rightarrow> parse_error + 'a" where
  "enum_from_str what all_values as_str s = map_errR (ParseError what) (wire_from_str all_values as_str s)"

section \<open>Stores\<close>

record header_lookup =
  lk_header_str :: "string \<Rightarrow> string option"
  lk_variable_str :: "string \<Rightarrow> string option"

definition hash_map_lookup :: "(string \<rightharpoonup> string) \<Rightarrow> header_lookup" where
  "hash_map_lookup m = \<lparr>lk_header_str = m, lk_variable_str = (\<lambda>name. m (variable_key name))\<rparr>"

definition headers_lookup :: "esl_headers \<Rightarrow> header_lookup" where
  "headers_lookup h = \<lparr>lk_header_str = headers_get h, lk_variable_str = (\<lambda>name. headers_get h (variable_key name))\<rparr>"

definition event_lookup :: "esl_event \<Rightarrow> header_lookup" where
  "event_lookup ev = \<lparr>lk_header_str = header_str ev, lk_variable_str = variable_str ev\<rparr>"

definition response_lookup :: "esl_response \<Rightarrow> header_lookup" where
  "response_lookup r = \<lparr>lk_header_str = response_header r, lk_variable_str = (\<lambda>name. response_header r (variable_key name))\<rparr>"

definition lk_header :: "header_lookup \<Rightarrow> event_header \<Rightarrow> string option" where
  "lk_header L name = lk_header_str L (eh_as_str name)"

text \<open>A typed variable name is its wire name.\<close>

definition lk_variable :: "header_lookup \<Rightarrow> string \<Rightarrow> string option" where
  "lk_variable L name = lk_variable_str L name"

fun first_header :: "header_lookup \<Rightarrow> event_header list \<Rightarrow> string option" where
  "first_header L [] = None"
| "first_header L (name # names) = (case lk_header L name of Some v \<Rightarrow> Some v | None \<Rightarrow> first_header L names)"

section \<open>Plain accessors\<close>

definition lk_unique_id :: "header_lookup \<Rightarrow> string option" where
  "lk_unique_id L = first_header L [EventHeader ''Unique-ID'', EventHeader ''Caller-Unique-ID'']"

definition lk_profile_name :: "header_lookup \<Rightarrow> string option" where
  "lk_profile_name L = first_header L [EventHeader ''profile-name'', EventHeader ''profile_name'']"

definition lk_job_uuid :: "header_lookup \<Rightarrow> string option" where
  "lk_job_uuid L = lk_header L (EventHeader ''Job-UUID'')"

definition lk_channel_name :: "header_lookup \<Rightarrow> string option" where
  "lk_channel_name L = lk_header L (EventHeader ''Channel-Name'')"

definition lk_caller_id_number :: "header_lookup \<Rightarrow> string option" where
  "lk_caller_id_number L = lk_header L (EventHeader ''Caller-Caller-ID-Number'')"

definition lk_caller_id_name :: "header_lookup \<Rightarrow> string option" where
  "lk_caller_id_name L = lk_header L (EventHeader ''Caller-Caller-ID-Name'')"

definition lk_destination_number :: "header_lookup \<Rightarrow> string option" where
  "lk_destination_number L = lk_header L (EventHeader ''Caller-Destination-Number'')"

definition lk_callee_id_number :: "header_lookup \<Rightarrow> string option" where
  "lk_callee_id_number L = lk_header L (EventHeader ''Caller-Callee-ID-Number'')"

definition lk_callee_id_name :: "header_lookup \<Rightarrow> string option" where
  "lk_callee_id_name L = lk_header L (EventHeader ''Caller-Callee-ID-Name'')"

definition lk_channel_presence_id :: "header_lookup \<Rightarrow> string option" where
  "lk_channel_presence_id L = lk_header L (EventHeader ''Channel-Presence-ID'')"

definition lk_event_date_timestamp :: "header_lookup \<Rightarrow> string option" where
  "lk_event_date_timestamp L = lk_header L (EventHeader ''Event-Date-Timestamp'')"

definition lk_event_sequence :: "header_lookup \<Rightarrow> string option" where
  "lk_event_sequence L = lk_header L (EventHeader ''Event-Sequence'')"

definition lk_dtmf_duration :: "header_lookup \<Rightarrow> string option" where
  "lk_dtmf_duration L = lk_header L (EventHeader ''DTMF-Duration'')"

definition lk_dtmf_source :: "header_lookup \<Rightarrow> string option" where
  "lk_dtmf_source L = lk_header L (EventHeader ''DTMF-Source'')"

definition lk_event_subclass :: "header_lookup \<Rightarrow> string option" where
  "lk_event_subclass L = lk_header L (EventHeader ''Event-Subclass'')"

definition lk_gateway :: "header_lookup \<Rightarrow> string option" where
  "lk_gateway L = lk_header L (EventHeader ''Gateway'')"

definition lk_module_name :: "header_lookup \<Rightarrow> string option" where
  "lk_module_name L = lk_header L (EventHeader ''module_name'')"

definition lk_profile_uri :: "header_lookup \<Rightarrow> string option" where
  "lk_profile_uri L = lk_header L (EventHeader ''profile_uri'')"

definition lk_phrase :: "header_lookup \<Rightarrow> string option" where
  "lk_phrase L = lk_header L (EventHeader ''Phrase'')"

definition lk_pl_data :: "header_lookup \<Rightarrow> string option" where
  "lk_pl_data L = lk_header L (EventHeader ''pl_data'')"

definition lk_sip_event :: "header_lookup \<Rightarrow> string option" where
  "lk_sip_event L = lk_header L (EventHeader ''event'')"

definition lk_gateway_name :: "header_lookup \<Rightarrow> string option" where
  "lk_gateway_name L = lk_header L (EventHeader ''gateway_name'')"

definition lk_channel_driver :: "header_lookup \<Rightarrow> string option" where
  "lk_channel_driver L = Option.bind (lk_channel_name L) channel_driver"

section \<open>Typed accessors\<close>

definition lk_presence_call_direction :: "header_lookup \<Rightarrow> parse_error + call_direction option" where
  "lk_presence_call_direction L = parse_opt (enum_from_str ''call direction'' call_directions call_direction_as_str) (lk_header L (EventHeader ''Presence-Call-Direction''))"

definition lk_sofia_event_subclass :: "header_lookup \<Rightarrow> parse_error + sofia_event_subclass option" where
  "lk_sofia_event_subclass L = parse_opt (enum_from_str ''sofia event subclass'' sofia_event_subclasses sofia_event_subclass_as_str) (lk_event_subclass L)"

definition lk_gateway_reg_state :: "header_lookup \<Rightarrow> parse_error + gateway_reg_state option" where
  "lk_gateway_reg_state L = parse_opt (enum_from_str ''gateway reg state'' gateway_reg_states gateway_reg_state_as_str) (lk_header L (EventHeader ''State''))"

definition lk_gateway_ping_status :: "header_lookup \<Rightarrow> parse_error + gateway_ping_status option" where
  "lk_gateway_ping_status L = parse_opt (enum_from_str ''gateway ping status'' gateway_ping_statuses gateway_ping_status_as_str) (lk_header L (EventHeader ''Ping-Status''))"

definition lk_sip_user_ping_status :: "header_lookup \<Rightarrow> parse_error + sip_user_ping_status option" where
  "lk_sip_user_ping_status L = parse_opt (enum_from_str ''sip user ping status'' sip_user_ping_statuses sip_user_ping_status_as_str) (lk_header L (EventHeader ''Ping-Status''))"

definition lk_channel_state :: "header_lookup \<Rightarrow> parse_error + channel_state option" where
  "lk_channel_state L = parse_opt (enum_from_str ''channel state'' channel_states channel_state_as_str) (lk_header L (EventHeader ''Channel-State''))"

definition lk_call_state :: "header_lookup \<Rightarrow> parse_error + call_state option" where
  "lk_call_state L = parse_opt (enum_from_str ''call state'' call_states call_state_as_str) (lk_header L (EventHeader ''Channel-Call-State''))"

definition lk_answer_state :: "header_lookup \<Rightarrow> parse_error + answer_state option" where
  "lk_answer_state L = parse_opt (enum_from_str ''answer state'' answer_states answer_state_as_str) (lk_header L (EventHeader ''Answer-State''))"

definition lk_call_direction :: "header_lookup \<Rightarrow> parse_error + call_direction option" where
  "lk_call_direction L = parse_opt (enum_from_str ''call direction'' call_directions call_direction_as_str) (lk_header L (EventHeader ''Call-Direction''))"

definition lk_hangup_cause :: "header_lookup \<Rightarrow> parse_error + hangup_cause option" where
  "lk_hangup_cause L = parse_opt (\<lambda>s. map_errR (ParseError ''hangup cause'') (hangup_cause_from_str s)) (lk_header L (EventHeader ''Hangup-Cause''))"

definition lk_priority :: "header_lookup \<Rightarrow> parse_error + esl_event_priority option" where
  "lk_priority L = parse_opt priority_from_str (lk_header L Priority)"

definition lk_loopback_leg :: "header_lookup \<Rightarrow> parse_error + loopback_leg option" where
  "lk_loopback_leg L = parse_opt (enum_from_str ''loopback leg'' loopback_legs loopback_leg_as_str) (lk_variable L ''loopback_leg'')"

definition lk_loopback_resignation :: "header_lookup \<Rightarrow> loopback_resignation option" where
  "lk_loopback_resignation L =
     map_option (\<lambda>cause. loopback_resignation_new cause (lk_variable L ''loopback_bowout_other_uuid''))
       (lk_variable L ''loopback_hangup_cause'')"

definition lk_sip_status_code :: "header_lookup \<Rightarrow> int_error + nat option" where
  "lk_sip_status_code L = parse_opt (parse_unsigned 16) (lk_header L (EventHeader ''Status''))"

definition lk_channel_state_number :: "header_lookup \<Rightarrow> parse_error + channel_state option" where
  "lk_channel_state_number L =
     (case lk_header L (EventHeader ''Channel-State-Number'') of
        None \<Rightarrow> Inr None
      | Some raw \<Rightarrow>
          let rejected = ParseError ''channel state'' raw
          in bindR (map_errR (\<lambda>_. rejected) (parse_opt (parse_unsigned 8) (Some raw))) (\<lambda>n.
               mapR Some (ok_or rejected (Option.bind n (wire_from_number channel_states channel_state_as_number)))))"

definition lk_is_terminal_channel_state :: "header_lookup \<Rightarrow> parse_error + bool" where
  "lk_is_terminal_channel_state L =
     mapR (\<lambda>s. case s of Some s \<Rightarrow> is_terminal s | None \<Rightarrow> False) (lk_channel_state L)"

definition lk_timetable :: "header_lookup \<Rightarrow> string \<Rightarrow> timetable_error + channel_timetable option" where
  "lk_timetable L pre = timetable_from_lookup pre (lk_header_str L)"

definition lk_caller_timetable :: "header_lookup \<Rightarrow> timetable_error + channel_timetable option" where
  "lk_caller_timetable L = lk_timetable L ''Caller''"

definition lk_other_leg_timetable :: "header_lookup \<Rightarrow> timetable_error + channel_timetable option" where
  "lk_other_leg_timetable L = lk_timetable L ''Other-Leg''"

section \<open>Errors of the accessors\<close>

datatype parse_header_error =
  PheChannelState parse_error | PheCallState parse_error | PheAnswerState parse_error | PheCallDirection parse_error
| PheHangupCause parse_error | PheGatewayRegState parse_error | PheLoopbackLeg parse_error | PhePriority parse_error
| PheTimetable timetable_error | PheSipStatusCode int_error

definition timetable_error_display :: "timetable_error \<Rightarrow> string" where
  "timetable_error_display e =
     ''invalid timetable value for '' @ tte_header e @ '' ('' @ dec (length (tte_value e)) @ '' bytes)''"

fun parse_header_error_display :: "parse_header_error \<Rightarrow> string" where
  "parse_header_error_display (PheChannelState e) = parse_error_display e"
| "parse_header_error_display (PheCallState e) = parse_error_display e"
| "parse_header_error_display (PheAnswerState e) = parse_error_display e"
| "parse_header_error_display (PheCallDirection e) = parse_error_display e"
| "parse_header_error_display (PheHangupCause e) = parse_error_display e"
| "parse_header_error_display (PheGatewayRegState e) = parse_error_display e"
| "parse_header_error_display (PheLoopbackLeg e) = parse_error_display e"
| "parse_header_error_display (PhePriority e) = parse_error_display e"
| "parse_header_error_display (PheTimetable e) = timetable_error_display e"
| "parse_header_error_display (PheSipStatusCode e) = int_error_display e"

section \<open>What a parsed header says\<close>

context wire_enum
begin

lemma parse_opt_some: "parse_opt (enum_from_str what all_values as_str) raw = Inr (Some v) \<longleftrightarrow> raw = Some (as_str v)"
proof (cases raw)
  case (Some s)
  have "parse_opt (enum_from_str what all_values as_str) raw = Inr (Some v) \<longleftrightarrow> wire_from_str all_values as_str s = Inr v"
    unfolding Some by (cases "wire_from_str all_values as_str s") (simp_all add: parse_opt_def enum_from_str_def)
  then show ?thesis by (simp add: from_str_iff Some)
qed (simp add: parse_opt_def)

lemma parse_opt_error:
  "parse_opt (enum_from_str what all_values as_str) raw = Inl e \<longleftrightarrow>
     (\<exists>s. raw = Some s \<and> s \<notin> range as_str \<and> e = ParseError what s)"
proof (cases raw)
  case (Some s)
  show ?thesis
  proof (cases "s \<in> range as_str")
    case True
    then show ?thesis using Some by (auto simp: parse_opt_def enum_from_str_def from_str_as_str)
  next
    case False
    then have "wire_from_str all_values as_str s = Inl s"
      by (auto simp: wire_from_str_def ok_or_def find_None_iff split: option.split)
    with False Some show ?thesis by (auto simp: parse_opt_def enum_from_str_def)
  qed
qed (simp add: parse_opt_def)

end

lemma parse_opt_absent: "parse_opt f raw = Inr None \<longleftrightarrow> raw = None"
  by (cases raw; cases "f (the raw)") (simp_all add: parse_opt_def)

lemma parse_opt_number: "parse_opt (parse_unsigned bits) raw = Inr (Some n) \<longleftrightarrow> (\<exists>s. raw = Some s \<and> numeral_of bits s n)"
  by (cases raw; cases "parse_unsigned bits (the raw)") (auto simp: parse_opt_def simp flip: parse_unsigned_iff)

lemma channel_state_number_iff:
  "lk_channel_state_number L = Inr (Some v) \<longleftrightarrow>
     (\<exists>raw. lk_header_str L ''Channel-State-Number'' = Some raw \<and> numeral_of 8 raw (channel_state_as_number v))"
proof (cases "lk_header_str L ''Channel-State-Number''")
  case (Some raw)
  then have L: "lk_channel_state_number L =
      bindR (map_errR (\<lambda>_. ParseError ''channel state'' raw) (mapR Some (parse_unsigned 8 raw))) (\<lambda>n.
        mapR Some (ok_or (ParseError ''channel state'' raw)
          (Option.bind n (wire_from_number channel_states channel_state_as_number))))"
    by (simp add: lk_channel_state_number_def lk_header_def Let_def parse_opt_def)
  show ?thesis
  proof (cases "parse_unsigned 8 raw")
    case (Inl e)
    then have "\<not> numeral_of 8 raw n" for n using parse_unsigned_iff [of 8 raw n] by simp
    with Inl L Some show ?thesis by simp
  next
    case (Inr n)
    then have n: "numeral_of 8 raw n" by (simp add: parse_unsigned_iff)
    then have "numeral_of 8 raw m \<longleftrightarrow> m = n" for m using numeral_of_unique by blast
    moreover have "lk_channel_state_number L = Inr (Some v) \<longleftrightarrow> wire_from_number channel_states channel_state_as_number n = Some v"
      unfolding L Inr by (cases "wire_from_number channel_states channel_state_as_number n") simp_all
    ultimately show ?thesis using Some channel_state.from_number_iff [of n v] by auto
  qed
qed (simp add: lk_channel_state_number_def lk_header_def)

section \<open>The interface of a store\<close>

locale header_store =
  fixes L :: header_lookup
  assumes variable_is_header: "lk_variable_str L name = lk_header_str L (variable_key name)"
begin

lemma resignation_marked:
  "lk_loopback_resignation L \<noteq> None \<longleftrightarrow> lk_header_str L ''variable_loopback_hangup_cause'' \<noteq> None"
  using variable_is_header [of "''loopback_hangup_cause''"]
  by (simp add: lk_loopback_resignation_def lk_variable_def variable_key_def)

lemma leg_read:
  "lk_loopback_leg L = Inr (Some h) \<longleftrightarrow> lk_header_str L ''variable_loopback_leg'' = Some (loopback_leg_as_str h)"
  using variable_is_header [of "''loopback_leg''"]
  by (simp add: lk_loopback_leg_def lk_variable_def variable_key_def loopback_leg.parse_opt_some)

end

interpretation hash_map_store: header_store "hash_map_lookup m" for m
  by unfold_locales (simp add: hash_map_lookup_def)

interpretation headers_store: header_store "headers_lookup h" for h
  by unfold_locales (simp add: headers_lookup_def)

interpretation event_store: header_store "event_lookup ev" for ev
  by unfold_locales (simp add: event_lookup_def variable_str_def)

interpretation response_store: header_store "response_lookup r" for r
  by unfold_locales (simp add: response_lookup_def)

section \<open>Properties\<close>


end
