(* ===== verification/Codec_String.thy ===== *)
theory Codec_String
  imports Separate_Tokens Rust_Num Esl_Error
begin

text \<open>
  Codec strings: \<open>types sdp/codec_string/\<close>, \<open>sdp/num.rs\<close>, \<open>sdp/available.rs\<close> and the default rates and packet times of
  \<open>sdp/static_payload.rs\<close>. A codec string is a list of entries, each a name with an optional module, format parameters
  and numeric qualifiers; qualifiers are words of 32 bits. A parser with \<open>None\<close> for the warnings is strict, one
  with a list records a fault there and goes on; the list is passed along and returned.
\<close>

section \<open>Errors and warnings\<close>

datatype codec_string_error =
  AtInFmtp string | DotInFmtpWithoutModule string | InvalidCodecName string | WireInjection string string
| QualifierParseError string string | InvalidCharInName string rchar string | MultipleEntries string
| TooManyEntries nat nat

datatype sdp_warning =
  UnparseableNumericAttribute string string | CodecStringQualifier string string
| FmtpUnrepresentable string string string | CodecNameUnrepresentable string string
| MalformedMediaSection string string | CodecStringTruncated nat nat | NonCanonicalDirectionAttribute string

type_synonym warnings = "sdp_warning list option"

section \<open>Defaults\<close>

definition default_rate :: "string \<Rightarrow> u32" where
  "default_rate name =
     (if eq_ignore_ascii_case name ''opus'' then 48000
      else if (case str_get_to 3 name of Some pfx \<Rightarrow> eq_ignore_ascii_case pfx ''h26'' | None \<Rightarrow> False)
              \<or> (case str_get_to 2 name of Some pfx \<Rightarrow> eq_ignore_ascii_case pfx ''vp'' | None \<Rightarrow> False)
      then 90000 else 8000)"

definition default_ptime :: "string \<Rightarrow> u32" where
  "default_ptime name =
     (if eq_ignore_ascii_case name ''ilbc'' \<or> eq_ignore_ascii_case name ''isac'' \<or> eq_ignore_ascii_case name ''G723''
      then 30 else 20)"

section \<open>Entries\<close>

record codec_string_entry =
  ce_modname :: "string option"
  ce_name :: string
  ce_fmtp :: "string option"
  ce_rate :: "u32 option"
  ce_ptime :: "u32 option"
  ce_bitrate :: "u32 option"
  ce_channels :: "u32 option"

definition is_ascii_whitespace :: "rchar \<Rightarrow> bool" where
  "is_ascii_whitespace c \<longleftrightarrow> c \<in> {[CHR 0x09], [CHR 0x0A], [CHR 0x0C], [CHR 0x0D], [CHR 0x20]}"

definition check_name_grammar :: "string \<Rightarrow> rchar option" where
  "check_name_grammar v =
     find (\<lambda>c. c \<in> {'','', ''@'', ''~'', ''.'', QUOTE, BACKSLASH} \<or> is_ascii_whitespace c) (chars v)"

definition validate_name :: "string \<Rightarrow> codec_string_error + string" where
  "validate_name name =
     (if name = [] then Inl (InvalidCodecName name)
      else if contains_char NL name \<or> contains_char CR name then Inl (WireInjection ''name'' name)
      else case check_name_grammar name of
             Some ch \<Rightarrow> Inl (InvalidCharInName ''name'' ch name)
           | None \<Rightarrow> Inr name)"

definition codec_entry_new :: "string \<Rightarrow> codec_string_error + codec_string_entry" where
  "codec_entry_new name =
     mapR (\<lambda>name. \<lparr>ce_modname = None, ce_name = name, ce_fmtp = None, ce_rate = None, ce_ptime = None,
                   ce_bitrate = None, ce_channels = None\<rparr>) (validate_name name)"

definition ce_set_name :: "string \<Rightarrow> codec_string_entry \<Rightarrow> codec_string_error + codec_string_entry" where
  "ce_set_name name e = mapR (\<lambda>name. e\<lparr>ce_name := name\<rparr>) (validate_name name)"

definition ce_set_module :: "string \<Rightarrow> codec_string_entry \<Rightarrow> codec_string_error + codec_string_entry" where
  "ce_set_module modname e =
     (if contains_char NL modname \<or> contains_char CR modname then Inl (WireInjection ''modname'' modname)
      else case check_name_grammar modname of
             Some ch \<Rightarrow> Inl (InvalidCharInName ''modname'' ch modname)
           | None \<Rightarrow> Inr (e\<lparr>ce_modname := Some modname\<rparr>))"

definition normalize_fmtp_trailing_space :: "string \<Rightarrow> string" where
  "normalize_fmtp_trailing_space fmtp = rev (dropWhile (\<lambda>c. c = CHR 0x20) (rev fmtp))"

definition ce_set_fmtp :: "string \<Rightarrow> codec_string_entry \<Rightarrow> codec_string_error + codec_string_entry" where
  "ce_set_fmtp raw e =
     (let fmtp = normalize_fmtp_trailing_space raw
      in if contains_char NL fmtp \<or> contains_char CR fmtp then Inl (WireInjection ''fmtp'' fmtp)
         else if contains_char (CHR ''@'') fmtp then Inl (AtInFmtp fmtp)
         else if contains_char (CHR ''.'') fmtp \<and> ce_modname e = None then Inl (DotInFmtpWithoutModule fmtp)
         else Inr (e\<lparr>ce_fmtp := Some fmtp\<rparr>))"

definition ce_clear_module :: "codec_string_entry \<Rightarrow> codec_string_error + codec_string_entry" where
  "ce_clear_module e =
     (case ce_fmtp e of
        Some f \<Rightarrow> if contains_char (CHR ''.'') f then Inl (DotInFmtpWithoutModule f) else Inr (e\<lparr>ce_modname := None\<rparr>)
      | None \<Rightarrow> Inr (e\<lparr>ce_modname := None\<rparr>))"

definition ce_clear_fmtp :: "codec_string_entry \<Rightarrow> codec_string_entry" where
  "ce_clear_fmtp e = e\<lparr>ce_fmtp := None\<rparr>"

definition ce_with_rate :: "u32 \<Rightarrow> codec_string_entry \<Rightarrow> codec_string_entry" where
  "ce_with_rate v e = e\<lparr>ce_rate := Some v\<rparr>"

definition ce_with_ptime :: "u32 \<Rightarrow> codec_string_entry \<Rightarrow> codec_string_entry" where
  "ce_with_ptime v e = e\<lparr>ce_ptime := Some v\<rparr>"

definition ce_with_bitrate :: "u32 \<Rightarrow> codec_string_entry \<Rightarrow> codec_string_entry" where
  "ce_with_bitrate v e = e\<lparr>ce_bitrate := Some v\<rparr>"

definition ce_with_channels :: "u32 \<Rightarrow> codec_string_entry \<Rightarrow> codec_string_entry" where
  "ce_with_channels v e = e\<lparr>ce_channels := Some v\<rparr>"

definition ce_clear_rate :: "codec_string_entry \<Rightarrow> codec_string_entry" where
  "ce_clear_rate e = e\<lparr>ce_rate := None\<rparr>"

definition ce_clear_ptime :: "codec_string_entry \<Rightarrow> codec_string_entry" where
  "ce_clear_ptime e = e\<lparr>ce_ptime := None\<rparr>"

definition ce_clear_bitrate :: "codec_string_entry \<Rightarrow> codec_string_entry" where
  "ce_clear_bitrate e = e\<lparr>ce_bitrate := None\<rparr>"

definition ce_clear_channels :: "codec_string_entry \<Rightarrow> codec_string_entry" where
  "ce_clear_channels e = e\<lparr>ce_channels := None\<rparr>"

definition ce_simplify :: "codec_string_entry \<Rightarrow> codec_string_entry" where
  "ce_simplify e =
     (if eq_ignore_ascii_case (ce_name e) ''g722'' then e
      else let e = (if ce_rate e = Some (default_rate (ce_name e)) then e\<lparr>ce_rate := None\<rparr> else e);
               e = (if ce_ptime e = Some (default_ptime (ce_name e)) then e\<lparr>ce_ptime := None\<rparr> else e)
           in if ce_channels e = Some 1 then e\<lparr>ce_channels := None\<rparr> else e)"

definition ENTRY_DELIMITER :: rchar where
  "ENTRY_DELIMITER = '',''"

text \<open>A qualifier as \<open>Display\<close> writes it.\<close>

definition qualifier_text :: "char \<Rightarrow> u32 option \<Rightarrow> string" where
  "qualifier_text letter v = (case v of Some n \<Rightarrow> ''@'' @ dec (unat n) @ [letter] | None \<Rightarrow> [])"

definition codec_entry_display :: "codec_string_entry \<Rightarrow> string" where
  "codec_entry_display e =
     (case ce_modname e of Some m \<Rightarrow> m @ ''.'' | None \<Rightarrow> []) @ ce_name e @
     (case ce_fmtp e of Some f \<Rightarrow> ''~'' @ escape_inside_token f (Some ENTRY_DELIMITER) | None \<Rightarrow> []) @
     qualifier_text (CHR ''h'') (ce_rate e) @ qualifier_text (CHR ''i'') (ce_ptime e) @
     qualifier_text (CHR ''b'') (ce_bitrate e) @ qualifier_text (CHR ''c'') (ce_channels e)"

section \<open>The parser of an entry\<close>

definition split_codec_string :: "string \<Rightarrow> string list" where
  "split_codec_string s = separate_string_char_delim s ENTRY_DELIMITER"

definition digits_u32 :: "string \<Rightarrow> u32 option" where
  "digits_u32 s = (case parse_unsigned 32 s of Inr n \<Rightarrow> Some (of_nat n) | Inl _ \<Rightarrow> None)"

definition atoi_prefix :: "string \<Rightarrow> u32 option \<times> string" where
  "atoi_prefix s = (digits_u32 (takeWhile is_digit s), dropWhile is_digit s)"

datatype qualifier_kind = QPtime | QRate | QBitrate | QChannels

definition classify_qualifier :: "string \<Rightarrow> qualifier_kind option" where
  "classify_qualifier part =
     (if contains_char (CHR ''i'') part then Some QPtime
      else if contains_char (CHR ''h'') part \<or> contains_char (CHR ''k'') part then Some QRate
      else if contains_char (CHR ''b'') part then Some QBitrate
      else if contains_char (CHR ''c'') part then Some QChannels
      else None)"

definition qualifier_fault :: "string \<Rightarrow> string \<Rightarrow> warnings \<Rightarrow> (codec_string_error + unit) \<times> warnings" where
  "qualifier_fault part reason w =
     (case w of
        None \<Rightarrow> (Inl (QualifierParseError part reason), None)
      | Some acc \<Rightarrow> (Inr (), Some (acc @ [CodecStringQualifier part reason])))"

definition apply_qualifier_part ::
  "codec_string_entry \<Rightarrow> string \<Rightarrow> warnings \<Rightarrow> (codec_string_error + codec_string_entry) \<times> warnings" where
  "apply_qualifier_part e part w =
     (case classify_qualifier part of
        None \<Rightarrow> map_prod (mapR (\<lambda>_. e)) id (qualifier_fault part ''no recognised qualifier letter'' w)
      | Some qualifier \<Rightarrow>
          (case fst (atoi_prefix part) of
             None \<Rightarrow>
               let reason = (if part \<noteq> [] \<and> is_digit (hd part) then ''value overflows u32'' else ''no leading digits'')
               in map_prod (mapR (\<lambda>_. e)) id (qualifier_fault part reason w)
           | Some v \<Rightarrow>
               (Inr (case qualifier of
                       QPtime \<Rightarrow> e\<lparr>ce_ptime := Some v\<rparr>
                     | QRate \<Rightarrow> e\<lparr>ce_rate := Some v\<rparr>
                     | QBitrate \<Rightarrow> e\<lparr>ce_bitrate := Some v\<rparr>
                     | QChannels \<Rightarrow> e\<lparr>ce_channels := Some v\<rparr>), w)))"

fun apply_qualifier_parts ::
  "codec_string_entry \<Rightarrow> string list \<Rightarrow> warnings \<Rightarrow> (codec_string_error + codec_string_entry) \<times> warnings" where
  "apply_qualifier_parts e [] w = (Inr e, w)"
| "apply_qualifier_parts e (part # parts) w =
     (case apply_qualifier_part e part w of
        (Inl err, w) \<Rightarrow> (Inl err, w)
      | (Inr e, w) \<Rightarrow> apply_qualifier_parts e parts w)"

text \<open>The builder calls of \<open>parse_entry\<close>.\<close>

definition build_codec_entry :: "string \<Rightarrow> string option \<Rightarrow> string option \<Rightarrow> codec_string_error + codec_string_entry" where
  "build_codec_entry name modname fmtp_raw =
     bindR (codec_entry_new name) (\<lambda>e.
     bindR (case modname of Some m \<Rightarrow> ce_set_module m e | None \<Rightarrow> Inr e) (\<lambda>e.
       case fmtp_raw of Some f \<Rightarrow> ce_set_fmtp f e | None \<Rightarrow> Inr e))"

definition parse_codec_entry :: "string \<Rightarrow> warnings \<Rightarrow> (codec_string_error + codec_string_entry) \<times> warnings" where
  "parse_codec_entry token w =
     (let (name_seg, qualifiers) =
            (case split_once (CHR ''@'') token of
               Some (n, q) \<Rightarrow> (n, split_str ''@'' q)
             | None \<Rightarrow> (token, []));
          (modname, name_and_fmtp) =
            (case split_once (CHR ''.'') name_seg of
               Some (m, rest) \<Rightarrow> (Some m, rest)
             | None \<Rightarrow> (None, name_seg));
          (name, fmtp_raw) =
            (case split_once (CHR ''~'') name_and_fmtp of
               Some (n, f) \<Rightarrow> (n, Some f)
             | None \<Rightarrow> (name_and_fmtp, None))
      in case build_codec_entry name modname fmtp_raw of
           Inl err \<Rightarrow> (Inl err, w)
         | Inr e \<Rightarrow> apply_qualifier_parts e qualifiers w)"

definition codec_entry_from_str :: "string \<Rightarrow> codec_string_error + codec_string_entry" where
  "codec_entry_from_str s =
     (case filter (\<lambda>t. t \<noteq> []) (split_codec_string s) of
        [] \<Rightarrow> Inl (InvalidCodecName s)
      | [t] \<Rightarrow> fst (parse_codec_entry t None)
      | _ \<Rightarrow> Inl (MultipleEntries s))"

section \<open>Codec strings\<close>

type_synonym codec_string = "codec_string_entry list"

definition MAX_SWITCH_ENTRIES :: nat where
  "MAX_SWITCH_ENTRIES = 50"

definition codec_push :: "codec_string_entry \<Rightarrow> codec_string \<Rightarrow> codec_string_error + codec_string" where
  "codec_push e cs =
     (if MAX_SWITCH_ENTRIES \<le> length cs then Inl (TooManyEntries (length cs + 1) MAX_SWITCH_ENTRIES) else Inr (cs @ [e]))"

definition codec_insert :: "nat \<Rightarrow> codec_string_entry \<Rightarrow> codec_string \<Rightarrow> codec_string_entry + codec_string" where
  "codec_insert index e cs =
     (if length cs < index then Inl e else Inr (take index cs @ e # drop index cs))"

definition codec_remove :: "nat \<Rightarrow> codec_string \<Rightarrow> codec_string_entry option \<times> codec_string" where
  "codec_remove index cs =
     (if index < length cs then (Some (cs ! index), take index cs @ drop (Suc index) cs) else (None, cs))"

definition codec_extend_from :: "codec_string \<Rightarrow> codec_string \<Rightarrow> codec_string" where
  "codec_extend_from cs other = cs @ other"

text \<open>The other list is emptied by \<open>append\<close>.\<close>

definition codec_append :: "codec_string \<Rightarrow> codec_string \<Rightarrow> codec_string \<times> codec_string" where
  "codec_append cs other = (cs @ other, [])"

definition codec_clear :: "codec_string \<Rightarrow> codec_string" where
  "codec_clear cs = []"

definition codec_retain :: "(codec_string_entry \<Rightarrow> bool) \<Rightarrow> codec_string \<Rightarrow> codec_string" where
  "codec_retain f cs = filter f cs"

definition codec_qualified :: "codec_string \<Rightarrow> codec_string" where
  "codec_qualified cs =
     filter (\<lambda>e. ce_rate e \<noteq> None \<or> ce_ptime e \<noteq> None \<or> ce_bitrate e \<noteq> None \<or> ce_channels e \<noteq> None \<or> ce_fmtp e \<noteq> None) cs"

definition codec_string_display :: "codec_string \<Rightarrow> string" where
  "codec_string_display cs = join '','' (map codec_entry_display cs)"

fun parse_codec_tokens :: "string list \<Rightarrow> warnings \<Rightarrow> (codec_string_error + codec_string) \<times> warnings" where
  "parse_codec_tokens [] w = (Inr [], w)"
| "parse_codec_tokens (token # tokens) w =
     (if token = [] then parse_codec_tokens tokens w
      else case parse_codec_entry token w of
             (Inl err, w) \<Rightarrow> (Inl err, w)
           | (Inr e, w) \<Rightarrow> map_prod (mapR (\<lambda>es. e # es)) id (parse_codec_tokens tokens w))"

definition parse_codec_string_inner :: "string \<Rightarrow> warnings \<Rightarrow> (codec_string_error + codec_string) \<times> warnings" where
  "parse_codec_string_inner s w =
     (let tokens = split_codec_string s
      in if MAX_SWITCH_ENTRIES < length tokens
         then (case w of
                 None \<Rightarrow> (Inl (TooManyEntries (length tokens) MAX_SWITCH_ENTRIES), None)
               | Some acc \<Rightarrow> parse_codec_tokens tokens (Some (acc @ [CodecStringTruncated (length tokens) MAX_SWITCH_ENTRIES])))
         else parse_codec_tokens tokens w)"

definition codec_string_parse_lenient ::
  "string \<Rightarrow> sdp_warning list \<Rightarrow> (codec_string_error + codec_string) \<times> warnings" where
  "codec_string_parse_lenient s acc = parse_codec_string_inner s (Some acc)"

definition codec_string_from_str :: "string \<Rightarrow> codec_string_error + codec_string" where
  "codec_string_from_str s = fst (parse_codec_string_inner s None)"

section \<open>Duplicates\<close>

definition norm_ptime :: "codec_string_entry \<Rightarrow> u32" where
  "norm_ptime e = (case ce_ptime e of None \<Rightarrow> default_ptime (ce_name e) | Some n \<Rightarrow> if n = 0 then default_ptime (ce_name e) else n)"

definition norm_rate :: "codec_string_entry \<Rightarrow> u32" where
  "norm_rate e = (case ce_rate e of None \<Rightarrow> default_rate (ce_name e) | Some n \<Rightarrow> if n = 0 then default_rate (ce_name e) else n)"

definition norm_channels :: "codec_string_entry \<Rightarrow> u32" where
  "norm_channels e = (case ce_channels e of None \<Rightarrow> 1 | Some n \<Rightarrow> if n = 0 then 1 else n)"

text \<open>The condition of the inner loop of \<open>dedup\<close>.\<close>

definition duplicate_of :: "codec_string_entry \<Rightarrow> codec_string_entry \<Rightarrow> bool" where
  "duplicate_of e earlier \<longleftrightarrow>
     eq_ignore_ascii_case (ce_name e) (ce_name earlier) \<and> norm_ptime e = norm_ptime earlier
     \<and> norm_rate e = norm_rate earlier \<and> norm_channels e = norm_channels earlier
     \<and> eq_ignore_ascii_case (unwrap_or [] (ce_fmtp e)) (unwrap_or [] (ce_fmtp earlier))"

definition codec_dedup :: "codec_string \<Rightarrow> codec_string" where
  "codec_dedup input =
     (let keep = map (\<lambda>x. x = 0 \<or> \<not> list_ex (duplicate_of (input ! x)) (take x input)) [0..<length input]
      in map fst (filter snd (zip input keep)))"

section \<open>Loaded implementations\<close>

datatype sdp_media_type = MediaAudio | MediaVideo | MediaApplication | MediaText | MediaMessage | MediaOther string

record codec_implementation =
  ci_name :: string
  ci_modname :: "string option"
  ci_media_type :: "sdp_media_type option"
  ci_rate :: "u32 option"
  ci_ptime :: "u32 option"
  ci_bitrate :: "u32 option"
  ci_channels :: "u32 option"

definition codec_implementation_new :: "string \<Rightarrow> codec_implementation" where
  "codec_implementation_new name =
     \<lparr>ci_name = name, ci_modname = None, ci_media_type = None, ci_rate = None, ci_ptime = None, ci_bitrate = None,
      ci_channels = None\<rparr>"

definition ci_with_media_type :: "sdp_media_type \<Rightarrow> codec_implementation \<Rightarrow> codec_implementation" where
  "ci_with_media_type v imp = imp\<lparr>ci_media_type := Some v\<rparr>"

definition ci_with_modname :: "string \<Rightarrow> codec_implementation \<Rightarrow> codec_implementation" where
  "ci_with_modname v imp = imp\<lparr>ci_modname := Some v\<rparr>"

definition ci_with_rate :: "u32 \<Rightarrow> codec_implementation \<Rightarrow> codec_implementation" where
  "ci_with_rate v imp = imp\<lparr>ci_rate := Some v\<rparr>"

definition ci_with_ptime :: "u32 \<Rightarrow> codec_implementation \<Rightarrow> codec_implementation" where
  "ci_with_ptime v imp = imp\<lparr>ci_ptime := Some v\<rparr>"

definition ci_with_bitrate :: "u32 \<Rightarrow> codec_implementation \<Rightarrow> codec_implementation" where
  "ci_with_bitrate v imp = imp\<lparr>ci_bitrate := Some v\<rparr>"

definition ci_with_channels :: "u32 \<Rightarrow> codec_implementation \<Rightarrow> codec_implementation" where
  "ci_with_channels v imp = imp\<lparr>ci_channels := Some v\<rparr>"

definition nonzero_qualifier :: "u32 option \<Rightarrow> u32 option" where
  "nonzero_qualifier v = Option.bind v (\<lambda>n. if n \<noteq> 0 then Some n else None)"

text \<open>Two values that are both known and differ.\<close>

definition qualifier_differs :: "u32 option \<Rightarrow> u32 option \<Rightarrow> bool" where
  "qualifier_differs a b = (case (a, b) of (Some x, Some y) \<Rightarrow> x \<noteq> y | _ \<Rightarrow> False)"

definition matches_implementation :: "codec_string_entry \<Rightarrow> codec_implementation \<Rightarrow> bool" where
  "matches_implementation e imp =
     (if \<not> eq_ignore_ascii_case (ce_name e) (ci_name imp) then False
      else if (case ce_modname e of
                 Some entry_mod \<Rightarrow> (case ci_modname imp of Some imp_mod \<Rightarrow> \<not> eq_ignore_ascii_case entry_mod imp_mod | None \<Rightarrow> False)
               | None \<Rightarrow> False) then False
      else if ci_media_type imp = Some MediaVideo then True
      else if \<not> eq_ignore_ascii_case (ce_name e) ''g722'' \<and> qualifier_differs (nonzero_qualifier (ce_rate e)) (ci_rate imp) then False
      else if qualifier_differs (nonzero_qualifier (ce_ptime e)) (ci_ptime imp) then False
      else if qualifier_differs (nonzero_qualifier (ce_bitrate e)) (ci_bitrate imp) then False
      else case ci_channels imp of
             Some ic \<Rightarrow> (let required = unwrap_or 1 (ce_channels e) in \<not> (required \<noteq> 0 \<and> required \<noteq> ic))
           | None \<Rightarrow> True)"

definition retain_available :: "codec_implementation list \<Rightarrow> codec_string \<Rightarrow> codec_string \<times> codec_string" where
  "retain_available impls cs = partition (\<lambda>e. list_ex (matches_implementation e) impls) cs"

section \<open>What an entry holds\<close>

text \<open>
  The invariant of an entry: names without the delimiters of the grammar, format parameters without a trailing
  space, a line end or an at-sign, and a dot in them only behind a module.
\<close>

definition fmtp_ok :: "string option \<Rightarrow> string \<Rightarrow> bool" where
  "fmtp_ok modname f \<longleftrightarrow>
     (f = [] \<or> last f \<noteq> CHR 0x20) \<and> NL \<notin> set f \<and> CR \<notin> set f \<and> CHR ''@'' \<notin> set f \<and> (CHR ''.'' \<in> set f \<longrightarrow> modname \<noteq> None)"

definition codec_entry_inv :: "codec_string_entry \<Rightarrow> bool" where
  "codec_entry_inv e \<longleftrightarrow>
     ce_name e \<noteq> [] \<and> check_name_grammar (ce_name e) = None
     \<and> pred_option (\<lambda>m. check_name_grammar m = None) (ce_modname e) \<and> pred_option (fmtp_ok (ce_modname e)) (ce_fmtp e)"

lemma contains_char_iff [simp]: "contains_char c s \<longleftrightarrow> c \<in> set s"
  by (simp add: contains_char_def)

lemma validate_name_Inr: "validate_name n = Inr m \<Longrightarrow> m = n \<and> n \<noteq> [] \<and> check_name_grammar n = None"
  by (auto simp: validate_name_def split: if_splits option.splits)

lemma normalized_fmtp_edge: "normalize_fmtp_trailing_space f = [] \<or> last (normalize_fmtp_trailing_space f) \<noteq> CHR 0x20"
  using hd_dropWhile [of "\<lambda>c. c = CHR 0x20" "rev f"]
  by (auto simp: normalize_fmtp_trailing_space_def last_rev)

lemma normalized_fmtp_id: "f = [] \<or> last f \<noteq> CHR 0x20 \<Longrightarrow> normalize_fmtp_trailing_space f = f"
  using dropWhile_eq_self_iff [of "\<lambda>c. c = CHR 0x20" "rev f"]
  by (cases "f = []") (simp_all add: normalize_fmtp_trailing_space_def hd_rev)

lemma codec_entry_new_inv: "codec_entry_new n = Inr e \<Longrightarrow> codec_entry_inv e"
  by (auto simp: codec_entry_new_def mapR_eq_Inr codec_entry_inv_def dest!: validate_name_Inr)

lemma ce_set_module_inv: "codec_entry_inv e \<Longrightarrow> ce_set_module m e = Inr e' \<Longrightarrow> codec_entry_inv e'"
  by (cases "ce_fmtp e") (auto simp: ce_set_module_def codec_entry_inv_def fmtp_ok_def split: if_splits option.splits)

lemma ce_set_fmtp_inv: "codec_entry_inv e \<Longrightarrow> ce_set_fmtp f e = Inr e' \<Longrightarrow> codec_entry_inv e'"
  using normalized_fmtp_edge [of f]
  by (auto simp: ce_set_fmtp_def codec_entry_inv_def fmtp_ok_def Let_def split: if_splits)

lemma ce_edit_inv:
  assumes "codec_entry_inv e"
  shows "ce_set_name n e = Inr e' \<Longrightarrow> codec_entry_inv e'" and "ce_clear_module e = Inr e' \<Longrightarrow> codec_entry_inv e'"
    and "codec_entry_inv (ce_clear_fmtp e)" and "codec_entry_inv (ce_simplify e)"
    and "codec_entry_inv (ce_with_rate v e)" and "codec_entry_inv (ce_with_ptime v e)" and "codec_entry_inv (ce_with_bitrate v e)"
    and "codec_entry_inv (ce_with_channels v e)" and "codec_entry_inv (ce_clear_rate e)" and "codec_entry_inv (ce_clear_ptime e)"
    and "codec_entry_inv (ce_clear_bitrate e)" and "codec_entry_inv (ce_clear_channels e)"
proof -
  show "ce_set_name n e = Inr e' \<Longrightarrow> codec_entry_inv e'"
    using assms by (auto simp: ce_set_name_def mapR_eq_Inr codec_entry_inv_def dest!: validate_name_Inr)
  show "ce_clear_module e = Inr e' \<Longrightarrow> codec_entry_inv e'"
    using assms by (cases "ce_fmtp e") (auto simp: ce_clear_module_def codec_entry_inv_def fmtp_ok_def split: if_splits)
  show "codec_entry_inv (ce_clear_fmtp e)" "codec_entry_inv (ce_simplify e)"
    using assms by (simp_all add: ce_clear_fmtp_def ce_simplify_def codec_entry_inv_def Let_def)
qed (use assms in \<open>simp_all add: codec_entry_inv_def ce_with_rate_def ce_with_ptime_def ce_with_bitrate_def ce_with_channels_def
    ce_clear_rate_def ce_clear_ptime_def ce_clear_bitrate_def ce_clear_channels_def\<close>)

lemma apply_qualifier_part_inv:
  "codec_entry_inv e \<Longrightarrow> apply_qualifier_part e p w = (Inr e', w') \<Longrightarrow> codec_entry_inv e'"
  by (auto simp: apply_qualifier_part_def codec_entry_inv_def mapR_eq_Inr map_prod_def Let_def
      split: option.splits qualifier_kind.splits prod.splits)

lemma apply_qualifier_parts_inv:
  "codec_entry_inv e \<Longrightarrow> apply_qualifier_parts e ps w = (Inr e', w') \<Longrightarrow> codec_entry_inv e'"
  by (induction ps arbitrary: e w) (auto split: prod.splits sum.splits dest: apply_qualifier_part_inv)

lemma build_codec_entry_inv:
  assumes "build_codec_entry name modname fmtp = Inr e"
  shows "codec_entry_inv e"
proof -
  obtain e0 e1 where "codec_entry_new name = Inr e0"
    and m: "(case modname of Some m \<Rightarrow> ce_set_module m e0 | None \<Rightarrow> Inr e0) = Inr e1"
    and f: "(case fmtp of Some f \<Rightarrow> ce_set_fmtp f e1 | None \<Rightarrow> Inr e1) = Inr e"
    using assms by (auto simp: build_codec_entry_def bindR_eq_Inr)
  then have "codec_entry_inv e0" by (auto dest: codec_entry_new_inv)
  with m have "codec_entry_inv e1" by (auto split: option.splits intro: ce_set_module_inv)
  with f show ?thesis by (auto split: option.splits intro: ce_set_fmtp_inv)
qed

lemma parse_codec_entry_inv: "parse_codec_entry t w = (Inr e, w') \<Longrightarrow> codec_entry_inv e"
  by (auto simp: parse_codec_entry_def Let_def split: prod.splits sum.splits
      dest!: build_codec_entry_inv intro: apply_qualifier_parts_inv)

lemma parse_codec_tokens_inv: "parse_codec_tokens ts w = (Inr es, w') \<Longrightarrow> list_all codec_entry_inv es"
proof (induction ts arbitrary: w es)
  case (Cons t ts)
  show ?case
  proof (cases "t = []")
    case False
    then obtain e w1 es1 where "parse_codec_entry t w = (Inr e, w1)" "parse_codec_tokens ts w1 = (Inr es1, w')" "es = e # es1"
      using Cons.prems by (auto simp: mapR_eq_Inr map_prod_def split: prod.splits sum.splits)
    then show ?thesis using Cons.IH parse_codec_entry_inv by simp
  qed (use Cons in simp)
qed simp

section \<open>Texts inside a token\<close>

lemma escape_append: "utf8_valid a \<Longrightarrow> escape_inside_token (a @ b) d = escape_inside_token a d @ escape_inside_token b d"
  by (simp add: escape_inside_token_def chars_append)

lemma escape_plain:
  assumes "\<forall>c \<in> set (chars s). \<not> takes_a_backslash c d"
  shows "escape_inside_token s d = s"
proof -
  have "map (\<lambda>c. if takes_a_backslash c d then BACKSLASH @ c else c) (chars s) = chars s"
    using assms by (intro map_idI) simp
  then show ?thesis by (simp only: escape_inside_token_def concat_chars)
qed

lemma chars_ends:
  assumes "t \<noteq> []"
  shows "hd (chars t) = SPACE \<Longrightarrow> hd t = CHR 0x20" and "last (chars t) = SPACE \<Longrightarrow> last t = CHR 0x20"
proof -
  have ne: "chars t \<noteq> []" using assms by simp
  have t: "t = concat (chars t)" by simp
  show "hd t = CHR 0x20" if "hd (chars t) = SPACE"
  proof -
    have "t = SPACE @ concat (tl (chars t))" using t ne that by (metis concat.simps(2) list.collapse)
    then show ?thesis by (metis append_Cons list.sel(1))
  qed
  show "last t = CHR 0x20" if "last (chars t) = SPACE"
  proof -
    have "concat (chars t) = concat (butlast (chars t)) @ SPACE"
      using ne that by (metis append_butlast_last_id concat.simps(1,2) concat_append append_Nil2)
    then show ?thesis using t by (metis last_snoc)
  qed
qed

lemma edge_freeI:
  assumes "utf8_valid t" and "CHR 0x00 \<notin> set t" and "t = [] \<or> hd t \<noteq> CHR 0x20 \<and> last t \<noteq> CHR 0x20"
  shows "edge_free t"
proof -
  have "is_ascii (CHR 0x00)" by (simp add: is_ascii_def)
  then have "NUL \<notin> set (chars t)" using ascii_chars_iff [OF assms(1)] assms(2) by blast
  then show ?thesis using assms(1,3) chars_ends [of t] unfolding edge_free_def by blast
qed

text \<open>Text that the grammar leaves alone: the bytes that no name may hold.\<close>

definition name_text :: "string \<Rightarrow> bool" where
  "name_text s \<longleftrightarrow> set s \<inter> {CHR '','', CHR ''@'', CHR ''~'', CHR ''.'', CHR 0x27, CHR 0x5C, CHR 0x20, NL, CR} = {}"

lemma checked_name_text:
  assumes "utf8_valid s" and "check_name_grammar s = None"
  shows "name_text s"
proof -
  have "b \<notin> set s" if "b \<in> {CHR '','', CHR ''@'', CHR ''~'', CHR ''.'', CHR 0x27, CHR 0x5C, CHR 0x20, NL, CR}" for b
  proof -
    have "is_ascii b" using that by (auto simp: is_ascii_def)
    moreover have "[b] \<notin> set (chars s)"
    proof
      assume "[b] \<in> set (chars s)"
      then have "\<not> ([b] \<in> {'','', ''@'', ''~'', ''.'', QUOTE, BACKSLASH} \<or> is_ascii_whitespace [b])"
        using assms(2) unfolding check_name_grammar_def find_None_iff by blast
      moreover have "[b] \<in> {'','', ''@'', ''~'', ''.'', QUOTE, BACKSLASH} \<or> is_ascii_whitespace [b]"
        using that by (elim insertE emptyE) (simp_all add: is_ascii_whitespace_def)
      ultimately show False by (rule notE)
    qed
    ultimately show ?thesis using ascii_chars_iff [OF assms(1)] by blast
  qed
  then show ?thesis unfolding name_text_def by blast
qed

lemma escape_bare_token:
  assumes "utf8_valid s" and "CHR '','' \<notin> set s" "CHR 0x27 \<notin> set s" "CHR 0x5C \<notin> set s"
  shows "escape_inside_token s (Some ENTRY_DELIMITER) = s"
proof (rule escape_plain)
  have "[b] \<notin> set (chars s)" if "b \<in> {CHR '','', CHR 0x27, CHR 0x5C}" for b
  proof -
    have "is_ascii b" using that by (auto simp: is_ascii_def)
    moreover have "b \<notin> set s" using that assms(2-) by blast
    ultimately show ?thesis using ascii_chars_iff [OF assms(1)] by blast
  qed
  then show "\<forall>c \<in> set (chars s). \<not> takes_a_backslash c (Some ENTRY_DELIMITER)"
    unfolding takes_a_backslash_def ENTRY_DELIMITER_def by blast
qed

section \<open>An entry read back\<close>

definition qualifier_parts :: "char \<Rightarrow> u32 option \<Rightarrow> string list" where
  "qualifier_parts letter v = (case v of Some n \<Rightarrow> [dec (unat n) @ [letter]] | None \<Rightarrow> [])"

definition entry_parts :: "codec_string_entry \<Rightarrow> string list" where
  "entry_parts e =
     qualifier_parts (CHR ''h'') (ce_rate e) @ qualifier_parts (CHR ''i'') (ce_ptime e) @
     qualifier_parts (CHR ''b'') (ce_bitrate e) @ qualifier_parts (CHR ''c'') (ce_channels e)"

definition entry_head :: "codec_string_entry \<Rightarrow> string" where
  "entry_head e =
     (case ce_modname e of Some m \<Rightarrow> m @ ''.'' | None \<Rightarrow> []) @ ce_name e @ (case ce_fmtp e of Some f \<Rightarrow> ''~'' @ f | None \<Rightarrow> [])"

definition entry_tail :: "codec_string_entry \<Rightarrow> string" where
  "entry_tail e = concat (map (\<lambda>p. CHR ''@'' # p) (entry_parts e))"

lemma qualifier_text_parts: "qualifier_text l v = concat (map (\<lambda>p. CHR ''@'' # p) (qualifier_parts l v))"
  by (simp add: qualifier_text_def qualifier_parts_def split: option.split)

lemma entry_tail_text:
  "entry_tail e = qualifier_text (CHR ''h'') (ce_rate e) @ qualifier_text (CHR ''i'') (ce_ptime e) @
     qualifier_text (CHR ''b'') (ce_bitrate e) @ qualifier_text (CHR ''c'') (ce_channels e)"
  by (simp add: entry_tail_def entry_parts_def qualifier_text_parts)

lemma part_bytes:
  "p \<in> set (entry_parts e) \<Longrightarrow> c \<in> set p \<Longrightarrow> is_digit c \<or> c = CHR ''h'' \<or> c = CHR ''i'' \<or> c = CHR ''b'' \<or> c = CHR ''c''"
  using dec_digits by (fastforce simp: entry_parts_def qualifier_parts_def list_all_iff split: option.splits)

lemma tail_bytes: "c \<in> set (entry_tail e) \<Longrightarrow> is_digit c \<or> c = CHR ''h'' \<or> c = CHR ''i'' \<or> c = CHR ''b'' \<or> c = CHR ''c'' \<or> c = CHR ''@''"
  using part_bytes [of _ e c] by (auto simp: entry_tail_def split: if_splits)

lemma tail_plain: "list_all is_ascii (entry_tail e)" "x \<in> {CHR '','', CHR 0x27, CHR 0x5C, CHR 0x20, CHR 0x00} \<Longrightarrow> x \<notin> set (entry_tail e)"
proof -
  show "list_all is_ascii (entry_tail e)" using tail_bytes by (fastforce simp: list_all_iff is_ascii_def is_digit_def)
  assume x: "x \<in> {CHR '','', CHR 0x27, CHR 0x5C, CHR 0x20, CHR 0x00}"
  show "x \<notin> set (entry_tail e)"
  proof
    assume "x \<in> set (entry_tail e)"
    from tail_bytes [OF this] x show False by (elim insertE emptyE; elim disjE) (simp_all add: is_digit_def)
  qed
qed

lemma split_parts:
  assumes "\<forall>p \<in> set (q # ps). CHR ''@'' \<notin> set p"
  shows "split_str ''@'' (q @ concat (map (\<lambda>p. CHR ''@'' # p) ps)) = q # ps"
  using assms
proof (induction ps arbitrary: q)
  case Nil
  have "str_find ''@'' xs = None" if "CHR ''@'' \<notin> set xs" for xs
    using that by (induction xs) (auto simp: starts_with_def)
  with Nil show ?case by (subst split_str.simps) simp
next
  case (Cons p ps)
  have find: "str_find ''@'' (xs @ CHR ''@'' # r) = Some (length xs)" if "CHR ''@'' \<notin> set xs" for xs r
    using that by (induction xs) (auto simp: starts_with_def)
  have "split_str ''@'' (q @ CHR ''@'' # r) = q # split_str ''@'' r" for r
    using Cons.prems by (subst split_str.simps) (simp add: find)
  then show ?case using Cons by simp
qed

lemma digits_u32_dec: "digits_u32 (dec (unat (n :: u32))) = Some n"
proof -
  have "unat n < 2 ^ 32" using unsigned_less [of n] by simp
  then have "parse_unsigned 32 (dec (unat n)) = Inr (unat n)"
    by (simp only: parse_unsigned_iff numeral_of_dec)
  then show ?thesis by (simp add: digits_u32_def)
qed

lemma qualifier_part_read:
  assumes "l \<in> {CHR ''h'', CHR ''i'', CHR ''b'', CHR ''c''}"
  shows "apply_qualifier_part e (dec (unat n) @ [l]) w =
    (Inr (if l = CHR ''i'' then e\<lparr>ce_ptime := Some n\<rparr> else if l = CHR ''h'' then e\<lparr>ce_rate := Some n\<rparr>
          else if l = CHR ''b'' then e\<lparr>ce_bitrate := Some n\<rparr> else e\<lparr>ce_channels := Some n\<rparr>), w)"
proof -
  have d: "list_all is_digit (dec (unat n))" by (rule dec_digits)
  then have no: "CHR ''i'' \<notin> set (dec (unat n))" "CHR ''h'' \<notin> set (dec (unat n))" "CHR ''k'' \<notin> set (dec (unat n))"
    "CHR ''b'' \<notin> set (dec (unat n))" "CHR ''c'' \<notin> set (dec (unat n))"
    by (auto simp: list_all_iff is_digit_def)
  have "\<not> is_digit l" using assms by (auto simp: is_digit_def)
  with d have "takeWhile is_digit (dec (unat n) @ [l]) = dec (unat n)"
    by (simp add: takeWhile_append2 list_all_iff)
  then have "fst (atoi_prefix (dec (unat n) @ [l])) = Some n" by (simp add: atoi_prefix_def digits_u32_dec)
  with assms no show ?thesis by (elim insertE emptyE) (simp_all add: apply_qualifier_part_def classify_qualifier_def)
qed

lemma parts_read:
  assumes "ce_rate e0 = None" "ce_ptime e0 = None" "ce_bitrate e0 = None" "ce_channels e0 = None"
  shows "apply_qualifier_parts e0 (entry_parts e) w =
    (Inr (e0\<lparr>ce_rate := ce_rate e, ce_ptime := ce_ptime e, ce_bitrate := ce_bitrate e, ce_channels := ce_channels e\<rparr>), w)"
proof -
  have step: "apply_qualifier_parts x (qualifier_parts l v @ ps) w =
      apply_qualifier_parts (case v of None \<Rightarrow> x | Some n \<Rightarrow>
        if l = CHR ''i'' then x\<lparr>ce_ptime := Some n\<rparr> else if l = CHR ''h'' then x\<lparr>ce_rate := Some n\<rparr>
        else if l = CHR ''b'' then x\<lparr>ce_bitrate := Some n\<rparr> else x\<lparr>ce_channels := Some n\<rparr>) ps w"
    if "l \<in> {CHR ''h'', CHR ''i'', CHR ''b'', CHR ''c''}" for l v ps x
    using qualifier_part_read [OF that] by (simp add: qualifier_parts_def split: option.split)
  show ?thesis
    using step [of "CHR ''h''" e0 "ce_rate e"] step [of "CHR ''i''" _ "ce_ptime e"]
      step [of "CHR ''b''" _ "ce_bitrate e"] step [of "CHR ''c''" _ "ce_channels e" "[]"] assms
    by (cases e0) (simp add: entry_parts_def split: option.split)
qed

text \<open>The strings of an entry as Rust has them, without a NUL, which ends a text of the switch.\<close>

definition plain_utf8 :: "string \<Rightarrow> bool" where
  "plain_utf8 s \<longleftrightarrow> utf8_valid s \<and> CHR 0x00 \<notin> set s"

definition entry_texts :: "codec_string_entry \<Rightarrow> string list" where
  "entry_texts e = ce_name e # map the (filter (\<lambda>t. t \<noteq> None) [ce_modname e, ce_fmtp e])"

lemma entry_texts_ok:
  "list_all plain_utf8 (entry_texts e) \<longleftrightarrow>
     plain_utf8 (ce_name e) \<and> pred_option plain_utf8 (ce_modname e) \<and> pred_option plain_utf8 (ce_fmtp e)"
  by (cases "ce_modname e"; cases "ce_fmtp e") (auto simp: entry_texts_def)

lemma entry_names:
  assumes "codec_entry_inv e" and "list_all plain_utf8 (entry_texts e)"
  shows "name_text (ce_name e)" and "\<And>m. ce_modname e = Some m \<Longrightarrow> name_text m"
  using assms checked_name_text by (auto simp: codec_entry_inv_def entry_texts_ok plain_utf8_def)

lemma name_textD: "name_text s \<Longrightarrow> c \<in> {CHR '','', CHR ''@'', CHR ''~'', CHR ''.'', CHR 0x27, CHR 0x5C, CHR 0x20, NL, CR} \<Longrightarrow> c \<notin> set s"
  unfolding name_text_def by blast

lemma entry_head_at:
  assumes "codec_entry_inv e" and "list_all plain_utf8 (entry_texts e)"
  shows "CHR ''@'' \<notin> set (entry_head e)"
proof -
  have "CHR ''@'' \<notin> set (ce_name e)" "\<And>m. ce_modname e = Some m \<Longrightarrow> CHR ''@'' \<notin> set m"
    using entry_names [OF assms] name_textD by blast+
  moreover have "\<And>f. ce_fmtp e = Some f \<Longrightarrow> CHR ''@'' \<notin> set f"
    using assms(1) by (auto simp: codec_entry_inv_def fmtp_ok_def)
  ultimately show ?thesis by (auto simp: entry_head_def split: option.splits)
qed

lemma build_read:
  assumes "codec_entry_inv e" and "list_all plain_utf8 (entry_texts e)"
  shows "build_codec_entry (ce_name e) (ce_modname e) (ce_fmtp e) =
    Inr (e\<lparr>ce_rate := None, ce_ptime := None, ce_bitrate := None, ce_channels := None\<rparr>)"
proof -
  have n: "NL \<notin> set (ce_name e)" "CR \<notin> set (ce_name e)" "\<And>m. ce_modname e = Some m \<Longrightarrow> NL \<notin> set m"
    "\<And>m. ce_modname e = Some m \<Longrightarrow> CR \<notin> set m"
    using entry_names [OF assms] name_textD by blast+
  have new: "codec_entry_new (ce_name e) = Inr (e\<lparr>ce_modname := None, ce_fmtp := None, ce_rate := None, ce_ptime := None,
      ce_bitrate := None, ce_channels := None\<rparr>)"
    using assms(1) n by (cases e) (simp add: codec_entry_new_def validate_name_def codec_entry_inv_def)
  have "(case ce_modname e of Some m \<Rightarrow> ce_set_module m x | None \<Rightarrow> Inr x) = Inr (x\<lparr>ce_modname := ce_modname e\<rparr>)"
    if "ce_modname x = None" for x :: codec_string_entry
    using assms(1) n that by (cases x; cases "ce_modname e") (simp_all add: ce_set_module_def codec_entry_inv_def)
  moreover have "(case ce_fmtp e of Some f \<Rightarrow> ce_set_fmtp f x | None \<Rightarrow> Inr x) = Inr (x\<lparr>ce_fmtp := ce_fmtp e\<rparr>)"
    if "ce_modname x = ce_modname e" "ce_fmtp x = None" for x :: codec_string_entry
  proof (cases "ce_fmtp e")
    case (Some f)
    then have f: "fmtp_ok (ce_modname e) f" using assms(1) by (simp add: codec_entry_inv_def)
    then have "normalize_fmtp_trailing_space f = f" by (intro normalized_fmtp_id) (simp add: fmtp_ok_def)
    with f that Some show ?thesis by (auto simp: ce_set_fmtp_def fmtp_ok_def)
  qed (use that in \<open>cases x; simp\<close>)
  ultimately have "build_codec_entry (ce_name e) (ce_modname e) (ce_fmtp e) =
      Inr (e\<lparr>ce_modname := ce_modname e, ce_fmtp := ce_fmtp e, ce_rate := None, ce_ptime := None, ce_bitrate := None, ce_channels := None\<rparr>)"
    by (simp add: build_codec_entry_def new)
  then show ?thesis by simp
qed

lemma entry_text_read:
  assumes "codec_entry_inv e" and "list_all plain_utf8 (entry_texts e)"
  shows "parse_codec_entry (entry_head e @ entry_tail e) w = (Inr e, w)"
proof -
  let ?rest = "ce_name e @ (case ce_fmtp e of Some f \<Rightarrow> ''~'' @ f | None \<Rightarrow> [])"
  have no: "CHR ''~'' \<notin> set (ce_name e)" "CHR ''.'' \<notin> set (ce_name e)" "\<And>m. ce_modname e = Some m \<Longrightarrow> CHR ''.'' \<notin> set m"
    using entry_names [OF assms] name_textD by blast+
  have tilde: "(case split_once (CHR ''~'') ?rest of Some (n, f) \<Rightarrow> (n, Some f) | None \<Rightarrow> (?rest, None)) = (ce_name e, ce_fmtp e)"
    using no(1) by (cases "ce_fmtp e") (simp_all add: split_once_None [THEN iffD2])
  have dot: "(case split_once (CHR ''.'') (entry_head e) of Some (m, r) \<Rightarrow> (Some m, r) | None \<Rightarrow> (None, entry_head e)) = (ce_modname e, ?rest)"
  proof (cases "ce_modname e")
    case None
    then have "CHR ''.'' \<notin> set (entry_head e)"
      using no(2) assms(1) by (cases "ce_fmtp e") (auto simp: entry_head_def codec_entry_inv_def fmtp_ok_def)
    then have n: "split_once (CHR ''.'') (entry_head e) = None" by simp
    show ?thesis unfolding n by (simp add: None entry_head_def)
  next
    case (Some m)
    then show ?thesis using no(3) [OF Some] by (simp add: entry_head_def)
  qed
  have at: "(case split_once (CHR ''@'') (entry_head e @ entry_tail e) of Some (n, q) \<Rightarrow> (n, split_str ''@'' q)
      | None \<Rightarrow> (entry_head e @ entry_tail e, [])) = (entry_head e, entry_parts e)"
  proof (cases "entry_parts e")
    case Nil
    then show ?thesis using entry_head_at [OF assms] by (simp add: entry_tail_def split_once_None [THEN iffD2])
  next
    case (Cons q ps)
    then have "\<forall>p \<in> set (q # ps). CHR ''@'' \<notin> set p" using part_bytes [of _ e "CHR ''@''"] by (auto simp: is_digit_def)
    from split_parts [OF this] show ?thesis using Cons entry_head_at [OF assms] by (simp add: entry_tail_def)
  qed
  show ?thesis
    unfolding parse_codec_entry_def Let_def at case_prod_conv dot tilde build_read [OF assms] sum.case
    by (subst parts_read) simp_all
qed

lemma entry_display_text:
  assumes "codec_entry_inv e" and "list_all plain_utf8 (entry_texts e)"
  shows "codec_entry_display e = escape_inside_token (entry_head e @ entry_tail e) (Some ENTRY_DELIMITER)"
proof -
  let ?esc = "\<lambda>s. escape_inside_token s (Some ENTRY_DELIMITER)"
  have bare: "?esc s = s" if "name_text s" "utf8_valid s" for s
    using that by (intro escape_bare_token) (auto dest: name_textD)
  have ascii: "utf8_valid ''.''" "utf8_valid ''~''"
    by (rule utf8_valid_ascii, simp add: is_ascii_def)+
  have dot: "?esc ''.'' = ''.''" and tilde: "?esc ''~'' = ''~''" and nil: "?esc [] = []"
    using ascii by (auto intro!: escape_bare_token simp: escape_inside_token_def [of "[]"])
  have valid: "utf8_valid (ce_name e)" "\<And>m. ce_modname e = Some m \<Longrightarrow> utf8_valid m" "\<And>f. ce_fmtp e = Some f \<Longrightarrow> utf8_valid f"
    using assms(2) by (auto simp: entry_texts_ok plain_utf8_def)
  have tail: "?esc (entry_tail e) = entry_tail e"
    using tail_plain(1) [of e] tail_plain(2) [of _ e] by (intro escape_bare_token) (auto intro: utf8_valid_ascii)
  have md: "?esc (case ce_modname e of Some m \<Rightarrow> m @ ''.'' | None \<Rightarrow> []) = (case ce_modname e of Some m \<Rightarrow> m @ ''.'' | None \<Rightarrow> [])"
    "utf8_valid (case ce_modname e of Some m \<Rightarrow> m @ ''.'' | None \<Rightarrow> [])"
  proof -
    have "?esc (m @ ''.'') = m @ ''.'' \<and> utf8_valid (m @ ''.'')" if "ce_modname e = Some m" for m
      using bare [OF entry_names(2) [OF assms that] valid(2) [OF that]] valid(2) [OF that] dot ascii(1)
      by (simp only: escape_append valid_append simp_thms)
    then show "?esc (case ce_modname e of Some m \<Rightarrow> m @ ''.'' | None \<Rightarrow> []) = (case ce_modname e of Some m \<Rightarrow> m @ ''.'' | None \<Rightarrow> [])"
      "utf8_valid (case ce_modname e of Some m \<Rightarrow> m @ ''.'' | None \<Rightarrow> [])"
      using nil by (simp_all split: option.split)
  qed
  have fm: "?esc (case ce_fmtp e of Some f \<Rightarrow> ''~'' @ f | None \<Rightarrow> []) = (case ce_fmtp e of Some f \<Rightarrow> ''~'' @ ?esc f | None \<Rightarrow> [])"
    "utf8_valid (case ce_fmtp e of Some f \<Rightarrow> ''~'' @ f | None \<Rightarrow> [])"
  proof -
    have "?esc (''~'' @ f) = ''~'' @ ?esc f \<and> utf8_valid (''~'' @ f)" if "ce_fmtp e = Some f" for f
      using valid(3) [OF that] tilde ascii(2) by (simp only: escape_append valid_append simp_thms)
    then show "?esc (case ce_fmtp e of Some f \<Rightarrow> ''~'' @ f | None \<Rightarrow> []) = (case ce_fmtp e of Some f \<Rightarrow> ''~'' @ ?esc f | None \<Rightarrow> [])"
      "utf8_valid (case ce_fmtp e of Some f \<Rightarrow> ''~'' @ f | None \<Rightarrow> [])"
      using nil by (simp_all split: option.split)
  qed
  have "?esc (entry_head e @ entry_tail e) = ?esc (case ce_modname e of Some m \<Rightarrow> m @ ''.'' | None \<Rightarrow> []) @ ?esc (ce_name e) @
      ?esc (case ce_fmtp e of Some f \<Rightarrow> ''~'' @ f | None \<Rightarrow> []) @ ?esc (entry_tail e)"
    by (simp only: entry_head_def append_assoc escape_append [OF md(2)] escape_append [OF valid(1)] escape_append [OF fm(2)])
  then show ?thesis
    by (simp only: codec_entry_display_def entry_tail_text [symmetric] md(1) fm(1) tail bare [OF entry_names(1) [OF assms] valid(1)])
qed

lemma entry_head_plain:
  assumes "list_all plain_utf8 (entry_texts e)"
  shows "plain_utf8 (entry_head e)"
proof -
  have ascii: "utf8_valid ''.''" "utf8_valid ''~''"
    by (rule utf8_valid_ascii, simp add: is_ascii_def)+
  have app: "plain_utf8 (a @ b)" if "plain_utf8 a" "plain_utf8 b" for a b
    using that by (simp add: plain_utf8_def valid_append)
  have lit: "plain_utf8 ''.''" "plain_utf8 ''~''" "plain_utf8 []" using ascii by (simp_all add: plain_utf8_def utf8_valid_ascii)
  have "plain_utf8 (case ce_modname e of Some m \<Rightarrow> m @ ''.'' | None \<Rightarrow> [])"
    using assms lit app [OF _ lit(1)] by (cases "ce_modname e") (simp_all add: entry_texts_ok)
  moreover have "plain_utf8 (case ce_fmtp e of Some f \<Rightarrow> ''~'' @ f | None \<Rightarrow> [])"
    using assms lit app [OF lit(2)] by (cases "ce_fmtp e") (simp_all add: entry_texts_ok)
  moreover have "plain_utf8 (ce_name e)" using assms by (simp add: entry_texts_ok)
  ultimately show ?thesis unfolding entry_head_def by (intro app)
qed

lemma entry_head_edges:
  assumes "codec_entry_inv e" and "list_all plain_utf8 (entry_texts e)"
  shows "entry_head e \<noteq> []" and "hd (entry_head e) \<noteq> CHR 0x20" and "last (entry_head e) \<noteq> CHR 0x20"
proof -
  have n: "ce_name e \<noteq> []" using assms(1) by (simp add: codec_entry_inv_def)
  then show "entry_head e \<noteq> []" by (simp add: entry_head_def)
  have sp: "hd s \<noteq> CHR 0x20" "last s \<noteq> CHR 0x20" if "name_text s" "s \<noteq> []" for s
    using that name_textD [of s "CHR 0x20"] hd_in_set [of s] last_in_set [of s] by force+
  show "hd (entry_head e) \<noteq> CHR 0x20"
  proof (cases "ce_modname e")
    case None
    then show ?thesis using n sp(1) [OF entry_names(1) [OF assms] n] by (simp add: entry_head_def hd_append)
  next
    case (Some m)
    then show ?thesis using sp(1) [OF entry_names(2) [OF assms Some]] by (cases "m = []") (simp_all add: entry_head_def hd_append)
  qed
  show "last (entry_head e) \<noteq> CHR 0x20"
  proof (cases "ce_fmtp e")
    case None
    then show ?thesis using n sp(2) [OF entry_names(1) [OF assms] n] by (simp add: entry_head_def)
  next
    case (Some f)
    then have "f = [] \<or> last f \<noteq> CHR 0x20" using assms(1) by (simp add: codec_entry_inv_def fmtp_ok_def)
    with Some show ?thesis by (auto simp: entry_head_def)
  qed
qed

lemma entry_text_edge_free:
  assumes "codec_entry_inv e" and "list_all plain_utf8 (entry_texts e)"
  shows "edge_free (entry_head e @ entry_tail e)"
proof (rule edge_freeI)
  have tail: "CHR 0x00 \<notin> set (entry_tail e)" "CHR 0x20 \<notin> set (entry_tail e)" by (rule tail_plain(2); simp)+
  note head = entry_head_plain [OF assms(2)] and edges = entry_head_edges [OF assms]
  show "utf8_valid (entry_head e @ entry_tail e)"
    using head utf8_valid_ascii [OF tail_plain(1)] by (simp add: plain_utf8_def valid_append)
  show "CHR 0x00 \<notin> set (entry_head e @ entry_tail e)" using head tail(1) by (simp add: plain_utf8_def)
  have "last (entry_tail e) \<noteq> CHR 0x20" if "entry_tail e \<noteq> []" using tail(2) last_in_set [OF that] by metis
  then show "entry_head e @ entry_tail e = [] \<or> hd (entry_head e @ entry_tail e) \<noteq> CHR 0x20 \<and> last (entry_head e @ entry_tail e) \<noteq> CHR 0x20"
    using edges by (simp add: hd_append last_append)
qed

lemma tokens_read:
  "list_all (\<lambda>e. codec_entry_inv e \<and> list_all plain_utf8 (entry_texts e)) cs \<Longrightarrow>
   parse_codec_tokens (map (\<lambda>e. entry_head e @ entry_tail e) cs) w = (Inr cs, w)"
  by (induction cs arbitrary: w) (simp_all add: entry_text_read entry_head_edges)

lemma codec_string_split:
  assumes "list_all (\<lambda>e. codec_entry_inv e \<and> list_all plain_utf8 (entry_texts e)) cs" and "length cs < USIZE_MAX"
  shows "split_codec_string (codec_string_display cs) = map (\<lambda>e. entry_head e @ entry_tail e) cs"
proof -
  let ?toks = "map (\<lambda>e. entry_head e @ entry_tail e) cs"
  have "map codec_entry_display cs = map (\<lambda>t. escape_inside_token t (Some ENTRY_DELIMITER)) ?toks"
    using assms(1) by (simp add: list_all_iff entry_display_text)
  then have "codec_string_display cs = join '','' (map (\<lambda>t. escape_inside_token t (Some '','')) ?toks)"
    by (simp only: codec_string_display_def ENTRY_DELIMITER_def)
  moreover have "delim_ok '',''" by (simp add: delim_ok_def is_ascii_def)
  moreover have "\<forall>t \<in> set ?toks. edge_free t" "?toks = [] \<or> last ?toks \<noteq> []"
    using assms(1) entry_text_edge_free entry_head_edges(1)
    by (auto simp: list_all_iff last_map) (meson last_in_set)
  ultimately show ?thesis
    using escaped_tokens_roundtrip [of "'',''" ?toks] assms(2) by (simp add: split_codec_string_def ENTRY_DELIMITER_def)
qed

lemma codec_string_reads_back:
  assumes "list_all (\<lambda>e. codec_entry_inv e \<and> list_all plain_utf8 (entry_texts e)) cs"
    and "length cs \<le> MAX_SWITCH_ENTRIES"
  shows "parse_codec_string_inner (codec_string_display cs) w = (Inr cs, w)"
proof -
  have "split_codec_string (codec_string_display cs) = map (\<lambda>e. entry_head e @ entry_tail e) cs"
    using assms by (intro codec_string_split) (simp_all add: MAX_SWITCH_ENTRIES_def USIZE_MAX_def)
  then show ?thesis using assms tokens_read by (simp add: parse_codec_string_inner_def Let_def)
qed

section \<open>Duplicates by key\<close>

definition codec_key :: "codec_string_entry \<Rightarrow> string \<times> u32 \<times> u32 \<times> u32 \<times> string" where
  "codec_key e =
     (to_ascii_lowercase (ce_name e), norm_ptime e, norm_rate e, norm_channels e, to_ascii_lowercase (unwrap_or [] (ce_fmtp e)))"

lemma duplicate_of_key: "duplicate_of e d \<longleftrightarrow> codec_key e = codec_key d"
  by (auto simp: duplicate_of_def codec_key_def eq_ignore_ascii_case_def)

lemma codec_dedup_snoc: "codec_dedup (cs @ [e]) = codec_dedup cs @ (if codec_key e \<in> codec_key ` set cs then [] else [e])"
proof -
  let ?keep = "\<lambda>input. map (\<lambda>x. x = 0 \<or> \<not> list_ex (duplicate_of (input ! x)) (take x input)) [0..<length input]"
  have "?keep (cs @ [e]) = ?keep cs @ [cs = [] \<or> \<not> list_ex (duplicate_of e) cs]"
    by (auto simp: nth_append)
  then have "codec_dedup (cs @ [e]) = map fst (filter snd (zip (cs @ [e]) (?keep cs @ [cs = [] \<or> \<not> list_ex (duplicate_of e) cs])))"
    by (simp only: codec_dedup_def Let_def)
  then have "codec_dedup (cs @ [e]) = codec_dedup cs @ (if cs = [] \<or> \<not> list_ex (duplicate_of e) cs then [e] else [])"
    by (simp add: codec_dedup_def Let_def)
  moreover have "list_ex (duplicate_of e) cs \<longleftrightarrow> codec_key e \<in> codec_key ` set cs"
    by (auto simp: list_ex_iff duplicate_of_key)
  ultimately show ?thesis by auto
qed

lemma codec_dedup_Nil [simp]: "codec_dedup [] = []"
  by (simp add: codec_dedup_def)

lemma codec_dedup_keys: "codec_key ` set (codec_dedup cs) = codec_key ` set cs \<and> distinct (map codec_key (codec_dedup cs))"
  by (induction cs rule: rev_induct) (auto simp: codec_dedup_snoc)

lemma codec_dedup_id: "distinct (map codec_key cs) \<Longrightarrow> codec_dedup cs = cs"
  by (induction cs rule: rev_induct) (simp_all add: codec_dedup_snoc)

lemma simplify_fields:
  "ce_name (ce_simplify e) = ce_name e" "ce_fmtp (ce_simplify e) = ce_fmtp e"
  "ce_rate (ce_simplify e) \<in> {ce_rate e} \<union> (if ce_rate e = Some (default_rate (ce_name e)) then {None} else {})"
  "ce_ptime (ce_simplify e) \<in> {ce_ptime e} \<union> (if ce_ptime e = Some (default_ptime (ce_name e)) then {None} else {})"
  "ce_channels (ce_simplify e) \<in> {ce_channels e} \<union> (if ce_channels e = Some 1 then {None} else {})"
  by (simp_all add: ce_simplify_def Let_def)

lemma simplify_key: "codec_key (ce_simplify e) = codec_key e"
proof -
  have nz: "default_rate n \<noteq> 0" "default_ptime n \<noteq> 0" for n by (simp_all add: default_rate_def default_ptime_def)
  have "norm_rate (ce_simplify e) = norm_rate e"
    using simplify_fields(1,3) [of e] nz by (auto simp: norm_rate_def simplify_fields(1) split: if_splits option.split)
  moreover have "norm_ptime (ce_simplify e) = norm_ptime e"
    using simplify_fields(1,4) [of e] nz by (auto simp: norm_ptime_def simplify_fields(1) split: if_splits option.split)
  moreover have "norm_channels (ce_simplify e) = norm_channels e"
    using simplify_fields(5) [of e] by (auto simp: norm_channels_def split: if_splits)
  ultimately show ?thesis by (simp add: codec_key_def simplify_fields(1,2))
qed

text \<open>
  A name with a NUL is accepted by the builder although the separators of the switch, and with them the parser, end
  a text there: the rendering of such an entry is read as another codec.
\<close>

lemma nul_name_cut:
  "\<exists>e. codec_entry_new [CHR ''A'', CHR 0x00, CHR ''B''] = Inr e
     \<and> codec_entry_from_str (codec_entry_display e) = codec_entry_new ''A''"
proof -
  have "(case codec_entry_new [CHR ''A'', CHR 0x00, CHR ''B''] of
      Inr e \<Rightarrow> codec_entry_from_str (codec_entry_display e) = codec_entry_new ''A'' | Inl _ \<Rightarrow> False)" by code_simp
  then show ?thesis by (auto split: sum.splits)
qed

section \<open>Properties\<close>

text \<open>
  C17: a codec string is read back. Entries that the builders accept, in a list the switch would take whole, are
  parsed from their rendering to exactly the same entries, in strict mode and in lenient mode without a warning,
  whatever commas, quotes and backslashes the format parameters hold. The texts are those of Rust without a
  NUL.
\<close>

theorem codec_string_roundtrip:
  assumes "list_all (\<lambda>e. codec_entry_inv e \<and> list_all plain_utf8 (entry_texts e)) cs"
    and "length cs \<le> MAX_SWITCH_ENTRIES"
  shows "codec_string_from_str (codec_string_display cs) = Inr cs
    \<and> codec_string_parse_lenient (codec_string_display cs) acc = (Inr cs, Some acc)"
  using codec_string_reads_back [OF assms] by (simp add: codec_string_from_str_def codec_string_parse_lenient_def)

theorem codec_string_roundtrip_witness:
  "let e = \<lparr>ce_modname = Some ''mod_amr'', ce_name = ''AMR'', ce_fmtp = Some ''a=1.5, b'', ce_rate = Some 8000,
            ce_ptime = Some 20, ce_bitrate = None, ce_channels = None\<rparr>
   in codec_string_from_str (codec_string_display [e]) = Inr [e]
      \<and> codec_string_parse_lenient (codec_string_display [e]) [] = (Inr [e], Some [])"
proof -
  let ?e = "\<lparr>ce_modname = Some ''mod_amr'', ce_name = ''AMR'', ce_fmtp = Some ''a=1.5, b'', ce_rate = Some 8000,
            ce_ptime = Some 20, ce_bitrate = None, ce_channels = None\<rparr>"
  have "check_name_grammar ''AMR'' = None" "check_name_grammar ''mod_amr'' = None" by code_simp+
  then have "codec_entry_inv ?e" by (simp add: codec_entry_inv_def fmtp_ok_def)
  moreover have "plain_utf8 ''AMR''" "plain_utf8 ''mod_amr''" "plain_utf8 ''a=1.5, b''" by code_simp+
  then have "list_all plain_utf8 (entry_texts ?e)" by (simp add: entry_texts_ok)
  ultimately have ok: "list_all (\<lambda>e. codec_entry_inv e \<and> list_all plain_utf8 (entry_texts e)) [?e]"
    "length [?e] \<le> MAX_SWITCH_ENTRIES"
    by (simp_all add: MAX_SWITCH_ENTRIES_def)
  show ?thesis unfolding Let_def by (rule codec_string_roundtrip [OF ok])
qed

text \<open>
  C19: removing duplicates keeps the first entry of each key and nothing else. Reading a list from the front, an
  entry is kept exactly when no entry before it has its name, normalized packet time, rate and channels and its
  format parameters, in any casing; so the kept keys are distinct, no key and hence no codec name is lost, a second
  pass changes nothing, and dropping the qualifiers that equal the defaults changes no key.
\<close>

theorem codec_dedup_exact:
  "codec_dedup [] = []
   \<and> codec_dedup (cs @ [e]) = codec_dedup cs @ (if codec_key e \<in> codec_key ` set cs then [] else [e])
   \<and> distinct (map codec_key (codec_dedup cs)) \<and> codec_key ` set (codec_dedup cs) = codec_key ` set cs
   \<and> codec_dedup (codec_dedup cs) = codec_dedup cs
   \<and> codec_key (ce_simplify e) = codec_key e"
  using codec_dedup_keys [of cs] codec_dedup_id [of "codec_dedup cs"] by (simp add: codec_dedup_snoc simplify_key)

end
