(* ===== verification/Sdp_Codecs.thy ===== *)
theory Sdp_Codecs
  imports Codec_String Subscription
begin

text \<open>
  Offers to codec strings: \<open>types sdp/codec.rs\<close>, \<open>static_payload.rs\<close>, \<open>options.rs\<close>, \<open>codecs/\<close> and the errors of
  \<open>error.rs\<close>. The text of a session description is parsed by the crate \<open>sdp_types\<close>: its parser is an argument and its
  documented types are the records of the first section. Payload types are words of 8 bits, ports of 16, every other
  number of 32.
\<close>

section \<open>Session descriptions as \<open>sdp_types\<close> has them\<close>

record sdp_attribute =
  sa_attribute :: string
  sa_value :: "string option"

record sdp_media =
  md_media :: string
  md_port :: "16 word"
  md_proto :: string
  md_fmt :: string
  md_attributes :: "sdp_attribute list"

record sdp_session =
  ses_attributes :: "sdp_attribute list"
  ses_medias :: "sdp_media list"

section \<open>Media, directions and codecs\<close>

type_synonym u8 = "8 word"

definition sdp_media_type_from_str :: "string \<Rightarrow> sdp_media_type" where
  "sdp_media_type_from_str s =
     (if s = ''audio'' then MediaAudio else if s = ''video'' then MediaVideo
      else if s = ''application'' then MediaApplication else if s = ''text'' then MediaText
      else if s = ''message'' then MediaMessage else MediaOther s)"

fun sdp_media_type_display :: "sdp_media_type \<Rightarrow> string" where
  "sdp_media_type_display MediaAudio = ''audio''"
| "sdp_media_type_display MediaVideo = ''video''"
| "sdp_media_type_display MediaApplication = ''application''"
| "sdp_media_type_display MediaText = ''text''"
| "sdp_media_type_display MediaMessage = ''message''"
| "sdp_media_type_display (MediaOther s) = s"

datatype sdp_direction = SendRecv | SendOnly | RecvOnly | Inactive

fun sdp_direction_display :: "sdp_direction \<Rightarrow> string" where
  "sdp_direction_display SendRecv = ''sendrecv''"
| "sdp_direction_display SendOnly = ''sendonly''"
| "sdp_direction_display RecvOnly = ''recvonly''"
| "sdp_direction_display Inactive = ''inactive''"

definition sdp_direction_from_str :: "string \<Rightarrow> string + sdp_direction" where
  "sdp_direction_from_str s =
     (if s = ''sendrecv'' then Inr SendRecv else if s = ''sendonly'' then Inr SendOnly
      else if s = ''recvonly'' then Inr RecvOnly else if s = ''inactive'' then Inr Inactive else Inl s)"

record sdp_codec =
  sc_media :: sdp_media_type
  sc_payload_type :: u8
  sc_name :: string
  sc_clock_rate :: u32
  sc_channels :: "u32 option"
  sc_fmtp :: "string option"
  sc_ptime :: "u32 option"
  sc_maxptime :: "u32 option"
  sc_bitrate :: "u32 option"
  sc_direction :: sdp_direction
  sc_has_rtpmap :: bool

definition sdp_codec_new :: "sdp_media_type \<Rightarrow> u8 \<Rightarrow> string \<Rightarrow> u32 \<Rightarrow> sdp_codec" where
  "sdp_codec_new media pt name rate =
     \<lparr>sc_media = media, sc_payload_type = pt, sc_name = name, sc_clock_rate = rate, sc_channels = None, sc_fmtp = None,
      sc_ptime = None, sc_maxptime = None, sc_bitrate = None, sc_direction = SendRecv, sc_has_rtpmap = False\<rparr>"

definition sc_with_channels :: "u32 \<Rightarrow> sdp_codec \<Rightarrow> sdp_codec" where
  "sc_with_channels v c = c\<lparr>sc_channels := Some v\<rparr>"

definition sc_with_fmtp :: "string \<Rightarrow> sdp_codec \<Rightarrow> sdp_codec" where
  "sc_with_fmtp v c = c\<lparr>sc_fmtp := Some v\<rparr>"

definition sc_with_ptime :: "u32 \<Rightarrow> sdp_codec \<Rightarrow> sdp_codec" where
  "sc_with_ptime v c = c\<lparr>sc_ptime := Some v\<rparr>"

definition sc_with_maxptime :: "u32 \<Rightarrow> sdp_codec \<Rightarrow> sdp_codec" where
  "sc_with_maxptime v c = c\<lparr>sc_maxptime := Some v\<rparr>"

definition sc_with_bitrate :: "u32 \<Rightarrow> sdp_codec \<Rightarrow> sdp_codec" where
  "sc_with_bitrate v c = c\<lparr>sc_bitrate := Some v\<rparr>"

definition sc_with_direction :: "sdp_direction \<Rightarrow> sdp_codec \<Rightarrow> sdp_codec" where
  "sc_with_direction d c = c\<lparr>sc_direction := d\<rparr>"

definition sc_with_rtpmap :: "sdp_codec \<Rightarrow> sdp_codec" where
  "sc_with_rtpmap c = c\<lparr>sc_has_rtpmap := True\<rparr>"

datatype non_codec_kind = TelephoneEvent | ComfortNoise

fun non_codec_kind_display :: "non_codec_kind \<Rightarrow> string" where
  "non_codec_kind_display TelephoneEvent = ''telephone-event''"
| "non_codec_kind_display ComfortNoise = ''CN''"

record non_codec_payload =
  nc_kind :: non_codec_kind
  nc_payload_type :: u8
  nc_media_type :: sdp_media_type
  nc_clock_rate :: u32
  nc_fmtp :: "string option"
  nc_has_rtpmap :: bool

definition non_codec_payload_display :: "non_codec_payload \<Rightarrow> string" where
  "non_codec_payload_display p =
     dec (unat (nc_payload_type p)) @ '' '' @ non_codec_kind_display (nc_kind p) @ ''/'' @ dec (unat (nc_clock_rate p)) @
     (case nc_fmtp p of Some fmtp \<Rightarrow> '' '' @ fmtp | None \<Rightarrow> [])"

record unmapped_payload =
  up_payload_type :: u8
  up_media_type :: sdp_media_type

definition unmapped_payload_display :: "unmapped_payload \<Rightarrow> string" where
  "unmapped_payload_display p =
     ''payload type '' @ dec (unat (up_payload_type p)) @ '' in '' @ sdp_media_type_display (up_media_type p) @
     '' section has no rtpmap and is not a static type''"

section \<open>Tables\<close>

definition rfc3551_payload_type :: "u8 \<Rightarrow> (string \<times> u32 \<times> u32 option) option" where
  "rfc3551_payload_type pt = map_of
     [(0, ''PCMU'', 8000, Some 1),
      (3, ''GSM'', 8000, Some 1),
      (4, ''G723'', 8000, Some 1),
      (5, ''DVI4'', 8000, Some 1),
      (6, ''DVI4'', 16000, Some 1),
      (7, ''LPC'', 8000, Some 1),
      (8, ''PCMA'', 8000, Some 1),
      (9, ''G722'', 8000, Some 1),
      (10, ''L16'', 44100, Some 2),
      (11, ''L16'', 44100, Some 1),
      (12, ''QCELP'', 8000, Some 1),
      (13, ''CN'', 8000, Some 1),
      (14, ''MPA'', 90000, None),
      (15, ''G728'', 8000, Some 1),
      (16, ''DVI4'', 11025, Some 1),
      (17, ''DVI4'', 22050, Some 1),
      (18, ''G729'', 8000, Some 1),
      (25, ''CelB'', 90000, None),
      (26, ''JPEG'', 90000, None),
      (28, ''nv'', 90000, None),
      (31, ''H261'', 90000, None),
      (32, ''MPV'', 90000, None),
      (33, ''MP2T'', 90000, None),
      (34, ''H263'', 90000, None)] pt"

definition CANONICAL_NAMES :: "(string \<times> string) list" where
  "CANONICAL_NAMES =
     [(''pcmu'', ''PCMU''), (''pcma'', ''PCMA''), (''g722'', ''G722''), (''gsm'', ''GSM''), (''lpc'', ''LPC''),
      (''dvi4'', ''DVI4''), (''g723'', ''G723''), (''g729'', ''G729''), (''opus'', ''opus''),
      (''ilbc'', ''iLBC''), (''amr'', ''AMR''), (''amr-wb'', ''AMR-WB''), (''silk'', ''SILK''),
      (''bv16'', ''BV16''), (''bv32'', ''BV32''), (''g7221'', ''G7221''), (''g726-16'', ''G726-16''),
      (''g726-24'', ''G726-24''), (''g726-32'', ''G726-32''), (''g726-40'', ''G726-40''),
      (''aal2-g726-16'', ''AAL2-G726-16''), (''aal2-g726-24'', ''AAL2-G726-24''),
      (''aal2-g726-32'', ''AAL2-G726-32''), (''aal2-g726-40'', ''AAL2-G726-40''), (''codec2'', ''CODEC2''),
      (''l16'', ''L16''), (''speex'', ''SPEEX''), (''vp8'', ''VP8''), (''vp9'', ''VP9''), (''h264'', ''H264''),
      (''h263'', ''H263''), (''h263-1998'', ''H263-1998''), (''b64'', ''b64''), (''i420'', ''I420'')]"

definition canonical_iananame :: "string \<Rightarrow> string" where
  "canonical_iananame name =
     unwrap_or name (map_option snd (find (\<lambda>(key, _). eq_ignore_ascii_case name key) CANONICAL_NAMES))"

definition known_bitrate :: "u8 \<Rightarrow> u32 option" where
  "known_bitrate pt = map_of [(0, 64000), (3, 13200), (4, 6300), (7, 2400), (8, 64000), (9, 64000), (18, 8000)] pt"

section \<open>Errors\<close>

text \<open>A parse failure carries the text of the error of \<open>sdp_types\<close> as its source.\<close>

datatype sdp_codec_error =
  ParseFailure string string | MalformedRtpmap string | NonNumericPayloadType string | MalformedFmtp string

fun sdp_codec_error_display :: "sdp_codec_error \<Rightarrow> string" where
  "sdp_codec_error_display (ParseFailure message _) = ''SDP parse failure: '' @ message"
| "sdp_codec_error_display (MalformedRtpmap raw) = ''malformed a=rtpmap ('' @ dec (length raw) @ '' bytes)''"
| "sdp_codec_error_display (NonNumericPayloadType raw) =
     ''non-numeric payload type in m= format list ('' @ dec (length raw) @ '' bytes)''"
| "sdp_codec_error_display (MalformedFmtp raw) = ''malformed a=fmtp ('' @ dec (length raw) @ '' bytes)''"

section \<open>Attribute values\<close>

text \<open>The methods of \<open>AttrCursor\<close>: each takes the unread text and returns its result and what is left.\<close>

definition cursor_skip_ws :: "string \<Rightarrow> string" where
  "cursor_skip_ws rest = dropWhile (\<lambda>c. c = CHR 0x20 \<or> c = CHR 0x09) rest"

definition cursor_number :: "(u32 \<Rightarrow> 'a option) \<Rightarrow> string \<Rightarrow> 'a option \<times> string" where
  "cursor_number try_from rest =
     (let rest = cursor_skip_ws rest
      in case atoi_prefix rest of
           (None, _) \<Rightarrow> (None, rest)
         | (Some v, rest) \<Rightarrow> (try_from v, cursor_skip_ws rest))"

definition cursor_field :: "string \<Rightarrow> string \<Rightarrow> string \<times> string" where
  "cursor_field stop rest =
     (let rest = cursor_skip_ws rest; P = (\<lambda>c. c \<noteq> CHR 0x20 \<and> c \<noteq> CHR 0x09 \<and> c \<notin> set stop)
      in (takeWhile P rest, dropWhile P rest))"

definition cursor_eat :: "char \<Rightarrow> string \<Rightarrow> bool \<times> string" where
  "cursor_eat ch rest = (case strip_prefix [ch] rest of Some rest' \<Rightarrow> (True, rest') | None \<Rightarrow> (False, rest))"

definition u8_try_from :: "u32 \<Rightarrow> u8 option" where
  "u8_try_from v = (if unat v < 256 then Some (of_nat (unat v)) else None)"

definition parse_rtpmap :: "string \<Rightarrow> sdp_codec_error + u8 \<times> string \<times> u32 \<times> u32 option" where
  "parse_rtpmap v =
     (case cursor_number u8_try_from v of
        (None, _) \<Rightarrow> Inl (MalformedRtpmap v)
      | (Some pt, rest) \<Rightarrow>
     (case cursor_field ''/'' rest of (name, rest) \<Rightarrow>
      if name = [] then Inl (MalformedRtpmap v) else
     (case cursor_eat (CHR ''/'') rest of (slash, rest) \<Rightarrow>
      if \<not> slash then Inl (MalformedRtpmap v) else
     (case cursor_number Some rest of
        (None, _) \<Rightarrow> Inl (MalformedRtpmap v)
      | (Some clock_rate, rest) \<Rightarrow>
     (case cursor_eat (CHR ''/'') rest of (slash, rest) \<Rightarrow>
      bindR (if slash
             then let rest = cursor_skip_ws rest
                  in if rest = [] then Inr (None, rest)
                     else case cursor_number Some rest of
                            (None, _) \<Rightarrow> Inl (MalformedRtpmap v)
                          | (Some channels, rest) \<Rightarrow> Inr (Some channels, rest)
             else Inr (None, rest)) (\<lambda>(channels, rest).
        if rest \<noteq> [] then Inl (MalformedRtpmap v) else Inr (pt, name, clock_rate, channels)))))))"

definition parse_fmtp_pt :: "string \<Rightarrow> sdp_codec_error + u8 \<times> string" where
  "parse_fmtp_pt v =
     (case cursor_number u8_try_from v of
        (None, _) \<Rightarrow> Inl (MalformedFmtp v)
      | (Some pt, rest) \<Rightarrow> Inr (pt, rest))"

record attr_tables =
  tb_rtpmap :: "u8 \<rightharpoonup> string \<times> u32 \<times> u32 option"
  tb_fmtp :: "u8 \<rightharpoonup> string"

fun attribute_tables_from :: "attr_tables \<Rightarrow> sdp_attribute list \<Rightarrow> sdp_codec_error + attr_tables" where
  "attribute_tables_from tables [] = Inr tables"
| "attribute_tables_from tables (attr # attrs) =
     (case sa_value attr of
        Some val \<Rightarrow>
          (if sa_attribute attr = ''rtpmap''
           then bindR (parse_rtpmap val) (\<lambda>(pt, name, rate, channels).
                  attribute_tables_from (tables\<lparr>tb_rtpmap := (tb_rtpmap tables)(pt \<mapsto> (name, rate, channels))\<rparr>) attrs)
           else if sa_attribute attr = ''fmtp''
           then bindR (parse_fmtp_pt val) (\<lambda>(pt, params).
                  attribute_tables_from (tables\<lparr>tb_fmtp := (tb_fmtp tables)(pt \<mapsto> params)\<rparr>) attrs)
           else attribute_tables_from tables attrs)
      | None \<Rightarrow> attribute_tables_from tables attrs)"

definition attribute_tables :: "sdp_media \<Rightarrow> sdp_codec_error + attr_tables" where
  "attribute_tables media = attribute_tables_from \<lparr>tb_rtpmap = Map.empty, tb_fmtp = Map.empty\<rparr> (md_attributes media)"

text \<open>Functions that push warnings return those they push.\<close>

definition parse_ptime_value :: "string \<Rightarrow> string \<Rightarrow> u32 option \<times> sdp_warning list" where
  "parse_ptime_value raw attr =
     (let int_str = (case split_once (CHR ''.'') raw of Some (pre, _) \<Rightarrow> pre | None \<Rightarrow> raw)
      in case atoi_prefix int_str of
           (Some n, rest) \<Rightarrow> if rest = [] \<and> n \<noteq> 0 then (Some n, []) else (None, [UnparseableNumericAttribute attr raw])
         | (None, _) \<Rightarrow> (None, [UnparseableNumericAttribute attr raw]))"

definition ptime_from_attrs :: "sdp_attribute list \<Rightarrow> string \<Rightarrow> u32 option \<times> sdp_warning list" where
  "ptime_from_attrs attrs name =
     (case Option.bind (find (\<lambda>a. sa_attribute a = name) attrs) sa_value of
        Some v \<Rightarrow> parse_ptime_value v name
      | None \<Rightarrow> (None, []))"

definition DIRECTION_ATTRIBUTES :: "string list" where
  "DIRECTION_ATTRIBUTES = [''sendrecv'', ''sendonly'', ''recvonly'', ''inactive'']"

fun direction_from_attrs :: "sdp_attribute list \<Rightarrow> sdp_direction option \<times> sdp_warning list" where
  "direction_from_attrs [] = (None, [])"
| "direction_from_attrs (attr # attrs) =
     (if sa_value attr \<noteq> None then direction_from_attrs attrs
      else if \<not> list_ex (\<lambda>d. eq_ignore_ascii_case d (sa_attribute attr)) DIRECTION_ATTRIBUTES then direction_from_attrs attrs
      else case sdp_direction_from_str (sa_attribute attr) of
             Inr direction \<Rightarrow> (Some direction, [])
           | Inl _ \<Rightarrow> map_prod id (\<lambda>ws. NonCanonicalDirectionAttribute (sa_attribute attr) # ws) (direction_from_attrs attrs))"

fun fmtp_param_in :: "string \<Rightarrow> string list \<Rightarrow> string option" where
  "fmtp_param_in key [] = None"
| "fmtp_param_in key (part # parts) =
     (case split_once (CHR ''='') (trim part) of
        Some (k, v) \<Rightarrow> if eq_ignore_ascii_case (trim k) key then Some (trim v) else fmtp_param_in key parts
      | None \<Rightarrow> fmtp_param_in key parts)"

definition fmtp_param :: "string \<Rightarrow> string \<Rightarrow> string option" where
  "fmtp_param fmtp key = fmtp_param_in key (split_str '';'' fmtp)"

section \<open>One media section\<close>

datatype sdp_codec_entry = Rtp sdp_codec | T38

definition is_image :: "sdp_media_type \<Rightarrow> bool" where
  "is_image media_type = (case media_type of MediaOther s \<Rightarrow> eq_ignore_ascii_case s ''image'' | _ \<Rightarrow> False)"

definition RTP_PROTOS :: "string list" where
  "RTP_PROTOS =
     [''RTP'', ''RTP/AVP'', ''RTP/AVPF'', ''RTP/SAVP'', ''RTP/SAVPF'', ''UDP/RTP/AVPF'', ''UDP/TLS/RTP/SAVP'', ''UDP/TLS/RTP/SAVPF'']"

definition proto_has_rtp :: "string \<Rightarrow> bool" where
  "proto_has_rtp proto \<longleftrightarrow> list_ex (\<lambda>p. eq_ignore_ascii_case p proto) RTP_PROTOS"

definition non_codec_kind_of :: "string \<Rightarrow> non_codec_kind option" where
  "non_codec_kind_of name =
     (if eq_ignore_ascii_case name ''telephone-event'' then Some TelephoneEvent
      else if eq_ignore_ascii_case name ''CN'' then Some ComfortNoise else None)"

datatype fmtp_rule = NoFmtpRule | FmtpPtime | FmtpIlbcMode | FmtpBitrate

record codec_quirk =
  cq_name :: string
  cq_no_fmtp :: "(u32 \<times> u32) option"
  cq_fmtp :: fmtp_rule

definition CODEC_QUIRKS :: "codec_quirk list" where
  "CODEC_QUIRKS =
     [\<lparr>cq_name = ''ilbc'', cq_no_fmtp = Some (30, 13330), cq_fmtp = FmtpIlbcMode\<rparr>,
      \<lparr>cq_name = ''isac'', cq_no_fmtp = Some (30, 32000), cq_fmtp = NoFmtpRule\<rparr>,
      \<lparr>cq_name = ''opus'', cq_no_fmtp = None, cq_fmtp = FmtpPtime\<rparr>,
      \<lparr>cq_name = ''g7221'', cq_no_fmtp = None, cq_fmtp = FmtpBitrate\<rparr>]"

definition apply_fmtp_rule :: "fmtp_rule \<Rightarrow> string \<Rightarrow> u32 option \<times> u32 option \<Rightarrow> (u32 option \<times> u32 option) \<times> sdp_warning list" where
  "apply_fmtp_rule rule fmtp out =
     (case rule of
        NoFmtpRule \<Rightarrow> (out, [])
      | FmtpPtime \<Rightarrow>
          (case fmtp_param fmtp ''ptime'' of
             Some p \<Rightarrow> (case parse_ptime_value p ''fmtp ptime'' of
                 (Some v, ws) \<Rightarrow> ((Some v, snd out), ws) | (None, ws) \<Rightarrow> (out, ws))
           | None \<Rightarrow> (out, []))
      | FmtpIlbcMode \<Rightarrow>
          (case fmtp_param fmtp ''mode'' of
             Some m \<Rightarrow> (case parse_ptime_value m ''fmtp mode'' of (v, ws) \<Rightarrow> ((Some (unwrap_or 30 v), snd out), ws))
           | None \<Rightarrow> ((Some 30, snd out), []))
      | FmtpBitrate \<Rightarrow>
          (case fmtp_param fmtp ''bitrate'' of
             Some raw \<Rightarrow> (case parse_unsigned 32 raw of
                 Inr bitrate \<Rightarrow> ((fst out, Some (of_nat bitrate)), [])
               | Inl _ \<Rightarrow> (out, [UnparseableNumericAttribute ''fmtp bitrate'' raw]))
           | None \<Rightarrow> (out, [])))"

text \<open>The packet time and bitrate of a payload, in this order.\<close>

definition resolve_ptime_bitrate ::
  "string \<Rightarrow> u8 \<Rightarrow> string option \<Rightarrow> u32 option \<Rightarrow> (u32 option \<times> u32 option) \<times> sdp_warning list" where
  "resolve_ptime_bitrate canonical pt fmtp media_ptime =
     (let out = (case media_ptime of Some p \<Rightarrow> Some p | None \<Rightarrow> Some (default_ptime canonical), known_bitrate pt)
      in case find (\<lambda>q. eq_ignore_ascii_case (cq_name q) canonical) CODEC_QUIRKS of
           None \<Rightarrow> (out, [])
         | Some quirk \<Rightarrow>
             (case fmtp of
                None \<Rightarrow> (case cq_no_fmtp quirk of
                    Some (ptime, bitrate) \<Rightarrow> ((Some ptime, Some bitrate), []) | None \<Rightarrow> (out, []))
              | Some fmtp \<Rightarrow> apply_fmtp_rule (cq_fmtp quirk) fmtp out))"

record session_defaults =
  sd_ptime :: "u32 option"
  sd_maxptime :: "u32 option"
  sd_direction :: sdp_direction

record media_section =
  ms_entries :: "sdp_codec_entry list"
  ms_unmapped :: "unmapped_payload list"
  ms_warnings :: "sdp_warning list"
  ms_non_codec :: "non_codec_payload list"

text \<open>The body of the payload loop for one payload type.\<close>

definition section_payload ::
  "sdp_media_type \<Rightarrow> session_defaults \<Rightarrow> u32 option \<Rightarrow> u32 option \<Rightarrow> attr_tables \<Rightarrow> u8 \<Rightarrow> media_section \<Rightarrow> media_section" where
  "section_payload media_type defaults media_ptime media_maxptime tables pt s =
     (case (case tb_rtpmap tables pt of
              Some (n, r, c) \<Rightarrow> Some (n, r, c, True)
            | None \<Rightarrow> (case rfc3551_payload_type pt of
                Some (n, r, c) \<Rightarrow> Some (n, r, c, False) | None \<Rightarrow> None)) of
        None \<Rightarrow> s\<lparr>ms_unmapped := ms_unmapped s @ [\<lparr>up_payload_type = pt, up_media_type = media_type\<rparr>]\<rparr>
      | Some (name, clock_rate, rtpmap_channels, has_rtpmap) \<Rightarrow>
          let canonical = canonical_iananame name; fmtp = tb_fmtp tables pt
          in case non_codec_kind_of canonical of
               Some kind \<Rightarrow>
                 s\<lparr>ms_non_codec := ms_non_codec s @
                     [\<lparr>nc_kind = kind, nc_payload_type = pt, nc_media_type = media_type, nc_clock_rate = clock_rate,
                       nc_fmtp = fmtp, nc_has_rtpmap = has_rtpmap\<rparr>]\<rparr>
             | None \<Rightarrow>
                 let channels = (if media_type = MediaAudio \<and> rtpmap_channels = None then Some 1 else rtpmap_channels);
                     ((ptime, bitrate), ws) = resolve_ptime_bitrate canonical pt fmtp media_ptime;
                     codec = sc_with_direction (sd_direction defaults) (sdp_codec_new media_type pt canonical clock_rate);
                     codec = (if has_rtpmap then sc_with_rtpmap codec else codec);
                     codec = codec\<lparr>sc_channels := channels, sc_fmtp := fmtp, sc_ptime := ptime, sc_maxptime := media_maxptime,
                       sc_bitrate := bitrate\<rparr>
                 in s\<lparr>ms_warnings := ms_warnings s @ ws, ms_entries := ms_entries s @ [Rtp codec]\<rparr>)"

fun section_payloads :: "(u8 \<Rightarrow> media_section \<Rightarrow> media_section) \<Rightarrow> string list \<Rightarrow> media_section \<Rightarrow> sdp_codec_error + media_section" where
  "section_payloads step [] s = Inr s"
| "section_payloads step (pt_str # rest) s =
     (case parse_unsigned 8 pt_str of
        Inl _ \<Rightarrow> Inl (NonNumericPayloadType pt_str)
      | Inr pt \<Rightarrow> section_payloads step rest (step (of_nat pt) s))"

definition parse_media_section :: "sdp_media \<Rightarrow> sdp_media_type \<Rightarrow> session_defaults \<Rightarrow> sdp_codec_error + media_section" where
  "parse_media_section media media_type defaults =
     (let (media_ptime, ws1) = ptime_from_attrs (md_attributes media) ''ptime'';
          media_ptime = (if media_ptime = None then sd_ptime defaults else media_ptime);
          (media_maxptime, ws2) = ptime_from_attrs (md_attributes media) ''maxptime'';
          media_maxptime = (if media_maxptime = None then sd_maxptime defaults else media_maxptime)
      in bindR (attribute_tables media) (\<lambda>tables.
           section_payloads (section_payload media_type defaults media_ptime media_maxptime tables)
             (split_whitespace (md_fmt media))
             \<lparr>ms_entries = [], ms_unmapped = [], ms_warnings = ws1 @ ws2, ms_non_codec = []\<rparr>))"

section \<open>The offer\<close>

record sdp_media_section =
  sec_media_type :: sdp_media_type
  sec_port :: "16 word"
  sec_proto :: string
  sec_formats :: string
  sec_direction :: sdp_direction
  sec_entries :: "sdp_codec_entry list"
  sec_unmapped :: "unmapped_payload list"
  sec_non_codec :: "non_codec_payload list"

definition is_negotiable :: "sdp_media_section \<Rightarrow> bool" where
  "is_negotiable s \<longleftrightarrow>
     sec_port s \<noteq> 0 \<and> (sec_media_type s = MediaAudio \<or> sec_media_type s = MediaVideo \<or> is_image (sec_media_type s))"

record sdp_codecs =
  cod_sections :: "sdp_media_section list"
  cod_warnings :: "sdp_warning list"

text \<open>The body of the loop over the media sections.\<close>

definition session_media ::
  "u32 option \<Rightarrow> u32 option \<Rightarrow> sdp_direction \<Rightarrow> sdp_media \<Rightarrow> sdp_codecs \<Rightarrow> sdp_codecs" where
  "session_media session_ptime session_maxptime session_direction media result =
     (let media_type = sdp_media_type_from_str (md_media media);
          (dir, ws) = direction_from_attrs (md_attributes media);
          section = \<lparr>sec_media_type = media_type, sec_port = md_port media, sec_proto = md_proto media,
            sec_formats = md_fmt media, sec_direction = unwrap_or session_direction dir, sec_entries = [],
            sec_unmapped = [], sec_non_codec = []\<rparr>;
          (section, ws) =
            (if is_image media_type then (section\<lparr>sec_entries := [T38]\<rparr>, ws)
             else if proto_has_rtp (md_proto media)
             then case parse_media_section media media_type
                         \<lparr>sd_ptime = session_ptime, sd_maxptime = session_maxptime, sd_direction = sec_direction section\<rparr> of
                    Inr parsed \<Rightarrow>
                      (section\<lparr>sec_entries := ms_entries parsed, sec_unmapped := ms_unmapped parsed,
                         sec_non_codec := ms_non_codec parsed\<rparr>, ws @ ms_warnings parsed)
                  | Inl e \<Rightarrow> (section, ws @ [MalformedMediaSection (sdp_media_type_display media_type) (sdp_codec_error_display e)])
             else (section, ws))
      in \<lparr>cod_sections = cod_sections result @ [section], cod_warnings = cod_warnings result @ ws\<rparr>)"

definition from_session :: "sdp_session \<Rightarrow> sdp_codecs" where
  "from_session session =
     (let (session_ptime, ws1) = ptime_from_attrs (ses_attributes session) ''ptime'';
          (session_maxptime, ws2) = ptime_from_attrs (ses_attributes session) ''maxptime'';
          (session_direction, ws3) = direction_from_attrs (ses_attributes session)
      in fold (session_media session_ptime session_maxptime (unwrap_or SendRecv session_direction)) (ses_medias session)
           \<lparr>cod_sections = [], cod_warnings = ws1 @ ws2 @ ws3\<rparr>)"

definition sdp_codecs_parse :: "(string \<Rightarrow> string + sdp_session) \<Rightarrow> string \<Rightarrow> sdp_codec_error + sdp_codecs" where
  "sdp_codecs_parse session_parse bytes =
     (case session_parse bytes of
        Inl e \<Rightarrow> Inl (ParseFailure ''failed to parse SDP'' e)
      | Inr session \<Rightarrow> Inr (from_session session))"

definition negotiable :: "sdp_codecs \<Rightarrow> sdp_media_section list" where
  "negotiable c = filter is_negotiable (cod_sections c)"

definition codecs_entries :: "sdp_codecs \<Rightarrow> sdp_codec_entry list" where
  "codecs_entries c = concat (map sec_entries (negotiable c))"

definition rtp_of :: "sdp_media_type \<Rightarrow> sdp_codecs \<Rightarrow> sdp_codec list" where
  "rtp_of media c =
     List.map_filter (\<lambda>e. case e of Rtp codec \<Rightarrow> if sc_media codec = media then Some codec else None | T38 \<Rightarrow> None)
       (codecs_entries c)"

definition codecs_unmapped :: "sdp_codecs \<Rightarrow> unmapped_payload list" where
  "codecs_unmapped c = concat (map sec_unmapped (negotiable c))"

definition codecs_non_codec_payloads :: "sdp_codecs \<Rightarrow> non_codec_payload list" where
  "codecs_non_codec_payloads c = concat (map sec_non_codec (negotiable c))"

definition fmtp_for :: "string \<Rightarrow> u32 \<Rightarrow> sdp_codecs \<Rightarrow> string option" where
  "fmtp_for name clock_rate c =
     (case List.map_filter sc_fmtp
             (filter (\<lambda>c. eq_ignore_ascii_case (sc_name c) name \<and> sc_clock_rate c = clock_rate) (rtp_of MediaAudio c)) of
        [] \<Rightarrow> None | f # _ \<Rightarrow> Some f)"

section \<open>From codecs to entries\<close>

record codec_string_options =
  emit_rate :: bool
  emit_ptime :: bool
  emit_bitrate :: bool
  emit_channels :: bool
  emit_fmtp :: bool

definition options_audio :: codec_string_options where
  "options_audio = \<lparr>emit_rate = True, emit_ptime = True, emit_bitrate = True, emit_channels = True, emit_fmtp = False\<rparr>"

definition options_video :: codec_string_options where
  "options_video = \<lparr>emit_rate = False, emit_ptime = False, emit_bitrate = False, emit_channels = False, emit_fmtp = True\<rparr>"

definition options_with_rate :: "bool \<Rightarrow> codec_string_options \<Rightarrow> codec_string_options" where
  "options_with_rate emit opts = opts\<lparr>emit_rate := emit\<rparr>"

definition options_with_ptime :: "bool \<Rightarrow> codec_string_options \<Rightarrow> codec_string_options" where
  "options_with_ptime emit opts = opts\<lparr>emit_ptime := emit\<rparr>"

definition options_with_bitrate :: "bool \<Rightarrow> codec_string_options \<Rightarrow> codec_string_options" where
  "options_with_bitrate emit opts = opts\<lparr>emit_bitrate := emit\<rparr>"

definition options_with_channels :: "bool \<Rightarrow> codec_string_options \<Rightarrow> codec_string_options" where
  "options_with_channels emit opts = opts\<lparr>emit_channels := emit\<rparr>"

definition options_with_fmtp :: "bool \<Rightarrow> codec_string_options \<Rightarrow> codec_string_options" where
  "options_with_fmtp emit opts = opts\<lparr>emit_fmtp := emit\<rparr>"

definition apply_codec_qualifiers :: "codec_string_options \<Rightarrow> codec_string_entry \<Rightarrow> sdp_codec \<Rightarrow> codec_string_entry" where
  "apply_codec_qualifiers opts e c =
     (let e = (if emit_rate opts then e\<lparr>ce_rate := Some (sc_clock_rate c)\<rparr> else e);
          e = (if emit_ptime opts then (case sc_ptime c of Some p \<Rightarrow> e\<lparr>ce_ptime := Some p\<rparr> | None \<Rightarrow> e) else e);
          e = (if emit_bitrate opts then (case sc_bitrate c of Some b \<Rightarrow> e\<lparr>ce_bitrate := Some b\<rparr> | None \<Rightarrow> e) else e)
      in if emit_channels opts then (case sc_channels c of Some n \<Rightarrow> e\<lparr>ce_channels := Some n\<rparr> | None \<Rightarrow> e) else e)"

definition sdp_codec_to_entry :: "codec_string_options \<Rightarrow> sdp_codec \<Rightarrow> codec_string_error + codec_string_entry" where
  "sdp_codec_to_entry opts c =
     bindR (codec_entry_new (sc_name c)) (\<lambda>e.
     bindR (if emit_fmtp opts then (case sc_fmtp c of Some f \<Rightarrow> ce_set_fmtp f e | None \<Rightarrow> Inr e) else Inr e) (\<lambda>e.
       Inr (apply_codec_qualifiers opts e c)))"

fun unrepresentable_reason :: "codec_string_error \<Rightarrow> string" where
  "unrepresentable_reason (AtInFmtp _) = ''contains '' @ QUOTE @ ''@'' @ QUOTE @ '', which the qualifier split takes first''"
| "unrepresentable_reason (DotInFmtpWithoutModule _) =
     ''contains '' @ QUOTE @ ''.'' @ QUOTE @ '' with no module prefix, which the modname split takes first''"
| "unrepresentable_reason (WireInjection _ _) = ''contains a newline or a carriage return''"
| "unrepresentable_reason (InvalidCharInName _ _ _) = ''contains a codec-string grammar delimiter''"
| "unrepresentable_reason (InvalidCodecName _) = ''is empty''"
| "unrepresentable_reason _ = ''has no representation in the codec-string grammar''"

definition codec_to_entry_lenient ::
  "sdp_codec \<Rightarrow> codec_string_options \<Rightarrow> warnings \<Rightarrow> (codec_string_error + codec_string_entry option) \<times> warnings" where
  "codec_to_entry_lenient c opts w =
     (case codec_entry_new (sc_name c) of
        Inl e \<Rightarrow>
          (case w of
             None \<Rightarrow> (Inl e, None)
           | Some acc \<Rightarrow> (Inr None, Some (acc @ [CodecNameUnrepresentable (sc_name c) (unrepresentable_reason e)])))
      | Inr entry \<Rightarrow>
          (case (if emit_fmtp opts
                 then case sc_fmtp c of
                        Some fmtp \<Rightarrow>
                          (case ce_set_fmtp fmtp entry of
                             Inr with_fmtp \<Rightarrow> (Inr with_fmtp, w)
                           | Inl e \<Rightarrow>
                               (case w of
                                  None \<Rightarrow> (Inl e, None)
                                | Some acc \<Rightarrow> (Inr entry, Some (acc @ [FmtpUnrepresentable (sc_name c) fmtp (unrepresentable_reason e)]))))
                      | None \<Rightarrow> (Inr entry, w)
                 else (Inr entry, w)) of
             (Inl e, w) \<Rightarrow> (Inl e, w)
           | (Inr entry, w) \<Rightarrow> (Inr (Some (apply_codec_qualifiers opts entry c)), w)))"

fun audio_entries ::
  "codec_string_options \<Rightarrow> sdp_codec_entry list \<Rightarrow> codec_string \<Rightarrow> warnings \<Rightarrow> (codec_string_error + codec_string) \<times> warnings" where
  "audio_entries opts [] out w = (Inr out, w)"
| "audio_entries opts (T38 # es) out w =
     (case bindR (codec_entry_new ''t38'') (\<lambda>e. codec_push e out) of
        Inl err \<Rightarrow> (Inl err, w)
      | Inr out \<Rightarrow> audio_entries opts es out w)"
| "audio_entries opts (Rtp c # es) out w =
     (if sc_media c = MediaAudio
      then case codec_to_entry_lenient c opts w of
             (Inl err, w) \<Rightarrow> (Inl err, w)
           | (Inr None, w) \<Rightarrow> audio_entries opts es out w
           | (Inr (Some e), w) \<Rightarrow>
               (case codec_push e out of Inl err \<Rightarrow> (Inl err, w) | Inr out \<Rightarrow> audio_entries opts es out w)
      else audio_entries opts es out w)"

definition audio_codec_string ::
  "codec_string_options \<Rightarrow> sdp_codecs \<Rightarrow> warnings \<Rightarrow> (codec_string_error + codec_string) \<times> warnings" where
  "audio_codec_string opts c w = audio_entries opts (codecs_entries c) [] w"

fun video_entries ::
  "codec_string_options \<Rightarrow> sdp_codec list \<Rightarrow> codec_string \<Rightarrow> warnings \<Rightarrow> (codec_string_error + codec_string) \<times> warnings" where
  "video_entries opts [] out w = (Inr out, w)"
| "video_entries opts (c # cs) out w =
     (case codec_to_entry_lenient c opts w of
        (Inl err, w) \<Rightarrow> (Inl err, w)
      | (Inr None, w) \<Rightarrow> video_entries opts cs out w
      | (Inr (Some e), w) \<Rightarrow>
          (case codec_push e out of Inl err \<Rightarrow> (Inl err, w) | Inr out \<Rightarrow> video_entries opts cs out w))"

definition video_codec_string ::
  "codec_string_options \<Rightarrow> sdp_codecs \<Rightarrow> warnings \<Rightarrow> (codec_string_error + codec_string) \<times> warnings" where
  "video_codec_string opts c w = video_entries opts (rtp_of MediaVideo c) [] w"

section \<open>Displays of the warnings\<close>

text \<open>The debug format of a string, which escapes by Unicode tables, is an argument.\<close>

fun sdp_warning_display :: "(string \<Rightarrow> string) \<Rightarrow> sdp_warning \<Rightarrow> string" where
  "sdp_warning_display debug (UnparseableNumericAttribute attribute raw) =
     ''a='' @ attribute @ '' value ('' @ dec (length raw) @ '' bytes) is not a valid positive integer; treated as not set''"
| "sdp_warning_display debug (CodecStringQualifier raw reason) =
     ''codec-string qualifier '' @ debug raw @ '' skipped during lenient parse: '' @ reason"
| "sdp_warning_display debug (FmtpUnrepresentable name fmtp reason) =
     ''the a=fmtp ('' @ dec (length fmtp) @ '' bytes) of an offered codec ('' @ dec (length name) @
       '' bytes) could not be embedded in the codec-string entry and was cleared: it '' @ reason"
| "sdp_warning_display debug (CodecNameUnrepresentable name reason) =
     ''an offered codec name ('' @ dec (length name) @
       '' bytes) cannot be a codec-string entry and was skipped: it '' @ reason"
| "sdp_warning_display debug (MalformedMediaSection media_type reason) =
     media_type @ '' section could not be parsed and was skipped entirely: '' @ reason"
| "sdp_warning_display debug (NonCanonicalDirectionAttribute attribute) =
     ''direction attribute ('' @ dec (length attribute) @
       '' bytes) is not spelled as RFC 8866 defines it and was not read as a direction''"
| "sdp_warning_display debug (CodecStringTruncated entries limit) =
     ''codec string carries '' @ dec entries @ '' comma-separated slots; FreeSWITCH keeps the first '' @ dec limit @
       '' and drops the rest with no log''"

section \<open>What an offer becomes\<close>

lemma apply_codec_qualifiers_fields [simp]:
  "ce_name (apply_codec_qualifiers opts e c) = ce_name e"
  "ce_modname (apply_codec_qualifiers opts e c) = ce_modname e"
  "ce_fmtp (apply_codec_qualifiers opts e c) = ce_fmtp e"
  by (simp_all add: apply_codec_qualifiers_def Let_def split: option.split)

lemma apply_codec_qualifiers_keeps:
  "codec_entry_inv (apply_codec_qualifiers opts e c) = codec_entry_inv e"
  "entry_texts (apply_codec_qualifiers opts e c) = entry_texts e"
  by (simp_all add: codec_entry_inv_def entry_texts_def)

text \<open>The strings an offered codec contributes to an entry.\<close>

definition codec_texts :: "sdp_codec \<Rightarrow> string list" where
  "codec_texts c = sc_name c # (case sc_fmtp c of Some f \<Rightarrow> [f] | None \<Rightarrow> [])"

lemma codec_entry_new_fields: "codec_entry_new n = Inr e \<Longrightarrow> ce_name e = n \<and> ce_modname e = None \<and> ce_fmtp e = None"
  by (auto simp: codec_entry_new_def mapR_eq_Inr dest!: validate_name_Inr)

lemma ce_set_fmtp_fields:
  "ce_set_fmtp f e = Inr e' \<Longrightarrow>
     ce_name e' = ce_name e \<and> ce_modname e' = ce_modname e \<and> ce_fmtp e' = Some (normalize_fmtp_trailing_space f)"
  by (auto simp: ce_set_fmtp_def Let_def split: if_splits)

lemma valid_ascii_suffix: "list_all is_ascii sp \<Longrightarrow> utf8_valid (a @ sp) \<Longrightarrow> utf8_valid a"
  by (cases sp) (auto simp: utf8_valid_append_ascii)

lemma normalized_fmtp_plain:
  assumes "plain_utf8 f" shows "plain_utf8 (normalize_fmtp_trailing_space f)"
proof -
  let ?n = "normalize_fmtp_trailing_space f"
  have "rev f = takeWhile (\<lambda>c. c = CHR 0x20) (rev f) @ dropWhile (\<lambda>c. c = CHR 0x20) (rev f)" by simp
  then have "f = ?n @ rev (takeWhile (\<lambda>c. c = CHR 0x20) (rev f))"
    unfolding normalize_fmtp_trailing_space_def by (metis rev_append rev_rev_ident)
  moreover have "list_all is_ascii (rev (takeWhile (\<lambda>c. c = CHR 0x20) (rev f)))"
    by (auto simp: list_all_iff is_ascii_def dest: set_takeWhileD)
  ultimately obtain sp where "f = ?n @ sp" "list_all is_ascii sp" by blast
  then show ?thesis using assms unfolding plain_utf8_def by (metis Un_iff set_append valid_ascii_suffix)
qed

lemma lenient_entry:
  assumes "codec_to_entry_lenient c opts w = (Inr (Some e), w')"
  shows "codec_entry_inv e \<and> (list_all plain_utf8 (codec_texts c) \<longrightarrow> list_all plain_utf8 (entry_texts e))"
proof -
  obtain e0 where e0: "codec_entry_new (sc_name c) = Inr e0"
    using assms by (auto simp: codec_to_entry_lenient_def split: sum.splits option.splits)
  obtain e1 where e1: "e = apply_codec_qualifiers opts e1 c" and
    f: "e1 = e0 \<or> (\<exists>f. sc_fmtp c = Some f \<and> ce_set_fmtp f e0 = Inr e1)"
    using assms e0 by (auto simp: codec_to_entry_lenient_def split: sum.splits option.splits if_splits)
  have n: "ce_name e0 = sc_name c" "ce_modname e0 = None" "ce_fmtp e0 = None" "codec_entry_inv e0"
    using codec_entry_new_fields [OF e0] codec_entry_new_inv [OF e0] by simp_all
  show ?thesis unfolding e1 apply_codec_qualifiers_keeps using f
  proof
    assume "e1 = e0"
    then show "codec_entry_inv e1 \<and> (list_all plain_utf8 (codec_texts c) \<longrightarrow> list_all plain_utf8 (entry_texts e1))"
      using n by (simp add: entry_texts_ok codec_texts_def)
  next
    assume "\<exists>f. sc_fmtp c = Some f \<and> ce_set_fmtp f e0 = Inr e1"
    then obtain f where f: "sc_fmtp c = Some f" "ce_set_fmtp f e0 = Inr e1" by blast
    then show "codec_entry_inv e1 \<and> (list_all plain_utf8 (codec_texts c) \<longrightarrow> list_all plain_utf8 (entry_texts e1))"
      using n ce_set_fmtp_inv [OF n(4) f(2)] ce_set_fmtp_fields [OF f(2)] normalized_fmtp_plain [of f]
      by (simp add: entry_texts_ok codec_texts_def)
  qed
qed

lemma lenient_never_fails: "\<exists>x acc'. codec_to_entry_lenient c opts (Some acc) = (Inr x, Some acc')"
  by (auto simp: codec_to_entry_lenient_def split: sum.splits option.splits)

lemma strict_entry_lenient:
  "codec_to_entry_lenient c opts None = (Inr x, w') \<Longrightarrow>
   w' = None \<and> x \<noteq> None \<and> codec_to_entry_lenient c opts (Some acc) = (Inr x, Some acc)"
  by (auto simp: codec_to_entry_lenient_def split: sum.splits option.splits if_splits)

lemma codec_push_cases:
  "codec_push e out = Inr out' \<Longrightarrow> out' = out @ [e] \<and> length out < MAX_SWITCH_ENTRIES"
  "codec_push e out = Inl err \<Longrightarrow> err = TooManyEntries (length out + 1) MAX_SWITCH_ENTRIES"
  by (auto simp: codec_push_def split: if_splits)

text \<open>What holds of a codec string under construction, given that the offered texts satisfy \<open>P\<close>.\<close>

definition built_ok :: "bool \<Rightarrow> codec_string \<Rightarrow> bool" where
  "built_ok P cs \<longleftrightarrow>
     length cs \<le> MAX_SWITCH_ENTRIES \<and> list_all codec_entry_inv cs \<and> (P \<longrightarrow> list_all (\<lambda>e. list_all plain_utf8 (entry_texts e)) cs)"

lemma built_ok_push:
  "built_ok P out \<Longrightarrow> codec_push e out = Inr out' \<Longrightarrow> codec_entry_inv e \<Longrightarrow> (P \<Longrightarrow> list_all plain_utf8 (entry_texts e)) \<Longrightarrow> built_ok P out'"
  by (auto simp: built_ok_def dest!: codec_push_cases(1))

lemma t38_entry: "\<exists>e. codec_entry_new ''t38'' = Inr e \<and> codec_entry_inv e \<and> list_all plain_utf8 (entry_texts e)"
proof -
  have "check_name_grammar ''t38'' = None" by code_simp
  then obtain e where e: "codec_entry_new ''t38'' = Inr e" by (auto simp: codec_entry_new_def validate_name_def)
  moreover have "plain_utf8 ''t38''" by code_simp
  ultimately show ?thesis using codec_entry_new_inv [OF e] codec_entry_new_fields [OF e] by (auto simp: entry_texts_ok)
qed

definition entry_texts_plain :: "sdp_codec_entry \<Rightarrow> bool" where
  "entry_texts_plain x = (case x of Rtp c \<Rightarrow> list_all plain_utf8 (codec_texts c) | T38 \<Rightarrow> True)"

lemma audio_entries_built:
  assumes "audio_entries opts es out w = (Inr cs, w')" and "built_ok P out" and "P \<longrightarrow> list_all entry_texts_plain es"
  shows "built_ok P cs"
  using assms
proof (induction opts es out w rule: audio_entries.induct)
  case (2 opts es out w)
  obtain e where e: "codec_entry_new ''t38'' = Inr e" "codec_entry_inv e" "list_all plain_utf8 (entry_texts e)"
    using t38_entry by blast
  then obtain out' where o: "codec_push e out = Inr out'" using "2.prems"(1) by (auto split: sum.splits)
  have "built_ok P out'" using built_ok_push [OF "2.prems"(2) o e(2)] e(3) by blast
  moreover have "audio_entries opts es out' w = (Inr cs, w')" using "2.prems"(1) e(1) o by simp
  ultimately show ?case using "2.IH" [of out'] "2.prems"(3) e(1) o by simp
next
  case (3 opts c es out w)
  show ?case
  proof (cases "sc_media c = MediaAudio")
    case True
    obtain x w1 where x: "codec_to_entry_lenient c opts w = (Inr x, w1)"
      using "3.prems"(1) True by (auto split: prod.splits sum.splits)
    show ?thesis
    proof (cases x)
      case None
      then show ?thesis using 3 True x by simp
    next
      case (Some e)
      then obtain out' where o: "codec_push e out = Inr out'" using "3.prems"(1) True x by (auto split: sum.splits)
      have "built_ok P out'"
        using built_ok_push [OF "3.prems"(2) o] lenient_entry [of c opts w e w1] x Some "3.prems"(3)
        by (auto simp: entry_texts_plain_def)
      then show ?thesis using 3 True x Some o by simp
    qed
  qed (use 3 in simp)
qed simp

lemma video_entries_built:
  assumes "video_entries opts cs out w = (Inr res, w')" and "built_ok P out" and "P \<longrightarrow> list_all (\<lambda>c. list_all plain_utf8 (codec_texts c)) cs"
  shows "built_ok P res"
  using assms
proof (induction opts cs out w rule: video_entries.induct)
  case (2 opts c cs out w)
  obtain x w1 where x: "codec_to_entry_lenient c opts w = (Inr x, w1)"
    using "2.prems"(1) by (auto split: prod.splits sum.splits)
  show ?case
  proof (cases x)
    case None
    then show ?thesis using 2 x by simp
  next
    case (Some e)
    then obtain out' where o: "codec_push e out = Inr out'" using "2.prems"(1) x by (auto split: sum.splits)
    have "built_ok P out'"
      using built_ok_push [OF "2.prems"(2) o] lenient_entry [of c opts w e w1] x Some "2.prems"(3) by auto
    then show ?thesis using 2 x Some o by simp
  qed
qed simp

lemma audio_entries_lenient:
  "\<exists>r acc'. audio_entries opts es out (Some acc) = (r, Some acc') \<and> (\<forall>e. r = Inl e \<longrightarrow> (\<exists>n. e = TooManyEntries n MAX_SWITCH_ENTRIES))"
proof (induction opts es out "Some acc" arbitrary: acc rule: audio_entries.induct)
  case (2 opts es out)
  obtain e where e: "codec_entry_new ''t38'' = Inr e" using t38_entry by blast
  show ?case
  proof (cases "codec_push e out")
    case (Inl err)
    then show ?thesis using e codec_push_cases(2) [OF Inl] by auto
  next
    case (Inr out')
    then show ?thesis using "2.hyps" [of out'] e by simp
  qed
next
  case (3 opts c es out)
  obtain x acc1 where x: "codec_to_entry_lenient c opts (Some acc) = (Inr x, Some acc1)" using lenient_never_fails by blast
  show ?case
  proof (cases "sc_media c = MediaAudio")
    case True
    show ?thesis
    proof (cases x)
      case None
      then show ?thesis using 3 x True by simp
    next
      case (Some e)
      then show ?thesis using 3 x True codec_push_cases(2) [of e out] by (cases "codec_push e out") simp_all
    qed
  qed (use 3 in simp)
qed simp

lemma audio_entries_strict:
  "audio_entries opts es out None = (Inr cs, w') \<Longrightarrow> audio_entries opts es out (Some acc) = (Inr cs, Some acc)"
proof (induction opts es out "None :: warnings" rule: audio_entries.induct)
  case (2 opts es out)
  then show ?case by (auto split: sum.splits)
next
  case (3 opts c es out)
  show ?case
  proof (cases "sc_media c = MediaAudio")
    case True
    obtain x w1 where x: "codec_to_entry_lenient c opts None = (Inr x, w1)"
      using "3.prems" True by (auto split: prod.splits sum.splits)
    note y = strict_entry_lenient [OF x, of acc]
    then obtain e where e: "x = Some e" "w1 = None" by blast
    then obtain out' where "codec_push e out = Inr out'" using "3.prems" True x by (auto split: sum.splits)
    then show ?thesis using 3 True x y e by simp
  qed (use 3 in simp)
qed simp

section \<open>Sections of an offer\<close>

lemma session_media_from:
  "session_media p mp d m r =
     \<lparr>cod_sections = cod_sections r @ cod_sections (session_media p mp d m \<lparr>cod_sections = [], cod_warnings = []\<rparr>),
      cod_warnings = cod_warnings r @ cod_warnings (session_media p mp d m \<lparr>cod_sections = [], cod_warnings = []\<rparr>)\<rparr>"
  by (simp add: session_media_def Let_def split: prod.split)

lemma sections_fold:
  "cod_sections (fold (session_media p mp d) ms r) =
     cod_sections r @ concat (map (\<lambda>m. cod_sections (session_media p mp d m \<lparr>cod_sections = [], cod_warnings = []\<rparr>)) ms)"
proof (induction ms arbitrary: r)
  case (Cons m ms)
  then show ?case by (simp add: session_media_from [of p mp d m r])
qed simp

lemma sections_append:
  "cod_sections (from_session (s\<lparr>ses_medias := a @ b\<rparr>)) =
     cod_sections (from_session (s\<lparr>ses_medias := a\<rparr>)) @ cod_sections (from_session (s\<lparr>ses_medias := b\<rparr>))"
  by (simp add: from_session_def Let_def sections_fold split: prod.split)

lemma section_single: "\<exists>sec. cod_sections (from_session (s\<lparr>ses_medias := [m]\<rparr>)) = [sec] \<and> sec_port sec = md_port m \<and> sec_formats sec = md_fmt m"
  by (simp add: from_session_def session_media_def Let_def split: prod.split sum.split)

section \<open>Properties\<close>

text \<open>
  C18: an offer becomes a codec string that is read back. Whatever the options and the mode, a codec string built from
  an offer holds at most what the switch takes and only entries the grammar can carry, and when the offered names and
  parameters are texts without a NUL its rendering parses to exactly that string; a strict result is also the
  lenient one, without a warning. In lenient mode nothing the peer wrote makes the conversion fail: the one error is
  an offer with more codecs than the switch takes.
\<close>

theorem offer_codec_string:
  assumes "audio_codec_string opts c w = (r, w')"
  shows "(\<forall>cs. r = Inr cs \<longrightarrow> length cs \<le> MAX_SWITCH_ENTRIES \<and> list_all codec_entry_inv cs
      \<and> (list_all entry_texts_plain (codecs_entries c) \<longrightarrow> codec_string_from_str (codec_string_display cs) = Inr cs)
      \<and> (w = None \<longrightarrow> audio_codec_string opts c (Some acc) = (Inr cs, Some acc)))
    \<and> (\<forall>e. r = Inl e \<longrightarrow> w \<noteq> None \<longrightarrow> (\<exists>n. e = TooManyEntries n MAX_SWITCH_ENTRIES))"
proof (intro conjI allI impI)
  fix cs assume r: "r = Inr cs"
  have b: "built_ok (list_all entry_texts_plain (codecs_entries c)) cs"
    by (rule audio_entries_built [of opts "codecs_entries c" "[]" w cs w'])
      (use assms r in \<open>simp_all add: audio_codec_string_def built_ok_def\<close>)
  then show "length cs \<le> MAX_SWITCH_ENTRIES" "list_all codec_entry_inv cs" by (simp_all add: built_ok_def)
  show "codec_string_from_str (codec_string_display cs) = Inr cs" if "list_all entry_texts_plain (codecs_entries c)"
    using codec_string_reads_back [of cs None] b that by (simp add: built_ok_def codec_string_from_str_def list_all_iff)
  show "audio_codec_string opts c (Some acc) = (Inr cs, Some acc)" if "w = None"
    using audio_entries_strict [of opts "codecs_entries c" "[]" cs w' acc] assms r that by (simp add: audio_codec_string_def)
next
  fix e assume "r = Inl e" "w \<noteq> None"
  then show "\<exists>n. e = TooManyEntries n MAX_SWITCH_ENTRIES"
    using audio_entries_lenient [of opts "codecs_entries c" "[]" "the w"] assms by (auto simp: audio_codec_string_def)
qed

text \<open>An offer with a fax section, a static and two dynamic payload types, one of which has a name no entry can carry.\<close>

definition example_offer :: sdp_session where
  "example_offer =
     \<lparr>ses_attributes = [\<lparr>sa_attribute = ''ptime'', sa_value = Some ''20.0''\<rparr>],
      ses_medias =
        [\<lparr>md_media = ''image'', md_port = 4000, md_proto = ''udptl'', md_fmt = ''t38'', md_attributes = []\<rparr>,
         \<lparr>md_media = ''audio'', md_port = 5004, md_proto = ''RTP/AVP'', md_fmt = ''0 96 97'', md_attributes =
            [\<lparr>sa_attribute = ''rtpmap'', sa_value = Some ''96 OPUS/48000/2''\<rparr>,
             \<lparr>sa_attribute = ''rtpmap'', sa_value = Some ''97 a.b/8000''\<rparr>]\<rparr>]\<rparr>"

theorem offer_codec_string_witness:
  "\<exists>cs acc. audio_codec_string options_audio (from_session example_offer) (Some []) = (Inr cs, Some acc)
     \<and> map ce_name cs = [''t38'', ''PCMU'', ''opus''] \<and> length acc = 1
     \<and> codec_string_from_str (codec_string_display cs) = Inr cs"
proof -
  let ?c = "from_session example_offer"
  have "(case audio_codec_string options_audio ?c (Some []) of
      (Inr cs, Some acc) \<Rightarrow> map ce_name cs = [''t38'', ''PCMU'', ''opus''] \<and> length acc = 1 | _ \<Rightarrow> False)" by code_simp
  then obtain cs acc where r: "audio_codec_string options_audio ?c (Some []) = (Inr cs, Some acc)"
    and cs: "map ce_name cs = [''t38'', ''PCMU'', ''opus'']" "length acc = 1"
    by (auto split: prod.splits sum.splits option.splits)
  have "list_all entry_texts_plain (codecs_entries ?c)" by code_simp
  with offer_codec_string [OF r] r cs show ?thesis by auto
qed

end
