(* ===== verification/Spec2Isabelle.thy ===== *)
theory Spec2Isabelle
  imports Stream_Delivery Correlation Handover Resubscribe Auth Bgjob Originate Endpoint_Dial Flattened Execute_On Api_Commands Lookup Sdp_Codecs
begin

text \<open>
  A verification of \<open>freeswitch-esl-tokio\<close>, an asynchronous Rust client for the
  FreeSWITCH event socket (ESL), and of the part of its sibling crate
  \<open>freeswitch-types\<close> that the connection uses.

  \<^bold>\<open>The program.\<close> A client connects to a switch, authenticates, and then shares one TCP
  stream between commands and events. A reader task cuts the byte stream into
  messages: a header block, a blank line and, when \<open>Content-Length\<close> says so, a body. Replies
  go to the one command that waits, events go into a bounded queue that the
  application reads. The stream has no correlation identifiers, so the order of replies is
  all that ties a reply to its command. A running process can hand its connection
  to a successor (re-exec) with the bytes it has read and not parsed.

  \<^bold>\<open>Theories and sources.\<close> Files under \<open>src/src/\<close> unless they begin with \<open>types\<close>, which stands for
  \<open>src/freeswitch-types/src/\<close>.
  \<^item> \<open>Prelude\<close>, \<open>Rust_Str\<close>, \<open>Utf8\<close>: the result type and its combinators, the string
    operations of the Rust library that the code uses (a string is the list of its UTF-8 bytes), decoding
    with replacement characters and the positions of decoding errors.
  \<^item> \<open>Constants\<close>: \<open>constants.rs\<close>. \<open>Esl_Error\<close>: \<open>error.rs\<close>. \<open>Event_Header\<close>, \<open>Headers\<close>: \<open>types headers.rs\<close>.
  \<^item> \<open>Externals\<close>: one record for the code of other crates (substring search, the capacity of
    a byte buffer, percent-coding, the parsed form of JSON and XML, the header table's parser), with what the
    program relies on as locales, and reference functions that satisfy them.
  \<^item> \<open>Esl_Buffer\<close>: \<open>buffer.rs\<close>. \<open>Protocol\<close>: \<open>protocol/mod.rs\<close>. \<open>Event_Format\<close>: \<open>protocol/event_format.rs\<close>
    and \<open>protocol/xml.rs\<close>.
  \<^item> \<open>Esl_Array\<close>, \<open>Esl_Headers\<close>: \<open>types variables/esl_array.rs\<close> and \<open>esl_headers.rs\<close>. \<open>Event_Type\<close>, \<open>Event\<close>,
    \<open>Subscription\<close>: \<open>types event/\<close>.
  \<^item> \<open>Command\<close>, \<open>Response\<close>: \<open>command/\<close> and \<open>app/dptools.rs\<close>. \<open>Bgjob\<close>: \<open>bgjob.rs\<close>.
  \<^item> \<open>Connection\<close>, \<open>Reader\<close>, \<open>Client\<close>, \<open>Auth\<close>: \<open>connection/\<close>, with \<open>reexec.rs\<close> in \<open>Client\<close>.
  \<^item> \<open>Switch_Text\<close>, \<open>Separate\<close>: \<open>types switch_passes/mod.rs\<close> and \<open>separate.rs\<close>, the switch's own split of a text
    into tokens and their cleanup; \<open>Separate_Tokens\<close> and \<open>Separate_In_Place\<close> hold its theory.
  \<^item> \<open>Originate_Types\<close>: \<open>types commands/originate/application.rs\<close>, \<open>error.rs\<close> and the data of \<open>variables/target.rs\<close>.
    \<open>Api_Argument\<close>: \<open>types switch_passes/api_argument.rs\<close> and its users in \<open>commands/mod.rs\<close>.
  \<^item> \<open>Brackets\<close>, \<open>Expansion\<close>, \<open>Originate_Legs\<close>: \<open>types switch_passes/brackets.rs\<close>, \<open>expansion.rs\<close>, \<open>originate_legs.rs\<close>, the
    switch's reading of a dial string: blocks of variables, escapes of the dialplan, threads, groups and legs.
    \<open>Rust_Text\<close> holds the string operations these use.
  \<^item> \<open>Dial_Target\<close>: \<open>types version.rs\<close> and \<open>commands/variables/target.rs\<close>. \<open>Variables\<close>: \<open>switch_passes/escape.rs\<close>, \<open>pipeline.rs\<close> and
    \<open>commands/variables/mod.rs\<close>. \<open>Channel_Types\<close>: \<open>types channel.rs\<close> with \<open>macros.rs\<close>. \<open>Endpoint\<close>: \<open>commands/endpoint/\<close>.
    \<open>Originate_Function\<close>, \<open>Originate\<close>: \<open>switch_passes/inline_hunt.rs\<close>, \<open>originate_function.rs\<close> and \<open>commands/originate/mod.rs\<close>.
  \<^item> \<open>Execute_On\<close>: \<open>switch_passes/execute_on.rs\<close> and \<open>commands/execute_on.rs\<close>. \<open>Bridge\<close>: \<open>commands/bridge.rs\<close>.
    \<open>Flattened\<close>: \<open>commands/flattened/mod.rs\<close>. \<open>Api_Commands\<close>: \<open>commands/channel.rs\<close> and \<open>conference.rs\<close>.
  \<^item> \<open>Sofia_Names\<close>: \<open>types sofia/\<close>, \<open>variables/loopback.rs\<close> and \<open>log_level.rs\<close>. \<open>Lookup\<close>: \<open>types lookup.rs\<close>.
  \<^item> \<open>Codec_String\<close>: \<open>types sdp/codec_string/\<close>, \<open>sdp/available.rs\<close>. \<open>Sdp_Codecs\<close>: the rest of \<open>types sdp/\<close>. \<open>Rust_Num\<close> holds the
    parsing of unsigned numbers.
  \<^item> \<open>Dial_Leg\<close>, \<open>Dial_Layers\<close>, \<open>Endpoint_Dial\<close>: theory of the passes over a dial string of one leg (how the switch
    reads it, what each layer of escapes leaves for the next pass) and the round trip of endpoints through them.
  \<^item> \<open>Framing\<close>, \<open>Event_Wire\<close>, \<open>Raw_Body\<close>, \<open>Delivery\<close>, \<open>Stream_Delivery\<close>, \<open>Correlation\<close>, \<open>Handover\<close>, \<open>Resubscribe\<close>
    hold specifications and the properties that span components.

  \<^bold>\<open>State and operations.\<close> A struct is a record, an enum a datatype, a method a function
  that takes and returns the state; a fallible method returns \<open>esl_error + 'a\<close>. Atomic counters
  and the reply counter are words of their width. What the runtime decides is an argument: the outcome of a
  read (\<open>read_outcome\<close>), how a wait for queue capacity ended (\<open>wait_end\<close>), what other tasks do
  between two critical sections of \<open>send_command\<close> (\<open>send_env\<close>). The reader task is a
  run over one such input per pass of its loop (\<open>reader_run\<close>); concurrency between senders and the
  reader is the step relation of \<open>Correlation\<close>, whose steps are the critical sections
  that the code protects with the lock of the reply slot.

  \<^bold>\<open>What is shown.\<close>
  \<^item> Framing: the parser refines a stateless specification, is indifferent to how the stream is cut into
    reads, ends, and buffers a bounded amount; the incremental search of the buffer equals the full search.
  \<^item> Round trips: framed messages, plain events, arrays, subscriptions, API bodies.
  \<^item> Headers: reads after writes and removals for the normalizing, case-insensitive store; typed accessors that are
    absent, read or refused exactly by what the header holds.
  \<^item> Commands: an accepted command is exactly one command on the wire.
  \<^item> Delivery: events are queued or counted, losses are announced in place, and the reader as a
    whole appends to the queue the events of the byte stream in order, each once.
  \<^item> Correlation: no command gets another's reply, over an inductive invariant of the interleaving; a dead
    reader never leaves a command waiting; a silent peer is detected.
  \<^item> Hand-over: the successor continues where the old process stopped.
  \<^item> Resubscription: the change of a subscription has no gap and ends at the new one.
  \<^item> Splits: the in-place split of the switch over a buffer of bytes refines a split of the text, loses
    nothing, and delivers arguments and tokens exactly as they were before they were escaped for it.
  \<^item> Dial strings: an endpoint rendered for an event socket target is read back through every pass of the switch,
    inline action lists and the arguments of a target read back as they were; checked variables hold only
    what their scope can carry; a bridge holds only groups whose legs are read apart; a list the switch
    produced is forwarded byte for byte; hook values are accepted exactly when they arrive as written; the
    wire enumerations read exactly what they print; a parser revision is vouched for in its interval only.
  \<^item> Codecs: a codec string is read back, in strict and in lenient mode; duplicate removal keeps the first entry of each
    key; an offer becomes a codec string that is read back, and in lenient mode only its size can make it fail.
  \<^item> Authentication: the secret is sent on request only.
  Some theorems state where the code falls short of its intent: a cancelled command, stale replies across
  re-exec, a queue of one slot, an event that moves from the typed to the raw list, a stored length header,
  a typed header with an underscore, a login answered without \<open>Reply-Text\<close>.

  \<^bold>\<open>Bounds.\<close> The parse loop needs no fuel: each message consumes bytes (\<open>parser_weight\<close>).
  \<open>reader_run\<close> and \<open>recv_message\<close> recurse over the list of inputs, and \<open>None\<close> means that the inputs
  ran out before the code returned. \<open>replies_correlated\<close> covers fewer than \<open>2 ^ 32\<close> steps, because the counter of stale replies
  has 32 bits. The parser is compared across divisions of the stream only when no read overflows the 16 MiB
  buffer, since that limit is checked per read. The loops over the blocks at the head of a dial string and of a leg
  (\<open>kind_blocks\<close>, \<open>leg_blocks_loop\<close>) take the length of the buffer as fuel: each block ends behind its opening bracket.

  \<^bold>\<open>Not modelled.\<close> Opening, splitting and closing sockets, timers and task scheduling (the tokio
  runtime); logging; serde beyond the checks it runs;
  the tables of variable names and the typed SIP variables of the types crate, which the connection does not call and
  whose parsers are another crate's.
\<close>

end
